(* ===== verification/Prelude.thy ===== *)
theory Prelude
  imports
    Main
    "HOL-Library.Word"
    "HOL-Library.List_Lexorder"
    "HOL-Library.Monad_Syntax"
    "HOL-Library.Sublist"
begin

text \<open>
  Shared vocabulary of the development: the machine integers and byte vectors of the Rust
  sources, checked arithmetic, panics and \<open>Result\<close>s as values, Rust's \<open>BTreeMap\<close> and
  \<open>BTreeSet\<close> as sorted lists, and the lemmas about them that every component uses.

  Conventions. A function of the sources that can panic returns an \<open>option\<close>, \<open>None\<close> being
  the panic; a function that returns Rust's \<open>Option\<close> and can panic therefore has a result of
  type \<open>'a option option\<close>, the outer layer being the panic. Rust's \<open>Result<T, E>\<close> is the sum
  \<open>'e + 'a\<close>, and a fallible function that can also panic returns \<open>('e + 'a) option\<close>.
  Arithmetic overflow is a panic (the profile of \<open>make run\<close>, see \<open>src/Makefile\<close>).
\<close>

section \<open>Machine integers and byte vectors\<close>

type_synonym u8 = "8 word"
type_synonym u32 = "32 word"
type_synonym u64 = "64 word"
type_synonym u256 = "256 word"
type_synonym bytes = "8 word list"

named_theorems panic_simps \<open>how the panic and result combinators step\<close>
named_theorems btree_simps \<open>sorted association lists as BTreeMaps\<close>

definition checked_add :: "'a::len word \<Rightarrow> 'a word \<Rightarrow> 'a word option" where
  "checked_add a b = (if unat a + unat b < 2 ^ LENGTH('a) then Some (a + b) else None)"

lemma checked_add_SomeD:
  "checked_add a b = Some c \<Longrightarrow> unat c = unat a + unat b"
  by (auto simp: checked_add_def unat_word_ariths split: if_splits)

lemma checked_add_Some:
  "checked_add (a :: 'a::len word) b = Some c \<longleftrightarrow> unat a + unat b < 2 ^ LENGTH('a) \<and> c = a + b"
  by (auto simp: checked_add_def)

lemma unat_of_nat_bounded:
  "n < 2 ^ LENGTH('a) \<Longrightarrow> unat (of_nat n :: 'a::len word) = n"
  by (simp add: unat_of_nat take_bit_nat_eq_self)

lemma of_nat_inj_bounded:
  "m < 2 ^ LENGTH('a) \<Longrightarrow> n < 2 ^ LENGTH('a) \<Longrightarrow>
   (of_nat m :: 'a::len word) = of_nat n \<Longrightarrow> m = n"
  by (metis unat_of_nat_bounded)

lemma unat_bound: "unat (w :: 'a::len word) < 2 ^ LENGTH('a)"
  by (rule unsigned_less)

lemma unat_ucast_wider:
  "LENGTH('a) \<le> LENGTH('b) \<Longrightarrow> unat (ucast (w :: 'a::len word) :: 'b::len word) = unat w"
proof -
  assume "LENGTH('a) \<le> LENGTH('b)"
  then have "(2::nat) ^ LENGTH('a) \<le> 2 ^ LENGTH('b)"
    by (simp add: power_increasing)
  with unat_bound [of w] have "unat w < 2 ^ LENGTH('b)"
    by (rule order_less_le_trans)
  then show ?thesis
    by (simp add: unsigned_ucast_eq take_bit_nat_eq_self)
qed

section \<open>Panics and results\<close>

text \<open>
  \<open>try_bind m f\<close> is \<open>let x = m?; f(x)\<close>: a panic stays a panic, an error returns early.
\<close>

definition try_bind ::
  "('e + 'a) option \<Rightarrow> ('a \<Rightarrow> ('e + 'b) option) \<Rightarrow> ('e + 'b) option" where
  "try_bind m f =
     (case m of None \<Rightarrow> None | Some (Inl e) \<Rightarrow> Some (Inl e) | Some (Inr x) \<Rightarrow> f x)"

lemma try_bind_simps [simp, panic_simps]:
  "try_bind None f = None"
  "try_bind (Some (Inl e)) f = Some (Inl e)"
  "try_bind (Some (Inr x)) f = f x"
  by (simp_all add: try_bind_def)

lemma try_bind_Inr_conv:
  "try_bind m f = Some (Inr y) \<longleftrightarrow> (\<exists>x. m = Some (Inr x) \<and> f x = Some (Inr y))"
  by (auto simp: try_bind_def split: option.splits sum.splits)

text \<open>\<open>Option::ok_or\<close>, slicing \<open>&b[n..]\<close> (which panics past the end), conversion to \<open>[u8; 32]\<close>.\<close>

definition ok_or :: "'e \<Rightarrow> 'a option \<Rightarrow> ('e + 'a) option" where
  "ok_or e r = Some (case r of None \<Rightarrow> Inl e | Some x \<Rightarrow> Inr x)"

lemma ok_or_simps [simp, panic_simps]:
  "ok_or e None = Some (Inl e)"
  "ok_or e (Some x) = Some (Inr x)"
  by (simp_all add: ok_or_def)

definition slice_from :: "nat \<Rightarrow> bytes \<Rightarrow> bytes option" where
  "slice_from n bs = (if n \<le> length bs then Some (drop n bs) else None)"

lemma slice_from_append [simp, panic_simps]: "slice_from (length a) (a @ b) = Some b"
  by (simp add: slice_from_def)

definition array32 :: "bytes \<Rightarrow> bytes option" where
  "array32 bs = (if length bs = 32 then Some bs else None)"

lemma array32_Some [simp, panic_simps]: "length bs = 32 \<Longrightarrow> array32 bs = Some bs"
  by (simp add: array32_def)

text \<open>\<open>expect\<close> and \<open>unwrap\<close> on a \<open>Result\<close>: an error panics.\<close>

fun unwrap_result :: "('e + 'a) option \<Rightarrow> 'a option" where
  "unwrap_result None = None"
| "unwrap_result (Some (Inl e)) = None"
| "unwrap_result (Some (Inr x)) = Some x"

lemma unwrap_result_Some:
  "unwrap_result m = Some x \<longleftrightarrow> m = Some (Inr x)"
  by (cases "m" rule: unwrap_result.cases) auto

section \<open>BTreeMap and BTreeSet\<close>

text \<open>
  A \<open>BTreeMap\<close> is the list of its entries in ascending key order, which is what its
  iterators yield; \<open>btree_ok\<close> is the representation invariant.
\<close>

fun btree_insert :: "'k::linorder \<Rightarrow> 'v \<Rightarrow> ('k \<times> 'v) list \<Rightarrow> ('k \<times> 'v) list" where
  "btree_insert k v [] = [(k, v)]"
| "btree_insert k v (e # m) =
     (if k < fst e then (k, v) # e # m
      else if k = fst e then (k, v) # m
      else e # btree_insert k v m)"

definition btree_ok :: "('k::linorder \<times> 'v) list \<Rightarrow> bool" where
  "btree_ok m \<longleftrightarrow> sorted_wrt (<) (map fst m)"

lemma btree_ok_Nil [simp]: "btree_ok []"
  by (simp add: btree_ok_def)

lemma btree_ok_Cons [btree_simps]:
  "btree_ok (e # m) \<longleftrightarrow> (\<forall>x \<in> fst ` set m. fst e < x) \<and> btree_ok m"
  by (auto simp: btree_ok_def)

lemma btree_insert_keys [simp, btree_simps]:
  "fst ` set (btree_insert k v m) = insert k (fst ` set m)"
  by (induction m) auto

lemma btree_insert_get [simp, btree_simps]:
  "map_of (btree_insert k v m) = (map_of m)(k \<mapsto> v)"
  by (induction m) (auto simp: fun_eq_iff)

lemma btree_insert_ok [intro]:
  "btree_ok m \<Longrightarrow> btree_ok (btree_insert k v m)"
  by (induction m) (auto simp: btree_ok_Cons)

lemma btree_ok_distinct: "btree_ok m \<Longrightarrow> distinct (map fst m)"
  by (simp add: btree_ok_def strict_sorted_iff)

lemma btree_ok_filter [intro]: "btree_ok m \<Longrightarrow> btree_ok (filter P m)"
  by (induction m) (auto simp: btree_ok_Cons)

lemma btree_mem_get:
  "btree_ok m \<Longrightarrow> (k, v) \<in> set m \<longleftrightarrow> map_of m k = Some v"
  by (simp add: btree_ok_distinct map_of_eq_Some_iff)

text \<open>Two BTreeMaps with the same lookups are the same list of entries.\<close>

lemma btree_ext:
  assumes "btree_ok m" "btree_ok n" "map_of m = map_of n"
  shows "m = n"
proof -
  have "set m = set n"
    using assms btree_mem_get by (metis subrelI subset_antisym)
  then have "map fst m = map fst n"
    using assms(1,2) by (intro sorted_distinct_set_unique)
      (auto simp: btree_ok_def strict_sorted_iff)
  moreover have "inj_on fst (set m \<union> set n)"
    using \<open>set m = set n\<close> btree_ok_distinct [OF assms(1)] by (simp add: distinct_map)
  ultimately show ?thesis by (rule map_inj_on)
qed

text \<open>\<open>BTreeSet<u64>\<close>: the ascending list of its elements.\<close>

definition btset_insert :: "'k::linorder \<Rightarrow> 'k list \<Rightarrow> 'k list" where
  "btset_insert x xs = insort_insert x xs"

definition btset_last :: "'k list \<Rightarrow> 'k option" where
  "btset_last xs = (if xs = [] then None else Some (last xs))"

lemma set_btset_insert [simp]: "set (btset_insert x xs) = insert x (set xs)"
  by (auto simp: btset_insert_def set_insort_insert)

lemma sorted_btset_insert [intro]: "sorted xs \<Longrightarrow> sorted (btset_insert x xs)"
  by (simp add: btset_insert_def sorted_insort_insert)

lemma btset_last_greatest:
  "sorted xs \<Longrightarrow> btset_last xs = Some m \<Longrightarrow> m \<in> set xs \<and> (\<forall>x \<in> set xs. x \<le> m)"
  by (cases xs rule: rev_cases) (auto simp: btset_last_def sorted_append split: if_splits)

section \<open>Prefixes and the lexicographic order of byte vectors\<close>

lemma append_less_iff [simp]:
  fixes p :: "'a::linorder list"
  shows "p @ a < p @ b \<longleftrightarrow> a < b"
  by (induction p) auto

lemma append_le_iff [simp]:
  fixes p :: "'a::linorder list"
  shows "p @ a \<le> p @ b \<longleftrightarrow> a \<le> b"
  by (induction p) auto

lemma prefix_le: "prefix p k \<Longrightarrow> p \<le> (k :: 'a::linorder list)"
proof (induction p arbitrary: k)
  case (Cons x p)
  then show ?case by (cases k) auto
qed simp

text \<open>Between two vectors with a common prefix, every vector has that prefix.\<close>

lemma prefix_between:
  fixes p :: "'a::linorder list"
  shows "p @ a \<le> k \<Longrightarrow> k \<le> p @ b \<Longrightarrow> prefix p k"
proof (induction p arbitrary: k)
  case (Cons x p)
  then obtain y k' where k: "k = y # k'" by (cases k) auto
  with Cons.prems have "x = y" by auto
  with k Cons show ?case by auto
qed simp

lemma prefix_drop: "prefix p k \<Longrightarrow> p @ drop (length p) k = k"
  by (auto simp: prefix_def)

end
