(* ===== verification/Databases.thy ===== *)
theory Databases
  imports Prelude
begin

text \<open>
  The key-value databases of \<open>src/database/src\<close>: the trait \<open>Database\<close> as a record of
  operations over a state (\<open>put\<close> takes \<open>&self\<close> and writes through a \<open>RefCell\<close>, so the
  model passes the state and returns it), the in-memory \<open>MemDB\<close>, the \<open>PrefixDB\<close> that gives
  a module its own key space inside a shared database. The locales \<open>database\<close> and
  \<open>prefix_stripping\<close> are the contracts that the IAVL node store relies on; they are interpreted on \<open>MemDB\<close> and on \<open>PrefixDB\<close> over \<open>MemDB\<close>.
\<close>

section \<open>The Database trait\<close>

record 'db database_ops =
  db_get :: "'db \<Rightarrow> bytes \<Rightarrow> bytes option"
  db_put :: "'db \<Rightarrow> bytes \<Rightarrow> bytes \<Rightarrow> 'db"
  db_iterator :: "'db \<Rightarrow> (bytes \<times> bytes) list option"
  db_prefix_iterator :: "'db \<Rightarrow> bytes \<Rightarrow> (bytes \<times> bytes) list option"

text \<open>An iterator is the list it yields; \<open>None\<close> when running it to the end panics.\<close>

section \<open>Bounds of ranges\<close>

datatype 'k bound = Included 'k | Excluded 'k | Unbounded

fun after_lower :: "'k::linorder bound \<Rightarrow> 'k \<Rightarrow> bool" where
  "after_lower (Included l) k \<longleftrightarrow> l \<le> k"
| "after_lower (Excluded l) k \<longleftrightarrow> l < k"
| "after_lower Unbounded k \<longleftrightarrow> True"

fun before_upper :: "'k::linorder bound \<Rightarrow> 'k \<Rightarrow> bool" where
  "before_upper (Included u) k \<longleftrightarrow> k \<le> u"
| "before_upper (Excluded u) k \<longleftrightarrow> k < u"
| "before_upper Unbounded k \<longleftrightarrow> True"

text \<open>\<open>RangeBounds::contains\<close>.\<close>

definition range_contains :: "'k::linorder bound \<Rightarrow> 'k bound \<Rightarrow> 'k \<Rightarrow> bool" where
  "range_contains lo hi k \<longleftrightarrow> after_lower lo k \<and> before_upper hi k"

text \<open>\<open>BTreeMap::range\<close>: panics when the start lies after the end, or on an empty open range.\<close>

fun bad_range :: "'k::linorder bound \<Rightarrow> 'k bound \<Rightarrow> bool" where
  "bad_range (Excluded l) (Excluded u) \<longleftrightarrow> u \<le> l"
| "bad_range (Excluded l) (Included u) \<longleftrightarrow> u < l"
| "bad_range (Included l) (Excluded u) \<longleftrightarrow> u < l"
| "bad_range (Included l) (Included u) \<longleftrightarrow> u < l"
| "bad_range _ _ \<longleftrightarrow> False"

definition btree_range ::
  "'k::linorder bound \<Rightarrow> 'k bound \<Rightarrow> ('k \<times> 'v) list \<Rightarrow> ('k \<times> 'v) list option" where
  "btree_range lo hi m =
     (if bad_range lo hi then None
      else Some (filter (\<lambda>e. range_contains lo hi (fst e)) m))"

section \<open>MemDB\<close>

record memdb =
  mem_store :: "(bytes \<times> bytes) list"

definition memdb_new :: memdb where
  "memdb_new = \<lparr> mem_store = [] \<rparr>"

definition memdb_get :: "memdb \<Rightarrow> bytes \<Rightarrow> bytes option" where
  "memdb_get s k = map_of (mem_store s) k"

definition memdb_put :: "memdb \<Rightarrow> bytes \<Rightarrow> bytes \<Rightarrow> memdb" where
  "memdb_put s k v = s\<lparr> mem_store := btree_insert k v (mem_store s) \<rparr>"

definition memdb_iterator :: "memdb \<Rightarrow> (bytes \<times> bytes) list option" where
  "memdb_iterator s = Some (mem_store s)"

text \<open>
  The upper bound of the keys with a given prefix: the last byte that is not 255 is
  incremented and everything after it dropped.
\<close>

function prefix_end_bound :: "bytes \<Rightarrow> bytes bound" where
  "prefix_end_bound p =
     (if p = [] then Unbounded
      else if last p \<noteq> 255 then Excluded (butlast p @ [last p + 1])
      else prefix_end_bound (butlast p))"
  by pat_completeness auto
termination
  by (relation "measure length") auto

declare prefix_end_bound.simps [simp del]

definition memdb_prefix_iterator :: "memdb \<Rightarrow> bytes \<Rightarrow> (bytes \<times> bytes) list option" where
  "memdb_prefix_iterator s p =
     btree_range (Included p) (prefix_end_bound p) (mem_store s)"

definition memdb_ops :: "memdb database_ops" where
  "memdb_ops = \<lparr> db_get = memdb_get, db_put = memdb_put,
     db_iterator = memdb_iterator, db_prefix_iterator = memdb_prefix_iterator \<rparr>"

section \<open>PrefixDB\<close>

text \<open>
  \<open>PrefixDB\<close> holds an \<open>Arc\<close> of the underlying database, which several of them share: its
  operations work on the state of that database.
\<close>

record 'db prefixdb =
  prefix_inner :: "'db database_ops"
  prefix_bytes :: bytes

definition prefixdb_new :: "'db database_ops \<Rightarrow> bytes \<Rightarrow> 'db prefixdb" where
  "prefixdb_new D p = \<lparr> prefix_inner = D, prefix_bytes = p \<rparr>"

definition prefixdb_get :: "'db prefixdb \<Rightarrow> 'db \<Rightarrow> bytes \<Rightarrow> bytes option" where
  "prefixdb_get P s k = (let key = prefix_bytes P @ k in db_get (prefix_inner P) s key)"

definition prefixdb_put :: "'db prefixdb \<Rightarrow> 'db \<Rightarrow> bytes \<Rightarrow> bytes \<Rightarrow> 'db" where
  "prefixdb_put P s k v = (let key = prefix_bytes P @ k in db_put (prefix_inner P) s key v)"

text \<open>\<open>k[n..]\<close> panics when \<open>k\<close> is shorter than \<open>n\<close>; the closure maps every entry.\<close>

fun strip_keys :: "nat \<Rightarrow> (bytes \<times> bytes) list \<Rightarrow> (bytes \<times> bytes) list option" where
  "strip_keys n [] = Some []"
| "strip_keys n ((k, v) # es) =
     (if n \<le> length k then map_option (Cons (drop n k, v)) (strip_keys n es) else None)"

definition prefixdb_iterator :: "'db prefixdb \<Rightarrow> 'db \<Rightarrow> (bytes \<times> bytes) list option" where
  "prefixdb_iterator P s =
     (let prefix_length = length (prefix_bytes P)
      in Option.bind (db_prefix_iterator (prefix_inner P) s (prefix_bytes P))
           (strip_keys prefix_length))"

definition prefixdb_prefix_iterator ::
  "'db prefixdb \<Rightarrow> 'db \<Rightarrow> bytes \<Rightarrow> (bytes \<times> bytes) list option" where
  "prefixdb_prefix_iterator P s p =
     (let full = prefix_bytes P @ p; prefix_length = length full
      in Option.bind (db_prefix_iterator (prefix_inner P) s full) (strip_keys prefix_length))"

definition prefixdb_ops :: "'db prefixdb \<Rightarrow> 'db database_ops" where
  "prefixdb_ops P = \<lparr> db_get = prefixdb_get P, db_put = prefixdb_put P,
     db_iterator = prefixdb_iterator P, db_prefix_iterator = prefixdb_prefix_iterator P \<rparr>"

section \<open>Contracts\<close>

text \<open>What the node store needs of a database: a read sees the last write.\<close>

locale database =
  fixes D :: "'db database_ops"
  assumes get_put: "db_get D (db_put D s k v) = (db_get D s)(k \<mapsto> v)"
begin

lemma get_put_same [simp]: "db_get D (db_put D s k v) k = Some v"
  by (simp add: get_put)

lemma get_put_other [simp]: "k' \<noteq> k \<Longrightarrow> db_get D (db_put D s k v) k' = db_get D s k'"
  by (simp add: get_put)

text \<open>The same holds through a \<open>PrefixDB\<close>, and stores with incomparable prefixes are isolated.\<close>

lemma prefixdb_get_put:
  "prefixdb_get (prefixdb_new D p) (prefixdb_put (prefixdb_new D p) s k v)
     = (prefixdb_get (prefixdb_new D p) s)(k \<mapsto> v)"
  by (auto simp: prefixdb_get_def prefixdb_put_def prefixdb_new_def get_put)

lemma prefixdb_isolated:
  assumes "\<not> prefix p q" "\<not> prefix q p"
  shows "prefixdb_get (prefixdb_new D q) (prefixdb_put (prefixdb_new D p) s k v)
     = prefixdb_get (prefixdb_new D q) s"
proof
  fix k'
  have "q @ k' \<noteq> p @ k"
    using assms by (metis prefixI prefix_same_cases)
  then show "prefixdb_get (prefixdb_new D q) (prefixdb_put (prefixdb_new D p) s k v) k'
     = prefixdb_get (prefixdb_new D q) s k'"
    by (simp add: prefixdb_get_def prefixdb_put_def prefixdb_new_def)
qed

end

text \<open>
  \<open>prefix_iterator\<close> has two contracts in the repository. \<open>MemDB\<close> and \<open>RocksDB\<close> yield the whole
  keys; \<open>PrefixDB\<close> strips the prefix it was called with.
\<close>

locale full_key_scan = database +
  fixes inv :: "'a \<Rightarrow> bool"
  assumes inv_put: "inv s \<Longrightarrow> inv (db_put D s k v)"
    and scan: "inv s \<Longrightarrow> \<exists>es. db_prefix_iterator D s p = Some es \<and>
      (\<forall>k v. (k, v) \<in> set es \<longleftrightarrow> prefix p k \<and> db_get D s k = Some v)"

locale prefix_stripping = database +
  fixes inv :: "'a \<Rightarrow> bool"
  assumes inv_put: "inv s \<Longrightarrow> inv (db_put D s k v)"
    and scan: "inv s \<Longrightarrow> \<exists>es. db_prefix_iterator D s p = Some es \<and>
      (\<forall>k v. (k, v) \<in> set es \<longleftrightarrow> db_get D s (p @ k) = Some v)"

lemma strip_keys_Some:
  "(\<And>k v. (k, v) \<in> set es \<Longrightarrow> n \<le> length k) \<Longrightarrow>
   strip_keys n es = Some (map (\<lambda>(k, v). (drop n k, v)) es)"
  by (induction n es rule: strip_keys.induct) fastforce+

locale prefixed_database = full_key_scan +
  fixes p :: bytes

sublocale prefixed_database \<subseteq> stripped: prefix_stripping "prefixdb_ops (prefixdb_new D p)" inv
proof
  show "db_get (prefixdb_ops (prefixdb_new D p)) (db_put (prefixdb_ops (prefixdb_new D p)) s k v)
      = (db_get (prefixdb_ops (prefixdb_new D p)) s)(k \<mapsto> v)" for s k v
    by (simp add: prefixdb_ops_def prefixdb_get_put)
  show "inv s \<Longrightarrow> inv (db_put (prefixdb_ops (prefixdb_new D p)) s k v)" for s k v
    by (simp add: prefixdb_ops_def prefixdb_put_def prefixdb_new_def inv_put)
next
  fix s q assume "inv s"
  from scan [OF this, of "p @ q"] obtain es where
    es: "db_prefix_iterator D s (p @ q) = Some es" and
    mem: "\<And>k v. (k, v) \<in> set es \<longleftrightarrow> prefix (p @ q) k \<and> db_get D s k = Some v" by blast
  have len: "length (p @ q) \<le> length k" if "(k, v) \<in> set es" for k v
    using that mem prefix_length_le by blast
  let ?out = "map (\<lambda>(k, v). (drop (length (p @ q)) k, v)) es"
  have "db_prefix_iterator (prefixdb_ops (prefixdb_new D p)) s q = Some ?out"
    using strip_keys_Some [OF len]
    by (simp add: prefixdb_ops_def prefixdb_prefix_iterator_def prefixdb_new_def es)
  moreover have "(k, v) \<in> set ?out \<longleftrightarrow> db_get (prefixdb_ops (prefixdb_new D p)) s (q @ k) = Some v"
    for k v
  proof -
    have "(k, v) \<in> set ?out \<longleftrightarrow> ((p @ q) @ k, v) \<in> set es"
    proof
      assume "(k, v) \<in> set ?out"
      then obtain k' where k': "(k', v) \<in> set es" "k = drop (length (p @ q)) k'" by auto
      with mem have "prefix (p @ q) k'" by blast
      with k' prefix_drop show "((p @ q) @ k, v) \<in> set es" by metis
    next
      assume "((p @ q) @ k, v) \<in> set es"
      then show "(k, v) \<in> set ?out"
        by (auto simp: image_iff intro!: bexI [of _ "((p @ q) @ k, v)"])
    qed
    also have "\<dots> \<longleftrightarrow> db_get D s ((p @ q) @ k) = Some v"
      by (simp add: mem)
    finally show ?thesis
      by (simp add: prefixdb_ops_def prefixdb_get_def prefixdb_new_def)
  qed
  ultimately show "\<exists>es. db_prefix_iterator (prefixdb_ops (prefixdb_new D p)) s q = Some es \<and>
      (\<forall>k v. (k, v) \<in> set es \<longleftrightarrow> db_get (prefixdb_ops (prefixdb_new D p)) s (q @ k) = Some v)"
    by blast
qed

section \<open>The prefix bound\<close>

lemma last_incr_between:
  fixes x :: u8
  assumes "x \<noteq> 255"
  shows "q @ [x] \<le> k \<and> k < q @ [x + 1] \<longleftrightarrow> prefix (q @ [x]) k"
proof -
  have x: "y < x + 1 \<longleftrightarrow> y \<le> x" for y
  proof -
    from assms have "unat x \<noteq> 255"
      by (simp add: word_unat_eq_iff)
    with unat_bound [of x] have "unat (x + 1) = unat x + 1"
      by (simp add: unat_word_ariths)
    then show ?thesis by (simp add: word_less_nat_alt word_le_nat_alt less_Suc_eq_le)
  qed
  show ?thesis
  proof
    assume k: "q @ [x] \<le> k \<and> k < q @ [x + 1]"
    then have "prefix q k"
      by (intro prefix_between [of q "[x]" k "[x + 1]"]) auto
    then obtain r where r: "k = q @ r" by (auto simp: prefix_def)
    with k have "[x] \<le> r" by simp
    then obtain y r' where "r = y # r'" by (cases r) auto
    with k r x [of y] show "prefix (q @ [x]) k" by auto
  next
    assume "prefix (q @ [x]) k"
    then obtain r where "k = q @ x # r" by (auto simp: prefix_def)
    with x [of x] show "q @ [x] \<le> k \<and> k < q @ [x + 1]" by simp
  qed
qed

lemma top_u8: "\<not> (255 :: u8) < x"
  using unat_bound [of x] by (simp add: word_less_nat_alt)

lemma prefix_end_bound_iff:
  "p \<le> k \<and> before_upper (prefix_end_bound p) k \<longleftrightarrow> prefix p k"
proof (induction p rule: prefix_end_bound.induct)
  case (1 p)
  show ?case
  proof (cases p rule: rev_cases)
    case Nil
    then show ?thesis by (simp add: prefix_end_bound.simps)
  next
    case (snoc q x)
    show ?thesis
    proof (cases "x = 255")
      case False
      with snoc show ?thesis
        by (simp add: prefix_end_bound.simps [of "q @ [x]"] last_incr_between)
    next
      case True
      with snoc 1 have IH: "q \<le> k \<and> before_upper (prefix_end_bound q) k \<longleftrightarrow> prefix q k"
        by simp
      have top: "[255] \<le> r \<longleftrightarrow> prefix [255] r" for r :: bytes
        using top_u8 by (cases r) auto
      show ?thesis
      proof
        assume l: "p \<le> k \<and> before_upper (prefix_end_bound p) k"
        with snoc True have "before_upper (prefix_end_bound q) k" and "q @ [255] \<le> k"
          by (simp_all add: prefix_end_bound.simps [of "q @ [255]"])
        moreover from this(2) have "q \<le> k"
          using prefix_le [of q "q @ [255]"] by (meson order_trans prefixI)
        ultimately have "prefix q k" using IH by blast
        then obtain r where "k = q @ r" by (auto simp: prefix_def)
        with \<open>q @ [255] \<le> k\<close> top [of r] snoc True show "prefix p k" by auto
      next
        assume "prefix p k"
        then have "p \<le> k" "prefix q k"
          using snoc by (auto intro: prefix_le dest: append_prefixD)
        with IH snoc True show "p \<le> k \<and> before_upper (prefix_end_bound p) k"
          by (simp add: prefix_end_bound.simps [of "q @ [255]"])
      qed
    qed
  qed
qed

section \<open>The implementations meet the contracts\<close>

definition memdb_ok :: "memdb \<Rightarrow> bool" where
  "memdb_ok s \<longleftrightarrow> btree_ok (mem_store s)"

lemma memdb_new_ok [simp]: "memdb_ok memdb_new"
  by (simp add: memdb_ok_def memdb_new_def)

lemma memdb_get_put: "memdb_get (memdb_put s k v) = (memdb_get s)(k \<mapsto> v)"
  by (simp add: memdb_get_def memdb_put_def fun_eq_iff)

lemma memdb_new_get [simp]: "memdb_get memdb_new k = None"
  by (simp add: memdb_get_def memdb_new_def)

lemma memdb_scan_eq:
  "memdb_prefix_iterator s p = Some (filter (\<lambda>e. prefix p (fst e)) (mem_store s))"
proof -
  have "\<not> bad_range (Included p) (prefix_end_bound p)"
    using prefix_end_bound_iff [of p p] by (cases "prefix_end_bound p") auto
  moreover have "range_contains (Included p) (prefix_end_bound p) k \<longleftrightarrow> prefix p k" for k
    using prefix_end_bound_iff [of p k] by (simp add: range_contains_def)
  ultimately show ?thesis
    by (simp add: memdb_prefix_iterator_def btree_range_def)
qed

text \<open>
  \<open>MemDB::prefix_iterator\<close> yields exactly the entries whose key starts with the prefix, in
  key order, and its call of \<open>BTreeMap::range\<close> never panics: the bound computed by
  \<open>prefix_end_bound\<close> cuts off right after the last key with the prefix.
\<close>

theorem memdb_prefix_scan:
  "memdb_prefix_iterator s p = Some (filter (\<lambda>e. prefix p (fst e)) (mem_store s))"
  by (rule memdb_scan_eq)

interpretation mem: full_key_scan memdb_ops memdb_ok
proof
  show "db_get memdb_ops (db_put memdb_ops s k v) = (db_get memdb_ops s)(k \<mapsto> v)" for s k v
    by (simp add: memdb_ops_def memdb_get_put)
  show "memdb_ok s \<Longrightarrow> memdb_ok (db_put memdb_ops s k v)" for s k v
    by (auto simp: memdb_ops_def memdb_ok_def memdb_put_def)
  show "\<exists>es. db_prefix_iterator memdb_ops s p = Some es \<and>
      (\<forall>k v. (k, v) \<in> set es \<longleftrightarrow> prefix p k \<and> db_get memdb_ops s k = Some v)"
    if "memdb_ok s" for s p
    using that by (auto simp: memdb_ops_def memdb_scan_eq memdb_ok_def memdb_get_def
        btree_mem_get)
qed

interpretation mem_prefixed: prefixed_database memdb_ops memdb_ok p for p
  by unfold_locales

lemma memdb_ops_simps [simp]:
  "db_get memdb_ops = memdb_get" "db_put memdb_ops = memdb_put"
  by (simp_all add: memdb_ops_def)

lemma prefixdb_ops_simps [simp]:
  "db_get (prefixdb_ops P) = prefixdb_get P" "db_put (prefixdb_ops P) = prefixdb_put P"
  "db_prefix_iterator (prefixdb_ops P) = prefixdb_prefix_iterator P"
  by (simp_all add: prefixdb_ops_def)

text \<open>
  Modules that share one database through \<open>PrefixDB\<close>s are isolated as long as neither
  prefix is a prefix of the other: a write of the module with prefix \<open>p\<close> is seen by that
  module and by no module with an incomparable prefix \<open>q\<close>.
\<close>

theorem prefixdb_isolation:
  assumes "\<not> prefix p q" "\<not> prefix q p"
  shows "prefixdb_get (prefixdb_new memdb_ops p) (prefixdb_put (prefixdb_new memdb_ops p) s k v)
       = (prefixdb_get (prefixdb_new memdb_ops p) s)(k \<mapsto> v) \<and>
     prefixdb_get (prefixdb_new memdb_ops q) (prefixdb_put (prefixdb_new memdb_ops p) s k v)
       = prefixdb_get (prefixdb_new memdb_ops q) s"
  using mem.prefixdb_get_put mem.prefixdb_isolated [OF assms] by blast

theorem prefixdb_isolation_witness:
  "prefixdb_get (prefixdb_new memdb_ops [98, 97])
     (prefixdb_put (prefixdb_new memdb_ops [97, 99]) memdb_new [1] [2])
   = prefixdb_get (prefixdb_new memdb_ops [98, 97]) memdb_new"
  using prefixdb_isolation [of "[97, 99]" "[98, 97]" memdb_new "[1]" "[2]"] by simp

text \<open>
  \<open>PrefixDB::prefix_iterator\<close>, unlike the two databases below it, strips the prefix it is
  called with: its entries are the keys that follow the prefix, and it never panics.
\<close>

theorem prefixdb_scan_strips:
  assumes "memdb_ok s"
  shows "\<exists>es. prefixdb_prefix_iterator (prefixdb_new memdb_ops p) s q = Some es \<and>
     (\<forall>k v. (k, v) \<in> set es \<longleftrightarrow>
        prefixdb_get (prefixdb_new memdb_ops p) s (q @ k) = Some v)"
  using mem_prefixed.stripped.scan [OF assms, of p q] by simp

theorem prefixdb_scan_strips_witness:
  "\<exists>es. prefixdb_prefix_iterator (prefixdb_new memdb_ops [97])
      (memdb_put memdb_new [97, 1, 7] [5]) [1] = Some es \<and> ([7], [5]) \<in> set es"
proof -
  have "memdb_ok (memdb_put memdb_new [97, 1, 7] [5])"
    using mem.inv_put [OF memdb_new_ok] by simp
  from prefixdb_scan_strips [OF this, of "[97]" "[1]"] show ?thesis
    by (fastforce simp: prefixdb_get_def prefixdb_new_def memdb_get_put)
qed

end
