(* ===== verification/Crates.thy ===== *)
theory Crates
  imports Prelude
begin

text \<open>
  The third-party crates that the storage layer calls and that are not part of the
  repository: \<open>sha2\<close> (\<open>Sha256::digest\<close>) and \<open>integer_encoding\<close> (\<open>VarInt\<close>). They are the
  fields of the record \<open>crates\<close>, an argument of every definition that uses them.
  \<open>varint_ok\<close> and \<open>sha256_ok\<close> name the documented behaviour the code relies on. The
  section at the end instantiates the record with concrete functions, a LEB128 codec and a
  small checksum in place of SHA-256, on which the hypotheses hold and witnesses compute.
\<close>

section \<open>The crates as a parameter\<close>

record crates =
  sha256 :: "bytes \<Rightarrow> bytes"
  enc_u8 :: "u8 \<Rightarrow> bytes"
  enc_u32 :: "u32 \<Rightarrow> bytes"
  enc_u64 :: "u64 \<Rightarrow> bytes"
  enc_usize :: "u64 \<Rightarrow> bytes"
  enc_i64 :: "u64 \<Rightarrow> bytes"
  dec_u8 :: "bytes \<Rightarrow> (u8 \<times> nat) option"
  dec_u32 :: "bytes \<Rightarrow> (u32 \<times> nat) option"
  dec_u64 :: "bytes \<Rightarrow> (u64 \<times> nat) option"
  dec_usize :: "bytes \<Rightarrow> (u64 \<times> nat) option"

text \<open>
  \<open>VarInt\<close>: \<open>decode_var\<close> reads back what \<open>encode_var_vec\<close> wrote at the front of a longer
  slice and reports its length; the unsigned encodings do not depend on the width of the
  type (a \<open>u64\<close> that fits 32 bits can be read as a \<open>u32\<close>); the signed encoding is
  self-delimiting.
\<close>

definition varint_ok :: "crates \<Rightarrow> bool" where
  "varint_ok C \<longleftrightarrow>
     (\<forall>x r. dec_u8 C (enc_u8 C x @ r) = Some (x, length (enc_u8 C x))) \<and>
     (\<forall>x r. dec_u32 C (enc_u32 C x @ r) = Some (x, length (enc_u32 C x))) \<and>
     (\<forall>x r. dec_u64 C (enc_u64 C x @ r) = Some (x, length (enc_u64 C x))) \<and>
     (\<forall>x r. dec_usize C (enc_usize C x @ r) = Some (x, length (enc_usize C x))) \<and>
     (\<forall>x r. dec_u32 C (enc_u64 C (ucast x) @ r) = Some (x, length (enc_u64 C (ucast x)))) \<and>
     (\<forall>x y r s. enc_i64 C x @ r = enc_i64 C y @ s \<longrightarrow> x = y \<and> r = s)"

definition sha256_ok :: "crates \<Rightarrow> bool" where
  "sha256_ok C \<longleftrightarrow> (\<forall>b. length (sha256 C b) = 32)"

lemma varint_okD:
  assumes "varint_ok C"
  shows "dec_u8 C (enc_u8 C a @ r) = Some (a, length (enc_u8 C a))"
    and "dec_u32 C (enc_u32 C b @ r) = Some (b, length (enc_u32 C b))"
    and "dec_u64 C (enc_u64 C c @ r) = Some (c, length (enc_u64 C c))"
    and "dec_usize C (enc_usize C d @ r) = Some (d, length (enc_usize C d))"
    and "dec_u32 C (enc_u64 C (ucast b) @ r) = Some (b, length (enc_u64 C (ucast b)))"
  using assms by (simp_all add: varint_ok_def)

lemma varint_i64D:
  "varint_ok C \<Longrightarrow> enc_i64 C x @ r = enc_i64 C y @ s \<Longrightarrow> x = y \<and> r = s"
  unfolding varint_ok_def by blast

lemma sha256_length [simp]: "sha256_ok C \<Longrightarrow> length (sha256 C b) = 32"
  by (simp add: sha256_ok_def)

text \<open>The length-prefixed encoding is self-delimiting as well.\<close>

lemma varint_usizeD:
  assumes "varint_ok C" "enc_usize C x @ r = enc_usize C y @ s"
  shows "x = y \<and> r = s"
proof -
  from varint_okD(4) [OF assms(1), of x r] varint_okD(4) [OF assms(1), of y s] assms(2)
  have "x = y" by simp
  with assms(2) show ?thesis by simp
qed

section \<open>A concrete instance\<close>

text \<open>LEB128: seven bits a byte, least significant group first, high bit for "more".\<close>

fun leb_enc :: "nat \<Rightarrow> bytes" where
  "leb_enc n =
     (if n < 128 then [of_nat n] else of_nat (n mod 128 + 128) # leb_enc (n div 128))"

declare leb_enc.simps [simp del]

fun leb_dec :: "bytes \<Rightarrow> (nat \<times> nat) option" where
  "leb_dec [] = None"
| "leb_dec (b # bs) =
     (if unat b < 128 then Some (unat b, 1)
      else (case leb_dec bs of None \<Rightarrow> None
            | Some (n, c) \<Rightarrow> Some (unat b - 128 + 128 * n, Suc c)))"

lemma leb_round_trip:
  "leb_dec (leb_enc n @ r) = Some (n, length (leb_enc n))"
proof (induction n rule: leb_enc.induct)
  case (1 n)
  show ?case
  proof (cases "n < 128")
    case True
    then show ?thesis
      by (simp add: leb_enc.simps [of n] unat_of_nat_bounded)
  next
    case False
    have b: "unat (of_nat (n mod 128 + 128) :: u8) = n mod 128 + 128"
      by (rule unat_of_nat_bounded) simp
    from 1 False have "leb_dec (leb_enc (n div 128) @ r)
        = Some (n div 128, length (leb_enc (n div 128)))" by simp
    with False b show ?thesis
      by (simp add: leb_enc.simps [of n])
  qed
qed

definition leb_dec_word :: "bytes \<Rightarrow> ('a::len word \<times> nat) option" where
  "leb_dec_word bs =
     (case leb_dec bs of None \<Rightarrow> None
      | Some (n, c) \<Rightarrow> if n < 2 ^ LENGTH('a) then Some (of_nat n, c) else None)"

lemma leb_word_round_trip:
  "leb_dec_word (leb_enc (unat (x :: 'a::len word)) @ r)
     = Some (x, length (leb_enc (unat x)))"
  by (simp add: leb_dec_word_def leb_round_trip)

definition zigzag :: "u64 \<Rightarrow> nat" where
  "zigzag x = (if unat x < 2 ^ 63 then 2 * unat x else 2 * (2 ^ 64 - 1 - unat x) + 1)"

lemma zigzag_inj: "zigzag x = zigzag y \<Longrightarrow> x = y"
proof -
  have "unat x < 2 ^ 64" "unat y < 2 ^ 64"
    using unat_bound [of x] unat_bound [of y] by simp_all
  moreover assume "zigzag x = zigzag y"
  ultimately have "unat x = unat y"
    by (auto simp: zigzag_def split: if_splits; presburger)
  then show "x = y" by (simp add: word_unat_eq_iff)
qed

text \<open>A checksum with a 32-byte result.\<close>

definition checksum :: "bytes \<Rightarrow> bytes" where
  "checksum bs =
     (let h = foldl (\<lambda>h b. h * 257 + ucast b + 1) (7 :: u64) bs
      in [ucast h, ucast (drop_bit 8 h), ucast (drop_bit 16 h), ucast (drop_bit 24 h),
          ucast (drop_bit 32 h), ucast (drop_bit 40 h), ucast (drop_bit 48 h),
          ucast (drop_bit 56 h),
          0, 0, 0, 0, 0, 0, 0, 0, 0, 0, 0, 0, 0, 0, 0, 0, 0, 0, 0, 0, 0, 0, 0, 0])"

lemma length_checksum [simp]: "length (checksum bs) = 32"
  by (simp add: checksum_def Let_def)

definition demo_crates :: crates where
  "demo_crates = \<lparr>
     sha256 = checksum,
     enc_u8 = (\<lambda>x. leb_enc (unat x)),
     enc_u32 = (\<lambda>x. leb_enc (unat x)),
     enc_u64 = (\<lambda>x. leb_enc (unat x)),
     enc_usize = (\<lambda>x. leb_enc (unat x)),
     enc_i64 = (\<lambda>x. leb_enc (zigzag x)),
     dec_u8 = leb_dec_word, dec_u32 = leb_dec_word,
     dec_u64 = leb_dec_word, dec_usize = leb_dec_word \<rparr>"

lemma demo_crates_varint: "varint_ok demo_crates"
proof -
  have "x = y \<and> r = s" if "leb_enc (zigzag x) @ r = leb_enc (zigzag y) @ s" for x y r s
  proof -
    from that leb_round_trip [of "zigzag x" r] leb_round_trip [of "zigzag y" s]
    have "x = y" by (simp add: zigzag_inj)
    with that show ?thesis by simp
  qed
  moreover have "leb_dec_word (leb_enc (unat (ucast x :: u64)) @ r)
      = Some (x, length (leb_enc (unat (ucast x :: u64))))" for x :: u32 and r
    by (simp add: leb_dec_word_def leb_round_trip unat_ucast_wider
          unat_bound [where 'a = 32, simplified])
  ultimately show ?thesis
    by (auto simp: varint_ok_def demo_crates_def leb_word_round_trip)
qed

lemma demo_crates_sha256: "sha256_ok demo_crates"
  by (simp add: sha256_ok_def demo_crates_def)

end
