(* ===== verification/Merkle.thy ===== *)
theory Merkle
  imports Crates
begin

text \<open>
  The Merkle tree over a list of byte vectors (\<open>src/trees/src/merkle.rs\<close>), with which the
  multi store commits to the root hashes of its modules. \<open>root_hash\<close> is \<open>None\<close> where the
  code panics; it never does (\<open>root_hash_total\<close>).
\<close>

definition EMPTY_HASH :: bytes where
  "EMPTY_HASH =
     [227, 176, 196, 66, 152, 252, 28, 20, 154, 251, 244, 200, 153, 111, 185, 36, 39, 174, 65,
      228, 100, 155, 147, 76, 164, 149, 153, 27, 120, 82, 184, 85]"

definition LEAF_PREFIX :: bytes where
  "LEAF_PREFIX = [0]"

definition INNER_PREFIX :: bytes where
  "INNER_PREFIX = [1]"

definition leaf_hash :: "crates \<Rightarrow> bytes \<Rightarrow> bytes" where
  "leaf_hash C leaf = sha256 C (LEAF_PREFIX @ leaf)"

definition inner_hash :: "crates \<Rightarrow> bytes \<Rightarrow> bytes \<Rightarrow> bytes" where
  "inner_hash C left right = sha256 C (INNER_PREFIX @ left @ right)"

text \<open>\<open>usize::ilog2\<close> of the standard library, for a positive argument.\<close>

fun ilog2 :: "nat \<Rightarrow> nat" where
  "ilog2 n = (if n < 2 then 0 else Suc (ilog2 (n div 2)))"

declare ilog2.simps [simp del]

definition get_split_point :: "nat \<Rightarrow> nat option" where
  "get_split_point n =
     (if n = 0 then None
      else let bit_len = ilog2 n; k = 2 ^ bit_len
           in Some (if k = n then k div 2 else k))"

lemma ilog2_bounds: "0 < n \<Longrightarrow> 2 ^ ilog2 n \<le> n \<and> n < 2 * 2 ^ ilog2 n"
proof (induction n rule: ilog2.induct)
  case (1 n)
  show ?case
  proof (cases "n < 2")
    case True
    with 1 show ?thesis by (simp add: ilog2.simps [of n])
  next
    case False
    with 1 have "2 ^ ilog2 (n div 2) \<le> n div 2 \<and> n div 2 < 2 * 2 ^ ilog2 (n div 2)" by simp
    with False show ?thesis by (simp add: ilog2.simps [of n]) linarith
  qed
qed

lemma get_split_point_Some:
  assumes "2 \<le> n" "get_split_point n = Some k"
  shows "0 < k" "k < n" "n \<le> 2 * k" "\<exists>m. k = 2 ^ m"
proof -
  have b: "2 ^ ilog2 n \<le> n" "n < 2 * 2 ^ ilog2 n"
    using ilog2_bounds [of n] assms(1) by auto
  obtain m where m: "ilog2 n = Suc m"
    using assms(1) by (simp add: ilog2.simps [of n])
  have k: "k = (if 2 ^ ilog2 n = n then 2 ^ m else 2 ^ ilog2 n)"
    using assms by (auto simp: get_split_point_def Let_def m split: if_splits)
  show "0 < k" "k < n" "n \<le> 2 * k"
    using b m by (auto simp: k)
  show "\<exists>m. k = 2 ^ m"
    unfolding k by auto
qed

lemma get_split_point_total: "0 < n \<Longrightarrow> \<exists>k. get_split_point n = Some k"
  by (simp add: get_split_point_def Let_def)

lemma get_split_point_less:
  assumes "get_split_point n = Some k" "n \<noteq> 0" "n \<noteq> Suc 0"
  shows "0 < k \<and> k < n"
  using get_split_point_Some(1,2) [OF _ assms(1)] assms(2,3) by simp

function root_hash :: "crates \<Rightarrow> bytes list \<Rightarrow> bytes option" where
  "root_hash C items =
     (if length items = 0 then Some EMPTY_HASH
      else if length items = 1 then Some (leaf_hash C (items ! 0))
      else (case get_split_point (length items) of
              None \<Rightarrow> None
            | Some k \<Rightarrow> do {
                left \<leftarrow> root_hash C (take k items);
                right \<leftarrow> root_hash C (drop k items);
                Some (inner_hash C left right) }))"
  by pat_completeness auto
termination
  by (relation "measure (\<lambda>(C, items). length items)")
    (use get_split_point_less in force)+

declare root_hash.simps [simp del]

section \<open>Functional correctness\<close>

text \<open>
  The split point of a list of at least two items is the largest power of two below its
  length, as the comment of \<open>get_split_point\<close> says.
\<close>

theorem split_point_largest_power:
  assumes "2 \<le> n"
  shows "\<exists>m. get_split_point n = Some (2 ^ m) \<and> 2 ^ m < n \<and> n \<le> 2 ^ Suc m"
proof -
  obtain k where k: "get_split_point n = Some k"
    using assms by (auto simp: get_split_point_def Let_def)
  from get_split_point_Some [OF assms this] k show ?thesis by auto
qed

theorem split_point_largest_power_witness:
  "(2::nat) \<le> 100 \<and> (\<exists>m. get_split_point 100 = Some (2 ^ m) \<and> 2 ^ m < (100::nat))"
  using split_point_largest_power [of 100] by auto

lemma root_hash_total: "\<exists>h. root_hash C items = Some h"
proof (induction C items rule: root_hash.induct)
  case (1 C items)
  show ?case
  proof (cases "length items = 0 \<or> length items = 1")
    case True
    then show ?thesis by (auto simp: root_hash.simps [of C items])
  next
    case False
    then have "length items \<noteq> 0" "length items \<noteq> 1" by blast+
    then have n: "2 \<le> length items" by linarith
    then obtain k where k: "get_split_point (length items) = Some k"
      using get_split_point_total [of "length items"] by fastforce
    with 1 n obtain l r where "root_hash C (take k items) = Some l"
      "root_hash C (drop k items) = Some r" by fastforce
    with k n show ?thesis by (simp add: root_hash.simps [of C items])
  qed
qed

lemma root_hash_length:
  assumes "sha256_ok C"
  shows "root_hash C items = Some h \<Longrightarrow> length h = 32"
  using assms
  by (auto simp: root_hash.simps [of C items] EMPTY_HASH_def leaf_hash_def inner_hash_def
      split: if_splits option.splits bind_splits)

text \<open>The inputs on which \<open>root_hash\<close> calls SHA-256, the empty input for the empty list.\<close>

function merkle_inputs :: "crates \<Rightarrow> bytes list \<Rightarrow> bytes list" where
  "merkle_inputs C items =
     (if length items = 0 then [[]]
      else if length items = 1 then [LEAF_PREFIX @ items ! 0]
      else (case get_split_point (length items) of
              None \<Rightarrow> []
            | Some k \<Rightarrow>
                (INNER_PREFIX @ the (root_hash C (take k items)) @ the (root_hash C (drop k items)))
                # merkle_inputs C (take k items) @ merkle_inputs C (drop k items)))"
  by pat_completeness auto
termination
  by (relation "measure (\<lambda>(C, items). length items)")
    (use get_split_point_less in force)+

declare merkle_inputs.simps [simp del]

text \<open>The last input hashed is a hash preimage of the root; its shape tells the list's length.\<close>

definition top_input :: "crates \<Rightarrow> bytes list \<Rightarrow> bytes" where
  "top_input C items = hd (merkle_inputs C items)"

lemma top_input_mem: "top_input C items \<in> set (merkle_inputs C items)"
proof -
  have "merkle_inputs C items \<noteq> []"
    using get_split_point_def [of "length items"]
    by (simp add: merkle_inputs.simps [of C items] Let_def split: option.splits)
  then show ?thesis by (simp add: top_input_def)
qed

lemma root_hash_top:
  assumes "sha256 C [] = EMPTY_HASH"
  shows "root_hash C items = Some (sha256 C (top_input C items))"
proof (cases "length items = 0 \<or> length items = 1")
  case True
  then show ?thesis
    by (auto simp: root_hash.simps [of C items] merkle_inputs.simps [of C items] top_input_def
        assms leaf_hash_def)
next
  case False
  then obtain k where "get_split_point (length items) = Some k"
    by (auto simp: get_split_point_def Let_def)
  moreover obtain l r where "root_hash C (take k items) = Some l"
    "root_hash C (drop k items) = Some r" using root_hash_total by blast
  ultimately show ?thesis using False
    by (simp add: root_hash.simps [of C items] merkle_inputs.simps [of C items] top_input_def
        inner_hash_def)
qed

lemma top_input_Nil: "top_input C [] = []"
  by (simp add: top_input_def merkle_inputs.simps [of C "[]"])

lemma top_input_single: "top_input C [x] = 0 # x"
  by (simp add: top_input_def merkle_inputs.simps [of C "[x]"] LEAF_PREFIX_def)

lemma top_input_split:
  assumes "2 \<le> length items" "get_split_point (length items) = Some k"
    "root_hash C (take k items) = Some l" "root_hash C (drop k items) = Some r"
  shows "top_input C items = 1 # l @ r"
    and "set (merkle_inputs C (take k items)) \<subseteq> set (merkle_inputs C items)"
    and "set (merkle_inputs C (drop k items)) \<subseteq> set (merkle_inputs C items)"
proof -
  have "length items \<noteq> 0" "length items \<noteq> 1" using assms(1) by auto
  then show "top_input C items = 1 # l @ r"
    "set (merkle_inputs C (take k items)) \<subseteq> set (merkle_inputs C items)"
    "set (merkle_inputs C (drop k items)) \<subseteq> set (merkle_inputs C items)"
    using assms(2-)
    by (auto simp: top_input_def merkle_inputs.simps [of C items] INNER_PREFIX_def)
qed

lemma merkle_binding_aux:
  assumes "sha256_ok C" "sha256 C [] = EMPTY_HASH"
    and "inj_on (sha256 C) (set (merkle_inputs C xs) \<union> set (merkle_inputs C ys))"
    and "root_hash C xs = root_hash C ys"
  shows "xs = ys"
  using assms(3,4)
proof (induction "length xs" arbitrary: xs ys rule: less_induct)
  case less
  have "sha256 C (top_input C xs) = sha256 C (top_input C ys)"
    using less.prems(2) root_hash_top [OF assms(2)] by simp
  then have top: "top_input C xs = top_input C ys"
    using less.prems(1) top_input_mem by (auto dest: inj_onD)
  have shape: "xs = [] \<or> (\<exists>x. xs = [x]) \<or> 2 \<le> length xs" for xs :: "bytes list"
    by (cases xs rule: remdups_adj.cases) auto
  have split: "\<exists>k l r. get_split_point (length zs) = Some k \<and> k < length zs \<and>
      root_hash C (take k zs) = Some l \<and> root_hash C (drop k zs) = Some r"
    if long: "2 \<le> length zs" for zs
  proof -
    have "0 < length zs" using long by linarith
    then obtain k where k: "get_split_point (length zs) = Some k"
      using get_split_point_total by blast
    with get_split_point_Some(2) [OF long k] root_hash_total show ?thesis by blast
  qed
  have long: "\<exists>bs. top_input C zs = 1 # bs" if "2 \<le> length zs" for zs
    using split [OF that] top_input_split(1) [OF that] by blast
  consider "xs = []" | x where "xs = [x]" | "2 \<le> length xs" using shape by blast
  then show ?case
  proof cases
    case 1
    with top shape [of ys] long [of ys] show ?thesis
      by (auto simp: top_input_Nil top_input_single)
  next
    case 2
    with top shape [of ys] long [of ys] show ?thesis
      by (auto simp: top_input_Nil top_input_single)
  next
    case 3
    then obtain k l r where k: "get_split_point (length xs) = Some k" "k < length xs"
      "root_hash C (take k xs) = Some l" "root_hash C (drop k xs) = Some r"
      using split by blast
    have tx: "top_input C xs = 1 # l @ r" by (rule top_input_split [OF 3 k(1,3,4)])
    then have "2 \<le> length ys"
      using top shape [of ys] by (auto simp: top_input_Nil top_input_single)
    then obtain k' l' r' where k': "get_split_point (length ys) = Some k'" "k' < length ys"
      "root_hash C (take k' ys) = Some l'" "root_hash C (drop k' ys) = Some r'"
      using split by blast
    note ty = top_input_split [OF \<open>2 \<le> length ys\<close> k'(1,3,4)]
    have "0 < k" using get_split_point_Some(1) [OF 3 k(1)] .
    have "l = l' \<and> r = r'"
      using top tx ty(1) root_hash_length [OF assms(1)] k k' by (auto simp: append_eq_append_conv)
    then have eq: "root_hash C (take k xs) = root_hash C (take k' ys)"
      "root_hash C (drop k xs) = root_hash C (drop k' ys)" using k k' by simp_all
    note tx' = top_input_split [OF 3 k(1,3,4)]
    have "take k xs = take k' ys"
      by (rule less.hyps [OF _ _ eq(1)])
        (use k \<open>0 < k\<close> tx'(2) ty(2) less.prems(1) in \<open>auto intro: inj_on_subset\<close>)
    moreover have "drop k xs = drop k' ys"
      by (rule less.hyps [OF _ _ eq(2)])
        (use k \<open>0 < k\<close> tx'(3) ty(3) less.prems(1) in \<open>auto intro: inj_on_subset\<close>)
    ultimately show ?thesis by (metis append_take_drop_id)
  qed
qed

text \<open>
  The Merkle root binds the list it was computed from: unless SHA-256 collides on one of
  the inputs hashed on the way, two lists with the same root hash are equal, whatever their
  lengths (the 0 and 1 prefixes keep leaves, inner nodes and the empty list apart).
\<close>

theorem merkle_root_binding:
  assumes "sha256_ok C" "sha256 C [] = EMPTY_HASH"
    and "inj_on (sha256 C) (set (merkle_inputs C xs) \<union> set (merkle_inputs C ys))"
  shows "(\<exists>h. root_hash C xs = Some h \<and> length h = 32) \<and>
     (root_hash C xs = root_hash C ys \<longleftrightarrow> xs = ys)"
  using root_hash_total [of C xs] root_hash_length [OF assms(1)] merkle_binding_aux [OF assms]
  by blast

definition merkle_demo :: crates where
  "merkle_demo = demo_crates\<lparr> sha256 := (\<lambda>b. if b = [] then EMPTY_HASH else checksum b) \<rparr>"

lemma merkle_demo_sha256: "sha256_ok merkle_demo"
  by (simp add: sha256_ok_def merkle_demo_def EMPTY_HASH_def)

theorem merkle_root_binding_witness:
  "root_hash merkle_demo [[1], [2]] \<noteq> root_hash merkle_demo [[1, 2]]"
proof -
  have "inj_on (sha256 merkle_demo)
    (set (merkle_inputs merkle_demo [[1], [2]]) \<union> set (merkle_inputs merkle_demo [[1, 2]]))"
    by (simp add: merkle_inputs.simps get_split_point_def ilog2.simps root_hash.simps
        merkle_demo_def inner_hash_def leaf_hash_def LEAF_PREFIX_def INNER_PREFIX_def
        checksum_def EMPTY_HASH_def Let_def)
  from merkle_root_binding [OF merkle_demo_sha256 _ this] show ?thesis
    by (simp add: merkle_demo_def)
qed

end
