(* ===== verification/Iavl_Node.thy ===== *)
theory Iavl_Node
  imports Crates
begin

text \<open>
  The nodes of the IAVL tree (\<open>src/trees/src/iavl/tree.rs\<close>, first half): leaves and inner
  nodes, the two serializations (the one that is hashed, for compatibility with Cosmos, and
  the one that is stored), deserialization and the node hash. An inner node holds each child
  either in memory (\<open>Some\<close>) or only by its hash (\<open>None\<close>, the child is in the database). The
  code's \<open>Arc\<close>s are never shared while a tree is modified, so children are values.
\<close>

section \<open>Errors and nodes\<close>

datatype trees_error = RotateError | VersionNotFound | NodeDeserialize | Overwrite

record leaf_node =
  leaf_key :: bytes
  leaf_value :: bytes
  leaf_version :: u64

datatype node = Leaf leaf_node | Inner inner_node
  and inner_node = InnerNode
    (left_node: "node option") (right_node: "node option")
    (inner_key: bytes) (inner_height: u8) (inner_size: u32)
    (left_hash: bytes) (right_hash: bytes) (inner_version: u64)

fun get_key :: "node \<Rightarrow> bytes" where
  "get_key (Leaf leaf) = leaf_key leaf"
| "get_key (Inner inner) = inner_key inner"

fun get_height :: "node \<Rightarrow> u8" where
  "get_height (Leaf leaf) = 0"
| "get_height (Inner inner) = inner_height inner"

fun get_size :: "node \<Rightarrow> u32" where
  "get_size (Leaf leaf) = 1"
| "get_size (Inner n) = inner_size n"

definition new_leaf :: "bytes \<Rightarrow> bytes \<Rightarrow> u64 \<Rightarrow> node" where
  "new_leaf key val ver =
     Leaf \<lparr> leaf_key = key, leaf_value = val, leaf_version = ver \<rparr>"

section \<open>Serialization and hashing\<close>

definition encode_bytes :: "crates \<Rightarrow> bytes \<Rightarrow> bytes" where
  "encode_bytes C bz = enc_usize C (of_nat (length bz)) @ bz"

definition decode_bytes :: "crates \<Rightarrow> bytes \<Rightarrow> (trees_error + bytes \<times> nat) option" where
  "decode_bytes C bz =
     try_bind (ok_or NodeDeserialize (dec_usize C bz)) (\<lambda>(bz_length, n_consumed).
       if n_consumed + unat bz_length \<le> length bz
       then Some (Inr (take (unat bz_length) (drop n_consumed bz), n_consumed + unat bz_length))
       else None)"

fun hash_serialize :: "crates \<Rightarrow> node \<Rightarrow> bytes" where
  "hash_serialize C (Leaf node) =
     (let height = (0 :: u64); sz = (1 :: u64);
          ver = (ucast (ucast (leaf_version node) :: u32) :: u64);
          hashed_value = sha256 C (leaf_value node)
      in enc_i64 C height @ enc_i64 C sz @ enc_i64 C ver
         @ encode_bytes C (leaf_key node) @ encode_bytes C hashed_value)"
| "hash_serialize C (Inner node) =
     (let height = (ucast (inner_height node) :: u64);
          sz = (ucast (inner_size node) :: u64);
          ver = (ucast (ucast (inner_version node) :: u32) :: u64)
      in enc_i64 C height @ enc_i64 C sz @ enc_i64 C ver
         @ encode_bytes C (left_hash node) @ encode_bytes C (right_hash node))"

definition node_hash :: "crates \<Rightarrow> node \<Rightarrow> bytes" where
  "node_hash C node = sha256 C (hash_serialize C node)"

fun serialize :: "crates \<Rightarrow> node \<Rightarrow> bytes" where
  "serialize C (Leaf node) =
     (let height = (0 :: u8); sz = (1 :: u32)
      in enc_u8 C height @ enc_u32 C sz @ enc_u64 C (leaf_version node)
         @ encode_bytes C (leaf_key node) @ encode_bytes C (leaf_value node))"
| "serialize C (Inner node) =
     enc_u8 C (inner_height node) @ enc_u32 C (inner_size node)
       @ enc_u64 C (inner_version node) @ encode_bytes C (inner_key node)
       @ encode_bytes C (left_hash node) @ encode_bytes C (right_hash node)"

text \<open>The version is written as a \<open>u64\<close> and read back as a \<open>u32\<close>, as in the code.\<close>

definition deserialize :: "crates \<Rightarrow> bytes \<Rightarrow> (trees_error + node) option" where
  "deserialize C bs =
     try_bind (ok_or NodeDeserialize (dec_u8 C bs)) (\<lambda>(height, n).
     Option.bind (slice_from n bs) (\<lambda>b.
     try_bind (ok_or NodeDeserialize (dec_u32 C b)) (\<lambda>(sz, ns).
     Option.bind (slice_from (n + ns) bs) (\<lambda>b.
     try_bind (ok_or NodeDeserialize (dec_u32 C b)) (\<lambda>(ver, nv).
     Option.bind (slice_from (n + ns + nv) bs) (\<lambda>b.
     try_bind (decode_bytes C b) (\<lambda>(key, nk).
     Option.bind (slice_from (n + ns + nv + nk) bs) (\<lambda>b.
       if height = 0 then
         try_bind (decode_bytes C b) (\<lambda>(val, _).
           Some (Inr (Leaf \<lparr> leaf_key = key, leaf_value = val, leaf_version = ucast ver \<rparr>)))
       else
         try_bind (decode_bytes C b) (\<lambda>(left, nl).
         Option.bind (slice_from (n + ns + nv + nk + nl) bs) (\<lambda>b.
         try_bind (decode_bytes C b) (\<lambda>(right, _).
         try_bind (ok_or NodeDeserialize (array32 left)) (\<lambda>left.
         try_bind (ok_or NodeDeserialize (array32 right)) (\<lambda>right.
           Some (Inr (Inner
             (InnerNode None None key height sz left right (ucast ver)))))))))))))))))"

section \<open>Round trip\<close>

text \<open>What is stored of a node: its children are dropped, their hashes stay.\<close>

fun stored_form :: "node \<Rightarrow> node" where
  "stored_form (Leaf l) = Leaf l"
| "stored_form (Inner n) =
     Inner (InnerNode None None (inner_key n) (inner_height n) (inner_size n)
       (left_hash n) (right_hash n) (inner_version n))"

lemma serialize_stored_form [simp]:
  "serialize C (stored_form n) = serialize C n"
  "hash_serialize C (stored_form n) = hash_serialize C n"
  "node_hash C (stored_form n) = node_hash C n"
  by (cases n; simp add: node_hash_def)+

text \<open>
  A storable node: lengths that fit a \<open>usize\<close>, a version below \<open>2^32\<close>, and for an inner node
  a positive height and 32-byte child hashes.
\<close>

fun storable :: "node \<Rightarrow> bool" where
  "storable (Leaf l) \<longleftrightarrow>
     length (leaf_key l) < 2 ^ 64 \<and> length (leaf_value l) < 2 ^ 64 \<and> unat (leaf_version l) < 2 ^ 32"
| "storable (Inner n) \<longleftrightarrow>
     length (inner_key n) < 2 ^ 64 \<and> unat (inner_version n) < 2 ^ 32 \<and> inner_height n \<noteq> 0 \<and>
     length (left_hash n) = 32 \<and> length (right_hash n) = 32"

lemma decode_encode_bytes:
  assumes "varint_ok C" "length bz < 2 ^ 64"
  shows "decode_bytes C (encode_bytes C bz @ r)
     = Some (Inr (bz, length (encode_bytes C bz)))"
  using varint_okD(4) [OF assms(1), of "of_nat (length bz)" "bz @ r"]
    unat_of_nat_bounded [where 'a = 64, of "length bz"] assms(2)
  by (simp add: decode_bytes_def encode_bytes_def)

lemma ucast_u32_u64:
  assumes "unat (v :: u64) < 2 ^ 32"
  shows "ucast (ucast v :: u32) = v"
proof -
  have "unat (ucast v :: u32) = unat v"
    using assms by (simp add: unsigned_ucast_eq take_bit_nat_eq_self)
  then show ?thesis
    by (simp add: word_unat_eq_iff unat_ucast_wider)
qed

lemma decode_version:
  assumes "varint_ok C" "unat v < 2 ^ 32"
  shows "dec_u32 C (enc_u64 C v @ r) = Some (ucast v, length (enc_u64 C v))"
  using varint_okD(5) [OF assms(1), of "ucast v"] ucast_u32_u64 [OF assms(2)] by simp

lemma slice_from_skip: "slice_from (length a + m) (a @ b) = slice_from m b"
  by (simp add: slice_from_def)

lemma deserialize_serialize_append:
  assumes "varint_ok C" "storable n"
  shows "deserialize C (serialize C n @ r) = Some (Inr (stored_form n))"
proof (cases n)
  case (Leaf l)
  with assms(2) show ?thesis
    by (cases l)
      (simp add: deserialize_def varint_okD [OF assms(1)] decode_version [OF assms(1)]
        decode_encode_bytes [OF assms(1)] slice_from_skip add.assoc ucast_u32_u64)
next
  case (Inner i)
  with assms(2) show ?thesis
    by (cases i)
      (simp add: deserialize_def varint_okD [OF assms(1)] decode_version [OF assms(1)]
        decode_encode_bytes [OF assms(1)] slice_from_skip add.assoc ucast_u32_u64)
qed

text \<open>
  A stored node is read back: \<open>deserialize\<close> of what \<open>serialize\<close> wrote is the node with its
  in-memory children dropped, with no error and no panic, for every node with a version below
  \<open>2^32\<close> (versions are written as 64 bits and read as 32) and, if inner, a positive height.
\<close>

theorem deserialize_serialize:
  assumes "varint_ok C" "storable n"
  shows "deserialize C (serialize C n) = Some (Inr (stored_form n))"
  using deserialize_serialize_append [OF assms, of "[]"] by simp

theorem deserialize_serialize_witness:
  "deserialize demo_crates (serialize demo_crates
       (Inner (InnerNode (Some (new_leaf [18] [3] 7)) None [19] 3 4
         (replicate 32 9) (replicate 32 5) 7)))
   = Some (Inr (Inner (InnerNode None None [19] 3 4 (replicate 32 9) (replicate 32 5) 7)))"
  using deserialize_serialize [OF demo_crates_varint,
      of "Inner (InnerNode (Some (new_leaf [18] [3] 7)) None [19] 3 4
         (replicate 32 9) (replicate 32 5) 7)"]
  by simp

end
