(* ===== verification/Node_DB.thy ===== *)
theory Node_DB
  imports Databases Merkle Iavl_Node
begin

text \<open>
  The node store of an IAVL tree (\<open>src/trees/src/iavl/node_db.rs\<close>) over any database \<open>D\<close>:
  nodes under their hash (prefix 2), root hashes under their version (prefix 1). The state
  \<open>s\<close> is the state of the underlying database.
\<close>

section \<open>Keys\<close>

definition ROOTS_PREFIX :: bytes where
  "ROOTS_PREFIX = [1]"

definition NODES_PREFIX :: bytes where
  "NODES_PREFIX = [2]"

definition get_root_key :: "crates \<Rightarrow> u64 \<Rightarrow> bytes" where
  "get_root_key C ver = ROOTS_PREFIX @ enc_u64 C ver"

definition get_node_key :: "bytes \<Rightarrow> bytes" where
  "get_node_key hash = NODES_PREFIX @ hash"

lemma node_key_neq [simp]:
  "get_node_key h \<noteq> get_root_key C v" "get_root_key C v \<noteq> get_node_key h"
  by (simp_all add: get_node_key_def get_root_key_def NODES_PREFIX_def ROOTS_PREFIX_def)

lemma get_node_key_inj [simp]: "get_node_key h = get_node_key h' \<longleftrightarrow> h = h'"
  by (simp add: get_node_key_def)

lemma get_root_key_inj [simp]:
  "varint_ok C \<Longrightarrow> get_root_key C v = get_root_key C w \<longleftrightarrow> v = w"
proof -
  assume "varint_ok C"
  then have "v = w" if "enc_u64 C v = enc_u64 C w"
    using varint_okD(3) [of C v "[]"] varint_okD(3) [of C w "[]"] that by simp
  then show ?thesis by (auto simp: get_root_key_def)
qed

section \<open>Reading\<close>

text \<open>Every key of the scan is decoded with \<open>expect\<close>; the set is the sorted list.\<close>

fun decode_versions :: "crates \<Rightarrow> (bytes \<times> bytes) list \<Rightarrow> u64 list option" where
  "decode_versions C [] = Some []"
| "decode_versions C ((k, _) # es) =
     (case dec_u64 C k of None \<Rightarrow> None
      | Some (v, _) \<Rightarrow> map_option (btset_insert v) (decode_versions C es))"

definition get_versions :: "crates \<Rightarrow> 'db database_ops \<Rightarrow> 'db \<Rightarrow> u64 list option" where
  "get_versions C D s =
     Option.bind (db_prefix_iterator D s ROOTS_PREFIX) (decode_versions C)"

definition get_root_hash ::
  "crates \<Rightarrow> 'db database_ops \<Rightarrow> 'db \<Rightarrow> u64 \<Rightarrow> (trees_error + bytes) option" where
  "get_root_hash C D s ver =
     (case db_get D s (get_root_key C ver) of
        None \<Rightarrow> Some (Inl VersionNotFound)
      | Some hash \<Rightarrow> map_option Inr (array32 hash))"

definition get_node ::
  "crates \<Rightarrow> 'db database_ops \<Rightarrow> 'db \<Rightarrow> bytes \<Rightarrow> node option option" where
  "get_node C D s hash =
     (case db_get D s (get_node_key hash) of
        None \<Rightarrow> Some None
      | Some node_bytes \<Rightarrow> map_option Some (unwrap_result (deserialize C node_bytes)))"

definition get_root_node ::
  "crates \<Rightarrow> 'db database_ops \<Rightarrow> 'db \<Rightarrow> u64 \<Rightarrow> (trees_error + node option) option" where
  "get_root_node C D s ver =
     try_bind (get_root_hash C D s ver) (\<lambda>root_hash.
       if root_hash = EMPTY_HASH then Some (Inr None)
       else (case get_node C D s root_hash of
               Some (Some node) \<Rightarrow> Some (Inr (Some node))
             | _ \<Rightarrow> None))"

section \<open>Writing\<close>

definition save_node :: "crates \<Rightarrow> 'db database_ops \<Rightarrow> 'db \<Rightarrow> node \<Rightarrow> bytes \<Rightarrow> 'db" where
  "save_node C D s node hash = db_put D s (get_node_key hash) (serialize C node)"

fun recursive_tree_save ::
  "crates \<Rightarrow> 'db database_ops \<Rightarrow> 'db \<Rightarrow> node \<Rightarrow> bytes \<Rightarrow> 'db" where
  "recursive_tree_save C D s (Inner (InnerNode l r k h z lh rh v)) hash =
     (let s = (case l of Some ln \<Rightarrow> recursive_tree_save C D s ln lh | None \<Rightarrow> s);
          s = (case r of Some rn \<Rightarrow> recursive_tree_save C D s rn rh | None \<Rightarrow> s)
      in save_node C D s (Inner (InnerNode l r k h z lh rh v)) hash)"
| "recursive_tree_save C D s (Leaf leaf) hash = save_node C D s (Leaf leaf) hash"

text \<open>\<open>left_node = None; right_node = None\<close> on an inner node.\<close>

fun clear_children :: "node \<Rightarrow> node" where
  "clear_children (Inner (InnerNode l r k h z lh rh v)) =
     Inner (InnerNode None None k h z lh rh v)"
| "clear_children (Leaf leaf) = Leaf leaf"

lemma clear_children_stored_form: "clear_children n = stored_form n"
  by (cases n rule: clear_children.cases) auto

definition save_tree ::
  "crates \<Rightarrow> 'db database_ops \<Rightarrow> 'db \<Rightarrow> node \<Rightarrow> bytes \<times> node \<times> 'db" where
  "save_tree C D s root =
     (let root_hash = node_hash C root;
          s = recursive_tree_save C D s root root_hash
      in (root_hash, clear_children root, s))"

definition node_db_save_version ::
  "crates \<Rightarrow> 'db database_ops \<Rightarrow> 'db \<Rightarrow> u64 \<Rightarrow> bytes \<Rightarrow> 'db" where
  "node_db_save_version C D s ver hash = db_put D s (get_root_key C ver) hash"

end
