(* ===== verification/Iavl_Tree.thy ===== *)
theory Iavl_Tree
  imports Node_DB
begin

text \<open>
  The IAVL tree (\<open>src/trees/src/iavl/tree.rs\<close>): lookup, insertion with its rotations, version
  saving and loading, transcribed statement by statement. The functions that follow child
  pointers through the database are \<open>partial_function\<close>s: \<open>None\<close> is a panic or a run that does
  not return; \<open>Iavl_Model\<close> shows when they return and what.
\<close>

section \<open>Child access\<close>

fun with_left_node :: "node option \<Rightarrow> inner_node \<Rightarrow> inner_node" where
  "with_left_node x (InnerNode l r k h z lh rh v) = InnerNode x r k h z lh rh v"

fun with_right_node :: "node option \<Rightarrow> inner_node \<Rightarrow> inner_node" where
  "with_right_node x (InnerNode l r k h z lh rh v) = InnerNode l x k h z lh rh v"

fun with_left_hash :: "bytes \<Rightarrow> inner_node \<Rightarrow> inner_node" where
  "with_left_hash x (InnerNode l r k h z lh rh v) = InnerNode l r k h z x rh v"

fun with_right_hash :: "bytes \<Rightarrow> inner_node \<Rightarrow> inner_node" where
  "with_right_hash x (InnerNode l r k h z lh rh v) = InnerNode l r k h z lh x v"

fun with_dims :: "u8 \<Rightarrow> u32 \<Rightarrow> u64 \<Rightarrow> inner_node \<Rightarrow> inner_node" where
  "with_dims h' z' v' (InnerNode l r k h z lh rh v) = InnerNode l r k h' z' lh rh v'"

definition expect_node :: "node option option \<Rightarrow> node option" where
  "expect_node r = (case r of Some (Some node) \<Rightarrow> Some node | _ \<Rightarrow> None)"

definition get_left_node ::
  "crates \<Rightarrow> 'db database_ops \<Rightarrow> 'db \<Rightarrow> inner_node \<Rightarrow> node option" where
  "get_left_node C D s n =
     (case left_node n of
        Some node \<Rightarrow> Some node
      | None \<Rightarrow> expect_node (get_node C D s (left_hash n)))"

definition get_right_node ::
  "crates \<Rightarrow> 'db database_ops \<Rightarrow> 'db \<Rightarrow> inner_node \<Rightarrow> node option" where
  "get_right_node C D s n =
     (case right_node n of
        Some node \<Rightarrow> Some node
      | None \<Rightarrow> expect_node (get_node C D s (right_hash n)))"

text \<open>The \<open>mut\<close> accessors load a missing child into the node first; both are returned.\<close>

definition get_mut_left_node ::
  "crates \<Rightarrow> 'db database_ops \<Rightarrow> 'db \<Rightarrow> inner_node \<Rightarrow> (node \<times> inner_node) option" where
  "get_mut_left_node C D s n =
     (case left_node n of
        Some node \<Rightarrow> Some (node, n)
      | None \<Rightarrow> do {
          node \<leftarrow> expect_node (get_node C D s (left_hash n));
          Some (node, with_left_node (Some node) n) })"

definition get_mut_right_node ::
  "crates \<Rightarrow> 'db database_ops \<Rightarrow> 'db \<Rightarrow> inner_node \<Rightarrow> (node \<times> inner_node) option" where
  "get_mut_right_node C D s n =
     (case right_node n of
        Some node \<Rightarrow> Some (node, n)
      | None \<Rightarrow> do {
          node \<leftarrow> expect_node (get_node C D s (right_hash n));
          Some (node, with_right_node (Some node) n) })"

text \<open>The difference of two \<open>u8\<close> heights, computed in \<open>i16\<close>, cannot overflow.\<close>

definition get_balance_factor ::
  "crates \<Rightarrow> 'db database_ops \<Rightarrow> 'db \<Rightarrow> inner_node \<Rightarrow> int option" where
  "get_balance_factor C D s n = do {
     left \<leftarrow> get_left_node C D s n;
     right \<leftarrow> get_right_node C D s n;
     Some (int (unat (get_height left)) - int (unat (get_height right))) }"

text \<open>\<open>1 + max\<close> of the children's heights, and the sum of their sizes.\<close>

definition child_dims ::
  "crates \<Rightarrow> 'db database_ops \<Rightarrow> 'db \<Rightarrow> inner_node \<Rightarrow> (u8 \<times> u32) option" where
  "child_dims C D s n = do {
     left \<leftarrow> get_left_node C D s n;
     right \<leftarrow> get_right_node C D s n;
     h \<leftarrow> checked_add 1 (max (get_height left) (get_height right));
     z \<leftarrow> checked_add (get_size left) (get_size right);
     Some (h, z) }"

section \<open>Lookup\<close>

partial_function (option) recursive_get ::
  "crates \<Rightarrow> 'db database_ops \<Rightarrow> 'db \<Rightarrow> node \<Rightarrow> bytes \<Rightarrow> bytes option option" where
  "recursive_get C D s n key =
     (case n of
        Leaf leaf \<Rightarrow> Some (if leaf_key leaf = key then Some (leaf_value leaf) else None)
      | Inner node \<Rightarrow>
          if key < inner_key node then
            Option.bind (get_left_node C D s node) (\<lambda>l. recursive_get C D s l key)
          else
            Option.bind (get_right_node C D s node) (\<lambda>r. recursive_get C D s r key))"

section \<open>Rotations\<close>

text \<open>
  In both rotations the height and size of \<open>z\<close> are computed after its child pointer was
  replaced but before its child hash is: a child pointer that is \<open>None\<close> is then looked up
  under the hash of the node that was just taken away.
\<close>

definition right_rotate ::
  "crates \<Rightarrow> 'db database_ops \<Rightarrow> 'db \<Rightarrow> node \<Rightarrow> u64 \<Rightarrow> (trees_error + node) option" where
  "right_rotate C D s node ver =
     (case node of
        Leaf _ \<Rightarrow> Some (Inl RotateError)
      | Inner z \<Rightarrow> do {
          (y, z) \<leftarrow> get_mut_left_node C D s z;
          (case y of
             Leaf _ \<Rightarrow> Some (Inl RotateError)
           | Inner y \<Rightarrow> do {
               let t3 = right_node y;
               let z = with_left_node t3 z;
               (h, sz) \<leftarrow> child_dims C D s z;
               let z = with_left_hash (right_hash y) (with_dims h sz ver z);
               let z = Inner z;
               let y = with_right_node (Some z) (with_right_hash (node_hash C z) y);
               (h, sz) \<leftarrow> child_dims C D s y;
               Some (Inr (Inner (with_dims h sz ver y))) }) })"

definition left_rotate ::
  "crates \<Rightarrow> 'db database_ops \<Rightarrow> 'db \<Rightarrow> node \<Rightarrow> u64 \<Rightarrow> (trees_error + node) option" where
  "left_rotate C D s node ver =
     (case node of
        Leaf _ \<Rightarrow> Some (Inl RotateError)
      | Inner z \<Rightarrow> do {
          (y, z) \<leftarrow> get_mut_right_node C D s z;
          (case y of
             Leaf _ \<Rightarrow> Some (Inl RotateError)
           | Inner y \<Rightarrow> do {
               let t2 = left_node y;
               let z = with_right_node t2 z;
               (h, sz) \<leftarrow> child_dims C D s z;
               let z = with_right_hash (left_hash y) (with_dims h sz ver z);
               let z = Inner z;
               let y = with_left_node (Some z) (with_left_hash (node_hash C z) y);
               (h, sz) \<leftarrow> child_dims C D s y;
               Some (Inr (Inner (with_dims h sz ver y))) }) })"

section \<open>Insertion\<close>

fun set_leaf :: "crates \<Rightarrow> leaf_node \<Rightarrow> bytes \<Rightarrow> bytes \<Rightarrow> u64 \<Rightarrow> node" where
  "set_leaf C leaf key val ver =
     (if key < leaf_key leaf then
        (let left = new_leaf key val ver;
             lh = node_hash C left;
             right = Leaf leaf;
             rh = node_hash C right
         in Inner (InnerNode (Some left) (Some right) (leaf_key leaf) 1 2 lh rh ver))
      else if key = leaf_key leaf then
        Leaf (leaf\<lparr> leaf_value := val, leaf_version := ver \<rparr>)
      else
        (let right = new_leaf key val ver;
             rh = node_hash C right;
             left_subtree = Leaf leaf;
             lh = node_hash C left_subtree
         in Inner (InnerNode (Some left_subtree) (Some right) key 1 2 lh rh ver)))"

text \<open>The four cases for an unbalanced node, after the insertion below it.\<close>

definition rebalance ::
  "crates \<Rightarrow> 'db database_ops \<Rightarrow> 'db \<Rightarrow> inner_node \<Rightarrow> bytes \<Rightarrow> u64 \<Rightarrow> node option" where
  "rebalance C D s root key ver = do {
     balance_factor \<leftarrow> get_balance_factor C D s root;
     if balance_factor > 1 then do {
       (left, root) \<leftarrow> get_mut_left_node C D s root;
       if key < get_key left then
         unwrap_result (right_rotate C D s (Inner root) ver)
       else do {
         node \<leftarrow> unwrap_result (left_rotate C D s (Inner root) ver);
         unwrap_result (right_rotate C D s node ver) } }
     else if balance_factor < -1 then do {
       (right, root) \<leftarrow> get_mut_right_node C D s root;
       if get_key right < key then
         unwrap_result (left_rotate C D s (Inner root) ver)
       else do {
         right \<leftarrow> unwrap_result (right_rotate C D s right ver);
         unwrap_result
           (left_rotate C D s (Inner (with_right_node (Some right) root)) ver) } }
     else Some (Inner root) }"

partial_function (option) recursive_set ::
  "crates \<Rightarrow> 'db database_ops \<Rightarrow> 'db \<Rightarrow> node \<Rightarrow> bytes \<Rightarrow> bytes \<Rightarrow> u64 \<Rightarrow> node option" where
  "recursive_set C D s n key val ver =
     (case n of
        Leaf leaf \<Rightarrow> Some (set_leaf C leaf key val ver)
      | Inner root \<Rightarrow>
          Option.bind
            (if key < inner_key root then
               Option.bind (get_mut_left_node C D s root) (\<lambda>p.
               Option.bind (recursive_set C D s (fst p) key val ver) (\<lambda>l.
                 Some (with_left_hash (node_hash C l) (with_left_node (Some l) (snd p)))))
             else
               Option.bind (get_mut_right_node C D s root) (\<lambda>p.
               Option.bind (recursive_set C D s (fst p) key val ver) (\<lambda>r.
                 Some (with_right_hash (node_hash C r) (with_right_node (Some r) (snd p))))))
            (\<lambda>root.
               Option.bind (child_dims C D s root) (\<lambda>d.
                 rebalance C D s (with_dims (fst d) (snd d) ver root) key ver)))"

section \<open>The tree\<close>

record tree =
  tree_root :: "node option"
  tree_loaded_version :: u64
  tree_versions :: "u64 list"

definition tree_new ::
  "crates \<Rightarrow> 'db database_ops \<Rightarrow> 'db \<Rightarrow> u64 option \<Rightarrow> (trees_error + tree) option" where
  "tree_new C D s target_version = do {
     versions \<leftarrow> get_versions C D s;
     (case target_version of
        Some target_version \<Rightarrow>
          try_bind (get_root_node C D s target_version) (\<lambda>root.
            Some (Inr \<lparr> tree_root = root, tree_loaded_version = target_version,
              tree_versions = versions \<rparr>))
      | None \<Rightarrow>
          (case btset_last versions of
             Some latest_version \<Rightarrow> do {
               root \<leftarrow> unwrap_result (get_root_node C D s latest_version);
               Some (Inr \<lparr> tree_root = root, tree_loaded_version = latest_version,
                 tree_versions = versions \<rparr>) }
           | None \<Rightarrow>
               Some (Inr \<lparr> tree_root = None, tree_loaded_version = 0,
                 tree_versions = versions \<rparr>))) }"

definition tree_update :: "tree \<Rightarrow> node option \<Rightarrow> u64 \<Rightarrow> tree" where
  "tree_update t node updated_version =
     t\<lparr> tree_root := node, tree_loaded_version := updated_version,
        tree_versions := btset_insert updated_version (tree_versions t) \<rparr>"

definition tree_root_hash :: "crates \<Rightarrow> tree \<Rightarrow> bytes" where
  "tree_root_hash C t =
     (case tree_root t of Some root \<Rightarrow> node_hash C root | None \<Rightarrow> EMPTY_HASH)"

definition tree_root_node ::
  "crates \<Rightarrow> 'db database_ops \<Rightarrow> 'db \<Rightarrow> u64 \<Rightarrow> node option option" where
  "tree_root_node C D s ver =
     map_option (\<lambda>r. case r of Inl _ \<Rightarrow> None | Inr node \<Rightarrow> node) (get_root_node C D s ver)"

definition tree_save_version ::
  "crates \<Rightarrow> 'db database_ops \<Rightarrow> 'db \<Rightarrow> tree \<Rightarrow>
     (trees_error + (bytes \<times> u64) \<times> tree \<times> 'db) option" where
  "tree_save_version C D s t = do {
     version \<leftarrow> checked_add (tree_loaded_version t) 1;
     if version \<in> set (tree_versions t) then do {
       saved_hash \<leftarrow> unwrap_result (get_root_hash C D s version);
       let working_hash = tree_root_hash C t;
       if saved_hash = working_hash then
         Some (Inr ((saved_hash, version),
           t\<lparr> tree_loaded_version := version,
              tree_root := map_option clear_children (tree_root t) \<rparr>, s))
       else Some (Inl Overwrite) }
     else
       (case tree_root t of
          Some root \<Rightarrow>
            (let (root_hash, root', s') = save_tree C D s root;
                 s'' = node_db_save_version C D s' version root_hash
             in Some (Inr ((root_hash, version),
                  t\<lparr> tree_root := Some root', tree_loaded_version := version,
                     tree_versions := btset_insert version (tree_versions t) \<rparr>, s'')))
        | None \<Rightarrow>
            (let s' = node_db_save_version C D s version EMPTY_HASH
             in Some (Inr ((EMPTY_HASH, version),
                  t\<lparr> tree_loaded_version := version,
                     tree_versions := btset_insert version (tree_versions t) \<rparr>, s')))) }"

definition tree_get ::
  "crates \<Rightarrow> 'db database_ops \<Rightarrow> 'db \<Rightarrow> tree \<Rightarrow> bytes \<Rightarrow> bytes option option" where
  "tree_get C D s t key =
     (case tree_root t of Some root \<Rightarrow> recursive_get C D s root key | None \<Rightarrow> Some None)"

definition tree_set ::
  "crates \<Rightarrow> 'db database_ops \<Rightarrow> 'db \<Rightarrow> tree \<Rightarrow> bytes \<Rightarrow> bytes \<Rightarrow> tree option" where
  "tree_set C D s t key val = do {
     ver \<leftarrow> checked_add (tree_loaded_version t) 1;
     (case tree_root t of
        Some root \<Rightarrow> do {
          root' \<leftarrow> recursive_set C D s root key val ver;
          Some (t\<lparr> tree_root := Some root' \<rparr>) }
      | None \<Rightarrow> Some (t\<lparr> tree_root := Some (new_leaf key val ver) \<rparr>)) }"

end
