(* ===== verification/Iavl_Model.thy ===== *)
theory Iavl_Model
  imports Iavl_Tree
begin

text \<open>
  An abstract view of the IAVL tree: \<open>atree\<close> is the tree of keys, values and versions, with a
  flag at each child that says whether the child is in memory or only in the database.
  \<open>conc\<close> gives the node of the code that an abstract tree stands for, with heights, sizes and
  hashes filled in; \<open>backed\<close> says that the database holds what is not in memory. The lemmas
  show that lookup, insertion and the rotations of \<open>Iavl_Tree\<close> compute on \<open>conc\<close> what the
  abstract functions compute, and that these update a sorted map.
\<close>

section \<open>Abstract trees\<close>

datatype atree = ALf bytes bytes u64 | ANd bool atree bytes u64 atree bool

fun ht :: "atree \<Rightarrow> nat" where
  "ht (ALf k v w) = 0"
| "ht (ANd fl l k w r fr) = 1 + max (ht l) (ht r)"

fun sz :: "atree \<Rightarrow> nat" where
  "sz (ALf k v w) = 1"
| "sz (ANd fl l k w r fr) = sz l + sz r"

fun akey :: "atree \<Rightarrow> bytes" where
  "akey (ALf k v w) = k"
| "akey (ANd fl l k w r fr) = k"

fun entries :: "atree \<Rightarrow> (bytes \<times> bytes) list" where
  "entries (ALf k v w) = [(k, v)]"
| "entries (ANd fl l k w r fr) = entries l @ entries r"

abbreviation keys :: "atree \<Rightarrow> bytes set" where
  "keys t \<equiv> fst ` set (entries t)"

text \<open>Search tree order: left keys below the separator, right keys at or above it.\<close>

fun bst :: "atree \<Rightarrow> bool" where
  "bst (ALf k v w) \<longleftrightarrow> True"
| "bst (ANd fl l k w r fr) \<longleftrightarrow>
     (\<forall>x \<in> keys l. x < k) \<and> (\<forall>x \<in> keys r. k \<le> x) \<and> bst l \<and> bst r"

definition fits :: "atree \<Rightarrow> bool" where
  "fits t \<longleftrightarrow> ht t < 256 \<and> sz t < 2 ^ 32"

text \<open>All children in memory; all children only in the database.\<close>

fun hot :: "atree \<Rightarrow> bool" where
  "hot (ALf k v w) \<longleftrightarrow> True"
| "hot (ANd fl l k w r fr) \<longleftrightarrow> fl \<and> fr \<and> hot l \<and> hot r"

fun cold :: "atree \<Rightarrow> atree" where
  "cold (ALf k v w) = ALf k v w"
| "cold (ANd fl l k w r fr) = ANd False (cold l) k w (cold r) False"

fun conc :: "crates \<Rightarrow> atree \<Rightarrow> node" where
  "conc C (ALf k v w) = new_leaf k v w"
| "conc C (ANd fl l k w r fr) =
     Inner (InnerNode (if fl then Some (conc C l) else None) (if fr then Some (conc C r) else None)
       k (of_nat (1 + max (ht l) (ht r))) (of_nat (sz l + sz r))
       (node_hash C (conc C l)) (node_hash C (conc C r)) w)"

abbreviation ahash :: "crates \<Rightarrow> atree \<Rightarrow> bytes" where
  "ahash C t \<equiv> node_hash C (conc C t)"

fun stored :: "crates \<Rightarrow> 'db database_ops \<Rightarrow> 'db \<Rightarrow> atree \<Rightarrow> bool" where
  "stored C D s (ALf k v w) \<longleftrightarrow>
     get_node C D s (ahash C (ALf k v w)) = Some (Some (conc C (ALf k v w)))"
| "stored C D s (ANd fl l k w r fr) \<longleftrightarrow>
     get_node C D s (ahash C (ANd fl l k w r fr))
       = Some (Some (conc C (cold (ANd fl l k w r fr)))) \<and>
     stored C D s l \<and> stored C D s r"

fun backed :: "crates \<Rightarrow> 'db database_ops \<Rightarrow> 'db \<Rightarrow> atree \<Rightarrow> bool" where
  "backed C D s (ALf k v w) \<longleftrightarrow> True"
| "backed C D s (ANd fl l k w r fr) \<longleftrightarrow>
     (if fl then backed C D s l else cold l = l \<and> stored C D s l) \<and>
     (if fr then backed C D s r else cold r = r \<and> stored C D s r)"

subsection \<open>Basic facts\<close>

lemma cold_same [simp]:
  "ht (cold t) = ht t" "sz (cold t) = sz t" "entries (cold t) = entries t"
  "cold (cold t) = cold t" "akey (cold t) = akey t" "bst (cold t) = bst t"
  "fits (cold t) = fits t"
  by (induction t) (auto simp: fits_def)

lemma ahash_cold [simp]: "ahash C (cold t) = ahash C t"
  by (induction t) (simp_all add: node_hash_def)

lemma conc_cold: "conc C (cold t) = stored_form (conc C t)"
  by (cases t) (simp_all add: new_leaf_def)

lemma sz_pos [simp]: "0 < sz t"
  by (induction t) auto

lemma sz_entries: "sz t = length (entries t)"
  by (induction t) auto

lemma entries_nonempty [simp]: "entries t \<noteq> []"
  by (induction t) auto

lemma get_key_conc [simp]: "get_key (conc C t) = akey t"
  by (cases t) (simp_all add: new_leaf_def)

lemma get_height_conc: "get_height (conc C t) = of_nat (ht t)"
  by (cases t) (simp_all add: new_leaf_def)

lemma get_size_conc: "get_size (conc C t) = of_nat (sz t)"
  by (cases t) (simp_all add: new_leaf_def)

lemma fits_ANd [simp]:
  "fits (ANd fl l k w r fr) \<longleftrightarrow> 1 + max (ht l) (ht r) < 256 \<and> sz l + sz r < 2 ^ 32"
  by (simp add: fits_def)

lemma fits_children:
  "fits (ANd fl l k w r fr) \<Longrightarrow> fits l \<and> fits r"
  by (auto simp: fits_def)

lemma fits_unat:
  assumes "fits t"
  shows "unat (get_height (conc C t)) = ht t" "unat (get_size (conc C t)) = sz t"
  using assms unat_of_nat_bounded [where 'a = 8, of "ht t"]
    unat_of_nat_bounded [where 'a = 32, of "sz t"]
  by (simp_all add: fits_def get_height_conc get_size_conc)

lemma stored_get:
  "stored C D s t \<Longrightarrow> get_node C D s (ahash C t) = Some (Some (conc C (cold t)))"
  by (cases t) simp_all

lemma stored_cold [simp]: "stored C D s (cold t) = stored C D s t"
proof (induction t)
  case (ANd fl l k w r fr)
  then show ?case using ahash_cold [of C "ANd fl l k w r fr"] by simp
qed simp

lemma stored_backed: "stored C D s t \<Longrightarrow> backed C D s (cold t)"
  by (cases t) auto

text \<open>Either accessor gives the left (right) subtree of a backed node; \<open>mut\<close> sets its flag.\<close>

lemma child_access:
  assumes "backed C D s (ANd fl l k w r fr)" "conc C (ANd fl l k w r fr) = Inner n"
  shows "get_left_node C D s n = Some (conc C l)"
    and "get_right_node C D s n = Some (conc C r)"
    and "\<exists>m. get_mut_left_node C D s n = Some (conc C l, m) \<and>
           conc C (ANd True l k w r fr) = Inner m"
    and "\<exists>m. get_mut_right_node C D s n = Some (conc C r, m) \<and>
           conc C (ANd fl l k w r True) = Inner m"
    and "backed C D s l" "backed C D s r"
proof -
  have l: "\<not> fl \<Longrightarrow> get_node C D s (ahash C l) = Some (Some (conc C l)) \<and> backed C D s l"
    using assms(1) stored_get [of C D s l] stored_backed [of C D s l] by simp
  have r: "\<not> fr \<Longrightarrow> get_node C D s (ahash C r) = Some (Some (conc C r)) \<and> backed C D s r"
    using assms(1) stored_get [of C D s r] stored_backed [of C D s r] by simp
  show "get_left_node C D s n = Some (conc C l)" "get_right_node C D s n = Some (conc C r)"
    "\<exists>m. get_mut_left_node C D s n = Some (conc C l, m) \<and>
       conc C (ANd True l k w r fr) = Inner m"
    "\<exists>m. get_mut_right_node C D s n = Some (conc C r, m) \<and>
       conc C (ANd fl l k w r True) = Inner m"
    using assms(2) l r
    by (auto simp: get_left_node_def get_right_node_def get_mut_left_node_def
        get_mut_right_node_def expect_node_def split: if_splits)
  show "backed C D s l" "backed C D s r" using assms(1) l r by (auto split: if_splits)
qed

section \<open>Lookup\<close>

lemma map_of_entries_split:
  assumes "bst (ANd fl l k w r fr)"
  shows "map_of (entries (ANd fl l k w r fr)) key
     = (if key < k then map_of (entries l) key else map_of (entries r) key)"
proof -
  have "map_of (entries r) key = None" if "key < k"
    using assms that by (force simp: map_of_eq_None_iff)
  moreover have "map_of (entries l) key = None" if "\<not> key < k"
    using assms that by (force simp: map_of_eq_None_iff)
  ultimately show ?thesis
    by (auto simp: map_add_def split: option.splits)
qed

lemma recursive_get_conc:
  assumes "backed C D s t" "bst t"
  shows "recursive_get C D s (conc C t) key = Some (map_of (entries t) key)"
  using assms
proof (induction t)
  case (ALf k v w)
  then show ?case by (simp add: recursive_get.simps new_leaf_def)
next
  case (ANd fl l k w r fr)
  obtain n where n: "conc C (ANd fl l k w r fr) = Inner n" "inner_key n = k" by simp
  note acc = child_access [OF ANd.prems(1) n(1)]
  have "bst l" "bst r" using ANd.prems(2) by simp_all
  with ANd.IH acc(5,6) have
    "recursive_get C D s (conc C l) key = Some (map_of (entries l) key)"
    "recursive_get C D s (conc C r) key = Some (map_of (entries r) key)" by blast+
  then show ?case
    unfolding n(1) map_of_entries_split [OF ANd.prems(2)]
    by (subst recursive_get.simps) (simp add: n(2) acc(1,2))
qed

lemma bst_sorted: "bst t \<Longrightarrow> btree_ok (entries t)"
proof (induction t)
  case (ANd fl l k w r fr)
  then show ?case
    by (force simp: btree_ok_def sorted_wrt_append intro: order_less_le_trans)
qed (simp add: btree_ok_def)

section \<open>Insertion\<close>

text \<open>A node of the given children, if its height and size fit a \<open>u8\<close> and a \<open>u32\<close>.\<close>

definition mk :: "bool \<Rightarrow> atree \<Rightarrow> bytes \<Rightarrow> u64 \<Rightarrow> atree \<Rightarrow> bool \<Rightarrow> atree option" where
  "mk fl l k w r fr =
     (if fits (ANd fl l k w r fr) then Some (ANd fl l k w r fr) else None)"

text \<open>
  Rotations around a child whose inner subtree is in memory; a rotation of a leaf, or one that
  would have to read the moved subtree from the database, is \<open>None\<close>.
\<close>

fun aright_rot :: "atree \<Rightarrow> u64 \<Rightarrow> atree option" where
  "aright_rot (ANd fl (ANd fl' l' k' w' r' fr') k w r fr) ver =
     (if fr' then Option.bind (mk True r' k ver r fr) (\<lambda>z. mk fl' l' k' ver z True)
      else None)"
| "aright_rot t ver = None"

fun aleft_rot :: "atree \<Rightarrow> u64 \<Rightarrow> atree option" where
  "aleft_rot (ANd fl l k w (ANd fl' l' k' w' r' fr') fr) ver =
     (if fl' then Option.bind (mk fl l k ver l' True) (\<lambda>z. mk True z k' ver r' fr')
      else None)"
| "aleft_rot t ver = None"

definition arebalance ::
  "bool \<Rightarrow> atree \<Rightarrow> bytes \<Rightarrow> u64 \<Rightarrow> atree \<Rightarrow> bool \<Rightarrow> bytes \<Rightarrow> atree option" where
  "arebalance fl l k ver r fr key =
     (if ht l > ht r + 1 then
        (if key < akey l then aright_rot (ANd True l k ver r fr) ver
         else Option.bind (aleft_rot (ANd True l k ver r fr) ver) (\<lambda>n. aright_rot n ver))
      else if ht r > ht l + 1 then
        (if akey r < key then aleft_rot (ANd fl l k ver r True) ver
         else Option.bind (aright_rot r ver) (\<lambda>r'. aleft_rot (ANd fl l k ver r' True) ver))
      else Some (ANd fl l k ver r fr))"

fun ains :: "atree \<Rightarrow> bytes \<Rightarrow> bytes \<Rightarrow> u64 \<Rightarrow> atree option" where
  "ains (ALf k v w) key val ver =
     Some (if key < k then ANd True (ALf key val ver) k ver (ALf k v w) True
           else if key = k then ALf k val ver
           else ANd True (ALf k v w) key ver (ALf key val ver) True)"
| "ains (ANd fl l k w r fr) key val ver =
     (if key < k then
        Option.bind (ains l key val ver) (\<lambda>l'.
        Option.bind (mk True l' k ver r fr) (\<lambda>t.
          arebalance True l' k ver r fr key))
      else
        Option.bind (ains r key val ver) (\<lambda>r'.
        Option.bind (mk fl l k ver r' True) (\<lambda>t.
          arebalance fl l k ver r' True key)))"

subsection \<open>Content\<close>

lemma btree_insert_left:
  "(\<forall>x \<in> fst ` set b. k < x) \<Longrightarrow> btree_insert k v (a @ b) = btree_insert k v a @ b"
proof (induction a)
  case Nil
  then show ?case by (cases b) auto
qed auto

lemma btree_insert_right:
  "(\<forall>x \<in> fst ` set a. x < k) \<Longrightarrow> btree_insert k v (a @ b) = a @ btree_insert k v b"
  by (induction a) auto

lemma keys_nonempty: obtains x where "x \<in> keys t"
  using entries_nonempty [of t] by (cases "entries t") auto

lemma separators_ordered:
  assumes "bst (ANd fl (ANd fl' l' k' w' r' fr') k w r fr)"
  shows "k' < k"
proof -
  obtain x where "x \<in> keys r'" by (rule keys_nonempty)
  with assms have "k' \<le> x" "x < k" by auto
  then show ?thesis by simp
qed

lemma separators_ordered_right:
  assumes "bst (ANd fl l k w (ANd fl' l' k' w' r' fr') fr)"
  shows "k < k'"
proof -
  obtain x where "x \<in> keys l'" by (rule keys_nonempty)
  with assms have "k \<le> x" "x < k'" by auto
  then show ?thesis by simp
qed

lemma rot_bst:
  "bst (ANd fl (ANd fl' l' k' w' r' fr') k w r fr) \<Longrightarrow>
     bst (ANd f1 l' k' w1 (ANd f2 r' k w2 r f3) f4)"
  using separators_ordered [of fl fl' l' k' w' r' fr' k w r fr]
  by (fastforce dest: order_less_le_trans)

lemma rot_bst_left:
  "bst (ANd fl l k w (ANd fl' l' k' w' r' fr') fr) \<Longrightarrow>
     bst (ANd f1 (ANd f2 l k w1 l' f3) k' w2 r' f4)"
  using separators_ordered_right [of fl l k w fl' l' k' w' r' fr' fr]
  by (fastforce dest: order_less_trans)

lemma mk_Some [simp]:
  "mk fl l k w r fr = Some t \<longleftrightarrow> t = ANd fl l k w r fr \<and> fits t"
  by (auto simp: mk_def)

lemma aright_rot_SomeE:
  assumes "aright_rot t ver = Some t'"
  obtains fl fl' l' k' w' r' k w r fr where
    "t = ANd fl (ANd fl' l' k' w' r' True) k w r fr"
    "t' = ANd fl' l' k' ver (ANd True r' k ver r fr) True"
    "fits (ANd True r' k ver r fr)" "fits t'"
proof (cases "(t, ver)" rule: aright_rot.cases)
  case (1 fl fl' l' k' w' r' fr' k w r fr ver)
  with assms that show ?thesis by (auto simp: bind_eq_Some_conv split: if_splits)
qed (use assms in auto)

lemma aleft_rot_SomeE:
  assumes "aleft_rot t ver = Some t'"
  obtains fl l k w fl' l' k' w' r' fr' fr where
    "t = ANd fl l k w (ANd True l' k' w' r' fr') fr"
    "t' = ANd True (ANd fl l k ver l' True) k' ver r' fr'"
    "fits (ANd fl l k ver l' True)" "fits t'"
proof (cases "(t, ver)" rule: aleft_rot.cases)
  case (1 fl l k w fl' l' k' w' r' fr' fr ver)
  with assms that show ?thesis by (auto simp: bind_eq_Some_conv split: if_splits)
qed (use assms in auto)

lemma aright_rot_content:
  assumes "aright_rot t ver = Some t'"
  shows "entries t' = entries t" "bst t \<Longrightarrow> bst t'" "fits t'"
  using assms rot_bst by (auto elim!: aright_rot_SomeE simp del: bst.simps)

lemma aleft_rot_content:
  assumes "aleft_rot t ver = Some t'"
  shows "entries t' = entries t" "bst t \<Longrightarrow> bst t'" "fits t'"
  using assms rot_bst_left by (auto elim!: aleft_rot_SomeE simp del: bst.simps)

lemma arebalance_cases [consumes 1, case_names right left_right left right_left same]:
  assumes "arebalance fl l k ver r fr key = Some t'"
  obtains
    "ht r + 1 < ht l" "key < akey l" "aright_rot (ANd True l k ver r fr) ver = Some t'"
  | n where "ht r + 1 < ht l" "\<not> key < akey l"
      "aleft_rot (ANd True l k ver r fr) ver = Some n" "aright_rot n ver = Some t'"
  | "ht l + 1 < ht r" "akey r < key" "aleft_rot (ANd fl l k ver r True) ver = Some t'"
  | r' where "ht l + 1 < ht r" "\<not> akey r < key" "aright_rot r ver = Some r'"
      "aleft_rot (ANd fl l k ver r' True) ver = Some t'"
  | "ht l \<le> ht r + 1" "ht r \<le> ht l + 1" "t' = ANd fl l k ver r fr"
proof (cases "ht r + 1 < ht l \<or> ht l + 1 < ht r")
  case True
  then show ?thesis
    using assms that(1-4) unfolding arebalance_def
    by (cases "key < akey l"; cases "akey r < key")
      (auto simp: bind_eq_Some_conv split: if_splits)
next
  case False
  then show ?thesis using assms that(5) unfolding arebalance_def by auto
qed

lemma arebalance_content:
  assumes "arebalance fl l k ver r fr key = Some t'" "fits (ANd fl l k ver r fr)"
  shows "entries t' = entries l @ entries r"
    and "bst (ANd fl l k ver r fr) \<Longrightarrow> bst t'"
    and "fits t'"
proof -
  have "entries t' = entries l @ entries r \<and> fits t' \<and>
      (bst (ANd fl l k ver r fr) \<longrightarrow> bst t')"
    using assms(1)
  proof (cases rule: arebalance_cases)
    case right
    from aright_rot_content [OF right(3)] show ?thesis by simp
  next
    case (left_right n)
    from aleft_rot_content [OF left_right(3)] aright_rot_content [OF left_right(4)]
    show ?thesis by simp
  next
    case left
    from aleft_rot_content [OF left(3)] show ?thesis by simp
  next
    case (right_left r')
    from aright_rot_content [OF right_left(3)] aleft_rot_content [OF right_left(4)]
    show ?thesis by simp
  next
    case same
    with assms(2) show ?thesis by simp
  qed
  then show "entries t' = entries l @ entries r" "fits t'"
    "bst (ANd fl l k ver r fr) \<Longrightarrow> bst t'" by blast+
qed

theorem ains_content:
  assumes "ains t key val ver = Some t'" "bst t"
  shows "entries t' = btree_insert key val (entries t) \<and> bst t'"
  using assms
proof (induction t arbitrary: t')
  case (ALf k v w)
  then show ?case by (auto split: if_splits)
next
  case (ANd fl l k w r fr)
  show ?case
  proof (cases "key < k")
    case True
    with ANd.prems(1) obtain l' where l': "ains l key val ver = Some l'"
      and f: "fits (ANd True l' k ver r fr)"
      and b: "arebalance True l' k ver r fr key = Some t'"
      by (auto simp: bind_eq_Some_conv)
    from ANd.IH(1) [OF l'] ANd.prems(2)
    have IH: "entries l' = btree_insert key val (entries l)" "bst l'" by simp_all
    have "bst (ANd True l' k ver r fr)" using IH True ANd.prems(2) by (auto simp: IH(1))
    moreover have "\<forall>x \<in> keys r. key < x" using True ANd.prems(2) by auto
    ultimately show ?thesis
      using arebalance_content [OF b f] IH(1) by (simp add: btree_insert_left)
  next
    case False
    with ANd.prems(1) obtain r' where r': "ains r key val ver = Some r'"
      and f: "fits (ANd fl l k ver r' True)"
      and b: "arebalance fl l k ver r' True key = Some t'"
      by (auto simp: bind_eq_Some_conv)
    from ANd.IH(2) [OF r'] ANd.prems(2)
    have IH: "entries r' = btree_insert key val (entries r)" "bst r'" by simp_all
    have "bst (ANd fl l k ver r' True)" using IH False ANd.prems(2) by (auto simp: IH(1))
    moreover have "\<forall>x \<in> keys l. x < key" using False ANd.prems(2) by auto
    ultimately show ?thesis
      using arebalance_content [OF b f] IH(1) by (simp add: btree_insert_right)
  qed
qed

lemma ains_fits: "ains t key val ver = Some t' \<Longrightarrow> fits t \<Longrightarrow> fits t'"
proof (cases t)
  case (ANd fl l k w r fr)
  assume "ains t key val ver = Some t'" "fits t"
  with ANd arebalance_content(3) show ?thesis
    by (auto simp: bind_eq_Some_conv simp del: fits_ANd split: if_splits)
qed (auto split: if_splits simp: fits_def)

subsection \<open>Refinement\<close>

lemma child_dims_conc:
  assumes "get_left_node C D s n = Some (conc C l)" "get_right_node C D s n = Some (conc C r)"
    and "fits l" "fits r"
  shows "child_dims C D s n =
     (if fits (ANd fl l k w r fr)
      then Some (of_nat (1 + max (ht l) (ht r)), of_nat (sz l + sz r)) else None)"
proof -
  have "unat (max (get_height (conc C l)) (get_height (conc C r))) = max (ht l) (ht r)"
    using fits_unat [OF assms(3)] fits_unat [OF assms(4)]
    by (simp add: max_def word_le_nat_alt)
  moreover have "max (get_height (conc C l)) (get_height (conc C r)) = of_nat (max (ht l) (ht r))"
    using arg_cong [OF calculation, of "of_nat :: nat \<Rightarrow> u8"] by simp
  ultimately show ?thesis
    using fits_unat(2) [OF assms(3), of C] fits_unat(2) [OF assms(4), of C]
    by (simp add: child_dims_def assms(1,2) checked_add_def get_size_conc)
qed

lemma checked_right_child:
  assumes "if fr then backed C D s r else cold r = r \<and> stored C D s r"
    and "right_node n = (if fr then Some (conc C r) else None)" "right_hash n = ahash C r"
  shows "get_right_node C D s n = Some (conc C r)"
  using assms stored_get [of C D s r]
  by (auto simp: get_right_node_def expect_node_def split: if_splits)

lemma checked_left_child:
  assumes "if fl then backed C D s l else cold l = l \<and> stored C D s l"
    and "left_node n = (if fl then Some (conc C l) else None)" "left_hash n = ahash C l"
  shows "get_left_node C D s n = Some (conc C l)"
  using assms stored_get [of C D s l]
  by (auto simp: get_left_node_def expect_node_def split: if_splits)

text \<open>The children of a node, kept in memory or not, in the form the code stores them.\<close>

abbreviation slot :: "crates \<Rightarrow> bool \<Rightarrow> atree \<Rightarrow> node option" where
  "slot C f t \<equiv> if f then Some (conc C t) else None"

abbreviation held :: "crates \<Rightarrow> 'db database_ops \<Rightarrow> 'db \<Rightarrow> bool \<Rightarrow> atree \<Rightarrow> bool" where
  "held C D s f t \<equiv> if f then backed C D s t else cold t = t \<and> stored C D s t"

lemma node_dims_conc:
  assumes "held C D s fl l" "held C D s fr r" "fits l" "fits r"
  shows "child_dims C D s (InnerNode (slot C fl l) (slot C fr r) k' h z (ahash C l) (ahash C r) v)
     = (if fits (ANd fl l k w r fr)
        then Some (of_nat (1 + max (ht l) (ht r)), of_nat (sz l + sz r)) else None)"
  using checked_left_child [OF assms(1)] checked_right_child [OF assms(2)] assms(3,4)
  by (intro child_dims_conc) simp_all

text \<open>
  The same when a hash is not yet that of the child: a child in memory is not looked up.
\<close>

lemma node_dims_conc_left:
  assumes "held C D s fr r" "backed C D s l" "fits l" "fits r"
  shows "child_dims C D s (InnerNode (Some (conc C l)) (slot C fr r) k' h z hl (ahash C r) v)
     = (if fits (ANd True l k w r fr)
        then Some (of_nat (1 + max (ht l) (ht r)), of_nat (sz l + sz r)) else None)"
  using checked_right_child [OF assms(1)] assms(3,4)
  by (intro child_dims_conc) (simp_all add: get_left_node_def)

lemma node_dims_conc_right:
  assumes "held C D s fl l" "backed C D s r" "fits l" "fits r"
  shows "child_dims C D s (InnerNode (slot C fl l) (Some (conc C r)) k' h z (ahash C l) hr v)
     = (if fits (ANd fl l k w r True)
        then Some (of_nat (1 + max (ht l) (ht r)), of_nat (sz l + sz r)) else None)"
  using checked_left_child [OF assms(1)] assms(3,4)
  by (intro child_dims_conc) (simp_all add: get_right_node_def)

lemma held_child:
  "held C D s f t \<Longrightarrow> backed C D s t"
  using stored_backed [of C D s t] by (auto split: if_splits)

lemma conc_ANd:
  "conc C (ANd fl l k w r fr) = Inner (InnerNode (slot C fl l) (slot C fr r) k
     (of_nat (1 + max (ht l) (ht r))) (of_nat (sz l + sz r)) (ahash C l) (ahash C r) w)"
  by simp

lemma mut_left_conc:
  assumes "held C D s fl l"
  shows "get_mut_left_node C D s (InnerNode (slot C fl l) rn k h z (ahash C l) rh w)
     = Some (conc C l, InnerNode (Some (conc C l)) rn k h z (ahash C l) rh w)"
  using assms stored_get [of C D s l]
  by (auto simp: get_mut_left_node_def expect_node_def split: if_splits)

lemma mut_right_conc:
  assumes "held C D s fr r"
  shows "get_mut_right_node C D s (InnerNode ln (slot C fr r) k h z lh (ahash C r) w)
     = Some (conc C r, InnerNode ln (Some (conc C r)) k h z lh (ahash C r) w)"
  using assms stored_get [of C D s r]
  by (auto simp: get_mut_right_node_def expect_node_def split: if_splits)

text \<open>One rotation, with the moved subtree in memory.\<close>

lemma right_rotate_eval:
  assumes "get_mut_left_node C D s z = Some (Inner (InnerNode ly (Some t3) ky hy zy lhy rhy vy),
      InnerNode lz rz kz hz zz lhz rhz vz)"
  shows "right_rotate C D s (Inner z) ver = do {
     (h, n) \<leftarrow> child_dims C D s (InnerNode (Some t3) rz kz hz zz lhz rhz vz);
     let z' = Inner (InnerNode (Some t3) rz kz h n rhy rhz ver);
     (h', n') \<leftarrow> child_dims C D s (InnerNode ly (Some z') ky hy zy lhy (node_hash C z') vy);
     Some (Inr (Inner (InnerNode ly (Some z') ky h' n' lhy (node_hash C z') ver))) }"
  by (simp add: right_rotate_def assms Let_def split_def)

lemma left_rotate_eval:
  assumes "get_mut_right_node C D s z = Some (Inner (InnerNode (Some t2) ry ky hy zy lhy rhy vy),
      InnerNode lz rz kz hz zz lhz rhz vz)"
  shows "left_rotate C D s (Inner z) ver = do {
     (h, n) \<leftarrow> child_dims C D s (InnerNode lz (Some t2) kz hz zz lhz rhz vz);
     let z' = Inner (InnerNode lz (Some t2) kz h n lhz lhy ver);
     (h', n') \<leftarrow> child_dims C D s (InnerNode (Some z') ry ky hy zy (node_hash C z') rhy vy);
     Some (Inr (Inner (InnerNode (Some z') ry ky h' n' (node_hash C z') rhy ver))) }"
  by (simp add: left_rotate_def assms Let_def split_def)

fun kids_fit :: "atree \<Rightarrow> bool" where
  "kids_fit (ALf k v w) \<longleftrightarrow> True"
| "kids_fit (ANd fl l k w r fr) \<longleftrightarrow> fits l \<and> fits r"

lemma fits_kids: "fits t \<Longrightarrow> kids_fit t"
  by (cases t) (auto simp: fits_def)

lemma right_rotate_conc:
  assumes t: "t = ANd fl (ANd fl' l' k' w' r' True) k w r fr"
    and b: "backed C D s t" and f: "kids_fit t"
  shows "unwrap_result (right_rotate C D s (conc C t) ver) = map_option (conc C) (aright_rot t ver)"
proof -
  let ?y = "ANd fl' l' k' w' r' True" and ?z = "ANd True r' k ver r fr"
  have h: "held C D s fl ?y" "held C D s fr r" using b unfolding t backed.simps by blast+
  from held_child [OF h(1)] have h': "held C D s fl' l'" "backed C D s r'"
    unfolding backed.simps by auto
  have fc: "fits r" "fits r'" "fits l'" using f by (auto simp: t fits_def)
  have bz: "backed C D s ?z" using h(2) h'(2) unfolding backed.simps by auto
  have y: "conc C ?y = Inner (InnerNode (slot C fl' l') (Some (conc C r')) k'
     (of_nat (1 + max (ht l') (ht r'))) (of_nat (sz l' + sz r')) (ahash C l') (ahash C r') w')"
    by simp
  have z: "conc C ?z = Inner (InnerNode (Some (conc C r')) (slot C fr r) k
     (of_nat (1 + max (ht r') (ht r))) (of_nat (sz r' + sz r)) (ahash C r') (ahash C r) ver)"
    by simp
  note dims = node_dims_conc_left [OF h(2) h'(2) fc(2,1), where k = k and w = ver]
  note dims' = node_dims_conc_right [OF h'(1) bz fc(3), where k = k' and w = ver]
  note rot = right_rotate_eval [OF mut_left_conc [OF h(1), unfolded y]]
  show ?thesis
  proof (cases "fits ?z")
    case False
    with dims have "unwrap_result (right_rotate C D s (conc C t) ver) = None"
      unfolding t conc_ANd [of C fl] y rot by (simp del: fits_ANd)
    with False show ?thesis by (simp add: t mk_def del: fits_ANd)
  next
    case True
    have rz: "right_rotate C D s (conc C t) ver = do {
       (h', n') \<leftarrow> child_dims C D s (InnerNode (slot C fl' l') (Some (conc C ?z)) k'
         (of_nat (1 + max (ht l') (ht r'))) (of_nat (sz l' + sz r')) (ahash C l') (ahash C ?z) w');
       Some (Inr (Inner
         (InnerNode (slot C fl' l') (Some (conc C ?z)) k' h' n' (ahash C l') (ahash C ?z) ver))) }"
      unfolding t conc_ANd [of C fl] y rot dims
      by (simp only: True if_True z Option.bind.simps prod.case Let_def)
    show ?thesis
    proof (cases "fits (ANd fl' l' k' ver ?z True)")
      case fz: True
      with True have a: "aright_rot t ver = Some (ANd fl' l' k' ver ?z True)"
        by (simp add: t mk_def del: fits_ANd)
      show ?thesis
        unfolding a conc_ANd [of C fl'] rz dims' [OF True]
        by (simp only: fz if_True Option.bind.simps prod.case unwrap_result.simps
            option.map conc_ANd [of C fl'])
    next
      case fz: False
      with True have a: "aright_rot t ver = None" by (simp add: t mk_def del: fits_ANd)
      show ?thesis
        unfolding a rz dims' [OF True]
        by (simp only: fz if_False Option.bind.simps unwrap_result.simps option.map)
    qed
  qed
qed

lemma left_rotate_conc:
  assumes t: "t = ANd fl l k w (ANd True l' k' w' r' fr') fr"
    and b: "backed C D s t" and f: "kids_fit t"
  shows "unwrap_result (left_rotate C D s (conc C t) ver) = map_option (conc C) (aleft_rot t ver)"
proof -
  let ?y = "ANd True l' k' w' r' fr'" and ?z = "ANd fl l k ver l' True"
  have h: "held C D s fl l" "held C D s fr ?y" using b unfolding t backed.simps by blast+
  from held_child [OF h(2)] have h': "held C D s fr' r'" "backed C D s l'"
    unfolding backed.simps by auto
  have fc: "fits l" "fits l'" "fits r'" using f by (auto simp: t fits_def)
  have bz: "backed C D s ?z" using h(1) h'(2) unfolding backed.simps by auto
  have y: "conc C ?y = Inner (InnerNode (Some (conc C l')) (slot C fr' r') k'
     (of_nat (1 + max (ht l') (ht r'))) (of_nat (sz l' + sz r')) (ahash C l') (ahash C r') w')"
    by simp
  have z: "conc C ?z = Inner (InnerNode (slot C fl l) (Some (conc C l')) k
     (of_nat (1 + max (ht l) (ht l'))) (of_nat (sz l + sz l')) (ahash C l) (ahash C l') ver)"
    by simp
  note dims = node_dims_conc_right [OF h(1) h'(2) fc(1,2), where k = k and w = ver]
  note dims' = node_dims_conc_left [OF h'(1) bz _ fc(3), where k = k' and w = ver]
  note rot = left_rotate_eval [OF mut_right_conc [OF h(2), unfolded y]]
  show ?thesis
  proof (cases "fits ?z")
    case False
    with dims have "unwrap_result (left_rotate C D s (conc C t) ver) = None"
      unfolding t conc_ANd [of C fl] y rot by (simp del: fits_ANd)
    with False show ?thesis by (simp add: t mk_def del: fits_ANd)
  next
    case True
    have rz: "left_rotate C D s (conc C t) ver = do {
       (h', n') \<leftarrow> child_dims C D s (InnerNode (Some (conc C ?z)) (slot C fr' r') k'
         (of_nat (1 + max (ht l') (ht r'))) (of_nat (sz l' + sz r')) (ahash C ?z) (ahash C r') w');
       Some (Inr (Inner
         (InnerNode (Some (conc C ?z)) (slot C fr' r') k' h' n' (ahash C ?z) (ahash C r') ver))) }"
      unfolding t conc_ANd [of C fl] y rot dims
      by (simp only: True if_True z Option.bind.simps prod.case Let_def)
    show ?thesis
    proof (cases "fits (ANd True ?z k' ver r' fr')")
      case fz: True
      with True have a: "aleft_rot t ver = Some (ANd True ?z k' ver r' fr')"
        by (simp add: t mk_def del: fits_ANd)
      show ?thesis
        unfolding a conc_ANd [of C True ?z] rz dims' [OF True]
        by (simp only: fz if_True Option.bind.simps prod.case unwrap_result.simps
            option.map conc_ANd [of C True ?z])
    next
      case fz: False
      with True have a: "aleft_rot t ver = None" by (simp add: t mk_def del: fits_ANd)
      show ?thesis
        unfolding a rz dims' [OF True]
        by (simp only: fz if_False Option.bind.simps unwrap_result.simps option.map)
    qed
  qed
qed

lemma aright_rot_conc:
  assumes "aright_rot t ver = Some t'" "backed C D s t" "kids_fit t"
  shows "unwrap_result (right_rotate C D s (conc C t) ver) = Some (conc C t') \<and> backed C D s t'"
  using assms(1)
proof (rule aright_rot_SomeE)
  fix fl fl' l' k' w' r' k w r fr
  assume t: "t = ANd fl (ANd fl' l' k' w' r' True) k w r fr"
    and t': "t' = ANd fl' l' k' ver (ANd True r' k ver r fr) True"
  have "held C D s fl (ANd fl' l' k' w' r' True)" "held C D s fr r"
    using assms(2) unfolding t backed.simps by blast+
  with held_child [OF this(1)] have "backed C D s t'"
    unfolding t' backed.simps by auto
  with right_rotate_conc [OF t assms(2,3), of ver] assms(1) show ?thesis by simp
qed

lemma aleft_rot_conc:
  assumes "aleft_rot t ver = Some t'" "backed C D s t" "kids_fit t"
  shows "unwrap_result (left_rotate C D s (conc C t) ver) = Some (conc C t') \<and> backed C D s t'"
  using assms(1)
proof (rule aleft_rot_SomeE)
  fix fl l k w fl' l' k' w' r' fr' fr
  assume t: "t = ANd fl l k w (ANd True l' k' w' r' fr') fr"
    and t': "t' = ANd True (ANd fl l k ver l' True) k' ver r' fr'"
  have "held C D s fl l" "held C D s fr (ANd True l' k' w' r' fr')"
    using assms(2) unfolding t backed.simps by blast+
  with held_child [OF this(2)] have "backed C D s t'"
    unfolding t' backed.simps by auto
  with left_rotate_conc [OF t assms(2,3), of ver] assms(1) show ?thesis by simp
qed

lemma hot_backed: "hot t \<Longrightarrow> backed C D s t"
  by (induction t) auto

lemma hot_rotate:
  assumes "hot t" "kids_fit t"
  shows "unwrap_result (right_rotate C D s (conc C t) ver) = map_option (conc C) (aright_rot t ver)"
    and "unwrap_result (left_rotate C D s (conc C t) ver) = map_option (conc C) (aleft_rot t ver)"
proof -
  note b = hot_backed [OF assms(1), of C D s]
  show "unwrap_result (right_rotate C D s (conc C t) ver) = map_option (conc C) (aright_rot t ver)"
  proof (cases "(t, ver)" rule: aright_rot.cases)
    case (1 fl fl' l' k' w' r' fr' k w r fr ver')
    with assms have "t = ANd fl (ANd fl' l' k' w' r' True) k w r fr" by simp
    from right_rotate_conc [OF this b assms(2)] show ?thesis .
  qed (use assms in \<open>simp_all add: right_rotate_def new_leaf_def get_mut_left_node_def\<close>)
  show "unwrap_result (left_rotate C D s (conc C t) ver) = map_option (conc C) (aleft_rot t ver)"
  proof (cases "(t, ver)" rule: aleft_rot.cases)
    case (1 fl l k w fl' l' k' w' r' fr' fr ver')
    with assms have "t = ANd fl l k w (ANd True l' k' w' r' fr') fr" by simp
    from left_rotate_conc [OF this b assms(2)] show ?thesis .
  qed (use assms in \<open>simp_all add: left_rotate_def new_leaf_def get_mut_right_node_def\<close>)
qed

lemma hot_rot_hot:
  assumes "hot t"
  shows "aright_rot t ver = Some t' \<Longrightarrow> hot t'" "aleft_rot t ver = Some t' \<Longrightarrow> hot t'"
  using assms by (auto elim!: aright_rot_SomeE aleft_rot_SomeE)

text \<open>A left rotation does not read a stale hash of a right child that is in memory.\<close>

lemma left_rotate_stale:
  assumes "\<forall>y'. y = Inner y' \<longrightarrow> left_node y' \<noteq> None"
  shows "left_rotate C D s (Inner (InnerNode ln (Some y) k h z lh rh v)) ver
     = left_rotate C D s (Inner (InnerNode ln (Some y) k h z lh rh' v)) ver"
proof (cases y)
  case (Inner y')
  with assms obtain t2 where t2: "left_node y' = Some t2" by auto
  have "child_dims C D s (InnerNode ln (Some t2) k h z lh rh v)
     = child_dims C D s (InnerNode ln (Some t2) k h z lh rh' v)"
    by (cases ln) (simp_all add: child_dims_def get_left_node_def get_right_node_def)
  then show ?thesis
    by (simp add: left_rotate_def get_mut_right_node_def Inner t2 Let_def)
qed (simp add: left_rotate_def get_mut_right_node_def)

abbreviation cnode ::
  "crates \<Rightarrow> bool \<Rightarrow> atree \<Rightarrow> bytes \<Rightarrow> u64 \<Rightarrow> atree \<Rightarrow> bool \<Rightarrow> inner_node" where
  "cnode C fl l k w r fr \<equiv> InnerNode (slot C fl l) (slot C fr r) k
     (of_nat (1 + max (ht l) (ht r))) (of_nat (sz l + sz r)) (ahash C l) (ahash C r) w"

lemma cnode_balance:
  assumes "backed C D s (ANd fl l k ver r fr)" "fits (ANd fl l k ver r fr)"
  shows "get_balance_factor C D s (cnode C fl l k ver r fr) = Some (int (ht l) - int (ht r))"
proof -
  have "fits l" "fits r" using fits_children [OF assms(2)] by blast+
  then show ?thesis
    using child_access(1,2) [OF assms(1) conc_ANd]
    by (simp only: get_balance_factor_def Option.bind.simps fits_unat)
qed

text \<open>The code's rebalancing of such a node, in terms of its rotations.\<close>

lemma rebalance_eval:
  assumes "backed C D s (ANd fl l k ver r fr)" "fits (ANd fl l k ver r fr)"
  shows "rebalance C D s (cnode C fl l k ver r fr) key ver =
     (if ht l > ht r + 1 then
        (if key < akey l then
           unwrap_result (right_rotate C D s (conc C (ANd True l k ver r fr)) ver)
         else Option.bind (unwrap_result (left_rotate C D s (conc C (ANd True l k ver r fr)) ver))
           (\<lambda>n. unwrap_result (right_rotate C D s n ver)))
      else if ht r > ht l + 1 then
        (if akey r < key then
           unwrap_result (left_rotate C D s (conc C (ANd fl l k ver r True)) ver)
         else Option.bind (unwrap_result (right_rotate C D s (conc C r) ver))
           (\<lambda>n. unwrap_result (left_rotate C D s
              (Inner (with_right_node (Some n) (cnode C fl l k ver r True))) ver)))
      else Some (conc C (ANd fl l k ver r fr)))"
proof -
  have h: "held C D s fl l" "held C D s fr r" using assms(1) unfolding backed.simps by blast+
  show ?thesis
    unfolding rebalance_def cnode_balance [OF assms] mut_left_conc [OF h(1)]
      mut_right_conc [OF h(2)] Option.bind.simps prod.case get_key_conc conc_ANd
    by simp
qed

lemma backed_flags:
  assumes "backed C D s (ANd fl l k w r fr)"
  shows "backed C D s (ANd True l k w r fr)" "backed C D s (ANd fl l k w r True)"
proof -
  have h: "held C D s fl l" "held C D s fr r" using assms unfolding backed.simps by blast+
  show "backed C D s (ANd True l k w r fr)" "backed C D s (ANd fl l k w r True)"
    using held_child [OF h(1)] held_child [OF h(2)] h unfolding backed.simps by auto
qed

lemma rot_rl_conc:
  assumes "hot r' \<or> aleft_rot (ANd fl l k ver r' True) ver \<noteq> None"
  shows "unwrap_result (left_rotate C D s
      (Inner (with_right_node (Some (conc C r')) (cnode C fl l k ver r True))) ver)
     = unwrap_result (left_rotate C D s (Inner (InnerNode (slot C fl l) (Some (conc C r')) k
         (of_nat (1 + max (ht l) (ht r))) (of_nat (sz l + sz r)) (ahash C l) (ahash C r') ver)) ver)"
proof -
  have "\<forall>y'. conc C r' = Inner y' \<longrightarrow> left_node y' \<noteq> None"
    using assms
    by (cases r') (auto simp: new_leaf_def split: if_splits)
  from left_rotate_stale [OF this] show ?thesis
    unfolding with_right_node.simps by (rule arg_cong)
qed

text \<open>Nor does it read the old height and size.\<close>

lemma left_rotate_dims:
  "unwrap_result (left_rotate C D s (Inner (InnerNode ln (Some y) k h z lh rh v)) ver)
     = unwrap_result (left_rotate C D s (Inner (InnerNode ln (Some y) k h' z' lh rh v)) ver)"
proof (cases y)
  case (Inner y')
  have "child_dims C D s (InnerNode ln (left_node y') k h z lh rh v)
     = child_dims C D s (InnerNode ln (left_node y') k h' z' lh rh v)"
    by (cases ln; cases "left_node y'")
      (simp_all add: child_dims_def get_left_node_def get_right_node_def)
  then show ?thesis
    by (simp add: left_rotate_def get_mut_right_node_def Inner Let_def)
qed (simp add: left_rotate_def get_mut_right_node_def)

lemma rot_rl:
  assumes "hot r' \<or> aleft_rot (ANd fl l k ver r' True) ver \<noteq> None"
  shows "unwrap_result (left_rotate C D s
      (Inner (with_right_node (Some (conc C r')) (cnode C fl l k ver r True))) ver)
     = unwrap_result (left_rotate C D s (conc C (ANd fl l k ver r' True)) ver)"
  by (subst rot_rl_conc [OF assms]) (simp only: conc_ANd if_True left_rotate_dims)

lemma arebalance_conc:
  assumes "arebalance fl l k ver r fr key = Some t'"
    and b: "backed C D s (ANd fl l k ver r fr)" and f: "fits (ANd fl l k ver r fr)"
  shows "rebalance C D s (cnode C fl l k ver r fr) key ver = Some (conc C t') \<and> backed C D s t'"
  using assms(1)
proof (cases rule: arebalance_cases)
  case right
  with aright_rot_conc [OF right(3) backed_flags(1) [OF b]] fits_kids [OF f] show ?thesis
    unfolding rebalance_eval [OF b f] by (simp del: conc.simps(2))
next
  case (left_right n)
  from aleft_rot_conc [OF left_right(3) backed_flags(1) [OF b]] fits_kids [OF f]
  have 1: "unwrap_result (left_rotate C D s (conc C (ANd True l k ver r fr)) ver)
      = Some (conc C n)" "backed C D s n" by (simp_all del: conc.simps(2))
  from aright_rot_conc [OF left_right(4) 1(2)
      fits_kids [OF aleft_rot_content(3) [OF left_right(3)]]]
  show ?thesis using left_right(1,2) 1(1)
    unfolding rebalance_eval [OF b f] by (simp del: conc.simps(2))
next
  case left
  with aleft_rot_conc [OF left(3) backed_flags(2) [OF b]] fits_kids [OF f] show ?thesis
    unfolding rebalance_eval [OF b f] by (simp del: conc.simps(2))
next
  case (right_left r')
  have br: "backed C D s r" using child_access(6) [OF b conc_ANd] .
  have fr: "fits l" "fits r" using fits_children [OF f] by blast+
  note rr = aright_rot_conc [OF right_left(3) br fits_kids [OF fr(2)]]
  have "held C D s fl l" using b unfolding backed.simps by blast
  with rr have b': "backed C D s (ANd fl l k ver r' True)" unfolding backed.simps by simp
  have "kids_fit (ANd fl l k ver r' True)"
    using fr(1) aright_rot_content(3) [OF right_left(3)] by simp
  from aleft_rot_conc [OF right_left(4) b' this] show ?thesis
    using right_left(1,2,4) rr rot_rl [of r' fl l k ver C D s r]
    unfolding rebalance_eval [OF b f] by (simp del: conc.simps(2))
next
  case same
  then show ?thesis unfolding rebalance_eval [OF b f] using b by (simp del: conc.simps(2))
qed

text \<open>For a node all of whose children are in memory, the agreement is exact.\<close>

lemma hot_rebalance:
  assumes "hot (ANd fl l k ver r fr)" and f: "fits (ANd fl l k ver r fr)"
  shows "rebalance C D s (cnode C fl l k ver r fr) key ver
     = map_option (conc C) (arebalance fl l k ver r fr key)"
proof -
  note b = hot_backed [OF assms(1), of C D s]
  have flags: "fl" "fr" and h: "hot l" "hot r" "hot (ANd True l k ver r True)"
    using assms(1) by simp_all
  have kf: "kids_fit (ANd True l k ver r True)" "kids_fit r" "fits l"
    using f fits_children [OF f] fits_kids [of r] by auto
  note rot = hot_rotate [OF h(3) kf(1), of C D s]
  have 1: "unwrap_result (right_rotate C D s n ver) = map_option (conc C) (aright_rot t ver)"
    if "n = conc C t" "aleft_rot (ANd True l k ver r True) ver = Some t" for n t
    using that hot_rotate(1) [of t C D s ver] hot_rot_hot(2) [OF h(3) that(2)]
      aleft_rot_content(3) [OF that(2)] fits_kids by blast
  have 2: "unwrap_result (left_rotate C D s
        (Inner (with_right_node (Some (conc C r')) (cnode C True l k ver r True))) ver)
      = map_option (conc C) (aleft_rot (ANd True l k ver r' True) ver)"
    if r': "aright_rot r ver = Some r'" for r'
  proof -
    have "hot r'" by (rule hot_rot_hot(1) [OF h(2) r'])
    moreover have "kids_fit (ANd True l k ver r' True)"
      using kf(3) aright_rot_content(3) [OF r'] by simp
    ultimately show ?thesis
      using rot_rl [of r' True l k ver C D s r] hot_rotate(2) [of "ANd True l k ver r' True" C D s ver]
        h(1) by (simp del: conc.simps(2) with_right_node.simps)
  qed
  show ?thesis
    unfolding rebalance_eval [OF b f] arebalance_def flags
    using rot 1 2 hot_rotate(1) [OF h(2) kf(2), of C D s ver]
    by (auto simp del: conc.simps(2) with_right_node.simps simp: flags bind_eq_None_conv
        split: option.splits Option.bind_splits)
qed

lemma recursive_set_leaf:
  "recursive_set C D s (conc C (ALf k v w)) key val ver = Some (conc C (the (ains (ALf k v w) key val ver)))"
  by (subst recursive_set.simps) (auto simp: new_leaf_def Let_def)

lemma recursive_set_left:
  assumes "held C D s fl l" "key < k"
  shows "recursive_set C D s (conc C (ANd fl l k w r fr)) key val ver = do {
     l' \<leftarrow> recursive_set C D s (conc C l) key val ver;
     d \<leftarrow> child_dims C D s (InnerNode (Some l') (slot C fr r) k (of_nat (1 + max (ht l) (ht r)))
       (of_nat (sz l + sz r)) (node_hash C l') (ahash C r) w);
     rebalance C D s
       (InnerNode (Some l') (slot C fr r) k (fst d) (snd d) (node_hash C l') (ahash C r) ver)
       key ver }"
  unfolding conc_ANd
  by (subst recursive_set.simps)
    (simp only: node.case inner_node.sel assms(2) if_True mut_left_conc [OF assms(1)]
      Option.bind.simps prod.sel bind_assoc with_left_hash.simps with_left_node.simps with_dims.simps)

lemma recursive_set_right:
  assumes "held C D s fr r" "\<not> key < k"
  shows "recursive_set C D s (conc C (ANd fl l k w r fr)) key val ver = do {
     r' \<leftarrow> recursive_set C D s (conc C r) key val ver;
     d \<leftarrow> child_dims C D s (InnerNode (slot C fl l) (Some r') k (of_nat (1 + max (ht l) (ht r)))
       (of_nat (sz l + sz r)) (ahash C l) (node_hash C r') w);
     rebalance C D s
       (InnerNode (slot C fl l) (Some r') k (fst d) (snd d) (ahash C l) (node_hash C r') ver)
       key ver }"
  unfolding conc_ANd
  by (subst recursive_set.simps)
    (simp only: node.case inner_node.sel assms(2) if_False mut_right_conc [OF assms(1)]
      Option.bind.simps prod.sel bind_assoc with_right_hash.simps with_right_node.simps
      with_dims.simps)

lemma recursive_set_conc:
  assumes "ains t key val ver = Some t'" "backed C D s t" "fits t"
  shows "recursive_set C D s (conc C t) key val ver = Some (conc C t') \<and> backed C D s t'"
  using assms
proof (induction t arbitrary: t')
  case (ALf k v w)
  then show ?case using recursive_set_leaf [of C D s k v w key val ver]
    by (auto split: if_splits)
next
  case (ANd fl l k w r fr)
  have h: "held C D s fl l" "held C D s fr r" using ANd.prems(2) unfolding backed.simps by blast+
  have f: "fits l" "fits r" using fits_children [OF ANd.prems(3)] by blast+
  show ?case
  proof (cases "key < k")
    case True
    with ANd.prems(1) obtain l' where l': "ains l key val ver = Some l'"
      and fn: "fits (ANd True l' k ver r fr)"
      and b: "arebalance True l' k ver r fr key = Some t'"
      by (auto simp: bind_eq_Some_conv simp del: fits_ANd)
    note IH = ANd.IH(1) [OF l' held_child [OF h(1)] f(1)]
    have bn: "backed C D s (ANd True l' k ver r fr)"
      using IH h(2) unfolding backed.simps by simp
    have "fits l'" using fits_children [OF fn] by blast
    from node_dims_conc_left [OF h(2) conjunct2 [OF IH] this f(2), where w = ver and k = k]
      arebalance_conc [OF b bn fn] fn IH show ?thesis
      unfolding recursive_set_left [OF h(1) True]
      by (simp del: conc.simps(2) of_nat_add fits_ANd)
  next
    case False
    with ANd.prems(1) obtain r' where r': "ains r key val ver = Some r'"
      and fn: "fits (ANd fl l k ver r' True)"
      and b: "arebalance fl l k ver r' True key = Some t'"
      by (auto simp: bind_eq_Some_conv simp del: fits_ANd)
    note IH = ANd.IH(2) [OF r' held_child [OF h(2)] f(2)]
    have bn: "backed C D s (ANd fl l k ver r' True)"
      using IH h(1) unfolding backed.simps by simp
    have "fits r'" using fits_children [OF fn] by blast
    from node_dims_conc_right [OF h(1) conjunct2 [OF IH] f(1) this, where w = ver and k = k]
      arebalance_conc [OF b bn fn] fn IH show ?thesis
      unfolding recursive_set_right [OF h(2) False]
      by (simp del: conc.simps(2) of_nat_add fits_ANd)
  qed
qed

lemma hot_arebalance:
  assumes "arebalance fl l k ver r fr key = Some t'" "hot (ANd fl l k ver r fr)"
  shows "hot t'"
  using assms(1)
proof (cases rule: arebalance_cases)
  case right
  then show ?thesis using hot_rot_hot(1) [OF _ right(3)] assms(2) by simp
next
  case (left_right n)
  then show ?thesis using hot_rot_hot(2) [OF _ left_right(3)] hot_rot_hot(1) [OF _ left_right(4)]
      assms(2) by simp
next
  case left
  then show ?thesis using hot_rot_hot(2) [OF _ left(3)] assms(2) by simp
next
  case (right_left r')
  then show ?thesis using hot_rot_hot(1) [OF _ right_left(3)] hot_rot_hot(2) [OF _ right_left(4)]
      assms(2) by simp
qed (use assms(2) in simp)

lemma hot_ains: "ains t key val ver = Some t' \<Longrightarrow> hot t \<Longrightarrow> hot t'"
proof (induction t arbitrary: t')
  case (ANd fl l k w r fr)
  then show ?case
    by (auto simp: bind_eq_Some_conv simp del: fits_ANd split: if_splits elim!: hot_arebalance)
qed (auto split: if_splits)

lemma recursive_set_hot:
  assumes "hot t" "fits t"
  shows "recursive_set C D s (conc C t) key val ver = map_option (conc C) (ains t key val ver)"
  using assms
proof (induction t)
  case (ALf k v w)
  then show ?case using recursive_set_leaf [of C D s k v w key val ver] by simp
next
  case (ANd fl l k w r fr)
  have h: "held C D s fl l" "held C D s fr r" "fl" "fr" "hot l" "hot r"
    using ANd.prems(1) hot_backed [of l C D s] hot_backed [of r C D s] by simp_all
  have f: "fits l" "fits r" using fits_children [OF ANd.prems(2)] by blast+
  show ?case
  proof (cases "key < k")
    case True
    show ?thesis
    proof (cases "ains l key val ver")
      case None
      with ANd.IH(1) h f True show ?thesis unfolding recursive_set_left [OF h(1) True] by simp
    next
      case (Some l')
      have hl: "hot l'" by (rule hot_ains [OF Some h(5)])
      have fl': "fits l'" by (rule ains_fits [OF Some f(1)])
      have hn: "hot (ANd True l' k ver r fr)" using hl h by simp
      show ?thesis
        using Some ANd.IH(1) h f True hot_rebalance [OF hn, of C D s key]
          node_dims_conc_left [OF h(2) hot_backed [OF hl] fl' f(2), where w = ver and k = k]
        unfolding recursive_set_left [OF h(1) True]
        by (simp add: mk_def del: conc.simps(2) of_nat_add fits_ANd)
    qed
  next
    case False
    show ?thesis
    proof (cases "ains r key val ver")
      case None
      with ANd.IH(2) h f False show ?thesis unfolding recursive_set_right [OF h(2) False] by simp
    next
      case (Some r')
      have hr: "hot r'" by (rule hot_ains [OF Some h(6)])
      have fr': "fits r'" by (rule ains_fits [OF Some f(2)])
      have hn: "hot (ANd fl l k ver r' True)" using hr h by simp
      show ?thesis
        using Some ANd.IH(2) h f False hot_rebalance [OF hn, of C D s key]
          node_dims_conc_right [OF h(1) hot_backed [OF hr] f(1) fr', where w = ver and k = k]
        unfolding recursive_set_right [OF h(2) False]
        by (simp add: mk_def del: conc.simps(2) of_nat_add fits_ANd)
    qed
  qed
qed

end
