(* ===== verification/Iavl_Range.thy ===== *)
theory Iavl_Range
  imports Iavl_Model
begin

text \<open>
  Range iteration over the IAVL tree (\<open>Tree::range\<close> and the iterator \<open>Range\<close> of
  \<open>src/trees/src/iavl/tree.rs\<close>): a stack of nodes still to visit, the next one on top. The
  iterator is shown to yield exactly the entries in the range, once each and in key order.
\<close>

section \<open>The iterator\<close>

fun range_after_start :: "bytes bound \<Rightarrow> bytes \<Rightarrow> bool" where
  "range_after_start (Included l) k \<longleftrightarrow> l < k"
| "range_after_start (Excluded l) k \<longleftrightarrow> l < k"
| "range_after_start Unbounded k \<longleftrightarrow> True"

fun range_before_end :: "bytes bound \<Rightarrow> bytes \<Rightarrow> bool" where
  "range_before_end (Included u) k \<longleftrightarrow> k \<le> u"
| "range_before_end (Excluded u) k \<longleftrightarrow> k < u"
| "range_before_end Unbounded k \<longleftrightarrow> True"

definition tree_range :: "tree \<Rightarrow> node list" where
  "tree_range t = (case tree_root t of Some root \<Rightarrow> [root] | None \<Rightarrow> [])"

text \<open>The nodes an inner node pushes, the left child on top of the right one.\<close>

definition delayed_children ::
  "crates \<Rightarrow> 'db database_ops \<Rightarrow> 'db \<Rightarrow> bytes bound \<Rightarrow> bytes bound \<Rightarrow> inner_node \<Rightarrow>
     node list option" where
  "delayed_children C D s lo hi inner =
     Option.bind
       (if range_before_end hi (inner_key inner)
        then map_option (\<lambda>r. [r]) (get_right_node C D s inner) else Some []) (\<lambda>rs.
       if range_after_start lo (inner_key inner)
       then map_option (\<lambda>l. l # rs) (get_left_node C D s inner) else Some rs)"

partial_function (option) traverse ::
  "crates \<Rightarrow> 'db database_ops \<Rightarrow> 'db \<Rightarrow> bytes bound \<Rightarrow> bytes bound \<Rightarrow> node list \<Rightarrow>
     ((bytes \<times> bytes) option \<times> node list) option" where
  "traverse C D s lo hi delayed_nodes =
     (case delayed_nodes of
        [] \<Rightarrow> Some (None, [])
      | node # delayed_nodes \<Rightarrow>
          (case node of
             Inner inner \<Rightarrow>
               Option.bind (delayed_children C D s lo hi inner) (\<lambda>ns.
                 traverse C D s lo hi (ns @ delayed_nodes))
           | Leaf leaf \<Rightarrow>
               if range_contains lo hi (leaf_key leaf)
               then Some (Some (leaf_key leaf, leaf_value leaf), delayed_nodes)
               else traverse C D s lo hi delayed_nodes))"

text \<open>Calling \<open>next\<close> until it gives \<open>None\<close>.\<close>

partial_function (option) range_collect ::
  "crates \<Rightarrow> 'db database_ops \<Rightarrow> 'db \<Rightarrow> bytes bound \<Rightarrow> bytes bound \<Rightarrow> node list \<Rightarrow>
     (bytes \<times> bytes) list option" where
  "range_collect C D s lo hi delayed_nodes =
     Option.bind (traverse C D s lo hi delayed_nodes) (\<lambda>p.
       case fst p of
         None \<Rightarrow> Some []
       | Some e \<Rightarrow> Option.bind (range_collect C D s lo hi (snd p)) (\<lambda>es. Some (e # es)))"

section \<open>What it yields\<close>

abbreviation in_range :: "bytes bound \<Rightarrow> bytes bound \<Rightarrow> bytes \<times> bytes \<Rightarrow> bool" where
  "in_range lo hi e \<equiv> range_contains lo hi (fst e)"

abbreviation pending :: "bytes bound \<Rightarrow> bytes bound \<Rightarrow> atree list \<Rightarrow> (bytes \<times> bytes) list" where
  "pending lo hi ts \<equiv> filter (in_range lo hi) (concat (map entries ts))"

text \<open>A subtree that is not visited has no entry in the range.\<close>

lemma skipped_right:
  assumes "bst (ANd fl l k w r fr)" "\<not> range_before_end hi k"
  shows "filter (in_range lo hi) (entries r) = []"
proof -
  have "\<not> before_upper hi x" if "k \<le> x" for x
    using assms(2) that by (cases hi) auto
  then show ?thesis using assms(1) by (auto simp: filter_empty_conv range_contains_def)
qed

lemma skipped_left:
  assumes "bst (ANd fl l k w r fr)" "\<not> range_after_start lo k"
  shows "filter (in_range lo hi) (entries l) = []"
proof -
  have "\<not> after_lower lo x" if "x < k" for x
    using assms(2) that by (cases lo) auto
  then show ?thesis using assms(1) by (auto simp: filter_empty_conv range_contains_def)
qed

definition children_on :: "bytes bound \<Rightarrow> bytes bound \<Rightarrow> atree \<Rightarrow> atree list" where
  "children_on lo hi t = (case t of ALf k v w \<Rightarrow> []
     | ANd fl l k w r fr \<Rightarrow>
         (if range_after_start lo k then [l] else []) @ (if range_before_end hi k then [r] else []))"

lemma delayed_children_conc:
  assumes "backed C D s (ANd fl l k w r fr)" "conc C (ANd fl l k w r fr) = Inner n"
  shows "delayed_children C D s lo hi n
     = Some (map (conc C) (children_on lo hi (ANd fl l k w r fr)))"
proof -
  have "inner_key n = k" using assms(2) by auto
  then show ?thesis
    using child_access(1,2) [OF assms] by (simp add: delayed_children_def children_on_def)
qed

lemma children_on_props:
  assumes "bst (ANd fl l k w r fr)" "backed C D s (ANd fl l k w r fr)"
  shows "\<forall>t \<in> set (children_on lo hi (ANd fl l k w r fr)). bst t \<and> backed C D s t"
    and "pending lo hi (children_on lo hi (ANd fl l k w r fr) @ ts)
      = pending lo hi (ANd fl l k w r fr # ts)"
  using assms(1) child_access(5,6) [OF assms(2) conc_ANd] skipped_left [OF assms(1), of lo hi]
    skipped_right [OF assms(1), of hi lo]
  by (auto simp: children_on_def)

text \<open>The work left on a stack.\<close>

fun nodes :: "atree \<Rightarrow> nat" where
  "nodes (ALf k v w) = 1"
| "nodes (ANd fl l k w r fr) = 1 + nodes l + nodes r"

lemma children_on_nodes:
  "sum_list (map nodes (children_on lo hi (ANd fl l k w r fr))) < nodes (ANd fl l k w r fr)"
  by (simp add: children_on_def)

text \<open>What one call of \<open>next\<close> does to the stack.\<close>

definition yields ::
  "crates \<Rightarrow> 'db database_ops \<Rightarrow> 'db \<Rightarrow> bytes bound \<Rightarrow> bytes bound \<Rightarrow> atree list \<Rightarrow>
     (bytes \<times> bytes) option \<Rightarrow> atree list \<Rightarrow> bool" where
  "yields C D s lo hi ts item ts' \<longleftrightarrow>
     traverse C D s lo hi (map (conc C) ts) = Some (item, map (conc C) ts') \<and>
     (\<forall>t \<in> set ts'. bst t \<and> backed C D s t) \<and>
     (case item of None \<Rightarrow> ts' = [] \<and> pending lo hi ts = []
      | Some e \<Rightarrow> pending lo hi ts = e # pending lo hi ts' \<and>
          sum_list (map nodes ts') < sum_list (map nodes ts))"

lemma yields_step:
  assumes "yields C D s lo hi us item ts'"
    and "traverse C D s lo hi (map (conc C) ts) = traverse C D s lo hi (map (conc C) us)"
    and "pending lo hi us = pending lo hi ts" "sum_list (map nodes us) < sum_list (map nodes ts)"
  shows "yields C D s lo hi ts item ts'"
  using assms unfolding yields_def by (auto split: option.splits)

lemma traverse_step:
  assumes "\<forall>t \<in> set ts. bst t \<and> backed C D s t"
  shows "\<exists>item ts'. yields C D s lo hi ts item ts'"
  using assms
proof (induction "sum_list (map nodes ts)" arbitrary: ts rule: less_induct)
  case less
  show ?case
  proof (cases ts)
    case Nil
    then show ?thesis unfolding yields_def by (subst traverse.simps) auto
  next
    case (Cons t rest)
    show ?thesis
    proof (cases t)
      case t: (ALf k v w)
      show ?thesis
      proof (cases "range_contains lo hi k")
        case True
        then have "yields C D s lo hi ts (Some (k, v)) rest"
          using less.prems unfolding Cons t yields_def
          by (subst traverse.simps) (auto simp: new_leaf_def)
        then show ?thesis by blast
      next
        case False
        have "traverse C D s lo hi (map (conc C) ts) = traverse C D s lo hi (map (conc C) rest)"
          unfolding Cons t by (subst traverse.simps) (simp add: new_leaf_def False)
        moreover obtain item ts' where "yields C D s lo hi rest item ts'"
          using less.hyps [of rest] less.prems by (auto simp: Cons t)
        ultimately show ?thesis using yields_step [of C D s lo hi rest item ts' ts] False
          by (auto simp: Cons t)
      qed
    next
      case t: (ANd fl l k w r fr)
      from less.prems have bb: "bst t" "backed C D s t" by (simp_all add: Cons)
      let ?ts = "children_on lo hi t @ rest"
      have 1: "traverse C D s lo hi (map (conc C) ts) = traverse C D s lo hi (map (conc C) ?ts)"
        using delayed_children_conc [OF bb(2) [unfolded t] conc_ANd, of lo hi]
        unfolding Cons list.map t conc_ANd
        by (subst traverse.simps) (simp del: of_nat_add)
      have 2: "sum_list (map nodes ?ts) < sum_list (map nodes ts)"
        using children_on_nodes [of lo hi fl l k w r fr] by (simp add: Cons t del: nodes.simps)
      have 3: "pending lo hi ?ts = pending lo hi ts"
        using children_on_props(2) [OF bb [unfolded t]] by (simp only: Cons t)
      have "\<forall>t \<in> set ?ts. bst t \<and> backed C D s t"
        using children_on_props(1) [OF bb [unfolded t]] less.prems by (auto simp: Cons t)
      from less.hyps [OF 2 this] obtain item ts' where "yields C D s lo hi ?ts item ts'" by blast
      from yields_step [OF this 1 3 2] show ?thesis by blast
    qed
  qed
qed

lemma range_collect_conc:
  assumes "\<forall>t \<in> set ts. bst t \<and> backed C D s t"
  shows "range_collect C D s lo hi (map (conc C) ts) = Some (pending lo hi ts)"
  using assms
proof (induction "sum_list (map nodes ts)" arbitrary: ts rule: less_induct)
  case less
  obtain item ts' where *: "traverse C D s lo hi (map (conc C) ts) = Some (item, map (conc C) ts')"
    "\<forall>t \<in> set ts'. bst t \<and> backed C D s t"
    "case item of None \<Rightarrow> ts' = [] \<and> pending lo hi ts = []
      | Some e \<Rightarrow> pending lo hi ts = e # pending lo hi ts' \<and>
          sum_list (map nodes ts') < sum_list (map nodes ts)"
    using traverse_step [OF less.prems, of lo hi] unfolding yields_def by blast
  show ?case
  proof (cases item)
    case None
    with * show ?thesis by (subst range_collect.simps) simp
  next
    case (Some e)
    with *(3) less.hyps [OF _ *(2)] have
      "range_collect C D s lo hi (map (conc C) ts') = Some (pending lo hi ts')" by simp
    with Some * show ?thesis by (subst range_collect.simps) simp
  qed
qed

section \<open>Property\<close>

text \<open>
  (C32) Iterating over a range of a tree, whatever parts of it are only in the database, ends
  without a panic after yielding exactly the entries whose key is in the range, each once and
  in the order of the tree's sorted entries; subtrees outside the range are not visited.
\<close>

theorem range_exact:
  assumes "tree_root t = Some (conc C a)" "bst a" "backed C D s a"
  shows "range_collect C D s lo hi (tree_range t)
     = Some (filter (\<lambda>e. range_contains lo hi (fst e)) (entries a))"
  using range_collect_conc [of "[a]" C D s lo hi] assms by (simp add: tree_range_def)

theorem range_exact_witness:
  "range_collect demo_crates memdb_ops memdb_new (Excluded [1]) Unbounded
     (tree_range \<lparr> tree_root = Some (conc demo_crates
        (ANd True (ALf [1] [10] 1) [2] 1 (ALf [2] [20] 1) True)),
        tree_loaded_version = 1, tree_versions = [1] \<rparr>)
   = Some [([2], [20])]"
  using range_exact [of "\<lparr> tree_root = Some (conc demo_crates
        (ANd True (ALf [1] [10] 1) [2] 1 (ALf [2] [20] 1) True)),
        tree_loaded_version = 1, tree_versions = [1] \<rparr>" demo_crates
      "ANd True (ALf [1] [10] 1) [2] 1 (ALf [2] [20] 1) True" memdb_ops memdb_new
      "Excluded [1]" Unbounded]
  by (simp add: range_contains_def)

end
