(* ===== verification/Iavl_Balance.thy ===== *)
theory Iavl_Balance
  imports Iavl_Model
begin

text \<open>
  When an insertion into the IAVL tree returns, and in what shape: overwriting an existing key
  of a balanced tree and inserting above all keys of a balanced tree in memory always return a
  balanced tree; the left-right case of the rebalancing does not rotate the child it has to
  and leaves the node as it was, or panics; and a rotation around a child whose subtree is
  only in the database panics.
\<close>

section \<open>Balance and size\<close>

fun balanced :: "atree \<Rightarrow> bool" where
  "balanced (ALf k v w) \<longleftrightarrow> True"
| "balanced (ANd fl l k w r fr) \<longleftrightarrow>
     ht l \<le> ht r + 1 \<and> ht r \<le> ht l + 1 \<and> balanced l \<and> balanced r"

lemma balanced_size: "balanced t \<Longrightarrow> 2 ^ (ht t div 2) \<le> sz t"
proof (induction t)
  case (ANd fl l k w r fr)
  let ?n = "max (ht l) (ht r)"
  have pow: "(2::nat) ^ ((?n - 1) div 2) \<le> 2 ^ (ht x div 2)" if "?n - 1 \<le> ht x" for x
    using that by (intro power_increasing div_le_mono) simp_all
  have "(2::nat) ^ ((?n - 1) div 2) \<le> sz l"
    by (rule order_trans [OF pow ANd.IH(1)]) (use ANd.prems in auto)
  moreover have "(2::nat) ^ ((?n - 1) div 2) \<le> sz r"
    by (rule order_trans [OF pow ANd.IH(2)]) (use ANd.prems in auto)
  ultimately have "2 * (2::nat) ^ ((?n - 1) div 2) \<le> sz l + sz r" by linarith
  moreover have "(2::nat) ^ ((?n + 1) div 2) \<le> 2 * 2 ^ ((?n - 1) div 2)"
  proof (cases "?n = 0")
    case False
    have "(n + 1) div 2 = Suc ((n - 1) div 2)" if "n \<noteq> 0" for n :: nat
      using that by (cases n) auto
    from this [OF False] have "(?n + 1) div 2 = Suc ((?n - 1) div 2)" .
    then show ?thesis by (simp only: power_Suc)
  qed simp
  ultimately show ?case by simp
qed simp

lemma balanced_ht: "balanced t \<Longrightarrow> sz t < 2 ^ 32 \<Longrightarrow> ht t < 64"
proof -
  assume t: "balanced t" "sz t < 2 ^ 32"
  from balanced_size [OF t(1)] t(2) have "(2::nat) ^ (ht t div 2) < 2 ^ 32" by linarith
  then have "ht t div 2 < 32" by (rule power_less_imp_less_exp [rotated]) simp
  then show ?thesis by simp
qed

lemma balanced_fits: "balanced t \<Longrightarrow> sz t < 2 ^ 32 \<Longrightarrow> fits t"
  using balanced_ht [of t] by (simp add: fits_def)

section \<open>Overwriting\<close>

lemma arebalance_balanced:
  "balanced (ANd fl l k ver r fr) \<Longrightarrow> arebalance fl l k ver r fr key = Some (ANd fl l k ver r fr)"
  by (simp add: arebalance_def)

lemma ains_overwrite:
  assumes "bst t" "balanced t" "fits t" "key \<in> keys t"
  shows "\<exists>t'. ains t key val ver = Some t' \<and> ht t' = ht t \<and> sz t' = sz t \<and> balanced t'"
  using assms
proof (induction t)
  case (ANd fl l k w r fr)
  have f: "fits l" "fits r" using fits_children [OF ANd.prems(3)] by blast+
  show ?case
  proof (cases "key < k")
    case True
    with ANd.prems have "bst l" "balanced l" "key \<in> keys l" by auto
    from ANd.IH(1) [OF this(1,2) f(1) this(3)] obtain l' where
      "ains l key val ver = Some l'" "ht l' = ht l" "sz l' = sz l" "balanced l'"
      by (elim exE conjE)
    with True ANd.prems show ?thesis
      by (intro exI [of _ "ANd True l' k ver r fr"]) (simp add: mk_def arebalance_balanced)
  next
    case False
    with ANd.prems have "bst r" "balanced r" "key \<in> keys r" by auto
    from ANd.IH(2) [OF this(1,2) f(2) this(3)] obtain r' where
      "ains r key val ver = Some r'" "ht r' = ht r" "sz r' = sz r" "balanced r'"
      by (elim exE conjE)
    with False ANd.prems show ?thesis
      by (intro exI [of _ "ANd fl l k ver r' True"]) (simp add: mk_def arebalance_balanced)
  qed
qed auto

section \<open>Ascending insertion\<close>

text \<open>
  The largest key so far goes to the far right; a node it makes too deep is right heavy, and
  one left rotation, the case the code gets right, restores the balance.
\<close>

fun right_heavy :: "atree \<Rightarrow> bool" where
  "right_heavy (ALf k v w) \<longleftrightarrow> False"
| "right_heavy (ANd fl l k w r fr) \<longleftrightarrow> ht r = ht l + 1"

lemma ains_ascending:
  assumes "bst t" "balanced t" "hot t" "\<forall>x \<in> keys t. x < key" "sz t + 1 < 2 ^ 32"
  shows "\<exists>t'. ains t key val ver = Some t' \<and> balanced t' \<and> sz t' = sz t + 1 \<and>
     (ht t' = ht t \<or> ht t' = ht t + 1) \<and>
     (0 < ht t \<longrightarrow> akey t' < key \<and> (ht t' = ht t + 1 \<longrightarrow> right_heavy t'))"
  using assms
proof (induction t)
  case (ALf k v w)
  then show ?case by auto
next
  case (ANd fl l k w r fr)
  obtain x where "x \<in> keys r" by (rule keys_nonempty)
  with ANd.prems(1,4) have k: "k \<le> x" "x < key" by auto
  then have "\<not> key < k" by simp
  have pr: "bst r" "balanced r" "hot r" "\<forall>x \<in> keys r. x < key"
    using ANd.prems(1-4) by simp_all
  have "sz r + 1 < 2 ^ 32" using ANd.prems(5) sz_pos [of l] by simp
  from ANd.IH(2) [OF pr this] obtain r' where r': "ains r key val ver = Some r'" "balanced r'"
    "sz r' = sz r + 1" "ht r' = ht r \<or> ht r' = ht r + 1"
    "0 < ht r \<longrightarrow> akey r' < key \<and> (ht r' = ht r + 1 \<longrightarrow> right_heavy r')"
    by (elim exE conjE)
  have hot_r': "hot r'" using hot_ains [OF r'(1)] ANd.prems(3) by simp
  have "sz l < 2 ^ 32" "sz r' < 2 ^ 32" using ANd.prems(5) r'(3) by simp_all
  with balanced_ht ANd.prems(2) r'(2) have small: "ht l < 64" "ht r' < 64" by simp_all
  with ANd.prems(5) r'(3) have mk: "fits (ANd fl l k ver r' True)" by simp
  have ins: "ains (ANd fl l k w r fr) key val ver = arebalance fl l k ver r' True key"
    by (simp only: ains.simps(2) mk_def \<open>\<not> key < k\<close> r'(1) mk if_False if_True
        Option.bind.simps)
  show ?case
  proof (cases "ht r' \<le> ht l + 1")
    case True
    with ANd.prems(2) r' have "balanced (ANd fl l k ver r' True)" by auto
    moreover from this have "ains (ANd fl l k w r fr) key val ver = Some (ANd fl l k ver r' True)"
      by (simp only: ins arebalance_balanced)
    moreover have "ht (ANd fl l k ver r' True) = ht (ANd fl l k w r fr) \<or>
        ht (ANd fl l k ver r' True) = ht (ANd fl l k w r fr) + 1 \<and> ht r' = ht l + 1"
      using r'(4) True by (auto simp: max_def)
    moreover have "k < key" using k by simp
    ultimately show ?thesis using r'(3)
      by (intro exI [of _ "ANd fl l k ver r' True"]) (simp del: balanced.simps ains.simps, linarith)
  next
    case False
    with r'(4) ANd.prems(2) have hts: "ht r' = ht r + 1" "ht r = ht l + 1" by auto
    with r'(5) have rh: "right_heavy r'" "akey r' < key" by simp_all
    then obtain fl' l' k' w' r'' fr' where r'_eq: "r' = ANd fl' l' k' w' r'' fr'" "ht r'' = ht l' + 1"
      by (cases r') auto
    with hts have "ht l' = ht l" by simp
    let ?t = "ANd True (ANd fl l k ver l' True) k' ver r'' fr'"
    have "arebalance fl l k ver r' True key = Some ?t"
      using hts rh(2) r'_eq hot_r' small r'(3) ANd.prems(5)
      by (simp add: arebalance_def mk_def)
    moreover have "balanced ?t" using r'(2) r'_eq \<open>ht l' = ht l\<close> ANd.prems(2) by simp
    moreover have "sz ?t = sz (ANd fl l k w r fr) + 1" using r'_eq r'(3) by simp
    moreover have "ht ?t = ht (ANd fl l k w r fr)" using hts r'_eq \<open>ht l' = ht l\<close> by simp
    ultimately show ?thesis using ins r'_eq rh(2) by auto
  qed
qed

section \<open>The left-right case\<close>

text \<open>
  A left-heavy node into whose left child's right subtree the key went: the code rotates the
  node itself to the left, not its left child, and then to the right, back to where it was.
\<close>

lemma arebalance_left_right:
  assumes "hot (ANd fl l k ver (ANd fl' l' k' w' r' fr') fr)"
    and "ht (ANd fl' l' k' w' r' fr') + 1 < ht l" "\<not> key < akey l"
    and "fits (ANd fl l k ver (ANd fl' l' k' w' r' fr') fr)" "ht l < 254"
  shows "arebalance fl l k ver (ANd fl' l' k' w' r' fr') fr key
     = Some (ANd True l k ver (ANd True l' k' ver r' fr') True)"
proof -
  have "ht l' < 254" "ht r' < 254" using assms(2,5) by (auto simp: max_def split: if_splits)
  with assms show ?thesis by (simp add: arebalance_def mk_def)
qed

lemma arebalance_left_right_leaf:
  assumes "1 < ht l" "\<not> key < akey l"
  shows "arebalance fl l k ver (ALf x y z) fr key = None"
  using assms by (simp add: arebalance_def)

section \<open>Rotations after a commit\<close>

lemma left_rotate_uncommitted:
  assumes "right_node z = Some (Inner y)" "left_node y = None"
    and "get_node C D s (right_hash z) = Some None"
  shows "left_rotate C D s (Inner z) ver = None"
proof (cases z)
  case (InnerNode l r k h n lh rh v)
  with assms show ?thesis
    by (cases l) (auto simp: left_rotate_def get_mut_right_node_def child_dims_def
        get_left_node_def get_right_node_def expect_node_def Let_def split: Option.bind_splits)
qed

section \<open>Properties\<close>

text \<open>A small tree for the witnesses.\<close>

definition demo_tree :: atree where
  "demo_tree = ANd True (ALf [1] [10] 1) [2] 1 (ALf [2] [20] 1) True"

text \<open>
  (C20) Lookup: on every tree whose missing children are in the database, \<open>recursive_get\<close>
  returns, without a panic, what the tree's sorted list of entries has for the key.
\<close>

theorem get_exact:
  assumes "backed C D s t" "bst t"
  shows "recursive_get C D s (conc C t) key = Some (map_of (entries t) key)"
  using assms by (rule recursive_get_conc)

theorem get_exact_witness:
  "recursive_get demo_crates memdb_ops memdb_new (conc demo_crates demo_tree) [2] = Some (Some [20])"
  using get_exact [of demo_crates memdb_ops memdb_new demo_tree "[2]"] by (simp add: demo_tree_def)

text \<open>
  (C18) Insertion into a tree in memory: whenever \<open>recursive_set\<close> returns, the result is again a
  search tree in memory, its heights, sizes and hashes are exact (\<open>conc\<close>), and its entries are
  the old ones with the key set, in key order, whichever rotations were made.
\<close>

theorem set_content:
  assumes "hot t" "fits t" "bst t"
    and "recursive_set C D s (conc C t) key val ver = Some n"
  shows "\<exists>t'. n = conc C t' \<and> hot t' \<and> fits t' \<and> bst t' \<and>
     entries t' = btree_insert key val (entries t)"
proof -
  from recursive_set_hot [OF assms(1,2), of C D s key val ver] assms(4)
  obtain t' where t': "ains t key val ver = Some t'" "n = conc C t'"
    by (metis map_option_eq_Some)
  then show ?thesis
    using hot_ains [OF t'(1) assms(1)] ains_fits [OF t'(1) assms(2)]
      ains_content [OF t'(1) assms(3)] by blast
qed

theorem set_content_witness:
  "\<exists>n t'. recursive_set demo_crates memdb_ops memdb_new (conc demo_crates demo_tree) [3] [30] 2 = Some n \<and>
     n = conc demo_crates t' \<and> entries t' = [([1], [10]), ([2], [20]), ([3], [30])]"
proof -
  have t: "hot demo_tree" "fits demo_tree" "bst demo_tree" by (simp_all add: demo_tree_def)
  have "ains demo_tree [3] [30] 2 \<noteq> None" by (simp add: demo_tree_def mk_def arebalance_def)
  then obtain n where n: "recursive_set demo_crates memdb_ops memdb_new (conc demo_crates demo_tree) [3] [30] 2
      = Some n"
    using recursive_set_hot [OF t(1,2), of demo_crates memdb_ops memdb_new "[3]" "[30]" 2] by auto
  from set_content [OF t n] n show ?thesis by (auto simp: demo_tree_def)
qed

text \<open>
  (C33) Overwriting a key of a balanced tree returns, also when parts of the tree are only in
  the database: the tree stays balanced and of the same height, nothing rotates, and the
  entries are the old ones with the new value.
\<close>

theorem overwrite_returns:
  assumes "backed C D s t" "bst t" "balanced t" "fits t" "key \<in> keys t"
  shows "\<exists>t'. recursive_set C D s (conc C t) key val ver = Some (conc C t') \<and>
     backed C D s t' \<and> bst t' \<and> balanced t' \<and> ht t' = ht t \<and>
     entries t' = btree_insert key val (entries t)"
proof -
  obtain t' where t': "ains t key val ver = Some t'" "ht t' = ht t" "balanced t'"
    using ains_overwrite [OF assms(2-5)] by blast
  show ?thesis
    using recursive_set_conc [OF t'(1) assms(1,4)] ains_content [OF t'(1) assms(2)] t'(2,3)
    by blast
qed

theorem overwrite_returns_witness:
  "\<exists>t'. recursive_set demo_crates memdb_ops memdb_new (conc demo_crates demo_tree) [1] [30] 2
       = Some (conc demo_crates t') \<and> entries t' = [([1], [30]), ([2], [20])]"
  using overwrite_returns [of demo_crates memdb_ops memdb_new demo_tree "[1]" "[30]" 2]
  by (auto simp: demo_tree_def)

text \<open>
  Appending: a key above all keys of a balanced tree in memory is inserted without a panic
  and leaves the tree balanced, with one more entry at the end and a height that grows by at
  most one. This is the order in which a commit inserts into a fresh store.
\<close>

theorem append_returns:
  assumes "hot t" "bst t" "balanced t" "\<forall>x \<in> keys t. x < key" "sz t + 1 < 2 ^ 32"
  shows "\<exists>t'. recursive_set C D s (conc C t) key val ver = Some (conc C t') \<and>
     hot t' \<and> bst t' \<and> balanced t' \<and> entries t' = entries t @ [(key, val)] \<and>
     (ht t' = ht t \<or> ht t' = ht t + 1)"
proof -
  obtain t' where t': "ains t key val ver = Some t'" "balanced t'" "ht t' = ht t \<or> ht t' = ht t + 1"
    using ains_ascending [OF assms(2,3,1,4,5)] by blast
  have f: "fits t" using balanced_fits [OF assms(3)] assms(5) by simp
  have "btree_insert key val (entries t) = entries t @ [(key, val)]"
    using btree_insert_right [of "entries t" key val "[]"] assms(4) by auto
  then show ?thesis
    using recursive_set_hot [OF assms(1) f, of C D s key val ver] t'(2,3)
      hot_ains [OF t'(1) assms(1)] ains_content [OF t'(1) assms(2)] t'(1) by auto
qed

theorem append_returns_witness:
  "\<exists>t'. recursive_set demo_crates memdb_ops memdb_new (conc demo_crates demo_tree) [3] [30] 2
       = Some (conc demo_crates t') \<and> entries t' = [([1], [10]), ([2], [20]), ([3], [30])]"
  using append_returns [of demo_tree "[3]" demo_crates memdb_ops memdb_new "[30]" 2]
  by (auto simp: demo_tree_def)

text \<open>
  (C38) The left-right case does not restore the balance: in a left-heavy node whose new entry
  went to the right of its left child, the rebalancing panics if the right child is a leaf, and
  otherwise returns a node with the same subtrees, as unbalanced as before.
\<close>

theorem left_right_case_keeps_imbalance:
  assumes "conc C (ANd fl l k ver r fr) = Inner n" "hot (ANd fl l k ver r fr)"
    and "fits (ANd fl l k ver r fr)" "ht l < 254" "ht r + 1 < ht l" "\<not> key < akey l"
  shows "rebalance C D s n key ver = None \<and> ht r = 0 \<or>
     (\<exists>n'. rebalance C D s n key ver = Some (Inner n') \<and>
        left_node n' = Some (conc C l) \<and> inner_key n' = k \<and>
        get_balance_factor C D s n' = Some (int (ht l) - int (ht r)))"
proof (cases r)
  case (ALf x y z)
  have "n = cnode C fl l k ver r fr" using assms(1) by simp
  then have "rebalance C D s n key ver = None"
    using hot_rebalance [OF assms(2,3), of C D s key] assms(5) ALf
      arebalance_left_right_leaf [OF _ assms(6), of fl k ver x y z fr] by simp
  with ALf show ?thesis by simp
next
  case (ANd fl' l' k' w' r' fr')
  let ?r = "ANd True l' k' ver r' fr'"
  have e: "arebalance fl l k ver r fr key = Some (ANd True l k ver ?r True)"
    using arebalance_left_right [OF assms(2) [unfolded ANd] assms(5) [unfolded ANd]
        assms(6) assms(3) [unfolded ANd] assms(4)] ANd by simp
  have "hot (ANd True l k ver ?r True)" using assms(2) ANd by simp
  then have b: "backed C D s (ANd True l k ver ?r True)" by (rule hot_backed)
  have f: "fits (ANd True l k ver ?r True)" using assms(3) ANd by simp
  have "n = cnode C fl l k ver r fr" using assms(1) by simp
  then have "rebalance C D s n key ver = Some (Inner (cnode C True l k ver ?r True))"
    using hot_rebalance [OF assms(2,3), of C D s key] e by (simp only: option.map conc_ANd)
  with cnode_balance [OF b f] show ?thesis using ANd by auto
qed

theorem left_right_case_keeps_imbalance_witness:
  "rebalance demo_crates memdb_ops memdb_new (cnode demo_crates True
     (ANd True (ALf [1] [10] 1) [2] 1 demo_tree True) [5] 1 (ALf [5] [50] 1) True) [3] 1 = None \<or>
   (\<exists>n'. rebalance demo_crates memdb_ops memdb_new (cnode demo_crates True
       (ANd True (ALf [1] [10] 1) [2] 1 demo_tree True) [5] 1 (ALf [5] [50] 1) True) [3] 1
       = Some (Inner n') \<and> get_balance_factor demo_crates memdb_ops memdb_new n' = Some 2)"
  using left_right_case_keeps_imbalance [OF conc_ANd,
      where fl = True and l = "ANd True (ALf [1] [10] 1) [2] 1 demo_tree True"
        and k = "[5]" and ver = 1 and r = "ALf [5] [50] 1" and fr = True and key = "[3]"
        and C = demo_crates and D = memdb_ops and s = memdb_new]
  by (auto simp: demo_tree_def)

text \<open>
  A rotation moves the inner subtree of the child; when that subtree is not in memory, the
  code looks for it under the hash of the child itself. In a node whose child was changed and
  is not yet in the database, the rotation therefore panics.
\<close>

theorem rotation_of_uncommitted_child_panics:
  assumes "right_node z = Some (Inner y)" "left_node y = None"
    and "get_node C D s (right_hash z) = Some None"
  shows "left_rotate C D s (Inner z) ver = None"
  by (rule left_rotate_uncommitted [OF assms])

theorem rotation_of_uncommitted_child_panics_witness:
  "left_rotate demo_crates memdb_ops memdb_new (Inner (InnerNode None
     (Some (Inner (InnerNode None None [4] 1 2 [] [] 1))) [2] 2 4 [] [] 1)) 2 = None"
  using rotation_of_uncommitted_child_panics [of "InnerNode None
     (Some (Inner (InnerNode None None [4] 1 2 [] [] 1))) [2] 2 4 [] [] 1"
     "InnerNode None None [4] 1 2 [] [] 1" demo_crates memdb_ops memdb_new 2]
  by (simp add: get_node_def memdb_ops_def memdb_get_def memdb_new_def)

end
