(* ===== verification/Iavl_Version.thy ===== *)
theory Iavl_Version
  imports Iavl_Balance
begin

text \<open>
  Versions of the IAVL tree: the root hash determines the entries, saving a version puts every
  node of the tree into the database, and a tree loaded from the database is the tree that was
  saved. No collision of the hash function is assumed beyond those among the strings that are
  hashed for the trees in question.
\<close>

section \<open>The root hash binds the entries\<close>

text \<open>Trees whose nodes fit the stored format.\<close>

fun persistable :: "atree \<Rightarrow> bool" where
  "persistable (ALf k v w) \<longleftrightarrow> length k < 2 ^ 64 \<and> length v < 2 ^ 64 \<and> unat w < 2 ^ 32"
| "persistable (ANd fl l k w r fr) \<longleftrightarrow>
     length k < 2 ^ 64 \<and> unat w < 2 ^ 32 \<and> fits (ANd fl l k w r fr) \<and>
     persistable l \<and> persistable r"

text \<open>Everything that is hashed for a tree: the nodes and the values.\<close>

fun hash_inputs :: "crates \<Rightarrow> atree \<Rightarrow> bytes set" where
  "hash_inputs C (ALf k v w) = {hash_serialize C (conc C (ALf k v w)), v}"
| "hash_inputs C (ANd fl l k w r fr) =
     insert (hash_serialize C (conc C (ANd fl l k w r fr))) (hash_inputs C l \<union> hash_inputs C r)"

lemma hash_serialize_input: "hash_serialize C (conc C t) \<in> hash_inputs C t"
  by (cases t) simp_all

lemma encode_bytes_eqD:
  assumes "varint_ok C" "length a < 2 ^ 64" "length b < 2 ^ 64"
    and "encode_bytes C a @ r = encode_bytes C b @ s"
  shows "a = b \<and> r = s"
proof -
  have "enc_usize C (of_nat (length a)) @ (a @ r) = enc_usize C (of_nat (length b)) @ (b @ s)"
    using assms(4) by (simp add: encode_bytes_def)
  from varint_usizeD [OF assms(1) this]
  have "of_nat (length a) = (of_nat (length b) :: u64)" "a @ r = b @ s" by blast+
  moreover from this(1) have "length a = length b"
    using assms(2,3) by (intro of_nat_inj_bounded [where 'a = 64]) simp_all
  ultimately show ?thesis by simp
qed

lemma inner_height_u64:
  assumes "fits (ANd fl l k w r fr)"
  shows "(ucast (of_nat (1 + max (ht l) (ht r)) :: u8) :: u64) \<noteq> 0"
proof -
  have "unat (of_nat (1 + max (ht l) (ht r)) :: u8) = 1 + max (ht l) (ht r)"
    using assms by (intro unat_of_nat_bounded) simp
  then have "unat (ucast (of_nat (1 + max (ht l) (ht r)) :: u8) :: u64) \<noteq> 0"
    by (simp add: unat_ucast_wider del: of_nat_add of_nat_Suc)
  then show ?thesis by (metis unat_0)
qed

lemma varint_header_eqD:
  assumes "varint_ok C"
    and "enc_i64 C a @ enc_i64 C b @ enc_i64 C c @ r = enc_i64 C a' @ enc_i64 C b' @ enc_i64 C c' @ s"
  shows "a = a' \<and> r = s"
proof -
  from varint_i64D [OF assms] have "a = a'"
    "enc_i64 C b @ enc_i64 C c @ r = enc_i64 C b' @ enc_i64 C c' @ s" by blast+
  from this(1) varint_i64D [OF assms(1) this(2)] show ?thesis
    using varint_i64D [OF assms(1), of c r c' s] by blast
qed

lemma leaf_not_inner_input:
  assumes "varint_ok C" "fits (ANd fl l k w r fr)"
  shows "hash_serialize C (conc C (ALf k' v' w')) \<noteq> hash_serialize C (conc C (ANd fl l k w r fr))"
proof
  assume "hash_serialize C (conc C (ALf k' v' w')) = hash_serialize C (conc C (ANd fl l k w r fr))"
  then obtain a b where "enc_i64 C 0 @ a =
      enc_i64 C (ucast (of_nat (1 + max (ht l) (ht r)) :: u8)) @ b"
    by (simp add: new_leaf_def Let_def del: of_nat_add of_nat_Suc)
  from varint_i64D [OF assms(1) this] inner_height_u64 [OF assms(2)] show False by simp
qed

lemma leaf_inputs_eqD:
  assumes "varint_ok C" "sha256_ok C" "length k < 2 ^ 64" "length k' < 2 ^ 64"
    and "hash_serialize C (conc C (ALf k v w)) = hash_serialize C (conc C (ALf k' v' w'))"
  shows "k = k' \<and> sha256 C v = sha256 C v'"
proof -
  let ?a = "encode_bytes C (sha256 C v)" and ?a' = "encode_bytes C (sha256 C v')"
  have "encode_bytes C k @ ?a = encode_bytes C k' @ ?a'"
    using varint_header_eqD [OF assms(1) assms(5) [simplified new_leaf_def conc.simps(1)
        hash_serialize.simps Let_def leaf_node.simps]] by (rule conjunct2)
  from encode_bytes_eqD [OF assms(1,3,4) this] have "k = k'" "?a = ?a'" by blast+
  with encode_bytes_eqD [OF assms(1), of "sha256 C v" "sha256 C v'" "[]" "[]"] assms(2)
  show ?thesis by simp
qed

lemma inner_inputs_eqD:
  assumes "varint_ok C" "sha256_ok C"
    and "hash_serialize C (conc C (ANd fl l k w r fr))
      = hash_serialize C (conc C (ANd fl' l' k' w' r' fr'))"
  shows "ahash C l = ahash C l' \<and> ahash C r = ahash C r'"
proof -
  have len: "length (ahash C t) < 2 ^ 64" for t using assms(2) by (simp add: node_hash_def)
  have "encode_bytes C (ahash C l) @ encode_bytes C (ahash C r)
      = encode_bytes C (ahash C l') @ encode_bytes C (ahash C r')"
    using varint_header_eqD [OF assms(1) assms(3) [unfolded conc_ANd
        hash_serialize.simps Let_def inner_node.sel]] by (rule conjunct2)
  from encode_bytes_eqD [OF assms(1) len len this]
  have "ahash C l = ahash C l'" "encode_bytes C (ahash C r) = encode_bytes C (ahash C r')"
    by blast+
  with encode_bytes_eqD [OF assms(1) len len, of r "[]" r' "[]"] show ?thesis by simp
qed

lemma ahash_eq_input:
  assumes "inj_on (sha256 C) (hash_inputs C a \<union> hash_inputs C b)" "ahash C a = ahash C b"
  shows "hash_serialize C (conc C a) = hash_serialize C (conc C b)"
  using inj_onD [OF assms(1) assms(2) [unfolded node_hash_def]]
    hash_serialize_input [of C a] hash_serialize_input [of C b] by blast

lemma root_hash_entries:
  assumes "varint_ok C" "sha256_ok C"
  shows "persistable a \<Longrightarrow> persistable b \<Longrightarrow>
     inj_on (sha256 C) (hash_inputs C a \<union> hash_inputs C b) \<Longrightarrow>
     ahash C a = ahash C b \<Longrightarrow> entries a = entries b"
proof (induction a arbitrary: b)
  case (ALf k v w)
  have i: "hash_serialize C (conc C (ALf k v w)) = hash_serialize C (conc C b)"
    by (rule ahash_eq_input [OF ALf.prems(3,4)])
  show ?case
  proof (cases b)
    case b: (ALf k' v' w')
    from leaf_inputs_eqD [OF assms _ _ i [unfolded b]] ALf.prems(1,2) b
    have "k = k'" "sha256 C v = sha256 C v'" by simp_all
    with inj_onD [OF ALf.prems(3), of v v'] b show ?thesis by simp
  next
    case b: (ANd fl l k' w' r fr)
    with ALf.prems(2) have "fits (ANd fl l k' w' r fr)" by simp
    from leaf_not_inner_input [OF assms(1) this] i b show ?thesis by simp
  qed
next
  case (ANd fl l k w r fr)
  have i: "hash_serialize C (conc C (ANd fl l k w r fr)) = hash_serialize C (conc C b)"
    by (rule ahash_eq_input [OF ANd.prems(3,4)])
  show ?case
  proof (cases b)
    case b: (ALf k' v' w')
    from ANd.prems(1) have "fits (ANd fl l k w r fr)" by simp
    from leaf_not_inner_input [OF assms(1) this] i b show ?thesis by metis
  next
    case b: (ANd fl' l' k' w' r' fr')
    from inner_inputs_eqD [OF assms i [unfolded b]]
    have h: "ahash C l = ahash C l'" "ahash C r = ahash C r'" by blast+
    have "inj_on (sha256 C) (hash_inputs C l \<union> hash_inputs C l')"
      "inj_on (sha256 C) (hash_inputs C r \<union> hash_inputs C r')"
      using ANd.prems(3) b by (auto intro: inj_on_subset)
    with ANd.IH(1) [of l'] ANd.IH(2) [of r'] ANd.prems(1,2) b h show ?thesis by simp
  qed
qed

section \<open>Saving\<close>

fun subs :: "atree \<Rightarrow> atree set" where
  "subs (ALf k v w) = {ALf k v w}"
| "subs (ANd fl l k w r fr) = insert (ANd fl l k w r fr) (subs l \<union> subs r)"

lemma subs_self [simp]: "t \<in> subs t"
  by (cases t) simp_all

lemma subs_keys: "x \<in> subs t \<Longrightarrow> keys x \<subseteq> keys t"
  by (induction t) auto

lemma subs_sz: "x \<in> subs t \<Longrightarrow> x = t \<or> sz x < sz t"
  by (induction t) (auto simp: trans_less_add1 trans_less_add2)

lemma subs_inputs: "x \<in> subs t \<Longrightarrow> hash_inputs C x \<subseteq> hash_inputs C t"
  by (induction t) auto

lemma subs_persistable: "x \<in> subs t \<Longrightarrow> persistable t \<Longrightarrow> persistable x"
  by (induction t) auto

text \<open>In a search tree, a subtree is determined by its entries.\<close>

lemma subs_apart:
  assumes "bst (ANd fl l k w r fr)" "x \<in> subs l" "y \<in> subs r"
  shows "entries x \<noteq> entries y"
proof
  assume e: "entries x = entries y"
  obtain z where "z \<in> keys x" by (rule keys_nonempty)
  with e subs_keys [OF assms(2)] subs_keys [OF assms(3)] have "z \<in> keys l" "z \<in> keys r" by auto
  with assms(1) show False by fastforce
qed

lemma subs_unique:
  "bst t \<Longrightarrow> x \<in> subs t \<Longrightarrow> y \<in> subs t \<Longrightarrow> entries x = entries y \<Longrightarrow> x = y"
proof (induction t)
  case (ANd fl l k w r fr)
  have "x = y" if "x = ANd fl l k w r fr \<or> y = ANd fl l k w r fr"
    using that subs_sz [OF ANd.prems(2)] subs_sz [OF ANd.prems(3)]
      arg_cong [OF ANd.prems(4), of length] by (auto simp: sz_entries)
  moreover have "x = y" if "x \<in> subs l \<union> subs r" "y \<in> subs l \<union> subs r"
    using that ANd.IH ANd.prems(1,4) subs_apart [OF ANd.prems(1)] by (metis UnE bst.simps(2))
  ultimately show ?case using ANd.prems(2,3) by auto
qed simp

lemma subs_hash_unique:
  assumes "varint_ok C" "sha256_ok C" "persistable t" "bst t" "inj_on (sha256 C) (hash_inputs C t)"
    and "x \<in> subs t" "y \<in> subs t" "ahash C x = ahash C y"
  shows "x = y"
proof (rule subs_unique [OF assms(4,6,7)])
  have "inj_on (sha256 C) (hash_inputs C x \<union> hash_inputs C y)"
    using subs_inputs [OF assms(6), of C] subs_inputs [OF assms(7), of C]
    by (intro inj_on_subset [OF assms(5)]) simp
  from root_hash_entries [OF assms(1,2) _ _ this assms(8)] subs_persistable assms(3,6,7)
  show "entries x = entries y" by blast
qed

lemma storable_conc:
  assumes "sha256_ok C" "persistable t"
  shows "storable (conc C t)"
proof (cases t)
  case (ANd fl l k w r fr)
  have "unat (of_nat (1 + max (ht l) (ht r)) :: u8) = 1 + max (ht l) (ht r)"
    using assms(2) ANd by (intro unat_of_nat_bounded) simp
  then have "(of_nat (1 + max (ht l) (ht r)) :: u8) \<noteq> 0" by (metis add_is_0 one_neq_zero unat_0)
  with assms ANd show ?thesis by (simp add: node_hash_def del: of_nat_add of_nat_Suc)
qed (use assms in \<open>simp add: new_leaf_def\<close>)

lemma recursive_save_conc:
  "recursive_tree_save C D s (conc C (ANd fl l k w r fr)) h =
     (let s1 = (if fl then recursive_tree_save C D s (conc C l) (ahash C l) else s);
          s2 = (if fr then recursive_tree_save C D s1 (conc C r) (ahash C r) else s1)
      in save_node C D s2 (conc C (ANd fl l k w r fr)) h)"
  by simp

text \<open>The part of a tree that a save writes.\<close>

fun unsaved :: "atree \<Rightarrow> atree set" where
  "unsaved (ALf k v w) = {ALf k v w}"
| "unsaved (ANd fl l k w r fr) = insert (ANd fl l k w r fr)
     ((if fl then unsaved l else {}) \<union> (if fr then unsaved r else {}))"

lemma unsaved_subs: "unsaved t \<subseteq> subs t"
  by (induction t) auto

lemma held_mono:
  "(backed C D s t \<Longrightarrow> backed C D s' t) \<Longrightarrow> (stored C D s t \<Longrightarrow> stored C D s' t) \<Longrightarrow>
   held C D s f t \<Longrightarrow> held C D s' f t"
  by (cases f) simp_all

context database
begin

lemma save_node_get:
  assumes "varint_ok C" "storable n"
  shows "get_node C D (save_node C D s n h) h' =
     (if h' = h then Some (Some (stored_form n)) else get_node C D s h')"
  using deserialize_serialize_append [OF assms, of "[]"]
  by (simp add: get_node_def save_node_def)

lemma save_node_other [simp]:
  "db_get D (save_node C D s n h) (1 # k) = db_get D s (1 # k)"
  by (simp add: save_node_def get_node_key_def NODES_PREFIX_def)

text \<open>A property of the state kept by every write of a node is kept by saving a tree.\<close>

lemma recursive_save_keeps:
  assumes "\<And>s x. x \<in> unsaved t \<Longrightarrow> P s \<Longrightarrow> P (save_node C D s (conc C x) (ahash C x))" "P s"
  shows "P (recursive_tree_save C D s (conc C t) (ahash C t))"
  using assms
proof (induction t arbitrary: s)
  case (ALf k v w)
  then show ?case using ALf.prems(1) [of "ALf k v w" s] by (simp add: new_leaf_def)
next
  case (ANd fl l k w r fr)
  let ?s1 = "if fl then recursive_tree_save C D s (conc C l) (ahash C l) else s"
  let ?s2 = "if fr then recursive_tree_save C D ?s1 (conc C r) (ahash C r) else ?s1"
  have "P ?s1" using ANd.IH(1) ANd.prems by simp
  then have "P ?s2" using ANd.IH(2) ANd.prems(1) by simp
  then show ?case
    unfolding recursive_save_conc Let_def by (intro ANd.prems(1)) simp
qed

lemma recursive_save_other:
  "db_get D (recursive_tree_save C D s (conc C t) (ahash C t)) (1 # k) = db_get D s (1 # k)"
  by (rule recursive_save_keeps [where P = "\<lambda>s'. db_get D s' (1 # k) = db_get D s (1 # k)"])
    (simp_all add: save_node_def get_node_key_def NODES_PREFIX_def)

lemma save_node_stored:
  assumes "varint_ok C" "\<And>x. x \<in> U \<Longrightarrow> storable (conc C x)"
    and "\<And>x y. x \<in> U \<Longrightarrow> y \<in> U \<Longrightarrow> ahash C x = ahash C y \<Longrightarrow> x = y"
    and "x \<in> U" "subs t \<subseteq> U" "stored C D s t"
  shows "stored C D (save_node C D s (conc C x) (ahash C x)) t"
  using assms(5,6)
proof (induction t)
  case (ALf k v w)
  then show ?case
    using save_node_get [OF assms(1) assms(2) [OF assms(4)]] assms(3) [OF assms(4), of "ALf k v w"]
    by (auto simp: conc_cold [symmetric])
next
  case (ANd fl l k w r fr)
  let ?t = "ANd fl l k w r fr"
  note get = save_node_get [OF assms(1) assms(2) [OF assms(4)]]
  have "get_node C D (save_node C D s (conc C x) (ahash C x)) (ahash C ?t)
      = Some (Some (conc C (cold ?t)))"
  proof (cases "ahash C ?t = ahash C x")
    case True
    have "?t \<in> U" using ANd.prems(1) by simp
    with True assms(3) [OF assms(4)] have "x = ?t" by metis
    with True show ?thesis using get [of s "ahash C x" "ahash C ?t"] conc_cold [of C ?t] by metis
  next
    case False
    with stored_get [OF ANd.prems(2)] show ?thesis by (simp only: get if_False)
  qed
  with ANd.IH ANd.prems show ?case by (simp only: stored.simps subs.simps) blast
qed

lemma save_node_backed:
  assumes "varint_ok C" "\<And>x. x \<in> U \<Longrightarrow> storable (conc C x)"
    and "\<And>x y. x \<in> U \<Longrightarrow> y \<in> U \<Longrightarrow> ahash C x = ahash C y \<Longrightarrow> x = y"
    and "x \<in> U" "subs t \<subseteq> U" "backed C D s t"
  shows "backed C D (save_node C D s (conc C x) (ahash C x)) t"
  using assms(5,6)
proof (induction t)
  case (ANd fl l k w r fr)
  let ?s' = "save_node C D s (conc C x) (ahash C x)"
  have U: "subs l \<subseteq> U" "subs r \<subseteq> U" using ANd.prems(1) by simp_all
  have h: "held C D s fl l" "held C D s fr r" using ANd.prems(2) unfolding backed.simps by blast+
  have "held C D ?s' fl l"
    by (rule held_mono [OF ANd.IH(1) [OF U(1)] save_node_stored [OF assms(1-4) U(1)] h(1)])
  moreover have "held C D ?s' fr r"
    by (rule held_mono [OF ANd.IH(2) [OF U(2)] save_node_stored [OF assms(1-4) U(2)] h(2)])
  ultimately show ?case unfolding backed.simps by blast
qed simp

lemma recursive_save_stored:
  assumes "varint_ok C" "\<And>x. x \<in> U \<Longrightarrow> storable (conc C x)"
    and "\<And>x y. x \<in> U \<Longrightarrow> y \<in> U \<Longrightarrow> ahash C x = ahash C y \<Longrightarrow> x = y"
  shows "subs t \<subseteq> U \<Longrightarrow> backed C D s t \<Longrightarrow>
     stored C D (recursive_tree_save C D s (conc C t) (ahash C t)) t"
proof (induction t arbitrary: s)
  case (ALf k v w)
  then show ?case
    using save_node_get [OF assms(1) assms(2), of "ALf k v w"]
    by (simp add: new_leaf_def)
next
  case (ANd fl l k w r fr)
  let ?t = "ANd fl l k w r fr"
  have U: "?t \<in> U" "subs l \<subseteq> U" "subs r \<subseteq> U" using ANd.prems(1) by simp_all
  have keep: "stored C D (recursive_tree_save C D s (conc C t) (ahash C t)) u"
    if "subs t \<subseteq> U" "subs u \<subseteq> U" "stored C D s u" for t u s
    using that unsaved_subs [of t]
    by (intro recursive_save_keeps [where P = "\<lambda>s. stored C D s u"] save_node_stored
        [OF assms]) auto
  have keepb: "backed C D (recursive_tree_save C D s (conc C t) (ahash C t)) u"
    if "subs t \<subseteq> U" "subs u \<subseteq> U" "backed C D s u" for t u s
    using that unsaved_subs [of t]
    by (intro recursive_save_keeps [where P = "\<lambda>s. backed C D s u"] save_node_backed
        [OF assms]) auto
  define s1 where "s1 = (if fl then recursive_tree_save C D s (conc C l) (ahash C l) else s)"
  define s2 where "s2 = (if fr then recursive_tree_save C D s1 (conc C r) (ahash C r) else s1)"
  have h: "held C D s fl l" "held C D s fr r" using ANd.prems(2) unfolding backed.simps by blast+
  have l1: "stored C D s1 l" using h(1) ANd.IH(1) [OF U(2)] by (simp add: s1_def split: if_splits)
  have r1: "held C D s1 fr r"
    using h(2) keep [OF U(2,3)] keepb [OF U(2,3)] by (simp add: s1_def)
  have r2: "stored C D s2 r" using r1 ANd.IH(2) [OF U(3)] by (simp add: s2_def split: if_splits)
  have l2: "stored C D s2 l" using l1 keep [OF U(3,2)] by (simp add: s2_def)
  let ?s3 = "save_node C D s2 (conc C ?t) (ahash C ?t)"
  have "stored C D ?s3 l" "stored C D ?s3 r"
    using save_node_stored [OF assms U(1)] U(2,3) l2 r2 by blast+
  moreover have "get_node C D ?s3 (ahash C ?t) = Some (Some (conc C (cold ?t)))"
    using save_node_get [OF assms(1) assms(2) [OF U(1)]] by (simp only: conc_cold if_True refl)
  ultimately show ?case
    unfolding recursive_save_conc Let_def s1_def [symmetric] s2_def [symmetric]
    by (simp only: stored.simps)
qed

end

section \<open>The recorded versions\<close>

lemma distinct_btset_insert [simp]: "distinct xs \<Longrightarrow> distinct (btset_insert x xs)"
  by (simp add: btset_insert_def distinct_insort_insert)

lemma decode_versions_Some:
  "decode_versions C es = Some vs \<Longrightarrow>
     set vs = (\<lambda>e. fst (the (dec_u64 C (fst e)))) ` set es \<and> sorted vs \<and> distinct vs \<and>
     (\<forall>e \<in> set es. dec_u64 C (fst e) \<noteq> None)"
proof (induction es arbitrary: vs)
  case (Cons e es)
  obtain k w where e: "e = (k, w)" by (cases e)
  from Cons.prems e obtain v n vs' where *: "dec_u64 C k = Some (v, n)"
    "decode_versions C es = Some vs'" "vs = btset_insert v vs'"
    by (auto split: option.splits)
  from Cons.IH [OF *(2)] * e show ?case by auto
qed simp

lemma decode_versions_total:
  "\<forall>e \<in> set es. dec_u64 C (fst e) \<noteq> None \<Longrightarrow> \<exists>vs. decode_versions C es = Some vs"
  by (induction es) (auto split: option.splits)

lemma btset_last_new:
  "(\<forall>x \<in> set xs. x < v) \<Longrightarrow> btset_last (btset_insert v xs) = Some v"
proof -
  assume a: "\<forall>x \<in> set xs. x < v"
  then have "btset_insert v xs = xs @ [v]"
    by (induction xs) (auto simp: btset_insert_def insort_insert_key_def)
  then show ?thesis by (simp add: btset_last_def)
qed

context prefix_stripping
begin

lemma get_versions_put:
  assumes "varint_ok C" "inv s" "inv s'" "get_versions C D s = Some vs"
    and get: "\<And>k. db_get D s' (1 # k) = (if k = enc_u64 C v then Some h else db_get D s (1 # k))"
  shows "get_versions C D s' = Some (btset_insert v vs)"
proof -
  obtain es where es: "db_prefix_iterator D s ROOTS_PREFIX = Some es"
    "\<And>k w. (k, w) \<in> set es \<longleftrightarrow> db_get D s (1 # k) = Some w"
    using scan [OF assms(2), of ROOTS_PREFIX] by (auto simp: ROOTS_PREFIX_def)
  obtain es' where es': "db_prefix_iterator D s' ROOTS_PREFIX = Some es'"
    "\<And>k w. (k, w) \<in> set es' \<longleftrightarrow> db_get D s' (1 # k) = Some w"
    using scan [OF assms(3), of ROOTS_PREFIX] by (auto simp: ROOTS_PREFIX_def)
  have dec: "dec_u64 C (enc_u64 C v) = Some (v, length (enc_u64 C v))"
    using varint_okD(3) [OF assms(1), of v "[]"] by simp
  have vs: "decode_versions C es = Some vs" using assms(4) es(1) by (simp add: get_versions_def)
  note S = decode_versions_Some [OF this]
  have "\<forall>e \<in> set es'. dec_u64 C (fst e) \<noteq> None"
  proof
    fix e assume "e \<in> set es'"
    then have "fst e = enc_u64 C v \<or> e \<in> set es"
      using es'(2) [of "fst e" "snd e"] es(2) [of "fst e" "snd e"] get [of "fst e"]
      by (auto split: if_splits)
    with S dec show "dec_u64 C (fst e) \<noteq> None" by auto
  qed
  then obtain vs' where vs': "decode_versions C es' = Some vs'"
    using decode_versions_total by blast
  note S' = decode_versions_Some [OF vs']
  let ?d = "\<lambda>e. fst (the (dec_u64 C (fst e)))"
  have 1: "?d e \<in> insert v (set vs)" if "e \<in> set es'" for e
    using that es'(2) [of "fst e" "snd e"] es(2) [of "fst e" "snd e"] get [of "fst e"] S dec
    by (cases "fst e = enc_u64 C v") auto
  have 2: "?d e \<in> set vs'" if "e \<in> set es" for e
  proof -
    have "(fst e, if fst e = enc_u64 C v then h else snd e) \<in> set es'"
      using that es'(2) es(2) [of "fst e" "snd e"] get [of "fst e"] by auto
    with S' show ?thesis by force
  qed
  have 3: "v \<in> set vs'"
    using S' es'(2) [of "enc_u64 C v" h] get [of "enc_u64 C v"] dec by force
  have "set vs' = insert v (set vs)" using 1 2 3 S S' by auto
  then have "vs' = btset_insert v vs"
    using S S' by (intro sorted_distinct_set_unique) auto
  with vs' es'(1) show ?thesis by (simp add: get_versions_def)
qed

end

section \<open>Saving a version and loading it\<close>

text \<open>What saving needs of a tree: it can be stored, and its hashes do not collide.\<close>

definition savable :: "crates \<Rightarrow> 'db database_ops \<Rightarrow> 'db \<Rightarrow> atree \<Rightarrow> bool" where
  "savable C D s t \<longleftrightarrow> backed C D s t \<and> bst t \<and> persistable t \<and>
     inj_on (sha256 C) (hash_inputs C t) \<and> ahash C t \<noteq> EMPTY_HASH"

context prefix_stripping
begin

lemma recursive_save_inv:
  "inv s \<Longrightarrow> inv (recursive_tree_save C D s (conc C t) (ahash C t))"
  by (rule recursive_save_keeps) (simp add: save_node_def inv_put)

lemma save_tree_stored:
  assumes "varint_ok C" "sha256_ok C" "savable C D s t"
  shows "stored C D (recursive_tree_save C D s (conc C t) (ahash C t)) t"
proof (rule recursive_save_stored [OF assms(1), of "subs t"])
  show "storable (conc C x)" if "x \<in> subs t" for x
    using storable_conc [OF assms(2)] subs_persistable [OF that] assms(3)
    by (simp add: savable_def)
  show "x = y" if "x \<in> subs t" "y \<in> subs t" "ahash C x = ahash C y" for x y
    using subs_hash_unique [OF assms(1,2) _ _ _ that] assms(3) by (simp add: savable_def)
qed (use assms(3) in \<open>simp_all add: savable_def\<close>)

lemma get_node_root_put:
  "get_node C D (node_db_save_version C D s v h) = get_node C D s"
  by (rule ext) (simp add: get_node_def node_db_save_version_def)

lemma stored_root_put:
  "stored C D (node_db_save_version C D s v h) t = stored C D s t"
  by (induction t) (simp_all add: get_node_root_put)

lemma save_version_reload:
  assumes "varint_ok C" "sha256_ok C" "inv s" "get_versions C D s = Some vs"
    and "tree_root t = Some (conc C a)" "tree_versions t = vs"
    and "checked_add (tree_loaded_version t) 1 = Some v" "\<forall>x \<in> set vs. x < v"
    and "savable C D s a"
  shows "\<exists>t' s'. tree_save_version C D s t = Some (Inr ((ahash C a, v), t', s')) \<and>
     tree_new C D s' None = Some (Inr t') \<and> inv s' \<and>
     tree_root t' = Some (conc C (cold a)) \<and> tree_loaded_version t' = v \<and> stored C D s' a"
proof -
  let ?s1 = "recursive_tree_save C D s (conc C a) (ahash C a)"
  let ?s2 = "node_db_save_version C D ?s1 v (ahash C a)"
  let ?t = "\<lparr> tree_root = Some (conc C (cold a)), tree_loaded_version = v,
    tree_versions = btset_insert v vs \<rparr>"
  have "v \<notin> set vs" using assms(8) by auto
  then have save: "tree_save_version C D s t = Some (Inr ((ahash C a, v), ?t, ?s2))"
    using assms(5-7)
    by (simp add: tree_save_version_def save_tree_def Let_def clear_children_stored_form conc_cold)
  have st: "stored C D ?s2 a"
    using save_tree_stored [OF assms(1,2,9)] by (simp add: stored_root_put)
  have inv: "inv ?s2"
    using recursive_save_inv [OF assms(3)] by (simp add: node_db_save_version_def inv_put)
  have "get_versions C D ?s2 = Some (btset_insert v vs)"
  proof (rule get_versions_put [OF assms(1,3) inv assms(4)])
    show "db_get D ?s2 (1 # k) = (if k = enc_u64 C v then Some (ahash C a) else db_get D s (1 # k))"
      for k
      using recursive_save_other [of C s a k]
      by (simp add: node_db_save_version_def get_root_key_def ROOTS_PREFIX_def get_put)
  qed
  moreover have "get_root_node C D ?s2 v = Some (Inr (Some (conc C (cold a))))"
    using stored_get [OF st] assms(2,9)
    by (simp add: get_root_node_def get_root_hash_def node_db_save_version_def node_hash_def
        savable_def)
  ultimately have "tree_new C D ?s2 None = Some (Inr ?t)"
    using btset_last_new [OF assms(8)] by (simp add: tree_new_def)
  with save st inv show ?thesis by (intro exI [of _ ?t] exI [of _ ?s2]) simp
qed

end

section \<open>Inserting after a commit\<close>

text \<open>
  The tree of three ascending keys, all of it in the database, and the right subtree that the
  insertion of a fourth, larger key makes.
\<close>

abbreviation three_keys ::
  "bytes \<Rightarrow> bytes \<Rightarrow> bytes \<Rightarrow> bytes \<Rightarrow> bytes \<Rightarrow> bytes \<Rightarrow> u64 \<Rightarrow> atree" where
  "three_keys k1 v1 k2 v2 k3 v3 w \<equiv>
     ANd False (ALf k1 v1 w) k2 w (ANd False (ALf k2 v2 w) k3 w (ALf k3 v3 w) False) False"

abbreviation grown_right ::
  "bytes \<Rightarrow> bytes \<Rightarrow> bytes \<Rightarrow> bytes \<Rightarrow> bytes \<Rightarrow> bytes \<Rightarrow> u64 \<Rightarrow> u64 \<Rightarrow> atree" where
  "grown_right k2 v2 k3 v3 key val w ver \<equiv>
     ANd False (ALf k2 v2 w) k3 ver (ANd True (ALf k3 v3 w) key ver (ALf key val ver) True) True"

lemma set_right_panics:
  assumes h: "held C D s fl l" "held C D s fr r" and "\<not> key < k" "fits l" "fits r"
    and y: "ains r key val ver = Some y" "ht l + 1 < ht y" "akey y < key"
    and f: "fits (ANd fl l k ver y True)"
    and "left_rotate C D s (Inner (cnode C fl l k ver y True)) ver = None"
  shows "recursive_set C D s (conc C (ANd fl l k w r fr)) key val ver = None"
proof -
  note r = recursive_set_conc [OF y(1) held_child [OF h(2)] assms(5)]
  have b: "backed C D s (ANd fl l k ver y True)"
    using h(1) r unfolding backed.simps by simp
  have "rebalance C D s (cnode C fl l k ver y True) key ver = None"
    using y(2,3) assms(10) unfolding rebalance_eval [OF b f] conc_ANd
    by (simp del: of_nat_add)
  then show ?thesis
    using r node_dims_conc_right [OF h(1) conjunct2 [OF r] assms(4) ains_fits [OF y(1) assms(5)],
        where w = ver and k = k] f
    unfolding recursive_set_right [OF h(2) assms(3)]
    by (simp del: of_nat_add fits_ANd)
qed

lemma insert_after_commit:
  assumes st: "stored C D s (three_keys k1 v1 k2 v2 k3 v3 w)"
    and "k2 < k3" "k3 < key"
    and no: "get_node C D s (ahash C (grown_right k2 v2 k3 v3 key val w ver)) = Some None"
  shows "recursive_set C D s (conc C (three_keys k1 v1 k2 v2 k3 v3 w)) key val ver = None"
proof (rule set_right_panics [where y = "grown_right k2 v2 k3 v3 key val w ver"])
  show "ains (ANd False (ALf k2 v2 w) k3 w (ALf k3 v3 w) False) key val ver
      = Some (grown_right k2 v2 k3 v3 key val w ver)"
    using assms(2,3) by (auto simp: mk_def arebalance_def)
  show "left_rotate C D s (Inner (cnode C False (ALf k1 v1 w) k2 ver
      (grown_right k2 v2 k3 v3 key val w ver) True)) ver = None"
    using no by (intro left_rotate_uncommitted [where y = "cnode C False (ALf k2 v2 w) k3 ver
        (ANd True (ALf k3 v3 w) key ver (ALf key val ver) True) True"])
      (simp_all only: inner_node.sel if_True if_False conc_ANd)
qed (use assms in \<open>simp_all add: fits_def\<close>)

section \<open>Properties\<close>

lemmas demo_eval = node_hash_def demo_crates_def new_leaf_def Let_def encode_bytes_def
  leb_enc.simps zigzag_def checksum_def

lemma demo_tree_hashes:
  "inj_on (sha256 demo_crates) (hash_inputs demo_crates demo_tree)"
  "ahash demo_crates demo_tree \<noteq> EMPTY_HASH"
  by (simp_all add: demo_tree_def demo_eval inj_on_insert EMPTY_HASH_def)

text \<open>
  (C31) The root hash commits to the content: two trees with the same root hash have the same
  entries, unless two of the strings hashed for them (nodes and values) collide.
\<close>

theorem root_hash_binds_entries:
  assumes "varint_ok C" "sha256_ok C" "persistable a" "persistable b"
    and "inj_on (sha256 C) (hash_inputs C a \<union> hash_inputs C b)"
    and "node_hash C (conc C a) = node_hash C (conc C b)"
  shows "entries a = entries b"
  using root_hash_entries [OF assms(1,2)] assms(3-) by blast

theorem root_hash_binds_entries_witness:
  "entries demo_tree = entries (cold demo_tree)"
proof (rule root_hash_binds_entries [OF demo_crates_varint demo_crates_sha256])
  show "persistable demo_tree" "persistable (cold demo_tree)"
    by (simp_all add: demo_tree_def)
  have "hash_inputs demo_crates (cold demo_tree) = hash_inputs demo_crates demo_tree"
    by (simp add: demo_tree_def)
  then show "inj_on (sha256 demo_crates)
      (hash_inputs demo_crates demo_tree \<union> hash_inputs demo_crates (cold demo_tree))"
    using demo_tree_hashes(1) by simp
qed simp

text \<open>
  (C19) Saving a version and opening the tree again, on a tree in a prefixed database as the
  stores use it: \<open>save_version\<close> returns the root hash and the next version, \<open>Tree::new\<close> on the
  new database gives exactly the tree that \<open>save_version\<close> left, every lookup in it gives what
  the saved entries say, and every earlier subtree is readable.
\<close>

theorem saved_tree_is_reloaded:
  assumes "varint_ok C" "sha256_ok C" "memdb_ok s"
    and "get_versions C (prefixdb_ops (prefixdb_new memdb_ops p)) s = Some vs"
    and "tree_root t = Some (conc C a)" "tree_versions t = vs"
    and "checked_add (tree_loaded_version t) 1 = Some v" "\<forall>x \<in> set vs. x < v"
    and "savable C (prefixdb_ops (prefixdb_new memdb_ops p)) s a"
  shows "\<exists>t' s'.
     tree_save_version C (prefixdb_ops (prefixdb_new memdb_ops p)) s t
       = Some (Inr ((node_hash C (conc C a), v), t', s')) \<and>
     tree_new C (prefixdb_ops (prefixdb_new memdb_ops p)) s' None = Some (Inr t') \<and>
     (\<forall>key. tree_get C (prefixdb_ops (prefixdb_new memdb_ops p)) s' t' key
       = Some (map_of (entries a) key))"
proof -
  let ?D = "prefixdb_ops (prefixdb_new memdb_ops p)"
  obtain t' s' where *: "tree_save_version C ?D s t = Some (Inr ((ahash C a, v), t', s'))"
    "tree_new C ?D s' None = Some (Inr t')" "tree_root t' = Some (conc C (cold a))"
    "stored C ?D s' a"
    using mem_prefixed.stripped.save_version_reload [OF assms] by blast
  have "recursive_get C ?D s' (conc C (cold a)) key = Some (map_of (entries a) key)" for key
    using recursive_get_conc [OF stored_backed [OF *(4)], of key] assms(9)
    by (simp add: savable_def)
  with * show ?thesis by (intro exI [of _ t'] exI [of _ s']) (simp add: tree_get_def)
qed

theorem saved_tree_is_reloaded_witness:
  "\<exists>t' s'. tree_save_version demo_crates (prefixdb_ops (prefixdb_new memdb_ops [7])) memdb_new
       \<lparr> tree_root = Some (conc demo_crates demo_tree), tree_loaded_version = 0, tree_versions = [] \<rparr>
       = Some (Inr ((ahash demo_crates demo_tree, 1), t', s')) \<and>
     tree_new demo_crates (prefixdb_ops (prefixdb_new memdb_ops [7])) s' None = Some (Inr t') \<and>
     tree_get demo_crates (prefixdb_ops (prefixdb_new memdb_ops [7])) s' t' [2] = Some (Some [20])"
proof -
  let ?D = "prefixdb_ops (prefixdb_new memdb_ops [7])"
  have sv: "savable demo_crates ?D memdb_new demo_tree"
    using demo_tree_hashes by (simp add: savable_def demo_tree_def)
  have vs: "get_versions demo_crates ?D memdb_new = Some []"
    by (simp add: get_versions_def prefixdb_prefix_iterator_def prefixdb_new_def
        memdb_ops_def memdb_scan_eq memdb_new_def)
  show ?thesis
    using saved_tree_is_reloaded [OF demo_crates_varint demo_crates_sha256 memdb_new_ok vs,
        of "\<lparr> tree_root = Some (conc demo_crates demo_tree), tree_loaded_version = 0,
            tree_versions = [] \<rparr>" demo_tree 1] sv
    by (auto simp: checked_add_def demo_tree_def)
qed

text \<open>
  (C39) After a commit of a tree with three keys, inserting a fourth key above them panics: the
  insertion has to rotate, and the rotation looks in the database for the subtree it moves
  under the hash of the node that the insertion has just made.
\<close>

theorem insert_after_commit_panics:
  assumes "stored C D s (three_keys k1 v1 k2 v2 k3 v3 w)" "k2 < k3" "k3 < key"
    and "get_node C D s (node_hash C (conc C (grown_right k2 v2 k3 v3 key val w ver))) = Some None"
  shows "recursive_set C D s (conc C (three_keys k1 v1 k2 v2 k3 v3 w)) key val ver = None"
  by (rule insert_after_commit [OF assms])

definition three_keys_tree :: atree where
  "three_keys_tree = ANd True (ALf [1] [] 1) [2] 1
     (ANd True (ALf [2] [] 1) [3] 1 (ALf [3] [] 1) True) True"

text \<open>The hashes of this tree and of the grown subtree under the checksum of the instance.\<close>

lemma demo_leaf_hashes:
  "node_hash demo_crates (new_leaf [1] [] 1)
     = [90, 115, 192, 18, 62, 146, 157, 28, 0, 0, 0, 0, 0, 0, 0, 0,
       0, 0, 0, 0, 0, 0, 0, 0, 0, 0, 0, 0, 0, 0, 0, 0]"
  "node_hash demo_crates (new_leaf [2] [] 1)
     = [91, 148, 208, 100, 43, 74, 173, 182, 0, 0, 0, 0, 0, 0, 0, 0,
       0, 0, 0, 0, 0, 0, 0, 0, 0, 0, 0, 0, 0, 0, 0, 0]"
  "node_hash demo_crates (new_leaf [3] [] 1)
     = [92, 181, 224, 182, 24, 2, 189, 80, 0, 0, 0, 0, 0, 0, 0, 0,
       0, 0, 0, 0, 0, 0, 0, 0, 0, 0, 0, 0, 0, 0, 0, 0]"
  "node_hash demo_crates (new_leaf [4] [] 2)
     = [95, 28, 151, 47, 73, 131, 166, 205, 0, 0, 0, 0, 0, 0, 0, 0,
       0, 0, 0, 0, 0, 0, 0, 0, 0, 0, 0, 0, 0, 0, 0, 0]"
  "sha256 demo_crates []
     = [7, 0, 0, 0, 0, 0, 0, 0, 0, 0, 0, 0, 0, 0, 0, 0,
       0, 0, 0, 0, 0, 0, 0, 0, 0, 0, 0, 0, 0, 0, 0, 0]"
  by (simp_all add: demo_eval)

lemma demo_inner_hashes:
  "node_hash demo_crates (Inner (InnerNode l r k 1 2
       [91, 148, 208, 100, 43, 74, 173, 182, 0, 0, 0, 0, 0, 0, 0, 0,
       0, 0, 0, 0, 0, 0, 0, 0, 0, 0, 0, 0, 0, 0, 0, 0]
       [92, 181, 224, 182, 24, 2, 189, 80, 0, 0, 0, 0, 0, 0, 0, 0,
       0, 0, 0, 0, 0, 0, 0, 0, 0, 0, 0, 0, 0, 0, 0, 0] 1))
     = [93, 218, 203, 8, 97, 63, 76, 89, 0, 0, 0, 0, 0, 0, 0, 0,
       0, 0, 0, 0, 0, 0, 0, 0, 0, 0, 0, 0, 0, 0, 0, 0]"
  "node_hash demo_crates (Inner (InnerNode l r k 2 3
       [90, 115, 192, 18, 62, 146, 157, 28, 0, 0, 0, 0, 0, 0, 0, 0,
       0, 0, 0, 0, 0, 0, 0, 0, 0, 0, 0, 0, 0, 0, 0, 0]
       [93, 218, 203, 8, 97, 63, 76, 89, 0, 0, 0, 0, 0, 0, 0, 0,
       0, 0, 0, 0, 0, 0, 0, 0, 0, 0, 0, 0, 0, 0, 0, 0] 1))
     = [15, 0, 24, 107, 32, 29, 77, 46, 0, 0, 0, 0, 0, 0, 0, 0,
       0, 0, 0, 0, 0, 0, 0, 0, 0, 0, 0, 0, 0, 0, 0, 0]"
  "node_hash demo_crates (Inner (InnerNode l r k 1 2
       [92, 181, 224, 182, 24, 2, 189, 80, 0, 0, 0, 0, 0, 0, 0, 0,
       0, 0, 0, 0, 0, 0, 0, 0, 0, 0, 0, 0, 0, 0, 0, 0]
       [95, 28, 151, 47, 73, 131, 166, 205, 0, 0, 0, 0, 0, 0, 0, 0,
       0, 0, 0, 0, 0, 0, 0, 0, 0, 0, 0, 0, 0, 0, 0, 0] 2))
     = [228, 40, 104, 36, 102, 89, 45, 79, 0, 0, 0, 0, 0, 0, 0, 0,
       0, 0, 0, 0, 0, 0, 0, 0, 0, 0, 0, 0, 0, 0, 0, 0]"
  "node_hash demo_crates (Inner (InnerNode l r k 2 3
       [91, 148, 208, 100, 43, 74, 173, 182, 0, 0, 0, 0, 0, 0, 0, 0,
       0, 0, 0, 0, 0, 0, 0, 0, 0, 0, 0, 0, 0, 0, 0, 0]
       [228, 40, 104, 36, 102, 89, 45, 79, 0, 0, 0, 0, 0, 0, 0, 0,
       0, 0, 0, 0, 0, 0, 0, 0, 0, 0, 0, 0, 0, 0, 0, 0] 2))
     = [104, 181, 164, 241, 85, 165, 255, 198, 0, 0, 0, 0, 0, 0, 0, 0,
       0, 0, 0, 0, 0, 0, 0, 0, 0, 0, 0, 0, 0, 0, 0, 0]"
  by (simp_all add: demo_eval)

lemma three_keys_tree_hashes:
  "inj_on (sha256 demo_crates) (hash_inputs demo_crates three_keys_tree)"
  "ahash demo_crates three_keys_tree \<noteq> EMPTY_HASH"
  "x \<in> unsaved three_keys_tree \<Longrightarrow>
     ahash demo_crates (grown_right [2] [] [3] [] [4] [] 1 2) \<noteq> ahash demo_crates x"
  by (auto simp: three_keys_tree_def inj_on_insert EMPTY_HASH_def demo_leaf_hashes
      demo_inner_hashes node_hash_def [symmetric] simp del: hash_serialize.simps)

theorem insert_after_commit_panics_witness:
  "\<exists>s'. stored demo_crates memdb_ops s' (three_keys [1] [] [2] [] [3] [] 1) \<and>
     recursive_set demo_crates memdb_ops s'
       (conc demo_crates (three_keys [1] [] [2] [] [3] [] 1)) [4] [] 2 = None"
proof -
  let ?t = three_keys_tree and ?g = "grown_right [2] [] [3] [] [4] [] 1 2"
  let ?s = "recursive_tree_save demo_crates memdb_ops memdb_new
    (conc demo_crates ?t) (ahash demo_crates ?t)"
  have "stored demo_crates memdb_ops ?s ?t"
  proof (rule mem.recursive_save_stored [OF demo_crates_varint, of "subs ?t"])
    show "storable (conc demo_crates x)" if "x \<in> subs ?t" for x
      using storable_conc [OF demo_crates_sha256] subs_persistable [OF that]
      by (simp add: three_keys_tree_def)
    show "x = y" if "x \<in> subs ?t" "y \<in> subs ?t" "ahash demo_crates x = ahash demo_crates y" for x y
      using subs_hash_unique [OF demo_crates_varint demo_crates_sha256 _ _
          three_keys_tree_hashes(1) that] by (simp add: three_keys_tree_def)
  qed (simp_all add: three_keys_tree_def)
  then have "stored demo_crates memdb_ops ?s (cold ?t)" by simp
  then have st: "stored demo_crates memdb_ops ?s (three_keys [1] [] [2] [] [3] [] 1)"
    by (simp only: three_keys_tree_def cold.simps)
  have "get_node demo_crates memdb_ops ?s (ahash demo_crates ?g) = Some None"
  proof (rule mem.recursive_save_keeps [where P = "\<lambda>s. get_node demo_crates memdb_ops s
      (ahash demo_crates ?g) = Some None"])
    show "get_node demo_crates memdb_ops (save_node demo_crates memdb_ops s (conc demo_crates x)
        (ahash demo_crates x)) (ahash demo_crates ?g) = Some None"
      if "x \<in> unsaved ?t" "get_node demo_crates memdb_ops s (ahash demo_crates ?g) = Some None"
      for s x
      using that(2) three_keys_tree_hashes(3) [OF that(1)]
      by (simp only: get_node_def save_node_def mem.get_put_other get_node_key_inj not_False_eq_True)
  qed (simp only: get_node_def memdb_ops_simps memdb_new_get option.case)
  from insert_after_commit_panics [OF st _ _ this] st show ?thesis by auto
qed

end
