(* ===== verification/KV_Store.thy ===== *)
theory KV_Store
  imports Iavl_Version Iavl_Range
begin

text \<open>
  A module's key-value store (\<open>KVStore\<close>, \<open>ImmutablePrefixStore\<close>, \<open>MutablePrefixStore\<close> and
  \<open>PrefixRange\<close> of \<open>src/store/src/store.rs\<close>): an IAVL tree under a block cache and a
  transaction cache. The database the tree reads and writes is the state \<open>s\<close>, passed along.
\<close>

section \<open>The store\<close>

record kvstore =
  persistent_store :: tree
  block_cache :: "(bytes \<times> bytes) list"
  tx_cache :: "(bytes \<times> bytes) list"

definition kv_new ::
  "crates \<Rightarrow> 'db database_ops \<Rightarrow> 'db \<Rightarrow> u64 option \<Rightarrow> (trees_error + kvstore) option" where
  "kv_new C D s target_version =
     try_bind (tree_new C D s target_version) (\<lambda>t.
       Some (Inr \<lparr> persistent_store = t, block_cache = [], tx_cache = [] \<rparr>))"

definition kv_get ::
  "crates \<Rightarrow> 'db database_ops \<Rightarrow> 'db \<Rightarrow> kvstore \<Rightarrow> bytes \<Rightarrow> bytes option option" where
  "kv_get C D s kv key =
     (case map_of (tx_cache kv) key of
        None \<Rightarrow>
          (case map_of (block_cache kv) key of
             None \<Rightarrow> tree_get C D s (persistent_store kv) key
           | Some v \<Rightarrow> Some (Some v))
      | Some v \<Rightarrow> Some (Some v))"

definition kv_set :: "kvstore \<Rightarrow> bytes \<Rightarrow> bytes \<Rightarrow> kvstore option" where
  "kv_set kv key val =
     (if key = [] then None else Some (kv\<lparr> tx_cache := btree_insert key val (tx_cache kv) \<rparr>))"

text \<open>
  Both caches are written by going through their sorted keys, with a lookup of each key that
  is expected to succeed.
\<close>

fun write_keys ::
  "('s \<Rightarrow> bytes \<Rightarrow> bytes \<Rightarrow> 's option) \<Rightarrow> (bytes \<times> bytes) list \<Rightarrow> bytes list \<Rightarrow> 's \<Rightarrow> 's option" where
  "write_keys put cache [] s = Some s"
| "write_keys put cache (key # ks) s =
     (case map_of cache key of
        None \<Rightarrow> None
      | Some val \<Rightarrow> Option.bind (put s key val) (write_keys put cache ks))"

definition write_then_clear_tx_cache :: "kvstore \<Rightarrow> kvstore option" where
  "write_then_clear_tx_cache kv = do {
     b \<leftarrow> write_keys (\<lambda>b k v. Some (btree_insert k v b)) (tx_cache kv)
       (sort (map fst (tx_cache kv))) (block_cache kv);
     Some (kv\<lparr> block_cache := b, tx_cache := [] \<rparr>) }"

definition clear_tx_cache :: "kvstore \<Rightarrow> kvstore" where
  "clear_tx_cache kv = kv\<lparr> tx_cache := [] \<rparr>"

definition write_then_clear_block_cache ::
  "crates \<Rightarrow> 'db database_ops \<Rightarrow> 'db \<Rightarrow> kvstore \<Rightarrow> kvstore option" where
  "write_then_clear_block_cache C D s kv = do {
     t \<leftarrow> write_keys (tree_set C D s) (block_cache kv)
       (sort (map fst (block_cache kv))) (persistent_store kv);
     Some (kv\<lparr> persistent_store := t, block_cache := [] \<rparr>) }"

definition kv_commit ::
  "crates \<Rightarrow> 'db database_ops \<Rightarrow> 'db \<Rightarrow> kvstore \<Rightarrow> (bytes \<times> kvstore \<times> 'db) option" where
  "kv_commit C D s kv = do {
     kv \<leftarrow> write_then_clear_tx_cache kv;
     kv \<leftarrow> write_then_clear_block_cache C D s kv;
     ((hash, _), t, s) \<leftarrow> unwrap_result (tree_save_version C D s (persistent_store kv));
     Some (hash, kv\<lparr> persistent_store := t \<rparr>, s) }"

definition kv_head_commit_hash :: "crates \<Rightarrow> kvstore \<Rightarrow> bytes" where
  "kv_head_commit_hash C kv = tree_root_hash C (persistent_store kv)"

definition kv_last_committed_version :: "kvstore \<Rightarrow> u64" where
  "kv_last_committed_version kv = tree_loaded_version (persistent_store kv)"

text \<open>The iterator goes over the tree only.\<close>

definition kv_range ::
  "crates \<Rightarrow> 'db database_ops \<Rightarrow> 'db \<Rightarrow> kvstore \<Rightarrow> bytes bound \<Rightarrow> bytes bound \<Rightarrow>
     (bytes \<times> bytes) list option" where
  "kv_range C D s kv lo hi = range_collect C D s lo hi (tree_range (persistent_store kv))"

section \<open>Prefix stores\<close>

function kv_prefix_end_bound :: "bytes \<Rightarrow> bytes bound" where
  "kv_prefix_end_bound p =
     (if p = [] then Unbounded
      else if last p \<noteq> 255 then Excluded (butlast p @ [last p + 1])
      else kv_prefix_end_bound (butlast p))"
  by pat_completeness auto
termination
  by (relation "measure length") auto

declare kv_prefix_end_bound.simps [simp del]

definition prefix_get ::
  "crates \<Rightarrow> 'db database_ops \<Rightarrow> 'db \<Rightarrow> kvstore \<Rightarrow> bytes \<Rightarrow> bytes \<Rightarrow> bytes option option" where
  "prefix_get C D s kv p k = kv_get C D s kv (p @ k)"

definition prefix_set :: "kvstore \<Rightarrow> bytes \<Rightarrow> bytes \<Rightarrow> bytes \<Rightarrow> kvstore option" where
  "prefix_set kv p k v = kv_set kv (p @ k) v"

definition prefix_range_start :: "bytes \<Rightarrow> bytes bound \<Rightarrow> bytes bound" where
  "prefix_range_start p b =
     (case b of Included l \<Rightarrow> Included (p @ l) | Excluded l \<Rightarrow> Excluded (p @ l)
      | Unbounded \<Rightarrow> Included p)"

definition prefix_range_end :: "bytes \<Rightarrow> bytes bound \<Rightarrow> bytes bound" where
  "prefix_range_end p b =
     (case b of Included u \<Rightarrow> Included (p @ u) | Excluded u \<Rightarrow> Excluded (p @ u)
      | Unbounded \<Rightarrow> kv_prefix_end_bound p)"

text \<open>\<open>PrefixRange::next\<close> on every item: the slice panics on a key shorter than the prefix.\<close>

fun truncate_keys :: "nat \<Rightarrow> (bytes \<times> bytes) list \<Rightarrow> (bytes \<times> bytes) list option" where
  "truncate_keys n [] = Some []"
| "truncate_keys n ((k, v) # es) =
     (case slice_from n k of
        None \<Rightarrow> None
      | Some truncated_key \<Rightarrow> map_option (Cons (truncated_key, v)) (truncate_keys n es))"

definition prefix_range ::
  "crates \<Rightarrow> 'db database_ops \<Rightarrow> 'db \<Rightarrow> kvstore \<Rightarrow> bytes \<Rightarrow> bytes bound \<Rightarrow> bytes bound \<Rightarrow>
     (bytes \<times> bytes) list option" where
  "prefix_range C D s kv p lo hi = do {
     es \<leftarrow> kv_range C D s kv (prefix_range_start p lo) (prefix_range_end p hi);
     truncate_keys (length p) es }"

section \<open>Caches\<close>

text \<open>The invariant of a store's caches, and the reads of a store as one map.\<close>

definition kv_ok :: "kvstore \<Rightarrow> bool" where
  "kv_ok kv \<longleftrightarrow> btree_ok (block_cache kv) \<and> btree_ok (tx_cache kv)"

fun put_all :: "('s \<Rightarrow> bytes \<Rightarrow> bytes \<Rightarrow> 's option) \<Rightarrow> (bytes \<times> bytes) list \<Rightarrow> 's \<Rightarrow> 's option" where
  "put_all put [] s = Some s"
| "put_all put ((k, v) # es) s = Option.bind (put s k v) (put_all put es)"

lemma put_all_append:
  "put_all put (es @ fs) s = Option.bind (put_all put es s) (put_all put fs)"
  by (induction put es s rule: put_all.induct) (auto split: Option.bind_splits)

lemma write_keys_entries:
  assumes "\<forall>(k, v) \<in> set es. map_of cache k = Some v"
  shows "write_keys put cache (map fst es) s = put_all put es s"
  using assms
proof (induction es arbitrary: s)
  case (Cons e es)
  then show ?case by (cases e) (auto split: Option.bind_splits)
qed simp

lemma write_keys_cache:
  assumes "btree_ok cache"
  shows "write_keys put cache (sort (map fst cache)) s = put_all put cache s"
proof -
  have "sort (map fst cache) = map fst cache"
    using assms by (simp add: btree_ok_def sorted_sort_id strict_sorted_iff)
  then show ?thesis
    using write_keys_entries [of cache cache put s] btree_mem_get [OF assms] by auto
qed

text \<open>The block cache with the transaction cache written over it.\<close>

definition merged :: "kvstore \<Rightarrow> (bytes \<times> bytes) list" where
  "merged kv = fold (\<lambda>(k, v). btree_insert k v) (tx_cache kv) (block_cache kv)"

lemma put_all_btree:
  "put_all (\<lambda>b k v. Some (btree_insert k v b)) es b = Some (fold (\<lambda>(k, v). btree_insert k v) es b)"
  by (induction es arbitrary: b) auto

lemma fold_btree_ok [intro]:
  "btree_ok b \<Longrightarrow> btree_ok (fold (\<lambda>(k, v). btree_insert k v) es b)"
  by (induction es arbitrary: b) auto

lemma fold_btree_get:
  "distinct (map fst es) \<Longrightarrow>
     map_of (fold (\<lambda>(k, v). btree_insert k v) es b) = map_of b ++ map_of es"
proof (induction es arbitrary: b)
  case (Cons e es)
  obtain k v where e: "e = (k, v)" by (cases e)
  with Cons.prems have "k \<notin> dom (map_of es)" by (simp add: dom_map_of_conv_image_fst)
  with Cons e show ?case by (auto simp: fun_eq_iff map_add_def domIff split: option.splits)
qed simp

lemma write_tx_cache_eq:
  assumes "kv_ok kv"
  shows "write_then_clear_tx_cache kv = Some (kv\<lparr> block_cache := merged kv, tx_cache := [] \<rparr>)"
  using assms
  by (simp add: write_then_clear_tx_cache_def kv_ok_def write_keys_cache put_all_btree merged_def)

lemma merged_get:
  "kv_ok kv \<Longrightarrow> map_of (merged kv) = map_of (block_cache kv) ++ map_of (tx_cache kv)"
  by (simp add: merged_def fold_btree_get kv_ok_def btree_ok_distinct)

lemma merged_ok: "kv_ok kv \<Longrightarrow> btree_ok (merged kv)"
  by (auto simp: merged_def kv_ok_def)

lemma kv_get_merged:
  assumes "kv_ok kv"
  shows "kv_get C D s kv key =
     (case map_of (merged kv) key of
        Some v \<Rightarrow> Some (Some v)
      | None \<Rightarrow> tree_get C D s (persistent_store kv) key)"
  by (auto simp: kv_get_def merged_get [OF assms] map_add_def split: option.splits)

lemma kv_set_ok: "kv_set kv k v = Some kv' \<Longrightarrow> kv_ok kv \<Longrightarrow> kv_ok kv'"
  by (auto simp: kv_set_def kv_ok_def split: if_splits)

lemma kv_set_get:
  "kv_set kv k v = Some kv' \<Longrightarrow>
     kv_get C D s kv' key = (if key = k then Some (Some v) else kv_get C D s kv key)"
  by (auto simp: kv_set_def kv_get_def split: if_splits option.splits)

lemma write_tx_cache_get:
  assumes "kv_ok kv" "write_then_clear_tx_cache kv = Some kv'"
  shows "kv_get C D s kv' key = kv_get C D s kv key \<and> kv_ok kv'"
proof -
  have kv': "kv' = kv\<lparr> block_cache := merged kv, tx_cache := [] \<rparr>"
    using assms write_tx_cache_eq by simp
  have ok: "kv_ok kv'" using merged_ok [OF assms(1)] by (simp add: kv_ok_def kv')
  then show ?thesis
    unfolding kv_get_merged [OF ok] kv_get_merged [OF assms(1)] merged_get [OF ok]
    by (simp add: kv' split: option.splits)
qed

section \<open>Commit\<close>

text \<open>The abstract tree after inserting entries in turn.\<close>

fun grow :: "u64 \<Rightarrow> atree \<Rightarrow> (bytes \<times> bytes) list \<Rightarrow> atree" where
  "grow ver a [] = a"
| "grow ver a ((k, v) # es) = grow ver (the (ains a k v ver)) es"

text \<open>Writing ascending keys above those of a balanced tree in memory.\<close>

lemma put_all_ascending:
  assumes "tree_root t = Some (conc C a)" "hot a" "bst a" "balanced a"
    and "checked_add (tree_loaded_version t) 1 = Some ver"
    and "btree_ok es" "\<forall>x \<in> keys a. \<forall>y \<in> fst ` set es. x < y" "sz a + length es < 2 ^ 32"
  shows "put_all (tree_set C D s) es t = Some (t\<lparr> tree_root := Some (conc C (grow ver a es)) \<rparr>) \<and>
     hot (grow ver a es) \<and> bst (grow ver a es) \<and> balanced (grow ver a es) \<and>
     entries (grow ver a es) = entries a @ es"
  using assms
proof (induction es arbitrary: t a)
  case (Cons e es)
  obtain k v where e: "e = (k, v)" by (cases e)
  have "\<forall>x \<in> keys a. x < k" using Cons.prems(7) e by simp
  moreover have sz1: "sz a + 1 < 2 ^ 32" using Cons.prems(8) by simp
  ultimately obtain a1 where a1: "ains a k v ver = Some a1" "balanced a1"
    using ains_ascending [OF Cons.prems(3,4,2)] by blast
  have f: "fits a" using balanced_fits [OF Cons.prems(4)] sz1 by simp
  have "btree_insert k v (entries a) = entries a @ [(k, v)]"
    using btree_insert_right [of "entries a" k v "[]"] \<open>\<forall>x \<in> keys a. x < k\<close> by simp
  then have c1: "entries a1 = entries a @ [(k, v)]" "bst a1"
    using ains_content [OF a1(1) Cons.prems(3)] by simp_all
  have h1: "hot a1" by (rule hot_ains [OF a1(1) Cons.prems(2)])
  let ?t1 = "t\<lparr> tree_root := Some (conc C a1) \<rparr>"
  have set: "tree_set C D s t k v = Some ?t1"
    using Cons.prems(1,5) recursive_set_hot [OF Cons.prems(2) f, of C D s k v ver] a1(1)
    by (simp add: tree_set_def)
  have "\<forall>x \<in> keys a1. \<forall>y \<in> fst ` set es. x < y" "btree_ok es"
    using Cons.prems(6,7) c1(1) e by (auto simp: btree_ok_Cons)
  moreover have "sz a1 + length es < 2 ^ 32"
    using Cons.prems(8) c1(1) by (simp add: sz_entries)
  ultimately show ?case
    using Cons.IH [of ?t1 a1] h1 c1 a1 Cons.prems(5) set e by simp
qed simp

definition grown :: "u64 \<Rightarrow> (bytes \<times> bytes) list \<Rightarrow> atree" where
  "grown ver es = grow ver (ALf (fst (hd es)) (snd (hd es)) ver) (tl es)"

lemma put_all_fresh:
  assumes "tree_root t = None" "es \<noteq> []" "btree_ok es" "length es < 2 ^ 32"
    and "checked_add (tree_loaded_version t) 1 = Some ver"
  shows "put_all (tree_set C D s) es t = Some (t\<lparr> tree_root := Some (conc C (grown ver es)) \<rparr>) \<and>
     hot (grown ver es) \<and> bst (grown ver es) \<and> balanced (grown ver es) \<and>
     entries (grown ver es) = es"
proof -
  obtain k v es' where es: "es = (k, v) # es'" using assms(2) by (cases es) auto
  let ?t1 = "t\<lparr> tree_root := Some (conc C (ALf k v ver)) \<rparr>"
  have "tree_set C D s t k v = Some ?t1" using assms(1,5) by (simp add: tree_set_def)
  moreover have "put_all (tree_set C D s) es' ?t1
      = Some (?t1\<lparr> tree_root := Some (conc C (grow ver (ALf k v ver) es')) \<rparr>) \<and>
      hot (grow ver (ALf k v ver) es') \<and> bst (grow ver (ALf k v ver) es') \<and>
      balanced (grow ver (ALf k v ver) es') \<and>
      entries (grow ver (ALf k v ver) es') = entries (ALf k v ver) @ es'"
    using assms(3-5) es by (intro put_all_ascending) (auto simp: btree_ok_Cons)
  ultimately show ?thesis unfolding es by (simp add: grown_def)
qed

text \<open>Writing over existing keys, with parts of the tree in the database.\<close>

lemma put_all_overwrite:
  assumes "tree_root t = Some (conc C a)" "backed C D s a" "bst a" "balanced a" "fits a"
    and "checked_add (tree_loaded_version t) 1 = Some ver" "fst ` set es \<subseteq> keys a"
  shows "put_all (tree_set C D s) es t = Some (t\<lparr> tree_root := Some (conc C (grow ver a es)) \<rparr>) \<and>
     backed C D s (grow ver a es) \<and> bst (grow ver a es) \<and> balanced (grow ver a es) \<and>
     entries (grow ver a es) = fold (\<lambda>(k, v). btree_insert k v) es (entries a)"
  using assms
proof (induction es arbitrary: t a)
  case (Cons e es)
  obtain k v where e: "e = (k, v)" by (cases e)
  with Cons.prems(7) have "k \<in> keys a" by simp
  from ains_overwrite [OF Cons.prems(3-5) this] obtain a1 where
    a1: "ains a k v ver = Some a1" "balanced a1" by blast
  have c1: "entries a1 = btree_insert k v (entries a)" "bst a1"
    using ains_content [OF a1(1) Cons.prems(3)] by simp_all
  note r = recursive_set_conc [OF a1(1) Cons.prems(2,5)]
  let ?t1 = "t\<lparr> tree_root := Some (conc C a1) \<rparr>"
  have set: "tree_set C D s t k v = Some ?t1"
    using Cons.prems(1,6) r by (simp add: tree_set_def)
  have "fst ` set es \<subseteq> keys a1" using Cons.prems(7) c1(1) e by auto
  then show ?case
    using Cons.IH [of ?t1 a1] r c1 a1 ains_fits [OF a1(1) Cons.prems(5)] Cons.prems(6) set e
    by simp
qed simp

text \<open>Saving a new version always returns; its reads are those of the saved tree.\<close>

lemma save_new_version:
  assumes "tree_root t = Some n" "checked_add (tree_loaded_version t) 1 = Some v"
    "v \<notin> set (tree_versions t)"
  shows "tree_save_version C D s t = Some (Inr ((node_hash C n, v),
     t\<lparr> tree_root := Some (stored_form n), tree_loaded_version := v,
        tree_versions := btset_insert v (tree_versions t) \<rparr>,
     node_db_save_version C D (recursive_tree_save C D s n (node_hash C n)) v (node_hash C n)))"
  using assms by (simp add: tree_save_version_def save_tree_def Let_def clear_children_stored_form)

lemma kv_commit_eq:
  assumes "kv_ok kv" "put_all (tree_set C D s) (merged kv) (persistent_store kv) = Some t"
    and "tree_root t = Some n" "checked_add (tree_loaded_version t) 1 = Some v"
    "v \<notin> set (tree_versions t)"
  shows "kv_commit C D s kv = Some (node_hash C n,
     \<lparr> persistent_store = t\<lparr> tree_root := Some (stored_form n), tree_loaded_version := v,
        tree_versions := btset_insert v (tree_versions t) \<rparr>, block_cache = [], tx_cache = [] \<rparr>,
     node_db_save_version C D (recursive_tree_save C D s n (node_hash C n)) v (node_hash C n))"
  using assms(2) save_new_version [OF assms(3-5), of C D s]
  by (simp add: kv_commit_def write_tx_cache_eq [OF assms(1)] write_then_clear_block_cache_def
      write_keys_cache [OF merged_ok [OF assms(1)]])

context prefix_stripping
begin

text \<open>A commit whose writes return leaves a store that reads as before.\<close>

lemma kv_commit_reads:
  assumes "varint_ok C" "sha256_ok C" "kv_ok kv"
    and put: "put_all (tree_set C D s) (merged kv) (persistent_store kv)
      = Some ((persistent_store kv)\<lparr> tree_root := Some (conc C a) \<rparr>)"
    and v: "checked_add (tree_loaded_version (persistent_store kv)) 1 = Some v"
      "v \<notin> set (tree_versions (persistent_store kv))"
    and "savable C D s a"
    and reads: "\<forall>key. kv_get C D s kv key = Some (map_of (entries a) key)"
  shows "\<exists>kv' s'. kv_commit C D s kv = Some (ahash C a, kv', s') \<and>
     block_cache kv' = [] \<and> tx_cache kv' = [] \<and> kv_last_committed_version kv' = v \<and>
     stored C D s' a \<and> tree_root (persistent_store kv') = Some (conc C (cold a)) \<and>
     (\<forall>key. kv_get C D s' kv' key = kv_get C D s kv key)"
proof -
  let ?s' = "node_db_save_version C D (recursive_tree_save C D s (conc C a) (ahash C a)) v (ahash C a)"
  have st: "stored C D ?s' a"
    using save_tree_stored [OF assms(1,2,7)] by (simp add: stored_root_put)
  have "bst a" using assms(7) by (simp add: savable_def)
  with recursive_get_conc [OF stored_backed [OF st]]
  have "recursive_get C D ?s' (conc C (cold a)) key = Some (map_of (entries a) key)" for key
    by simp
  then show ?thesis
    using kv_commit_eq [OF assms(3) put] v st reads
    by (simp add: kv_get_def tree_get_def conc_cold kv_last_committed_version_def)
qed

end

section \<open>Prefix ranges\<close>

lemma kv_prefix_end_bound_eq: "kv_prefix_end_bound p = prefix_end_bound p"
  by (induction p rule: kv_prefix_end_bound.induct)
    (simp add: kv_prefix_end_bound.simps prefix_end_bound.simps)

text \<open>The bounds of the parent range admit exactly the keys with the prefix and a rest in range.\<close>

lemma prefix_range_contains:
  "range_contains (prefix_range_start p lo) (prefix_range_end p hi) k \<longleftrightarrow>
     prefix p k \<and> range_contains lo hi (drop (length p) k)"
proof (cases "prefix p k")
  case True
  then obtain r where k: "k = p @ r" by (auto simp: prefix_def)
  have "p \<le> k" using True by (rule prefix_le)
  moreover have "before_upper (kv_prefix_end_bound p) k"
    using True prefix_end_bound_iff [of p k] by (simp add: kv_prefix_end_bound_eq)
  ultimately show ?thesis
    using True by (cases lo; cases hi)
      (simp_all add: range_contains_def prefix_range_start_def prefix_range_end_def k)
next
  case False
  have up: "\<not> (p \<le> k \<and> before_upper (kv_prefix_end_bound p) k)"
    using False prefix_end_bound_iff [of p k] by (simp add: kv_prefix_end_bound_eq)
  have app: "p \<le> p @ l" for l by (rule prefix_le) simp
  have le: "p \<le> k" if "after_lower (prefix_range_start p lo) k"
    using that order_trans [OF app, of _ k] order_le_less_trans [OF app, of _ k]
    by (cases lo) (auto simp: prefix_range_start_def less_imp_le)
  have mid: "\<not> (p \<le> k \<and> k \<le> p @ u)" for u
    using False prefix_between [of p "[]" k u] by auto
  have "\<not> range_contains (prefix_range_start p lo) (prefix_range_end p hi) k"
  proof
    assume c: "range_contains (prefix_range_start p lo) (prefix_range_end p hi) k"
    then have "p \<le> k" using le by (simp add: range_contains_def)
    with c up mid show False
      by (cases hi) (auto simp: range_contains_def prefix_range_end_def dest: less_imp_le)
  qed
  with False show ?thesis by simp
qed

lemma truncate_keys_prefixed:
  "(\<And>k v. (k, v) \<in> set es \<Longrightarrow> n \<le> length k) \<Longrightarrow>
     truncate_keys n es = Some (map (\<lambda>(k, v). (drop n k, v)) es)"
  by (induction n es rule: truncate_keys.induct) (fastforce simp: slice_from_def)+

lemma prefix_range_conc:
  assumes "tree_root (persistent_store kv) = Some (conc C a)" "bst a" "backed C D s a"
  shows "prefix_range C D s kv p lo hi = Some (map (\<lambda>(k, v). (drop (length p) k, v))
     (filter (\<lambda>(k, v). prefix p k \<and> range_contains lo hi (drop (length p) k)) (entries a)))"
proof -
  let ?es = "filter (\<lambda>(k, v). prefix p k \<and> range_contains lo hi (drop (length p) k)) (entries a)"
  have "kv_range C D s kv (prefix_range_start p lo) (prefix_range_end p hi) = Some ?es"
    using range_collect_conc [of "[a]" C D s] assms
    by (simp add: kv_range_def tree_range_def prefix_range_contains split_def)
  moreover have "length p \<le> length k" if "(k, v) \<in> set ?es" for k v
    using that prefix_length_le by auto
  then have "truncate_keys (length p) ?es = Some (map (\<lambda>(k, v). (drop (length p) k, v)) ?es)"
    by (rule truncate_keys_prefixed)
  ultimately show ?thesis by (simp add: prefix_range_def)
qed

section \<open>Properties\<close>

text \<open>
  The two cache layers make transactions atomic: a value set is read back at once, and no
  other key changes; writing the transaction cache to the block cache changes no read and never
  panics; and clearing the transaction cache instead gives back exactly the store from before
  the transaction.
\<close>

theorem cache_layers:
  assumes "kv_ok kv" "tx_cache kv = []" "kv_set kv k v = Some kv1"
  shows "kv_get C D s kv1 key = (if key = k then Some (Some v) else kv_get C D s kv key) \<and>
     (\<exists>kv2. write_then_clear_tx_cache kv1 = Some kv2 \<and> tx_cache kv2 = [] \<and> kv_ok kv2 \<and>
        kv_get C D s kv2 key = kv_get C D s kv1 key) \<and>
     clear_tx_cache kv1 = kv"
proof -
  have ok: "kv_ok kv1" using kv_set_ok assms(1,3) by blast
  have "clear_tx_cache kv1 = kv"
    using assms(2,3) by (auto simp: kv_set_def clear_tx_cache_def split: if_splits)
  then show ?thesis
    using kv_set_get [OF assms(3), of C D s key] write_tx_cache_eq [OF ok]
      write_tx_cache_get [OF ok write_tx_cache_eq [OF ok], of C D s key] by auto
qed

definition demo_store_empty :: kvstore where
  "demo_store_empty = \<lparr> persistent_store = \<lparr> tree_root = None, tree_loaded_version = 0,
     tree_versions = [] \<rparr>, block_cache = [([1], [10])], tx_cache = [] \<rparr>"

theorem cache_layers_witness:
  "\<exists>kv1 kv2. kv_set demo_store_empty [2] [20] = Some kv1 \<and>
     write_then_clear_tx_cache kv1 = Some kv2 \<and>
     kv_get demo_crates memdb_ops memdb_new kv2 [2] = Some (Some [20]) \<and>
     clear_tx_cache kv1 = demo_store_empty"
proof -
  obtain kv1 where "kv_set demo_store_empty [2] [20] = Some kv1" by (simp add: kv_set_def)
  with cache_layers [OF _ _ this, of demo_crates memdb_ops memdb_new "[2]"] show ?thesis
    by (auto simp: demo_store_empty_def kv_ok_def btree_ok_def)
qed

text \<open>
  The first commit of a store: whatever was written to its caches in whatever order, the
  commit returns, the tree holds exactly the cached entries and is balanced, and, unless hashes
  of the tree collide, every read of the committed store gives what it gave before.
\<close>

theorem first_commit:
  assumes "varint_ok C" "sha256_ok C" "kv_ok kv" "tree_root (persistent_store kv) = None"
    and "merged kv \<noteq> []" "length (merged kv) < 2 ^ 32"
    and "checked_add (tree_loaded_version (persistent_store kv)) 1 = Some v"
    and "v \<notin> set (tree_versions (persistent_store kv))"
    and "savable C (prefixdb_ops (prefixdb_new memdb_ops p)) s (grown v (merged kv))"
  shows "entries (grown v (merged kv)) = merged kv \<and> balanced (grown v (merged kv)) \<and>
     (\<exists>kv' s'. kv_commit C (prefixdb_ops (prefixdb_new memdb_ops p)) s kv
        = Some (node_hash C (conc C (grown v (merged kv))), kv', s') \<and>
      block_cache kv' = [] \<and> tx_cache kv' = [] \<and> kv_last_committed_version kv' = v \<and>
      (\<forall>key. kv_get C (prefixdb_ops (prefixdb_new memdb_ops p)) s' kv' key
        = kv_get C (prefixdb_ops (prefixdb_new memdb_ops p)) s kv key))"
proof -
  let ?D = "prefixdb_ops (prefixdb_new memdb_ops p)"
  note put = put_all_fresh [OF assms(4,5) merged_ok [OF assms(3)] assms(6,7), of C ?D s]
  have "\<forall>key. kv_get C ?D s kv key = Some (map_of (entries (grown v (merged kv))) key)"
    using put assms(4)
    by (auto simp: kv_get_merged [OF assms(3)] tree_get_def split: option.splits)
  with mem_prefixed.stripped.kv_commit_reads [OF assms(1-3) _ assms(7-9)] put
  show ?thesis by blast
qed

theorem first_commit_witness:
  "\<exists>kv' s'. kv_commit demo_crates (prefixdb_ops (prefixdb_new memdb_ops [7])) memdb_new
       demo_store_empty = Some (ahash demo_crates (ALf [1] [10] 1), kv', s') \<and>
     kv_get demo_crates (prefixdb_ops (prefixdb_new memdb_ops [7])) s' kv' [1] = Some (Some [10])"
proof -
  have m: "merged demo_store_empty = [([1], [10])]"
    by (simp add: merged_def demo_store_empty_def)
  have g: "grown 1 [([1], [10])] = ALf [1] [10] 1" by (simp add: grown_def)
  have sv: "savable demo_crates (prefixdb_ops (prefixdb_new memdb_ops [7])) memdb_new
      (ALf [1] [10] 1)"
    by (simp add: savable_def demo_eval inj_on_insert EMPTY_HASH_def)
  have "kv_get demo_crates (prefixdb_ops (prefixdb_new memdb_ops [7])) memdb_new
      demo_store_empty [1] = Some (Some [10])"
    by (simp add: kv_get_def demo_store_empty_def)
  with first_commit [OF demo_crates_varint demo_crates_sha256, of demo_store_empty 1 "[7]" memdb_new]
    m g sv show ?thesis
    by (auto simp: demo_store_empty_def kv_ok_def btree_ok_def checked_add_def)
qed

text \<open>
  A commit that only overwrites existing keys of a balanced tree, parts or all of which are
  only in the database, returns; the new tree is balanced, holds the old entries updated with
  the cached ones, and, unless its hashes collide, every read is as before the commit.
\<close>

theorem overwriting_commit:
  assumes "varint_ok C" "sha256_ok C" "kv_ok kv"
    and "tree_root (persistent_store kv) = Some (conc C a)"
    and "backed C (prefixdb_ops (prefixdb_new memdb_ops p)) s a" "bst a" "balanced a" "fits a"
    and "fst ` set (merged kv) \<subseteq> keys a"
    and "checked_add (tree_loaded_version (persistent_store kv)) 1 = Some v"
    and "v \<notin> set (tree_versions (persistent_store kv))"
    and "savable C (prefixdb_ops (prefixdb_new memdb_ops p)) s (grow v a (merged kv))"
  shows "entries (grow v a (merged kv)) = fold (\<lambda>(k, v). btree_insert k v) (merged kv) (entries a) \<and>
     balanced (grow v a (merged kv)) \<and>
     (\<exists>kv' s'. kv_commit C (prefixdb_ops (prefixdb_new memdb_ops p)) s kv
        = Some (node_hash C (conc C (grow v a (merged kv))), kv', s') \<and>
      (\<forall>key. kv_get C (prefixdb_ops (prefixdb_new memdb_ops p)) s' kv' key
        = kv_get C (prefixdb_ops (prefixdb_new memdb_ops p)) s kv key))"
proof -
  let ?D = "prefixdb_ops (prefixdb_new memdb_ops p)"
  note put = put_all_overwrite [OF assms(4-8,10,9)]
  have "map_of (entries (grow v a (merged kv))) = map_of (entries a) ++ map_of (merged kv)"
    using put fold_btree_get [OF btree_ok_distinct [OF merged_ok [OF assms(3)]]] by simp
  moreover have "recursive_get C ?D s (conc C a) key = Some (map_of (entries a) key)" for key
    by (rule recursive_get_conc [OF assms(5,6)])
  ultimately have "\<forall>key. kv_get C ?D s kv key = Some (map_of (entries (grow v a (merged kv))) key)"
    using assms(4)
    by (auto simp: kv_get_merged [OF assms(3)] tree_get_def map_add_def split: option.splits)
  with mem_prefixed.stripped.kv_commit_reads [OF assms(1-3) _ assms(10-12)] put
  show ?thesis by blast
qed

theorem overwriting_commit_witness:
  "\<exists>kv' s'. kv_commit demo_crates (prefixdb_ops (prefixdb_new memdb_ops [7])) memdb_new
       \<lparr> persistent_store = \<lparr> tree_root = Some (conc demo_crates (ALf [1] [9] 1)),
           tree_loaded_version = 1, tree_versions = [1] \<rparr>,
         block_cache = [([1], [10])], tx_cache = [] \<rparr>
       = Some (ahash demo_crates (ALf [1] [10] 2), kv', s') \<and>
     kv_get demo_crates (prefixdb_ops (prefixdb_new memdb_ops [7])) s' kv' [1] = Some (Some [10])"
proof -
  let ?kv = "\<lparr> persistent_store = \<lparr> tree_root = Some (conc demo_crates (ALf [1] [9] 1)),
           tree_loaded_version = 1, tree_versions = [1] \<rparr>,
         block_cache = [([1], [10])], tx_cache = [] \<rparr>"
  have m: "merged ?kv = [([1], [10])]" by (simp add: merged_def)
  have sv: "savable demo_crates (prefixdb_ops (prefixdb_new memdb_ops [7])) memdb_new
      (ALf [1] [10] 2)"
    by (simp add: savable_def demo_eval inj_on_insert EMPTY_HASH_def)
  have "kv_get demo_crates (prefixdb_ops (prefixdb_new memdb_ops [7])) memdb_new ?kv [1]
      = Some (Some [10])"
    by (simp add: kv_get_def)
  with overwriting_commit [OF demo_crates_varint demo_crates_sha256, of ?kv "ALf [1] [9] 1" "[7]"
      memdb_new 2] m sv show ?thesis
    by (auto simp: kv_ok_def btree_ok_def checked_add_def fits_def)
qed

text \<open>
  Iterating over a range of a prefix store yields exactly the entries of the tree whose key
  starts with the prefix and continues with a key in the range, with the prefix removed, in key
  order; for any combination of bounds, and the slice of the key never panics.
\<close>

theorem prefix_range_exact:
  assumes "tree_root (persistent_store kv) = Some (conc C a)" "bst a" "backed C D s a"
  shows "prefix_range C D s kv p lo hi = Some (map (\<lambda>(k, v). (drop (length p) k, v))
     (filter (\<lambda>(k, v). prefix p k \<and> range_contains lo hi (drop (length p) k)) (entries a)))"
  by (rule prefix_range_conc [OF assms])

theorem prefix_range_exact_witness:
  "prefix_range demo_crates memdb_ops memdb_new
     \<lparr> persistent_store = \<lparr> tree_root = Some (conc demo_crates
         (ANd True (ALf [2, 1] [10] 1) [2, 255] 1 (ALf [2, 255] [20] 1) True)),
         tree_loaded_version = 1, tree_versions = [1] \<rparr>, block_cache = [], tx_cache = [] \<rparr>
     [2] (Excluded [1]) Unbounded = Some [([255], [20])]"
  using prefix_range_exact [of "\<lparr> persistent_store = \<lparr> tree_root = Some (conc demo_crates
         (ANd True (ALf [2, 1] [10] 1) [2, 255] 1 (ALf [2, 255] [20] 1) True)),
         tree_loaded_version = 1, tree_versions = [1] \<rparr>, block_cache = [], tx_cache = [] \<rparr>"
      demo_crates "ANd True (ALf [2, 1] [10] 1) [2, 255] 1 (ALf [2, 255] [20] 1) True"
      memdb_ops memdb_new "[2]" "Excluded [1]" Unbounded]
  by (simp add: range_contains_def)

end
