(* ===== verification/Store_Hash.thy ===== *)
theory Store_Hash
  imports Merkle "HOL-Library.Multiset"
begin

text \<open>
  The hash of the multi store (\<open>src/store/src/hash.rs\<close>): the name and the root hash of every
  store, as key-value pairs in sorted order, under the Merkle root. Since the stores are held in
  a hash map, the order in which they are visited is arbitrary; the hash does not depend on it,
  and it commits to every store's root hash.
\<close>

section \<open>Pairs\<close>

record store_info =
  info_name :: bytes
  info_hash :: bytes

datatype pair = Pair (pair_key: bytes) (pair_value: bytes)

text \<open>The derived order of \<open>Pair\<close>: the key, then the value.\<close>

instantiation pair :: linorder
begin

definition less_eq_pair :: "pair \<Rightarrow> pair \<Rightarrow> bool" where
  "less_eq_pair p q \<longleftrightarrow>
     pair_key p < pair_key q \<or> pair_key p = pair_key q \<and> pair_value p \<le> pair_value q"

definition less_pair :: "pair \<Rightarrow> pair \<Rightarrow> bool" where
  "less_pair p q \<longleftrightarrow>
     pair_key p < pair_key q \<or> pair_key p = pair_key q \<and> pair_value p < pair_value q"

instance
proof
  fix p q r :: pair
  show "p < q \<longleftrightarrow> p \<le> q \<and> \<not> q \<le> p"
    by (auto simp: less_eq_pair_def less_pair_def)
  show "p \<le> p" by (simp add: less_eq_pair_def)
  show "p \<le> q \<Longrightarrow> q \<le> r \<Longrightarrow> p \<le> r"
    by (auto simp: less_eq_pair_def intro: order_trans)
  show "p \<le> q \<Longrightarrow> q \<le> p \<Longrightarrow> p = q"
    by (cases p; cases q) (auto simp: less_eq_pair_def)
  show "p \<le> q \<or> q \<le> p"
    by (auto simp: less_eq_pair_def)
qed

end

definition pair_to_bytes :: "crates \<Rightarrow> pair \<Rightarrow> bytes" where
  "pair_to_bytes C p =
     (let key_length = enc_usize C (of_nat (length (pair_key p)));
          value_length = enc_usize C (of_nat (length (pair_value p)))
      in concat [key_length, pair_key p, value_length, pair_value p])"

definition pair_from_store_info :: "crates \<Rightarrow> store_info \<Rightarrow> pair" where
  "pair_from_store_info C info = Pair (info_name info) (sha256 C (info_hash info))"

definition hash_store_infos :: "crates \<Rightarrow> store_info list \<Rightarrow> bytes option" where
  "hash_store_infos C store_infos =
     (if length store_infos = 0 then None
      else (let pairs = sort (map (pair_from_store_info C) store_infos);
                byte_pairs = map (pair_to_bytes C) pairs
            in root_hash C byte_pairs))"

section \<open>Facts\<close>

lemma hash_store_infos_total:
  "store_infos \<noteq> [] \<Longrightarrow> \<exists>h. hash_store_infos C store_infos = Some h"
  using root_hash_total by (simp add: hash_store_infos_def Let_def)

lemma sort_mset_eq:
  fixes xs ys :: "'a::linorder list"
  shows "mset xs = mset ys \<Longrightarrow> sort xs = sort ys"
  by (metis mset_sort properties_for_sort sorted_sort)

lemma hash_store_infos_perm:
  assumes "mset xs = mset ys"
  shows "hash_store_infos C xs = hash_store_infos C ys"
proof -
  have "mset (map (pair_from_store_info C) xs) = mset (map (pair_from_store_info C) ys)"
    using assms by simp
  from sort_mset_eq [OF this] show ?thesis
    using mset_eq_length [OF assms] by (simp only: hash_store_infos_def Let_def)
qed

lemma pair_to_bytes_inj:
  assumes "varint_ok C" "length (pair_key p) < 2 ^ 64" "length (pair_key q) < 2 ^ 64"
    and "pair_to_bytes C p = pair_to_bytes C q"
  shows "p = q"
proof -
  have e: "enc_usize C (of_nat (length (pair_key p))) @ pair_key p @
        enc_usize C (of_nat (length (pair_value p))) @ pair_value p
      = enc_usize C (of_nat (length (pair_key q))) @ pair_key q @
        enc_usize C (of_nat (length (pair_value q))) @ pair_value q"
    using assms(4) by (simp add: pair_to_bytes_def Let_def)
  from varint_usizeD [OF assms(1) this]
  have l: "(of_nat (length (pair_key p)) :: u64) = of_nat (length (pair_key q))"
    and r: "pair_key p @ enc_usize C (of_nat (length (pair_value p))) @ pair_value p
      = pair_key q @ enc_usize C (of_nat (length (pair_value q))) @ pair_value q" by blast+
  have "length (pair_key p) = length (pair_key q)"
    using assms(2,3) l by (intro of_nat_inj_bounded [where 'a = 64]) simp_all
  with r have k: "pair_key p = pair_key q"
    and "enc_usize C (of_nat (length (pair_value p))) @ pair_value p
      = enc_usize C (of_nat (length (pair_value q))) @ pair_value q" by simp_all
  from varint_usizeD [OF assms(1) this(2)] k show ?thesis
    by (cases p; cases q) simp
qed

lemma image_mset_inj_eq:
  assumes "inj_on f S" "image_mset f A = image_mset f B" "set_mset A \<union> set_mset B \<subseteq> S"
  shows "A = B"
proof -
  have "image_mset (inv_into S f) (image_mset f M) = M" if "set_mset M \<subseteq> S" for M
  proof -
    have "image_mset (\<lambda>x. inv_into S f (f x)) M = image_mset (\<lambda>x. x) M"
      using that assms(1) by (intro image_mset_cong) auto
    then show ?thesis by (simp add: image_mset.compositionality comp_def)
  qed
  with assms(2,3) show ?thesis by (metis Un_subset_iff)
qed

text \<open>Everything hashed for a list of stores: the root hashes, and the nodes of the Merkle tree.\<close>

definition store_inputs :: "crates \<Rightarrow> store_info list \<Rightarrow> bytes set" where
  "store_inputs C xs = info_hash ` set xs \<union>
     set (merkle_inputs C (map (pair_to_bytes C) (sort (map (pair_from_store_info C) xs))))"

lemma hash_store_infos_bind:
  assumes "varint_ok C" "sha256_ok C" "sha256 C [] = EMPTY_HASH"
    and names: "\<forall>i \<in> set xs \<union> set ys. length (info_name i) < 2 ^ 64"
    and inj: "inj_on (sha256 C) (store_inputs C xs \<union> store_inputs C ys)"
    and "xs \<noteq> []" "ys \<noteq> []" "hash_store_infos C xs = hash_store_infos C ys"
  shows "mset xs = mset ys"
proof -
  let ?P = "\<lambda>xs. sort (map (pair_from_store_info C) xs)"
  have "root_hash C (map (pair_to_bytes C) (?P xs)) = root_hash C (map (pair_to_bytes C) (?P ys))"
    using assms(6-8) by (simp add: hash_store_infos_def Let_def)
  then have bytes: "map (pair_to_bytes C) (?P xs) = map (pair_to_bytes C) (?P ys)"
    using inj by (intro merkle_binding_aux [OF assms(2,3)])
      (auto simp: store_inputs_def intro: inj_on_subset)
  have "inj_on (pair_to_bytes C) (set (?P xs) \<union> set (?P ys))"
  proof (rule inj_onI)
    fix p q assume pq: "p \<in> set (?P xs) \<union> set (?P ys)" "q \<in> set (?P xs) \<union> set (?P ys)"
      "pair_to_bytes C p = pair_to_bytes C q"
    have "length (pair_key p) < 2 ^ 64" "length (pair_key q) < 2 ^ 64"
      using names pq(1,2) by (auto simp: pair_from_store_info_def)
    from pair_to_bytes_inj [OF assms(1) this pq(3)] show "p = q" .
  qed
  from map_inj_on [OF bytes this] have "?P xs = ?P ys" .
  then have "mset (map (pair_from_store_info C) xs) = mset (map (pair_from_store_info C) ys)"
    by (metis mset_sort)
  then have im: "image_mset (pair_from_store_info C) (mset xs)
      = image_mset (pair_from_store_info C) (mset ys)" by simp
  have "inj_on (pair_from_store_info C) (set xs \<union> set ys)"
  proof (rule inj_onI)
    fix i j assume ij: "i \<in> set xs \<union> set ys" "j \<in> set xs \<union> set ys"
      "pair_from_store_info C i = pair_from_store_info C j"
    then have e: "info_name i = info_name j" "sha256 C (info_hash i) = sha256 C (info_hash j)"
      by (simp_all add: pair_from_store_info_def)
    have "info_hash x \<in> store_inputs C xs \<union> store_inputs C ys"
      if "x \<in> set xs \<union> set ys" for x using that by (auto simp: store_inputs_def)
    with inj_onD [OF inj e(2)] ij(1,2) have "info_hash i = info_hash j" by blast
    with e(1) show "i = j" by simp
  qed
  from image_mset_inj_eq [OF this im] show ?thesis by simp
qed

section \<open>Properties\<close>

definition demo_store :: "u8 \<Rightarrow> u8 \<Rightarrow> store_info" where
  "demo_store name hash = \<lparr> info_name = [name], info_hash = [hash] \<rparr>"

text \<open>
  The hash of the multi store does not depend on the order in which the stores are visited,
  and exists (no panic) as soon as there is a store.
\<close>

theorem store_hash_order_independent:
  assumes "mset xs = mset ys" "xs \<noteq> []"
  shows "\<exists>h. hash_store_infos C xs = Some h \<and> hash_store_infos C ys = Some h"
  using hash_store_infos_perm [OF assms(1)] hash_store_infos_total [OF assms(2)] by metis

theorem store_hash_order_independent_witness:
  "hash_store_infos demo_crates [demo_store 98 1, demo_store 97 2]
   = hash_store_infos demo_crates [demo_store 97 2, demo_store 98 1]"
proof -
  have "mset [demo_store 98 1, demo_store 97 2] = mset [demo_store 97 2, demo_store 98 1]"
    by (simp add: add_mset_commute)
  from store_hash_order_independent [OF this, of demo_crates] show ?thesis by auto
qed

text \<open>
  (C35) The hash of the multi store commits to the names and root hashes of all its stores: two
  non-empty collections of stores with the same hash are the same, unless two of the strings
  hashed for them collide.
\<close>

theorem store_hash_binds_stores:
  assumes "varint_ok C" "sha256_ok C" "sha256 C [] = EMPTY_HASH"
    and "\<forall>i \<in> set xs \<union> set ys. length (info_name i) < 2 ^ 64"
    and "inj_on (sha256 C) (store_inputs C xs \<union> store_inputs C ys)"
    and "xs \<noteq> []" "ys \<noteq> []" "hash_store_infos C xs = hash_store_infos C ys"
  shows "mset xs = mset ys"
  by (rule hash_store_infos_bind [OF assms])

lemma merkle_demo_varint: "varint_ok merkle_demo"
  using demo_crates_varint by (simp add: varint_ok_def merkle_demo_def)

theorem store_hash_binds_stores_witness:
  "hash_store_infos merkle_demo [demo_store 97 2] \<noteq> hash_store_infos merkle_demo [demo_store 97 3]"
proof
  assume eq: "hash_store_infos merkle_demo [demo_store 97 2] = hash_store_infos merkle_demo [demo_store 97 3]"
  have "mset [demo_store 97 2] = mset [demo_store 97 3]"
  proof (rule store_hash_binds_stores [OF merkle_demo_varint merkle_demo_sha256 _ _ _ _ _ eq])
    show "inj_on (sha256 merkle_demo)
        (store_inputs merkle_demo [demo_store 97 2] \<union> store_inputs merkle_demo [demo_store 97 3])"
      by (simp add: store_inputs_def merkle_inputs.simps merkle_demo_def pair_from_store_info_def
          pair_to_bytes_def demo_crates_def leb_enc.simps LEAF_PREFIX_def checksum_def
          EMPTY_HASH_def Let_def demo_store_def)
  qed (simp_all add: merkle_demo_def demo_store_def)
  then show False by (simp add: demo_store_def)
qed

end
