(* ===== verification/Multi_Store.thy ===== *)
theory Multi_Store
  imports KV_Store Store_Hash
begin

text \<open>
  The multi store (\<open>MultiStore\<close> of \<open>src/store/src/store.rs\<close>): one key-value store per module,
  all in one database, each under its name as prefix. The hash map of stores is a list, whose
  order stands for the map's arbitrary iteration order; the database state is passed along.
\<close>

section \<open>The store\<close>

record multistore =
  head_version :: u64
  head_commit_hash :: bytes
  stores :: "(bytes \<times> kvstore) list"

abbreviation module_db :: "'db database_ops \<Rightarrow> bytes \<Rightarrow> 'db database_ops" where
  "module_db D name \<equiv> prefixdb_ops (prefixdb_new D name)"

text \<open>
  \<open>SK::iter()\<close> gives the names; the head version is that of the last store.
\<close>

fun open_stores ::
  "crates \<Rightarrow> 'db database_ops \<Rightarrow> 'db \<Rightarrow> bytes list \<Rightarrow> u64 \<Rightarrow>
     (u64 \<times> store_info list \<times> (bytes \<times> kvstore) list) option" where
  "open_stores C D s [] head = Some (head, [], [])"
| "open_stores C D s (name # names) head = do {
     kv_store \<leftarrow> unwrap_result (kv_new C (module_db D name) s None);
     (head, infos, kvs) \<leftarrow> open_stores C D s names (kv_last_committed_version kv_store);
     Some (head, \<lparr> info_name = name, info_hash = kv_head_commit_hash C kv_store \<rparr> # infos,
       (name, kv_store) # kvs) }"

definition multi_new ::
  "crates \<Rightarrow> 'db database_ops \<Rightarrow> 'db \<Rightarrow> bytes list \<Rightarrow> multistore option" where
  "multi_new C D s names = do {
     (head, store_infos, kvs) \<leftarrow> open_stores C D s names 0;
     hash \<leftarrow> hash_store_infos C store_infos;
     Some \<lparr> head_version = head, head_commit_hash = hash, stores = kvs \<rparr> }"

definition get_kv_store :: "multistore \<Rightarrow> bytes \<Rightarrow> kvstore option" where
  "get_kv_store ms name = map_of (stores ms) name"

text \<open>What the holder of a mutable reference to a store writes back.\<close>

definition set_kv_store :: "multistore \<Rightarrow> bytes \<Rightarrow> kvstore \<Rightarrow> multistore" where
  "set_kv_store ms name kv =
     ms\<lparr> stores := map (\<lambda>(n, k). (n, if n = name then kv else k)) (stores ms) \<rparr>"

fun write_all_tx_caches :: "(bytes \<times> kvstore) list \<Rightarrow> (bytes \<times> kvstore) list option" where
  "write_all_tx_caches [] = Some []"
| "write_all_tx_caches ((name, kv) # kvs) = do {
     kv \<leftarrow> write_then_clear_tx_cache kv;
     kvs \<leftarrow> write_all_tx_caches kvs;
     Some ((name, kv) # kvs) }"

definition write_then_clear_tx_caches :: "multistore \<Rightarrow> multistore option" where
  "write_then_clear_tx_caches ms =
     map_option (\<lambda>kvs. ms\<lparr> stores := kvs \<rparr>) (write_all_tx_caches (stores ms))"

definition clear_tx_caches :: "multistore \<Rightarrow> multistore" where
  "clear_tx_caches ms = ms\<lparr> stores := map (\<lambda>(n, kv). (n, clear_tx_cache kv)) (stores ms) \<rparr>"

fun commit_stores ::
  "crates \<Rightarrow> 'db database_ops \<Rightarrow> 'db \<Rightarrow> (bytes \<times> kvstore) list \<Rightarrow>
     (store_info list \<times> (bytes \<times> kvstore) list \<times> 'db) option" where
  "commit_stores C D s [] = Some ([], [], s)"
| "commit_stores C D s ((name, kv) # kvs) = do {
     (hash, kv, s) \<leftarrow> kv_commit C (module_db D name) s kv;
     (store_infos, kvs, s) \<leftarrow> commit_stores C D s kvs;
     Some (\<lparr> info_name = name, info_hash = hash \<rparr> # store_infos, (name, kv) # kvs, s) }"

definition multi_commit ::
  "crates \<Rightarrow> 'db database_ops \<Rightarrow> 'db \<Rightarrow> multistore \<Rightarrow> (bytes \<times> multistore \<times> 'db) option" where
  "multi_commit C D s ms = do {
     (store_infos, kvs, s) \<leftarrow> commit_stores C D s (stores ms);
     hash \<leftarrow> hash_store_infos C store_infos;
     head \<leftarrow> checked_add (head_version ms) 1;
     Some (hash, ms\<lparr> head_commit_hash := hash, head_version := head, stores := kvs \<rparr>, s) }"

definition set_head_version :: "multistore \<Rightarrow> u64 \<Rightarrow> multistore" where
  "set_head_version ms ver = ms\<lparr> head_version := ver \<rparr>"

definition set_head_commit_hash :: "multistore \<Rightarrow> bytes \<Rightarrow> multistore" where
  "set_head_commit_hash ms hash = ms\<lparr> head_commit_hash := hash \<rparr>"

section \<open>Reading depends only on what the database returns\<close>

lemma get_node_cong: "db_get D t = db_get D s \<Longrightarrow> get_node C D t = get_node C D s"
  by (simp add: get_node_def fun_eq_iff)

lemma accessors_cong:
  assumes "db_get D t = db_get D s"
  shows "get_left_node C D t = get_left_node C D s" "get_right_node C D t = get_right_node C D s"
    "get_mut_left_node C D t = get_mut_left_node C D s"
    "get_mut_right_node C D t = get_mut_right_node C D s"
    "get_balance_factor C D t = get_balance_factor C D s" "child_dims C D t = child_dims C D s"
    "right_rotate C D t = right_rotate C D s" "left_rotate C D t = left_rotate C D s"
    "rebalance C D t = rebalance C D s"
proof -
  note g = get_node_cong [OF assms]
  show 1: "get_left_node C D t = get_left_node C D s" "get_right_node C D t = get_right_node C D s"
    "get_mut_left_node C D t = get_mut_left_node C D s"
    "get_mut_right_node C D t = get_mut_right_node C D s"
    unfolding get_left_node_def get_right_node_def get_mut_left_node_def
      get_mut_right_node_def g by (rule refl)+
  show 2: "get_balance_factor C D t = get_balance_factor C D s" "child_dims C D t = child_dims C D s"
    unfolding get_balance_factor_def child_dims_def 1 by (rule refl)+
  show 3: "right_rotate C D t = right_rotate C D s" "left_rotate C D t = left_rotate C D s"
    unfolding right_rotate_def left_rotate_def 1 2 by (rule refl)+
  show "rebalance C D t = rebalance C D s"
    unfolding rebalance_def 1 2 3 by (rule refl)
qed

lemma recursive_get_cong_Some:
  assumes "db_get D t = db_get D s"
  shows "recursive_get C D s n key = Some v \<Longrightarrow> recursive_get C D t n key = Some v"
proof -
  note acc = accessors_cong [OF assms]
  have "C' = C \<and> D' = D \<and> s' = s \<longrightarrow> recursive_get C D t n key = Some v"
    if "recursive_get C' D' s' n key = Some v" for C' D' s' n key v
    using that
  proof (induction rule: recursive_get.raw_induct [rotated, consumes 1])
    case (1 rec C' D' s' n key v)
    show ?case
    proof
      assume e: "C' = C \<and> D' = D \<and> s' = s"
      from 1(2) 1(1) [of C D s] show "recursive_get C D t n key = Some v"
        by (subst recursive_get.simps)
          (auto simp: e acc bind_eq_Some_conv split: node.splits if_splits)
    qed
  qed
  then show "recursive_get C D s n key = Some v \<Longrightarrow> recursive_get C D t n key = Some v" by blast
qed

lemma recursive_set_cong_Some:
  assumes "db_get D t = db_get D s"
  shows "recursive_set C D s n key val ver = Some v \<Longrightarrow> recursive_set C D t n key val ver = Some v"
proof -
  note acc = accessors_cong [OF assms]
  have "C' = C \<and> D' = D \<and> s' = s \<longrightarrow> recursive_set C D t n key val ver = Some v"
    if "recursive_set C' D' s' n key val ver = Some v" for C' D' s' n key val ver v
    using that
  proof (induction rule: recursive_set.raw_induct [rotated, consumes 1])
    case (1 rec C' D' s' n key val ver v)
    show ?case
    proof
      assume e: "C' = C \<and> D' = D \<and> s' = s"
      from 1(2) 1(1) [of C D s] show "recursive_set C D t n key val ver = Some v"
        by (subst recursive_set.simps)
          (auto simp: e acc bind_eq_Some_conv split: node.splits if_splits)
    qed
  qed
  then show "recursive_set C D s n key val ver = Some v \<Longrightarrow>
    recursive_set C D t n key val ver = Some v" by blast
qed

lemma Some_ext: "(\<And>v. x = Some v \<longleftrightarrow> y = Some v) \<Longrightarrow> x = y"
  by (cases x; cases y) auto

lemma tree_cong:
  assumes "db_get D t = db_get D s"
  shows "tree_get C D t = tree_get C D s" "tree_set C D t = tree_set C D s"
proof -
  have "recursive_get C D t n k = recursive_get C D s n k" for n k
    using recursive_get_cong_Some [OF assms] recursive_get_cong_Some [OF assms [symmetric]]
    by (intro Some_ext) blast
  then show "tree_get C D t = tree_get C D s"
    by (intro ext) (simp add: tree_get_def split: option.splits)
  have "recursive_set C D t n k v w = recursive_set C D s n k v w" for n k v w
    using recursive_set_cong_Some [OF assms] recursive_set_cong_Some [OF assms [symmetric]]
    by (intro Some_ext) blast
  then show "tree_set C D t = tree_set C D s"
    by (intro ext) (unfold tree_set_def, simp only:)
qed

context database
begin

lemma recursive_tree_save_view:
  "db_get D t = db_get D s \<Longrightarrow>
     db_get D (recursive_tree_save C D t n h) = db_get D (recursive_tree_save C D s n h)"
proof -
  have "E = D \<longrightarrow> (\<forall>t. db_get D t = db_get D s \<longrightarrow>
      db_get D (recursive_tree_save C E t n h) = db_get D (recursive_tree_save C E s n h))" for E
  proof (induction C E s n h rule: recursive_tree_save.induct)
    case (1 C E s l r k h z lh rh v hash)
    show ?case
    proof (intro impI allI)
      fix t assume E: "E = D" and t: "db_get D t = db_get D s"
      let ?L = "\<lambda>s. case l of Some ln \<Rightarrow> recursive_tree_save C E s ln lh | None \<Rightarrow> s"
      let ?R = "\<lambda>s. case r of Some rn \<Rightarrow> recursive_tree_save C E s rn rh | None \<Rightarrow> s"
      have L: "db_get D (?L t) = db_get D (?L s)"
      proof (cases l)
        case (Some ln)
        from 1(1) [OF this] E t show ?thesis unfolding Some option.case by blast
      qed (use t in \<open>simp only: option.case\<close>)
      have "db_get D (?R (?L t)) = db_get D (?R (?L s))"
      proof (cases r)
        case (Some rn)
        from 1(2) [OF refl this] E L show ?thesis unfolding Some option.case by blast
      qed (use L in \<open>simp only: option.case\<close>)
      then show "db_get D (recursive_tree_save C E t (Inner (InnerNode l r k h z lh rh v)) hash)
          = db_get D (recursive_tree_save C E s (Inner (InnerNode l r k h z lh rh v)) hash)"
        unfolding recursive_tree_save.simps Let_def E save_node_def get_put by (simp only:)
    qed
  qed (simp add: save_node_def get_put)
  then show "db_get D t = db_get D s \<Longrightarrow>
     db_get D (recursive_tree_save C D t n h) = db_get D (recursive_tree_save C D s n h)" by blast
qed

lemma tree_save_version_view:
  assumes "db_get D t = db_get D s" "tree_save_version C D s tr = Some (Inr (r, tr', s'))"
  shows "\<exists>t'. tree_save_version C D t tr = Some (Inr (r, tr', t')) \<and> db_get D t' = db_get D s'"
proof -
  have root: "get_root_hash C D t v = get_root_hash C D s v" for v
    by (simp add: get_root_hash_def assms(1))
  obtain v where v: "checked_add (tree_loaded_version tr) 1 = Some v"
    using assms(2) by (auto simp: tree_save_version_def bind_eq_Some_conv)
  show ?thesis
  proof (cases "v \<in> set (tree_versions tr)")
    case True
    with assms v show ?thesis
      by (auto simp: tree_save_version_def root bind_eq_Some_conv Let_def split: if_splits)
  next
    case False
    with assms v recursive_tree_save_view [OF assms(1)] show ?thesis
      by (cases "tree_root tr")
        (auto simp: tree_save_version_def save_tree_def node_db_save_version_def get_put Let_def)
  qed
qed

lemma kv_commit_view:
  assumes "db_get D t = db_get D s" "kv_commit C D s kv = Some (h, kv', s')"
  shows "\<exists>t'. kv_commit C D t kv = Some (h, kv', t') \<and> db_get D t' = db_get D s'"
proof -
  from assms(2) obtain kv1 kv2 v tr where
    1: "write_then_clear_tx_cache kv = Some kv1" "write_then_clear_block_cache C D s kv1 = Some kv2"
    and 2: "tree_save_version C D s (persistent_store kv2) = Some (Inr ((h, v), tr, s'))"
    and 3: "kv' = kv2\<lparr> persistent_store := tr \<rparr>"
    by (auto simp: kv_commit_def bind_eq_Some_conv unwrap_result_Some)
  from tree_save_version_view [OF assms(1) 2] obtain t' where
    t': "tree_save_version C D t (persistent_store kv2) = Some (Inr ((h, v), tr, t'))"
      "db_get D t' = db_get D s'" by blast
  have "write_then_clear_block_cache C D t kv1 = Some kv2"
    using 1(2) by (simp add: write_then_clear_block_cache_def tree_cong [OF assms(1)])
  with 1(1) t'(1) 3 have "kv_commit C D t kv = Some (h, kv', t')" by (simp add: kv_commit_def)
  with t'(2) show ?thesis by blast
qed

lemma kv_get_view:
  assumes "db_get D t = db_get D s"
  shows "kv_get C D t kv key = kv_get C D s kv key"
  unfolding kv_get_def tree_cong(1) [OF assms] by (rule refl)

text \<open>A property kept by every write is kept by a commit.\<close>

lemma recursive_tree_save_keeps:
  assumes "\<And>s k v. P s \<Longrightarrow> P (db_put D s k v)"
  shows "P s \<Longrightarrow> P (recursive_tree_save C D s n h)"
proof -
  have "E = D \<longrightarrow> P s \<longrightarrow> P (recursive_tree_save C E s n h)" for E
  proof (induction C E s n h rule: recursive_tree_save.induct)
    case (1 C E s l r k h z lh rh v hash)
    show ?case
    proof (intro impI)
      assume E: "E = D" and s: "P s"
      let ?L = "case l of Some ln \<Rightarrow> recursive_tree_save C E s ln lh | None \<Rightarrow> s"
      let ?R = "case r of Some rn \<Rightarrow> recursive_tree_save C E ?L rn rh | None \<Rightarrow> ?L"
      have "P ?L" using 1(1) E s by (cases l) simp_all
      then have "P ?R" using 1(2) [OF refl] E by (cases r) simp_all
      then show "P (recursive_tree_save C E s (Inner (InnerNode l r k h z lh rh v)) hash)"
        unfolding recursive_tree_save.simps Let_def save_node_def E by (rule assms)
    qed
  qed (auto simp: save_node_def intro!: assms)
  then show "P s \<Longrightarrow> P (recursive_tree_save C D s n h)" by blast
qed

lemma kv_commit_keeps:
  assumes put: "\<And>s k v. P s \<Longrightarrow> P (db_put D s k v)"
    and "kv_commit C D s kv = Some (h, kv', s')" "P s"
  shows "P s'"
proof -
  from assms(2) obtain r t t' where "tree_save_version C D s t = Some (Inr (r, t', s'))"
    by (auto simp: kv_commit_def bind_eq_Some_conv unwrap_result_Some)
  then show ?thesis
    using recursive_tree_save_keeps [of P, OF put] assms(1,3)
    by (auto simp: tree_save_version_def save_tree_def node_db_save_version_def Let_def
        bind_eq_Some_conv split: if_splits option.splits prod.splits)
qed

end

section \<open>Committing all stores\<close>

text \<open>Names that are not prefixes of one another keep the stores apart.\<close>

definition incomparable :: "bytes list \<Rightarrow> bool" where
  "incomparable names \<longleftrightarrow> distinct names \<and>
     (\<forall>p \<in> set names. \<forall>q \<in> set names. p \<noteq> q \<longrightarrow> \<not> prefix p q)"

text \<open>What the commits of the single stores give, each from the same state.\<close>

definition single_commits ::
  "crates \<Rightarrow> 'db database_ops \<Rightarrow> 'db \<Rightarrow> (bytes \<times> kvstore) list \<Rightarrow>
     (bytes \<Rightarrow> bytes \<times> kvstore \<times> 'db) \<Rightarrow> bool" where
  "single_commits C D s kvs r \<longleftrightarrow>
     (\<forall>(name, kv) \<in> set kvs. kv_commit C (module_db D name) s kv = Some (r name))"

context full_key_scan
begin

lemma module_database: "database (module_db D p)"
  by unfold_locales (simp add: prefixdb_get_put)

lemma commit_isolated:
  assumes "kv_commit C (module_db D q) s kv = Some (h, kv', s')" "\<not> prefix p q" "\<not> prefix q p"
  shows "db_get (module_db D p) s' = db_get (module_db D p) s"
  by (rule database.kv_commit_keeps [OF module_database,
        where P = "\<lambda>t. db_get (module_db D p) t = db_get (module_db D p) s", OF _ assms(1)])
    (simp_all add: prefixdb_isolated assms(2,3))

lemma commit_stores_single:
  assumes "incomparable (map fst kvs)" "single_commits C D s kvs r"
    and "\<forall>name \<in> fst ` set kvs. db_get (module_db D name) t = db_get (module_db D name) s"
  shows "\<exists>t'. commit_stores C D t kvs
      = Some (map (\<lambda>(n, _). \<lparr> info_name = n, info_hash = fst (r n) \<rparr>) kvs,
          map (\<lambda>(n, _). (n, fst (snd (r n)))) kvs, t') \<and>
    (\<forall>name \<in> fst ` set kvs. db_get (module_db D name) t'
       = db_get (module_db D name) (snd (snd (r name)))) \<and>
    (\<forall>p. (\<forall>q \<in> fst ` set kvs. \<not> prefix p q \<and> \<not> prefix q p) \<longrightarrow>
       db_get (module_db D p) t' = db_get (module_db D p) t)"
  using assms
proof (induction kvs arbitrary: t)
  case (Cons e kvs)
  obtain n kv where e: "e = (n, kv)" by (cases e)
  obtain h kv' s' where r: "r n = (h, kv', s')" by (cases "r n")
  have "kv_commit C (module_db D n) s kv = Some (h, kv', s')"
    using Cons.prems(2) e r by (simp add: single_commits_def)
  moreover have "db_get (module_db D n) t = db_get (module_db D n) s"
    using Cons.prems(3) e by (simp del: prefixdb_ops_simps)
  ultimately obtain t1 where t1: "kv_commit C (module_db D n) t kv = Some (h, kv', t1)"
    "db_get (module_db D n) t1 = db_get (module_db D n) s'"
    using database.kv_commit_view [OF module_database] by blast
  have apart: "\<not> prefix n q \<and> \<not> prefix q n" if "q \<in> fst ` set kvs" for q
    using Cons.prems(1) that e by (auto simp: incomparable_def)
  have "\<forall>name \<in> fst ` set kvs. db_get (module_db D name) t1 = db_get (module_db D name) s"
  proof
    fix q assume q: "q \<in> fst ` set kvs"
    have "db_get (module_db D q) t1 = db_get (module_db D q) t"
      using commit_isolated [OF t1(1)] apart [OF q] by blast
    also have "\<dots> = db_get (module_db D q) s" using Cons.prems(3) q e by auto
    finally show "db_get (module_db D q) t1 = db_get (module_db D q) s" .
  qed
  moreover have "incomparable (map fst kvs)" "single_commits C D s kvs r"
    using Cons.prems(1,2) by (auto simp: incomparable_def single_commits_def)
  ultimately obtain t' where t': "commit_stores C D t1 kvs
      = Some (map (\<lambda>(n, _). \<lparr> info_name = n, info_hash = fst (r n) \<rparr>) kvs,
          map (\<lambda>(n, _). (n, fst (snd (r n)))) kvs, t')"
    "\<forall>name \<in> fst ` set kvs. db_get (module_db D name) t'
       = db_get (module_db D name) (snd (snd (r name)))"
    "\<forall>p. (\<forall>q \<in> fst ` set kvs. \<not> prefix p q \<and> \<not> prefix q p) \<longrightarrow>
       db_get (module_db D p) t' = db_get (module_db D p) t1"
    using Cons.IH by blast
  have "db_get (module_db D n) t' = db_get (module_db D n) s'"
    using t'(3) t1(2) apart by simp
  moreover have "db_get (module_db D p) t1 = db_get (module_db D p) t"
    if "\<not> prefix p n \<and> \<not> prefix n p" for p
    using commit_isolated [OF t1(1)] that by blast
  ultimately show ?case
    using t' t1(1) by (intro exI [of _ t']) (simp add: e r del: prefixdb_ops_simps)
qed simp

end

section \<open>Properties\<close>

lemma map_of_pairs: "distinct (map fst kvs) \<Longrightarrow> (n, kv) \<in> set kvs \<Longrightarrow>
    map_of (map (\<lambda>(n, _). (n, f n)) kvs) n = Some (f n)"
  by (induction kvs) force+

text \<open>
  (C34) Committing the multi store is independent of the iteration order of the hash map of
  stores: when the store names are not prefixes of one another and each store's own commit
  succeeds, then in every order the commit succeeds with the same hash, the head version goes up
  by one, and every store is the one its own commit gives and reads the same, as if it had the
  database for itself.
\<close>

theorem multi_commit_order_independent:
  assumes "incomparable (map fst (stores ms))" "single_commits C memdb_ops s (stores ms) r"
    and "stores ms \<noteq> []" "checked_add (head_version ms) 1 = Some v"
  shows "\<exists>hash. \<forall>kvs. mset kvs = mset (stores ms) \<longrightarrow>
    (\<exists>ms' t. multi_commit C memdb_ops s (ms\<lparr> stores := kvs \<rparr>) = Some (hash, ms', t) \<and>
       head_commit_hash ms' = hash \<and> head_version ms' = v \<and>
       (\<forall>(name, kv) \<in> set kvs. get_kv_store ms' name = Some (fst (snd (r name))) \<and>
          (\<forall>key. kv_get C (module_db memdb_ops name) t (fst (snd (r name))) key
             = kv_get C (module_db memdb_ops name) (snd (snd (r name))) (fst (snd (r name))) key)))"
proof -
  let ?infos = "map (\<lambda>(n, _). \<lparr> info_name = n, info_hash = fst (r n) \<rparr>)"
  obtain hash where hash: "hash_store_infos C (?infos (stores ms)) = Some hash"
    using hash_store_infos_total [of "?infos (stores ms)" C] assms(3) by auto
  have "\<exists>ms' t. multi_commit C memdb_ops s (ms\<lparr> stores := kvs \<rparr>) = Some (hash, ms', t) \<and>
       head_commit_hash ms' = hash \<and> head_version ms' = v \<and>
       (\<forall>(name, kv) \<in> set kvs. get_kv_store ms' name = Some (fst (snd (r name))) \<and>
          (\<forall>key. kv_get C (module_db memdb_ops name) t (fst (snd (r name))) key
             = kv_get C (module_db memdb_ops name) (snd (snd (r name))) (fst (snd (r name))) key))"
    if kvs: "mset kvs = mset (stores ms)" for kvs
  proof -
    have set: "set kvs = set (stores ms)" using arg_cong [OF kvs, of set_mset] by simp
    have dist: "distinct (map fst kvs)"
      using assms(1) arg_cong [OF kvs, of "image_mset fst"]
      by (metis incomparable_def mset_eq_imp_distinct_iff mset_map)
    then have inc: "incomparable (map fst kvs)" and sc: "single_commits C memdb_ops s kvs r"
      using assms(1,2) set by (simp_all add: incomparable_def single_commits_def)
    have "mset (?infos kvs) = mset (?infos (stores ms))" using kvs by simp
    from hash_store_infos_perm [OF this, of C] hash
    have h: "hash_store_infos C (?infos kvs) = Some hash" by simp
    obtain t where t: "commit_stores C memdb_ops s kvs
        = Some (?infos kvs, map (\<lambda>(n, _). (n, fst (snd (r n)))) kvs, t)"
      "\<forall>name \<in> fst ` set kvs. db_get (module_db memdb_ops name) t
        = db_get (module_db memdb_ops name) (snd (snd (r name)))"
      using mem.commit_stores_single [OF inc sc, of s] by blast
    have "kv_get C (module_db memdb_ops name) t (fst (snd (r name))) key
        = kv_get C (module_db memdb_ops name) (snd (snd (r name))) (fst (snd (r name))) key"
      if "name \<in> fst ` set kvs" for name key
      using t(2) that by (intro database.kv_get_view [OF mem.module_database]) blast
    moreover have "map_of (map (\<lambda>(n, _). (n, fst (snd (r n)))) kvs) name = Some (fst (snd (r name)))"
      if "(name, kv) \<in> set kvs" for name kv
      by (rule map_of_pairs [OF dist that])
    ultimately show ?thesis
      using t(1) h assms(4) by (fastforce simp: multi_commit_def get_kv_store_def)
  qed
  then show ?thesis by blast
qed

definition demo_multi :: "bytes list \<Rightarrow> multistore" where
  "demo_multi names = \<lparr> head_version = 0, head_commit_hash = [],
     stores = map (\<lambda>n. (n, demo_store_empty)) names \<rparr>"

lemma demo_single_commits:
  "single_commits demo_crates memdb_ops memdb_new (stores (demo_multi names))
     (\<lambda>n. the (kv_commit demo_crates (module_db memdb_ops n) memdb_new demo_store_empty))"
proof -
  have "\<exists>x. kv_commit demo_crates (module_db memdb_ops n) memdb_new demo_store_empty = Some x" for n
  proof -
    have ok: "kv_ok demo_store_empty" by (simp add: demo_store_empty_def kv_ok_def btree_ok_def)
    have m: "merged demo_store_empty = [([1], [10])]"
      by (simp add: merged_def demo_store_empty_def)
    have "put_all (tree_set demo_crates (module_db memdb_ops n) memdb_new) (merged demo_store_empty)
        (persistent_store demo_store_empty)
      = Some ((persistent_store demo_store_empty)\<lparr> tree_root := Some (new_leaf [1] [10] 1) \<rparr>)"
      unfolding m by (simp add: tree_set_def demo_store_empty_def checked_add_def)
    from kv_commit_eq [OF ok this, of "new_leaf [1] [10] 1" 1] show ?thesis
      by (auto simp: demo_store_empty_def checked_add_def)
  qed
  then show ?thesis by (auto simp: single_commits_def demo_multi_def)
qed

theorem multi_commit_order_independent_witness:
  "\<exists>hash ms1 t1 ms2 t2.
     multi_commit demo_crates memdb_ops memdb_new (demo_multi [[98], [97]]) = Some (hash, ms1, t1) \<and>
     multi_commit demo_crates memdb_ops memdb_new (demo_multi [[97], [98]]) = Some (hash, ms2, t2) \<and>
     head_version ms1 = 1 \<and> head_version ms2 = 1"
proof -
  have "incomparable (map fst (stores (demo_multi [[98], [97]])))"
    "stores (demo_multi [[98], [97]]) \<noteq> []"
    "checked_add (head_version (demo_multi [[98], [97]])) 1 = Some 1"
    by (simp_all add: incomparable_def demo_multi_def checked_add_def)
  note ord = multi_commit_order_independent [OF this(1) demo_single_commits this(2,3)]
  have "\<exists>hash. \<forall>kvs. mset kvs = mset (stores (demo_multi [[98], [97]])) \<longrightarrow>
    (\<exists>ms' t. multi_commit demo_crates memdb_ops memdb_new
       ((demo_multi [[98], [97]])\<lparr> stores := kvs \<rparr>) = Some (hash, ms', t) \<and> head_version ms' = 1)"
    by (rule exE [OF ord], rule exI, intro allI impI, drule spec, drule mp, assumption)
      (elim exE conjE, intro exI conjI, assumption+)
  then obtain hash where h: "\<forall>kvs. mset kvs = mset (stores (demo_multi [[98], [97]])) \<longrightarrow>
    (\<exists>ms' t. multi_commit demo_crates memdb_ops memdb_new
       ((demo_multi [[98], [97]])\<lparr> stores := kvs \<rparr>) = Some (hash, ms', t) \<and> head_version ms' = 1)" ..
  have "(demo_multi [[98], [97]])\<lparr> stores := stores (demo_multi [[97], [98]]) \<rparr>
      = demo_multi [[97], [98]]"
    "(demo_multi [[98], [97]])\<lparr> stores := stores (demo_multi [[98], [97]]) \<rparr>
      = demo_multi [[98], [97]]"
    "mset (stores (demo_multi [[97], [98]])) = mset (stores (demo_multi [[98], [97]]))"
    by (simp_all add: demo_multi_def add_mset_commute)
  with h [rule_format, of "stores (demo_multi [[97], [98]])"]
    h [rule_format, of "stores (demo_multi [[98], [97]])"]
  show ?thesis by auto
qed

end
