(* ===== verification/Rust_Std.thy ===== *)
theory Rust_Std
  imports Prelude
begin

text \<open>
  What the application layer uses of Rust's standard library beyond the prelude: string
  literals (a \<open>String\<close> is its UTF-8 bytes), decimal formatting and parsing of integers and
  booleans, stripping of a prefix or suffix, collecting an iterator of \<open>Result\<close>s, and the
  composition of calls that change a state, may return an error and may panic.
\<close>

section \<open>Strings\<close>

abbreviation lit :: "string \<Rightarrow> bytes" where
  "lit s \<equiv> map of_char s"

text \<open>Decimal digits, most significant first, as \<open>to_string\<close> of an unsigned integer prints them.\<close>

fun show_nat :: "nat \<Rightarrow> bytes" where
  "show_nat n =
     (if n < 10 then [of_nat (48 + n)] else show_nat (n div 10) @ [of_nat (48 + n mod 10)])"

declare show_nat.simps [simp del]

definition digit :: "u8 \<Rightarrow> nat option" where
  "digit b = (if 48 \<le> unat b \<and> unat b \<le> 57 then Some (unat b - 48) else None)"

fun read_digits :: "nat \<Rightarrow> bytes \<Rightarrow> nat option" where
  "read_digits acc [] = Some acc"
| "read_digits acc (b # bs) =
     (case digit b of None \<Rightarrow> None | Some d \<Rightarrow> read_digits (10 * acc + d) bs)"

text \<open>
  \<open>str::parse::<u64>\<close>: at least one digit after an optional plus sign, no overflow.
\<close>

definition parse_u64 :: "bytes \<Rightarrow> u64 option" where
  "parse_u64 bs =
     (let ds = (case bs of b # ds \<Rightarrow> if b = 43 \<and> ds \<noteq> [] then ds else bs | [] \<Rightarrow> [])
      in if ds = [] then None
         else (case read_digits 0 ds of None \<Rightarrow> None
               | Some n \<Rightarrow> if n < 2 ^ 64 then Some (of_nat n) else None))"

definition show_u64 :: "u64 \<Rightarrow> bytes" where
  "show_u64 n = show_nat (unat n)"

definition show_i64 :: "int \<Rightarrow> bytes" where
  "show_i64 n = (if n < 0 then 45 # show_nat (nat (- n)) else show_nat (nat n))"

definition show_bool :: "bool \<Rightarrow> bytes" where
  "show_bool b = (if b then lit ''true'' else lit ''false'')"

definition parse_bool :: "bytes \<Rightarrow> bool option" where
  "parse_bool bs =
     (if bs = lit ''true'' then Some True else if bs = lit ''false'' then Some False else None)"

definition strip_prefix :: "bytes \<Rightarrow> bytes \<Rightarrow> bytes option" where
  "strip_prefix p bs = (if take (length p) bs = p then Some (drop (length p) bs) else None)"

definition strip_suffix :: "bytes \<Rightarrow> bytes \<Rightarrow> bytes option" where
  "strip_suffix p bs = map_option rev (strip_prefix (rev p) (rev bs))"

definition starts_with :: "bytes \<Rightarrow> bytes \<Rightarrow> bool" where
  "starts_with p bs \<longleftrightarrow> take (length p) bs = p"

lemma digit_of_nat: "n < 10 \<Longrightarrow> digit (of_nat (48 + n)) = Some n"
  using unat_of_nat_bounded [where 'a = 8, of "48 + n"] by (simp add: digit_def)

lemma show_nat_not_Nil [simp]: "show_nat n \<noteq> []"
  by (subst show_nat.simps) simp

lemma show_nat_digits:
  assumes "b \<in> set (show_nat n)"
  shows "48 \<le> unat b \<and> unat b \<le> 57"
  using assms
proof (induction n rule: show_nat.induct)
  case (1 n)
  have "unat (of_nat (48 + k) :: u8) = 48 + k" if "k < 10" for k
    by (rule unat_of_nat_bounded) (use that in simp)
  from this [of n] this [of "n mod 10"] 1 show ?case
    by (subst (asm) (2) show_nat.simps) (auto split: if_splits)
qed

lemma read_digits_append:
  "read_digits acc (xs @ ys) = Option.bind (read_digits acc xs) (\<lambda>n. read_digits n ys)"
  by (induction acc xs rule: read_digits.induct) (auto split: option.splits)

lemma read_show_nat: "read_digits 0 (show_nat n) = Some n"
proof (induction n rule: show_nat.induct)
  case (1 n)
  from digit_of_nat [of n] digit_of_nat [of "n mod 10"] 1 show ?case
    by (subst show_nat.simps) (auto simp: read_digits_append)
qed

lemma show_nat_inj: "show_nat m = show_nat n \<Longrightarrow> m = n"
  by (metis option.inject read_show_nat)

lemma show_nat_head_not_plus: "show_nat n = b # bs \<Longrightarrow> b \<noteq> 43"
  using show_nat_digits [of b n] by auto

lemma parse_show_u64: "parse_u64 (show_u64 n) = Some n"
proof -
  have "unat n < 2 ^ 64" using unat_bound [of n] by simp
  moreover obtain b bs where "show_nat (unat n) = b # bs"
    using show_nat_not_Nil by (meson list.exhaust)
  ultimately show ?thesis
    using read_show_nat [of "unat n"] show_nat_head_not_plus [of "unat n"]
    by (simp add: parse_u64_def show_u64_def)
qed

lemma parse_show_bool: "parse_bool (show_bool b) = Some b"
  by (simp add: parse_bool_def show_bool_def)

lemma strip_prefix_append [simp]: "strip_prefix p (p @ bs) = Some bs"
  by (simp add: strip_prefix_def)

lemma strip_suffix_append [simp]: "strip_suffix p (bs @ p) = Some bs"
  by (simp add: strip_suffix_def)

section \<open>Collecting results\<close>

text \<open>
  \<open>iter.map(f).collect::<Result<Vec<_>, _>>()\<close>: the first error, or all the values.
\<close>

fun collect_results :: "('a \<Rightarrow> 'e + 'b) \<Rightarrow> 'a list \<Rightarrow> 'e + 'b list" where
  "collect_results f [] = Inr []"
| "collect_results f (x # xs) =
     (case f x of Inl e \<Rightarrow> Inl e
      | Inr y \<Rightarrow> (case collect_results f xs of Inl e \<Rightarrow> Inl e | Inr ys \<Rightarrow> Inr (y # ys)))"

lemma collect_results_map:
  "(\<And>x. x \<in> set xs \<Longrightarrow> f (g x) = Inr x) \<Longrightarrow> collect_results f (map g xs) = Inr xs"
  by (induction xs) auto

lemma collect_results_Inr:
  "collect_results f xs = Inr ys \<longleftrightarrow> list_all2 (\<lambda>x y. f x = Inr y) xs ys"
proof (induction xs arbitrary: ys)
  case (Cons x xs)
  show ?case
  proof
    assume "collect_results f (x # xs) = Inr ys"
    then show "list_all2 (\<lambda>x y. f x = Inr y) (x # xs) ys"
      using Cons by (auto split: sum.splits)
  next
    assume "list_all2 (\<lambda>x y. f x = Inr y) (x # xs) ys"
    then obtain z zs where "ys = z # zs" "f x = Inr z" "list_all2 (\<lambda>x y. f x = Inr y) xs zs"
      by (auto simp: list_all2_Cons1)
    then show "collect_results f (x # xs) = Inr ys"
      using Cons [of zs] by simp
  qed
qed auto

text \<open>\<open>m?\<close> in a function that cannot panic.\<close>

definition then_try :: "('e + 'a) \<Rightarrow> ('a \<Rightarrow> 'e + 'b) \<Rightarrow> 'e + 'b" where
  "then_try m f = (case m of Inl e \<Rightarrow> Inl e | Inr x \<Rightarrow> f x)"

lemma then_try_simps [simp, panic_simps]:
  "then_try (Inl e) f = Inl e"
  "then_try (Inr x) f = f x"
  by (simp_all add: then_try_def)

lemma then_try_Inr:
  "then_try m f = Inr y \<longleftrightarrow> (\<exists>x. m = Inr x \<and> f x = Inr y)"
  by (auto simp: then_try_def split: sum.splits)

text \<open>\<open>map_err\<close>.\<close>

definition map_err :: "('e \<Rightarrow> 'f) \<Rightarrow> ('e + 'a) \<Rightarrow> 'f + 'a" where
  "map_err g m = (case m of Inl e \<Rightarrow> Inl (g e) | Inr x \<Rightarrow> Inr x)"

lemma map_err_simps [simp, panic_simps]:
  "map_err g (Inl e) = Inl (g e)"
  "map_err g (Inr x) = Inr x"
  by (simp_all add: map_err_def)

lemma map_err_Inr [simp]: "map_err g m = Inr x \<longleftrightarrow> m = Inr x"
  by (auto simp: map_err_def split: sum.splits)

section \<open>Calls that change a state\<close>

text \<open>
  A function with an argument \<open>&mut S\<close> that returns a \<open>Result\<close> is a function from \<open>S\<close> to a
  result and the \<open>S\<close> it leaves behind, also when the result is an error; \<open>None\<close> is a panic.
  \<open>and_then m f\<close> is \<open>let x = m?; f(x)\<close>.
\<close>

type_synonym ('e, 'a, 's) outcome = "(('e + 'a) \<times> 's) option"

definition and_then ::
  "('e, 'a, 's) outcome \<Rightarrow> ('a \<Rightarrow> 's \<Rightarrow> ('e, 'b, 's) outcome) \<Rightarrow> ('e, 'b, 's) outcome" where
  "and_then m f =
     (case m of None \<Rightarrow> None | Some (Inl e, s) \<Rightarrow> Some (Inl e, s) | Some (Inr x, s) \<Rightarrow> f x s)"

lemma and_then_simps [simp, panic_simps]:
  "and_then None f = None"
  "and_then (Some (Inl e, s)) f = Some (Inl e, s)"
  "and_then (Some (Inr x, s)) f = f x s"
  by (simp_all add: and_then_def)

lemma and_then_Inr:
  "and_then m f = Some (Inr y, t) \<longleftrightarrow> (\<exists>x s. m = Some (Inr x, s) \<and> f x s = Some (Inr y, t))"
  by (auto simp: and_then_def split: option.splits sum.splits)

lemma and_then_Some:
  "and_then m f = Some (r, t) \<longleftrightarrow>
     (\<exists>e. m = Some (Inl e, t) \<and> r = Inl e) \<or> (\<exists>x s. m = Some (Inr x, s) \<and> f x s = Some (r, t))"
  by (auto simp: and_then_def split: option.splits sum.splits)

end
