(* ===== verification/Wire.thy ===== *)
theory Wire
  imports Rust_Std Crates
begin

text \<open>
  The third-party side of the application layer. The message types that \<open>ibc_proto\<close> generates
  are records with the fields of the protobuf definitions (messages the code only hands on,
  such as \<open>ModeInfo\<close> and the pagination, stay bytes). The functions of the crates the code
  calls are the fields of the record \<open>libs\<close>: \<open>prost\<close> codecs, \<open>cosmwasm_std::Uint256\<close>,
  \<open>bech32\<close>, \<open>ripemd\<close> and \<open>secp256k1\<close>. The predicates name the documented behaviour that
  theorems rely on, and the last section instantiates the record with concrete functions
  on which all of them hold.
\<close>

section \<open>Generated message types\<close>


record raw_coin =
  rc_denom :: bytes
  rc_amount :: bytes

record any_message =
  type_url :: bytes
  any_value :: bytes

record raw_pub_key =
  rpk_key :: bytes

record raw_base_account =
  rba_address :: bytes
  rba_pub_key :: "any_message option"
  rba_account_number :: u64
  rba_sequence :: u64

record raw_module_account =
  rma_base_account :: "raw_base_account option"
  rma_name :: bytes
  rma_permissions :: "bytes list"

record raw_msg_send =
  rms_from_address :: bytes
  rms_to_address :: bytes
  rms_amount :: "raw_coin list"

record raw_signer_info =
  rsi_public_key :: "any_message option"
  rsi_mode_info :: "bytes option"
  rsi_sequence :: u64

record raw_fee =
  rf_amount :: "raw_coin list"
  rf_gas_limit :: u64
  rf_payer :: bytes
  rf_granter :: bytes

record raw_tip =
  rt_amount :: "raw_coin list"
  rt_tipper :: bytes

record raw_auth_info =
  rai_signer_infos :: "raw_signer_info list"
  rai_fee :: "raw_fee option"
  rai_tip :: "raw_tip option"

record raw_tx_body =
  rtb_messages :: "any_message list"
  rtb_memo :: bytes
  rtb_timeout_height :: u64
  rtb_extension_options :: "any_message list"
  rtb_non_critical_extension_options :: "any_message list"

record raw_tx =
  rtx_body :: "raw_tx_body option"
  rtx_auth_info :: "raw_auth_info option"
  rtx_signatures :: "bytes list"

record tx_raw =
  body_bytes :: bytes
  auth_info_bytes :: bytes
  raw_signatures :: "bytes list"

record sign_doc =
  sd_body_bytes :: bytes
  sd_auth_info_bytes :: bytes
  sd_chain_id :: bytes
  sd_account_number :: u64

record raw_balance_request =
  rbr_address :: bytes
  rbr_denom :: bytes

record raw_balance_response =
  rbr_balance :: "raw_coin option"

record raw_all_balances_request =
  rabr_address :: bytes
  rabr_pagination :: "bytes option"

record raw_coins_response =
  rcr_coins :: "raw_coin list"
  rcr_pagination :: "bytes option"

record raw_account_request =
  rar_address :: bytes

record raw_account_response =
  rar_account :: "any_message option"

section \<open>The crates as a parameter\<close>

text \<open>A \<open>prost\<close> message: encoding cannot fail, decoding gives the message or an error text.\<close>

record 'm codec =
  pb_encode :: "'m \<Rightarrow> bytes"
  pb_decode :: "bytes \<Rightarrow> bytes + 'm"

datatype variant = Bech32 | Bech32m

type_synonym secp_key = bytes
type_synonym secp_signature = bytes

record libs =
  storage :: crates
  uint_add :: "u256 \<Rightarrow> u256 \<Rightarrow> u256 option"
  uint_sub :: "u256 \<Rightarrow> u256 \<Rightarrow> u256 option"
  uint_parse :: "bytes \<Rightarrow> u256 option"
  uint_show :: "u256 \<Rightarrow> bytes"
  bech32_decode :: "bytes \<Rightarrow> bytes + bytes \<times> bytes \<times> variant"
  bech32_encode :: "bytes \<Rightarrow> bytes \<Rightarrow> variant \<Rightarrow> bytes + bytes"
  to_base32 :: "bytes \<Rightarrow> bytes"
  from_base32 :: "bytes \<Rightarrow> bytes + bytes"
  ripemd160 :: "bytes \<Rightarrow> bytes"
  key_from_slice :: "bytes \<Rightarrow> bytes + secp_key"
  key_serialize :: "secp_key \<Rightarrow> bytes"
  sig_from_compact :: "bytes \<Rightarrow> secp_signature option"
  verify_ecdsa :: "bytes \<Rightarrow> secp_signature \<Rightarrow> secp_key \<Rightarrow> bool"
  debug_text :: "bytes \<Rightarrow> bytes"
  conversion_text :: "bytes \<Rightarrow> bytes"
  pb_coin :: "raw_coin codec"
  pb_any :: "any_message codec"
  pb_pub_key :: "raw_pub_key codec"
  pb_base_account :: "raw_base_account codec"
  pb_module_account :: "raw_module_account codec"
  pb_u64 :: "u64 codec"
  pb_msg_send :: "raw_msg_send codec"
  pb_tx :: "raw_tx codec"
  pb_tx_body :: "raw_tx_body codec"
  pb_auth_info :: "raw_auth_info codec"
  pb_tx_raw :: "tx_raw codec"
  pb_sign_doc :: "sign_doc codec"
  pb_balance_request :: "raw_balance_request codec"
  pb_balance_response :: "raw_balance_response codec"
  pb_all_balances_request :: "raw_all_balances_request codec"
  pb_all_balances_response :: "raw_coins_response codec"
  pb_total_supply_response :: "raw_coins_response codec"
  pb_account_request :: "raw_account_request codec"
  pb_account_response :: "raw_account_response codec"

text \<open>
  What theorems rely on: a codec reads back what it wrote; \<open>Uint256\<close> is the 256-bit unsigned
  integer whose \<open>+\<close> and \<open>-\<close> panic on overflow and whose text is read back; bech32 decoding
  inverts encoding for the human-readable part of the addresses; RIPEMD-160 yields 20 bytes;
  a serialized public key is read back.
\<close>

definition codec_ok :: "'m codec \<Rightarrow> bool" where
  "codec_ok c \<longleftrightarrow> (\<forall>m. pb_decode c (pb_encode c m) = Inr m)"

definition uint256_ok :: "'a libs_scheme \<Rightarrow> bool" where
  "uint256_ok L \<longleftrightarrow>
     (\<forall>a b. uint_add L a b = checked_add a b) \<and>
     (\<forall>a b. uint_sub L a b = (if b \<le> a then Some (a - b) else None)) \<and>
     (\<forall>a. uint_parse L (uint_show L a) = Some a)"

definition BECH32_MAIN_PREFIX :: bytes where
  "BECH32_MAIN_PREFIX = lit ''cosmos''"

definition bech32_ok :: "'a libs_scheme \<Rightarrow> bool" where
  "bech32_ok L \<longleftrightarrow>
     (\<forall>a. from_base32 L (to_base32 L a) = Inr a) \<and>
     (\<forall>a. \<exists>t. bech32_encode L BECH32_MAIN_PREFIX (to_base32 L a) Bech32 = Inr t \<and> t \<noteq> [] \<and>
        bech32_decode L t = Inr (BECH32_MAIN_PREFIX, to_base32 L a, Bech32))"

definition keys_ok :: "'a libs_scheme \<Rightarrow> bool" where
  "keys_ok L \<longleftrightarrow> (\<forall>k. key_from_slice L (key_serialize L k) = Inr k) \<and>
     (\<forall>b. length (ripemd160 L b) = 20)"

definition account_codecs_ok :: "'a libs_scheme \<Rightarrow> bool" where
  "account_codecs_ok L \<longleftrightarrow> codec_ok (pb_any L) \<and> codec_ok (pb_pub_key L) \<and>
     codec_ok (pb_base_account L) \<and> codec_ok (pb_module_account L) \<and> codec_ok (pb_u64 L)"

lemma codec_okD: "codec_ok c \<Longrightarrow> pb_decode c (pb_encode c m) = Inr m"
  by (simp add: codec_ok_def)

lemma uint256_okD:
  assumes "uint256_ok L"
  shows "uint_add L a b = checked_add a b"
    and "uint_sub L a b = (if b \<le> a then Some (a - b) else None)"
    and "uint_parse L (uint_show L a) = Some a"
  using assms by (simp_all add: uint256_ok_def)

lemma account_codecs_okD:
  assumes "account_codecs_ok L"
  shows "codec_ok (pb_any L)" "codec_ok (pb_pub_key L)" "codec_ok (pb_base_account L)"
    "codec_ok (pb_module_account L)" "codec_ok (pb_u64 L)"
  using assms by (simp_all add: account_codecs_ok_def)

section \<open>A concrete instance\<close>

text \<open>
  Parsers return a value and the rest of the input; \<open>reads_back e d\<close> says that \<open>d\<close> inverts the
  encoder \<open>e\<close> in front of any rest.
\<close>

definition reads_back :: "('a \<Rightarrow> bytes) \<Rightarrow> (bytes \<Rightarrow> ('a \<times> bytes) option) \<Rightarrow> bool" where
  "reads_back e d \<longleftrightarrow> (\<forall>x r. d (e x @ r) = Some (x, r))"

lemma reads_backD [simp]: "reads_back e d \<Longrightarrow> d (e x @ r) = Some (x, r)"
  by (simp add: reads_back_def)

definition enc_len :: "nat \<Rightarrow> bytes" where "enc_len = leb_enc"

definition dec_len :: "bytes \<Rightarrow> (nat \<times> bytes) option" where
  "dec_len bs = map_option (\<lambda>(n, c). (n, drop c bs)) (leb_dec bs)"

lemma reads_back_len [simp]: "reads_back enc_len dec_len"
  by (simp add: reads_back_def enc_len_def dec_len_def leb_round_trip)

lemma dec_enc_len [simp]: "dec_len (enc_len n @ r) = Some (n, r)"
  by (rule reads_backD) simp

definition enc_str :: "bytes \<Rightarrow> bytes" where "enc_str s = enc_len (length s) @ s"

definition dec_str :: "bytes \<Rightarrow> (bytes \<times> bytes) option" where
  "dec_str bs = map_option (\<lambda>(n, r). (take n r, drop n r)) (dec_len bs)"

lemma reads_back_str [simp]: "reads_back enc_str dec_str"
  by (simp add: reads_back_def enc_str_def dec_str_def)

definition enc_num :: "u64 \<Rightarrow> bytes" where "enc_num n = enc_len (unat n)"

definition dec_num :: "bytes \<Rightarrow> (u64 \<times> bytes) option" where
  "dec_num bs = map_option (\<lambda>(n, r). (of_nat n, r)) (dec_len bs)"

lemma reads_back_num [simp]: "reads_back enc_num dec_num"
  by (simp add: reads_back_def enc_num_def dec_num_def)

definition enc_opt :: "('a \<Rightarrow> bytes) \<Rightarrow> 'a option \<Rightarrow> bytes" where
  "enc_opt e m = (case m of None \<Rightarrow> [0] | Some x \<Rightarrow> 1 # e x)"

definition dec_opt :: "(bytes \<Rightarrow> ('a \<times> bytes) option) \<Rightarrow> bytes \<Rightarrow> ('a option \<times> bytes) option" where
  "dec_opt d bs =
     (case bs of [] \<Rightarrow> None
      | b # r \<Rightarrow> if b = 0 then Some (None, r) else map_option (\<lambda>(x, r). (Some x, r)) (d r))"

lemma reads_back_opt [simp]: "reads_back e d \<Longrightarrow> reads_back (enc_opt e) (dec_opt d)"
  by (auto simp: reads_back_def enc_opt_def dec_opt_def split: option.splits)

fun dec_times :: "(bytes \<Rightarrow> ('a \<times> bytes) option) \<Rightarrow> nat \<Rightarrow> bytes \<Rightarrow> ('a list \<times> bytes) option" where
  "dec_times d 0 bs = Some ([], bs)"
| "dec_times d (Suc n) bs =
     (case d bs of None \<Rightarrow> None
      | Some (x, r) \<Rightarrow> map_option (\<lambda>(xs, r). (x # xs, r)) (dec_times d n r))"

definition enc_list :: "('a \<Rightarrow> bytes) \<Rightarrow> 'a list \<Rightarrow> bytes" where
  "enc_list e xs = enc_len (length xs) @ concat (map e xs)"

definition dec_list :: "(bytes \<Rightarrow> ('a \<times> bytes) option) \<Rightarrow> bytes \<Rightarrow> ('a list \<times> bytes) option" where
  "dec_list d bs = (case dec_len bs of None \<Rightarrow> None | Some (n, r) \<Rightarrow> dec_times d n r)"

lemma reads_back_list [simp]: "reads_back e d \<Longrightarrow> reads_back (enc_list e) (dec_list d)"
proof -
  assume "reads_back e d"
  then have "dec_times d (length xs) (concat (map e xs) @ r) = Some (xs, r)" for xs r
    by (induction xs) auto
  then show ?thesis by (simp add: reads_back_def enc_list_def dec_list_def)
qed

definition enc_pair :: "('a \<Rightarrow> bytes) \<Rightarrow> ('b \<Rightarrow> bytes) \<Rightarrow> 'a \<times> 'b \<Rightarrow> bytes" where
  "enc_pair e f p = e (fst p) @ f (snd p)"

definition dec_pair ::
  "(bytes \<Rightarrow> ('a \<times> bytes) option) \<Rightarrow> (bytes \<Rightarrow> ('b \<times> bytes) option) \<Rightarrow> bytes \<Rightarrow>
     (('a \<times> 'b) \<times> bytes) option" where
  "dec_pair d g bs =
     (case d bs of None \<Rightarrow> None | Some (x, r) \<Rightarrow> map_option (\<lambda>(y, r). ((x, y), r)) (g r))"

lemma reads_back_pair [simp]:
  "reads_back e d \<Longrightarrow> reads_back f g \<Longrightarrow> reads_back (enc_pair e f) (dec_pair d g)"
  by (simp add: reads_back_def enc_pair_def dec_pair_def)

text \<open>A codec from an encoder of the fields of the message.\<close>

definition demo_codec ::
  "('f \<Rightarrow> bytes) \<Rightarrow> (bytes \<Rightarrow> ('f \<times> bytes) option) \<Rightarrow> ('m \<Rightarrow> 'f) \<Rightarrow> ('f \<Rightarrow> 'm) \<Rightarrow> 'm codec" where
  "demo_codec e d split_m join_m =
     \<lparr> pb_encode = (\<lambda>m. e (split_m m)),
       pb_decode = (\<lambda>bs. case d bs of None \<Rightarrow> Inl (lit ''truncated'') | Some (f, r) \<Rightarrow> Inr (join_m f)) \<rparr>"

lemma demo_codec_ok:
  assumes "reads_back e d" "\<And>m. join_m (split_m m) = m"
  shows "codec_ok (demo_codec e d split_m join_m)"
  using reads_backD [OF assms(1), where r = "[]"] assms(2)
  by (simp add: codec_ok_def demo_codec_def)

definition any_fields :: "any_message \<Rightarrow> bytes \<times> bytes" where
  "any_fields a = (type_url a, any_value a)"

definition any_of :: "bytes \<times> bytes \<Rightarrow> any_message" where
  "any_of f = \<lparr> type_url = fst f, any_value = snd f \<rparr>"

definition coin_fields :: "raw_coin \<Rightarrow> bytes \<times> bytes" where
  "coin_fields c = (rc_denom c, rc_amount c)"

definition coin_of :: "bytes \<times> bytes \<Rightarrow> raw_coin" where
  "coin_of f = \<lparr> rc_denom = fst f, rc_amount = snd f \<rparr>"

definition base_fields :: "raw_base_account \<Rightarrow> bytes \<times> (bytes \<times> bytes) option \<times> u64 \<times> u64" where
  "base_fields m = (rba_address m, map_option any_fields (rba_pub_key m), rba_account_number m,
     rba_sequence m)"

definition base_of :: "bytes \<times> (bytes \<times> bytes) option \<times> u64 \<times> u64 \<Rightarrow> raw_base_account" where
  "base_of f = (case f of (a, k, n, s) \<Rightarrow>
     \<lparr> rba_address = a, rba_pub_key = map_option any_of k, rba_account_number = n,
        rba_sequence = s \<rparr>)"

lemma any_inverse [simp]: "any_of (any_fields a) = a"
  by (simp add: any_of_def any_fields_def)

lemma coin_inverse [simp]: "coin_of (coin_fields c) = c"
  by (simp add: coin_of_def coin_fields_def)

lemma base_inverse [simp]: "base_of (base_fields b) = b"
proof -
  have "any_of \<circ> any_fields = id" by (simp add: fun_eq_iff)
  then show ?thesis by (simp add: base_of_def base_fields_def option.map_comp option.map_id)
qed

abbreviation "enc_any \<equiv> enc_pair enc_str enc_str"
abbreviation "dec_any \<equiv> dec_pair dec_str dec_str"
abbreviation "enc_base \<equiv> enc_pair enc_str (enc_pair (enc_opt enc_any) (enc_pair enc_num enc_num))"
abbreviation "dec_base \<equiv> dec_pair dec_str (dec_pair (dec_opt dec_any) (dec_pair dec_num dec_num))"

text \<open>Encoders of records through their fields, for the nested messages of a transaction.\<close>

definition enc_via :: "('m \<Rightarrow> 'f) \<Rightarrow> ('f \<Rightarrow> bytes) \<Rightarrow> 'm \<Rightarrow> bytes" where
  "enc_via split_m e m = e (split_m m)"

definition dec_via ::
  "('f \<Rightarrow> 'm) \<Rightarrow> (bytes \<Rightarrow> ('f \<times> bytes) option) \<Rightarrow> bytes \<Rightarrow> ('m \<times> bytes) option" where
  "dec_via join_m d bs = map_option (\<lambda>(f, r). (join_m f, r)) (d bs)"

lemma reads_back_via:
  "reads_back e d \<Longrightarrow> (\<And>m. join_m (split_m m) = m) \<Longrightarrow>
     reads_back (enc_via split_m e) (dec_via join_m d)"
  by (simp add: reads_back_def enc_via_def dec_via_def)

abbreviation "enc_any_message \<equiv> enc_via any_fields enc_any"
abbreviation "dec_any_message \<equiv> dec_via any_of dec_any"
abbreviation "enc_coin \<equiv> enc_via coin_fields enc_any"
abbreviation "dec_coin \<equiv> dec_via coin_of dec_any"

definition enc_signer_info :: "raw_signer_info \<Rightarrow> bytes" where
  "enc_signer_info = enc_via (\<lambda>m. (rsi_public_key m, rsi_mode_info m, rsi_sequence m))
     (enc_pair (enc_opt enc_any_message) (enc_pair (enc_opt enc_str) enc_num))"

definition dec_signer_info :: "bytes \<Rightarrow> (raw_signer_info \<times> bytes) option" where
  "dec_signer_info = dec_via (\<lambda>(k, m, s).
       \<lparr> rsi_public_key = k, rsi_mode_info = m, rsi_sequence = s \<rparr>)
     (dec_pair (dec_opt dec_any_message) (dec_pair (dec_opt dec_str) dec_num))"

definition enc_fee :: "raw_fee \<Rightarrow> bytes" where
  "enc_fee = enc_via (\<lambda>m. (rf_amount m, rf_gas_limit m, rf_payer m, rf_granter m))
     (enc_pair (enc_list enc_coin) (enc_pair enc_num (enc_pair enc_str enc_str)))"

definition dec_fee :: "bytes \<Rightarrow> (raw_fee \<times> bytes) option" where
  "dec_fee = dec_via (\<lambda>(a, g, p, r).
       \<lparr> rf_amount = a, rf_gas_limit = g, rf_payer = p, rf_granter = r \<rparr>)
     (dec_pair (dec_list dec_coin) (dec_pair dec_num (dec_pair dec_str dec_str)))"

definition enc_tip :: "raw_tip \<Rightarrow> bytes" where
  "enc_tip = enc_via (\<lambda>m. (rt_amount m, rt_tipper m)) (enc_pair (enc_list enc_coin) enc_str)"

definition dec_tip :: "bytes \<Rightarrow> (raw_tip \<times> bytes) option" where
  "dec_tip = dec_via (\<lambda>(a, t). \<lparr> rt_amount = a, rt_tipper = t \<rparr>)
     (dec_pair (dec_list dec_coin) dec_str)"

definition enc_auth_info :: "raw_auth_info \<Rightarrow> bytes" where
  "enc_auth_info = enc_via (\<lambda>m. (rai_signer_infos m, rai_fee m, rai_tip m))
     (enc_pair (enc_list enc_signer_info) (enc_pair (enc_opt enc_fee) (enc_opt enc_tip)))"

definition dec_auth_info :: "bytes \<Rightarrow> (raw_auth_info \<times> bytes) option" where
  "dec_auth_info = dec_via (\<lambda>(s, f, t).
       \<lparr> rai_signer_infos = s, rai_fee = f, rai_tip = t \<rparr>)
     (dec_pair (dec_list dec_signer_info) (dec_pair (dec_opt dec_fee) (dec_opt dec_tip)))"

definition enc_tx_body :: "raw_tx_body \<Rightarrow> bytes" where
  "enc_tx_body = enc_via (\<lambda>m. (rtb_messages m, rtb_memo m, rtb_timeout_height m,
       rtb_extension_options m, rtb_non_critical_extension_options m))
     (enc_pair (enc_list enc_any_message) (enc_pair enc_str (enc_pair enc_num
       (enc_pair (enc_list enc_any_message) (enc_list enc_any_message)))))"

definition dec_tx_body :: "bytes \<Rightarrow> (raw_tx_body \<times> bytes) option" where
  "dec_tx_body = dec_via (\<lambda>(m, t, h, e, n).
       \<lparr> rtb_messages = m, rtb_memo = t, rtb_timeout_height = h, rtb_extension_options = e,
          rtb_non_critical_extension_options = n \<rparr>)
     (dec_pair (dec_list dec_any_message) (dec_pair dec_str (dec_pair dec_num
       (dec_pair (dec_list dec_any_message) (dec_list dec_any_message)))))"

lemma reads_back_any_message [simp]: "reads_back enc_any_message dec_any_message"
  by (rule reads_back_via) simp_all

lemma reads_back_coin [simp]: "reads_back enc_coin dec_coin"
  by (rule reads_back_via) simp_all

lemma reads_back_messages [simp]:
  "reads_back enc_signer_info dec_signer_info" "reads_back enc_fee dec_fee"
  "reads_back enc_tip dec_tip" "reads_back enc_tx_body dec_tx_body"
  by (simp_all add: enc_signer_info_def dec_signer_info_def enc_fee_def dec_fee_def enc_tip_def
      dec_tip_def enc_tx_body_def dec_tx_body_def reads_back_via)

lemma reads_back_auth_info [simp]: "reads_back enc_auth_info dec_auth_info"
  by (simp add: enc_auth_info_def dec_auth_info_def reads_back_via)

text \<open>
  A message nested in another as a field that may be absent: the bytes of the field, empty when
  it is absent; \<open>TxRaw\<close> has the same bytes as fields of its own.
\<close>

definition enc_message :: "('a \<Rightarrow> bytes) \<Rightarrow> 'a \<Rightarrow> bytes" where
  "enc_message e x = 1 # e x"

definition dec_message :: "(bytes \<Rightarrow> ('a \<times> bytes) option) \<Rightarrow> bytes \<Rightarrow> ('a \<times> bytes) option" where
  "dec_message d bs = (case bs of [] \<Rightarrow> None | b # r \<Rightarrow> d r)"

definition enc_nested :: "('a \<Rightarrow> bytes) \<Rightarrow> 'a option \<Rightarrow> bytes" where
  "enc_nested e m = enc_str (case m of None \<Rightarrow> [] | Some x \<Rightarrow> enc_message e x)"

definition dec_nested :: "(bytes \<Rightarrow> ('a \<times> bytes) option) \<Rightarrow> bytes \<Rightarrow> ('a option \<times> bytes) option" where
  "dec_nested d bs = (case dec_str bs of None \<Rightarrow> None
     | Some (s, r) \<Rightarrow> if s = [] then Some (None, r)
         else map_option (\<lambda>(x, _). (Some x, r)) (dec_message d s))"

lemma reads_back_message [simp]: "reads_back e d \<Longrightarrow> reads_back (enc_message e) (dec_message d)"
  by (simp add: reads_back_def enc_message_def dec_message_def)

lemma reads_back_nested [simp]: "reads_back e d \<Longrightarrow> reads_back (enc_nested e) (dec_nested d)"
proof -
  assume r: "reads_back e d"
  have "dec_message d (enc_message e x) = Some (x, [])" for x
    using reads_backD [OF reads_back_message [OF r], of x "[]"] by simp
  moreover have "dec_str (enc_str s @ r) = Some (s, r)" for s r by (rule reads_backD) simp
  ultimately show ?thesis
    by (simp add: reads_back_def enc_nested_def dec_nested_def enc_message_def split: option.split)
qed

abbreviation "enc_coins \<equiv> enc_pair (enc_list enc_coin) (enc_opt enc_str)"
abbreviation "dec_coins \<equiv> dec_pair (dec_list dec_coin) (dec_opt dec_str)"

definition demo_libs :: libs where
  "demo_libs = \<lparr>
     storage = demo_crates,
     uint_add = checked_add,
     uint_sub = (\<lambda>a b. if b \<le> a then Some (a - b) else None),
     uint_parse = (\<lambda>bs. map_option of_nat (read_digits 0 bs)),
     uint_show = (\<lambda>a. show_nat (unat a)),
     bech32_decode = (\<lambda>bs. Inr (takeWhile (\<lambda>b. b \<noteq> 49) bs, tl (dropWhile (\<lambda>b. b \<noteq> 49) bs), Bech32)),
     bech32_encode = (\<lambda>hrp data v. Inr (hrp @ 49 # data)),
     to_base32 = (\<lambda>bs. bs),
     from_base32 = Inr,
     ripemd160 = (\<lambda>bs. take 20 (bs @ replicate 20 0)),
     key_from_slice = Inr,
     key_serialize = (\<lambda>k. k),
     sig_from_compact = Some,
     verify_ecdsa = (\<lambda>m s k. s = k),
     debug_text = (\<lambda>s. s),
     conversion_text = (\<lambda>s. s),
     pb_coin = demo_codec enc_any dec_any coin_fields coin_of,
     pb_any = demo_codec enc_any dec_any any_fields any_of,
     pb_pub_key = demo_codec enc_str dec_str rpk_key (\<lambda>a. \<lparr> rpk_key = a \<rparr>),
     pb_base_account = demo_codec enc_base dec_base base_fields base_of,
     pb_module_account = demo_codec
       (enc_pair (enc_opt enc_base) (enc_pair enc_str (enc_list enc_str)))
       (dec_pair (dec_opt dec_base) (dec_pair dec_str (dec_list dec_str)))
       (\<lambda>m. (map_option base_fields (rma_base_account m), rma_name m, rma_permissions m))
       (\<lambda>(b, n, p). \<lparr> rma_base_account = map_option base_of b, rma_name = n,
          rma_permissions = p \<rparr>),
     pb_u64 = demo_codec enc_num dec_num (\<lambda>n. n) (\<lambda>n. n),
     pb_msg_send = demo_codec
       (enc_pair enc_str (enc_pair enc_str (enc_list enc_any)))
       (dec_pair dec_str (dec_pair dec_str (dec_list dec_any)))
       (\<lambda>m. (rms_from_address m, rms_to_address m, map coin_fields (rms_amount m)))
       (\<lambda>(a, b, cs). \<lparr> rms_from_address = a, rms_to_address = b, rms_amount = map coin_of cs \<rparr>),
     pb_tx = demo_codec
       (enc_pair (enc_nested enc_tx_body) (enc_pair (enc_nested enc_auth_info) (enc_list enc_str)))
       (dec_pair (dec_nested dec_tx_body) (dec_pair (dec_nested dec_auth_info) (dec_list dec_str)))
       (\<lambda>m. (rtx_body m, rtx_auth_info m, rtx_signatures m))
       (\<lambda>(b, a, s). \<lparr> rtx_body = b, rtx_auth_info = a, rtx_signatures = s \<rparr>),
     pb_tx_body = demo_codec (enc_message enc_tx_body) (dec_message dec_tx_body) (\<lambda>m. m) (\<lambda>m. m),
     pb_auth_info = demo_codec (enc_message enc_auth_info) (dec_message dec_auth_info) (\<lambda>m. m) (\<lambda>m. m),
     pb_tx_raw = demo_codec (enc_pair enc_str (enc_pair enc_str (enc_list enc_str)))
       (dec_pair dec_str (dec_pair dec_str (dec_list dec_str)))
       (\<lambda>m. (body_bytes m, auth_info_bytes m, raw_signatures m))
       (\<lambda>(b, a, s). \<lparr> body_bytes = b, auth_info_bytes = a, raw_signatures = s \<rparr>),
     pb_sign_doc = demo_codec (enc_pair enc_str (enc_pair enc_str (enc_pair enc_str enc_num)))
       (dec_pair dec_str (dec_pair dec_str (dec_pair dec_str dec_num)))
       (\<lambda>m. (sd_body_bytes m, sd_auth_info_bytes m, sd_chain_id m, sd_account_number m))
       (\<lambda>(b, a, c, n). \<lparr> sd_body_bytes = b, sd_auth_info_bytes = a, sd_chain_id = c,
          sd_account_number = n \<rparr>),
     pb_balance_request = demo_codec enc_any dec_any (\<lambda>m. (rbr_address m, rbr_denom m))
       (\<lambda>(a, d). \<lparr> rbr_address = a, rbr_denom = d \<rparr>),
     pb_balance_response = demo_codec (enc_opt enc_coin) (dec_opt dec_coin) rbr_balance
       (\<lambda>c. \<lparr> rbr_balance = c \<rparr>),
     pb_all_balances_request = demo_codec (enc_pair enc_str (enc_opt enc_str))
       (dec_pair dec_str (dec_opt dec_str)) (\<lambda>m. (rabr_address m, rabr_pagination m))
       (\<lambda>(a, p). \<lparr> rabr_address = a, rabr_pagination = p \<rparr>),
     pb_all_balances_response = demo_codec enc_coins dec_coins (\<lambda>m. (rcr_coins m, rcr_pagination m))
       (\<lambda>(c, p). \<lparr> rcr_coins = c, rcr_pagination = p \<rparr>),
     pb_total_supply_response = demo_codec enc_coins dec_coins (\<lambda>m. (rcr_coins m, rcr_pagination m))
       (\<lambda>(c, p). \<lparr> rcr_coins = c, rcr_pagination = p \<rparr>),
     pb_account_request = demo_codec enc_str dec_str rar_address (\<lambda>a. \<lparr> rar_address = a \<rparr>),
     pb_account_response = demo_codec (enc_opt enc_any_message) (dec_opt dec_any_message) rar_account
       (\<lambda>a. \<lparr> rar_account = a \<rparr>) \<rparr>"

lemma demo_libs_coin: "codec_ok (pb_coin demo_libs)"
  by (simp add: demo_libs_def demo_codec_ok)

lemma demo_libs_msg_send: "codec_ok (pb_msg_send demo_libs)"
proof -
  have "coin_of \<circ> coin_fields = id" by (simp add: fun_eq_iff)
  then show ?thesis
    unfolding demo_libs_def libs.simps by (intro demo_codec_ok) simp_all
qed

lemma demo_libs_account: "account_codecs_ok demo_libs"
proof -
  have "base_of \<circ> base_fields = id" by (simp add: fun_eq_iff)
  then have "codec_ok (pb_module_account demo_libs)"
    unfolding demo_libs_def libs.simps
    by (intro demo_codec_ok) (simp_all add: option.map_comp option.map_id)
  then show ?thesis
    by (simp add: account_codecs_ok_def) (simp add: demo_libs_def demo_codec_ok)
qed

lemma demo_libs_tx: "codec_ok (pb_tx demo_libs)"
  unfolding demo_libs_def libs.simps by (intro demo_codec_ok) simp_all

text \<open>
  A decoder of \<open>Tx\<close> reads what was encoded as \<open>TxRaw\<close>: the two messages have the same fields, the
  body and the signer information being kept as bytes in the second.
\<close>

definition tx_wire_ok :: "'a libs_scheme \<Rightarrow> bool" where
  "tx_wire_ok L \<longleftrightarrow> codec_ok (pb_tx_raw L) \<and> (\<forall>body auth_info signatures.
     pb_decode (pb_tx L) (pb_encode (pb_tx_raw L)
       \<lparr> body_bytes = pb_encode (pb_tx_body L) body,
          auth_info_bytes = pb_encode (pb_auth_info L) auth_info, raw_signatures = signatures \<rparr>)
     = Inr \<lparr> rtx_body = Some body, rtx_auth_info = Some auth_info, rtx_signatures = signatures \<rparr>)"

lemma demo_libs_tx_raw:
  "codec_ok (pb_tx_raw demo_libs)"
  "pb_encode (pb_tx_raw demo_libs)
      \<lparr> body_bytes = pb_encode (pb_tx_body demo_libs) body,
         auth_info_bytes = pb_encode (pb_auth_info demo_libs) ai, raw_signatures = sigs \<rparr>
    = pb_encode (pb_tx demo_libs) \<lparr> rtx_body = Some body, rtx_auth_info = Some ai, rtx_signatures = sigs \<rparr>"
proof -
  show "codec_ok (pb_tx_raw demo_libs)"
    unfolding demo_libs_def libs.simps by (intro demo_codec_ok) simp_all
qed (simp add: demo_libs_def demo_codec_def enc_nested_def enc_pair_def)

lemma demo_libs_wire: "tx_wire_ok demo_libs"
  using demo_libs_tx demo_libs_tx_raw by (simp add: tx_wire_ok_def codec_ok_def)

text \<open>The codecs of the queries.\<close>

definition query_codecs_ok :: "'a libs_scheme \<Rightarrow> bool" where
  "query_codecs_ok L \<longleftrightarrow> codec_ok (pb_balance_request L) \<and> codec_ok (pb_balance_response L) \<and>
     codec_ok (pb_all_balances_request L) \<and> codec_ok (pb_all_balances_response L) \<and>
     codec_ok (pb_total_supply_response L) \<and> codec_ok (pb_account_request L) \<and>
     codec_ok (pb_account_response L)"

lemma demo_libs_queries: "query_codecs_ok demo_libs"
  unfolding query_codecs_ok_def demo_libs_def libs.simps
  by (intro conjI demo_codec_ok) simp_all

lemma demo_libs_uint256: "uint256_ok demo_libs"
  by (simp add: uint256_ok_def demo_libs_def read_show_nat)

lemma demo_libs_bech32: "bech32_ok demo_libs"
  by (simp add: bech32_ok_def demo_libs_def BECH32_MAIN_PREFIX_def)

lemma demo_libs_keys: "keys_ok demo_libs"
  by (simp add: keys_ok_def demo_libs_def min_def)

end
