(* ===== verification/Proto_Types.thy ===== *)
theory Proto_Types
  imports Wire
begin

text \<open>
  The value types of \<open>src/proto-types\<close> and \<open>src/proto-messages\<close>: denominations, account
  addresses, coins and the sorted coin lists of transfers and fees, with their conversions
  from and to the generated protobuf types.
\<close>

section \<open>Errors\<close>

datatype address_error =
  AddressDecode bytes
| InvalidPrefix bytes bytes
| InvalidVariant bytes bytes
| InvalidLength u8 nat

datatype denom_error = InvalidDenom

datatype proto_error =
  CoinsError bytes
| CoinError bytes
| DecodeError bytes
| DecodeAny bytes
| MissingField bytes
| DecodeAddress bytes
| DecodeGeneral bytes

text \<open>The \<open>#[error(..)]\<close> formats; \<open>{x:?}\<close> on a string is the quoting of the crate parameter.\<close>

definition address_error_text :: "'a libs_scheme \<Rightarrow> address_error \<Rightarrow> bytes" where
  "address_error_text L e =
     (case e of
        AddressDecode t \<Rightarrow> t
      | InvalidPrefix a b \<Rightarrow> lit ''address has wrong prefix (expected '' @ debug_text L a @
          lit '', found '' @ debug_text L b @ lit '')''
      | InvalidVariant a b \<Rightarrow> lit ''invalid variant (expected '' @ debug_text L a @
          lit '', found '' @ debug_text L b @ lit '')''
      | InvalidLength m n \<Rightarrow> lit ''invalid length, max length is: '' @ show_nat (unat m) @
          lit '', found '' @ show_nat n @ lit '')'')"

definition proto_error_text :: "proto_error \<Rightarrow> bytes" where
  "proto_error_text e =
     (case e of
        CoinsError t \<Rightarrow> lit ''invalid coins: `'' @ t @ lit ''`''
      | CoinError t \<Rightarrow> lit ''invalid coin: `'' @ t @ lit ''`''
      | DecodeError t \<Rightarrow> t
      | DecodeAny t \<Rightarrow> lit ''decode error: `'' @ t @ lit ''`''
      | MissingField t \<Rightarrow> lit ''missing field: `'' @ t @ lit ''`''
      | DecodeAddress t \<Rightarrow> lit ''decode error: `'' @ t @ lit ''`''
      | DecodeGeneral t \<Rightarrow> lit ''decode error: `'' @ t @ lit ''`'')"

section \<open>Protobuf\<close>

text \<open>
  \<open>Protobuf::decode\<close> of the domain types: the wire format, then \<open>TryFrom\<close> of the raw message;
  a conversion that can panic is an \<open>option\<close>. The error is its text.
\<close>

definition proto_decode ::
  "'a libs_scheme \<Rightarrow> 'r codec \<Rightarrow> ('r \<Rightarrow> (proto_error + 'm) option) \<Rightarrow> bytes \<Rightarrow>
     (bytes + 'm) option" where
  "proto_decode L c conv bs =
     (case pb_decode c bs of
        Inl t \<Rightarrow> Some (Inl t)
      | Inr raw \<Rightarrow> map_option (map_err (\<lambda>e. conversion_text L (proto_error_text e))) (conv raw))"

lemma proto_decode_encode:
  "codec_ok c \<Longrightarrow> conv raw = Some (Inr m) \<Longrightarrow>
     proto_decode L c conv (pb_encode c raw) = Some (Inr m)"
  by (simp add: proto_decode_def codec_okD)

section \<open>Denominations\<close>

datatype denom = Denom bytes

definition is_letter :: "u8 \<Rightarrow> bool" where
  "is_letter b \<longleftrightarrow> (97 \<le> b \<and> b \<le> 122) \<or> (65 \<le> b \<and> b \<le> 90)"

definition is_denom_char :: "u8 \<Rightarrow> bool" where
  "is_denom_char b \<longleftrightarrow> is_letter b \<or> (48 \<le> b \<and> b \<le> 57) \<or> b = 47 \<or> b = 45"

text \<open>The regular expression \<open>^[a-zA-Z][a-zA-Z0-9/-]{2,127}$\<close>; its classes are ASCII.\<close>

definition denom_match :: "bytes \<Rightarrow> bool" where
  "denom_match v =
     (case v of [] \<Rightarrow> False
      | b # bs \<Rightarrow> is_letter b \<and> (\<forall>c \<in> set bs. is_denom_char c) \<and> 2 \<le> length bs \<and> length bs \<le> 127)"

definition denom_try_from :: "bytes \<Rightarrow> denom_error + denom" where
  "denom_try_from v = (if \<not> denom_match v then Inl InvalidDenom else Inr (Denom v))"

definition denom_from_str :: "bytes \<Rightarrow> denom_error + denom" where
  "denom_from_str s = denom_try_from s"

fun denom_to_string :: "denom \<Rightarrow> bytes" where
  "denom_to_string (Denom v) = v"

text \<open>A \<open>Denom\<close> is built by \<open>try_from\<close> only.\<close>

definition denom_ok :: "denom \<Rightarrow> bool" where
  "denom_ok d \<longleftrightarrow> denom_match (denom_to_string d)"

lemma denom_try_from_Inr [simp]:
  "denom_try_from v = Inr d \<longleftrightarrow> denom_ok d \<and> v = denom_to_string d"
  by (cases d) (auto simp: denom_try_from_def denom_ok_def)

lemma denom_to_string_inj [simp]: "denom_to_string d = denom_to_string e \<longleftrightarrow> d = e"
  by (cases d; cases e) simp

lemma denom_string_not_Nil: "denom_ok d \<Longrightarrow> denom_to_string d \<noteq> []"
  by (auto simp: denom_ok_def denom_match_def)

section \<open>Account addresses\<close>

datatype acc_address = AccAddress bytes

definition MAX_ADDR_LEN :: u8 where "MAX_ADDR_LEN = 255"

definition BECH32_PREFIX_ACC_ADDR :: bytes where "BECH32_PREFIX_ACC_ADDR = BECH32_MAIN_PREFIX"

definition addr_try_from :: "bytes \<Rightarrow> address_error + acc_address" where
  "addr_try_from v =
     (if length v > unat MAX_ADDR_LEN then Inl (InvalidLength MAX_ADDR_LEN (length v))
      else Inr (AccAddress v))"

definition from_bech32 :: "'a libs_scheme \<Rightarrow> bytes \<Rightarrow> address_error + acc_address" where
  "from_bech32 L text =
     then_try (map_err AddressDecode (bech32_decode L text)) (\<lambda>(hrp, data, v).
       if hrp \<noteq> BECH32_PREFIX_ACC_ADDR then Inl (InvalidPrefix BECH32_PREFIX_ACC_ADDR hrp)
       else if v = Bech32m then Inl (InvalidVariant (lit ''Bech32'') (lit ''Bech32m''))
       else then_try (map_err AddressDecode (from_base32 L data)) (\<lambda>address.
         if length address > unat MAX_ADDR_LEN
         then Inl (InvalidLength MAX_ADDR_LEN (length address))
         else Inr (AccAddress address)))"

fun addr_bytes :: "acc_address \<Rightarrow> bytes" where
  "addr_bytes (AccAddress v) = v"

definition addr_len :: "acc_address \<Rightarrow> u8 option" where
  "addr_len a =
     (let n = length (addr_bytes a) in if n < 2 ^ 8 then Some (of_nat n) else None)"

definition addr_to_string :: "'a libs_scheme \<Rightarrow> acc_address \<Rightarrow> bytes option" where
  "addr_to_string L a =
     unwrap_result (Some (bech32_encode L BECH32_PREFIX_ACC_ADDR (to_base32 L (addr_bytes a)) Bech32))"

definition addr_ok :: "acc_address \<Rightarrow> bool" where
  "addr_ok a \<longleftrightarrow> length (addr_bytes a) \<le> 255"

lemma addr_bytes_inj [simp]: "addr_bytes a = addr_bytes b \<longleftrightarrow> a = b"
  by (cases a; cases b) simp

lemma max_addr_len [simp]: "unat MAX_ADDR_LEN = 255"
  by (simp add: MAX_ADDR_LEN_def)

lemma from_bech32_ok: "from_bech32 L t = Inr a \<Longrightarrow> addr_ok a"
  by (auto simp: from_bech32_def then_try_Inr addr_ok_def split: if_splits)

lemma addr_try_from_ok: "addr_try_from v = Inr a \<Longrightarrow> addr_ok a \<and> addr_bytes a = v"
  by (auto simp: addr_try_from_def addr_ok_def split: if_splits)

lemma addr_len_ok: "addr_ok a \<Longrightarrow> addr_len a = Some (of_nat (length (addr_bytes a)))"
  by (simp add: addr_len_def addr_ok_def)

text \<open>Every address prints, and its text is read back.\<close>

lemma addr_string:
  assumes "bech32_ok L"
  obtains t where "addr_to_string L a = Some t" "t \<noteq> []" "addr_ok a \<longrightarrow> from_bech32 L t = Inr a"
proof -
  from assms obtain t where t: "bech32_encode L BECH32_MAIN_PREFIX (to_base32 L (addr_bytes a)) Bech32
      = Inr t" "t \<noteq> []"
      "bech32_decode L t = Inr (BECH32_MAIN_PREFIX, to_base32 L (addr_bytes a), Bech32)"
    and b: "from_base32 L (to_base32 L (addr_bytes a)) = Inr (addr_bytes a)"
    unfolding bech32_ok_def by blast
  have "addr_ok a \<longrightarrow> from_bech32 L t = Inr a"
    by (cases a) (use t b in \<open>simp add: from_bech32_def BECH32_PREFIX_ACC_ADDR_def addr_ok_def\<close>)
  moreover have "addr_to_string L a = Some t"
    using t by (simp add: addr_to_string_def BECH32_PREFIX_ACC_ADDR_def)
  ultimately show thesis using that t(2) by blast
qed

section \<open>Coins\<close>

record coin =
  coin_denom :: denom
  coin_amount :: u256

definition coin_try_from :: "'a libs_scheme \<Rightarrow> raw_coin \<Rightarrow> proto_error + coin" where
  "coin_try_from L raw =
     then_try (map_err (\<lambda>_. CoinError (lit ''coin error'')) (denom_try_from (rc_denom raw))) (\<lambda>d.
     then_try (case uint_parse L (rc_amount raw) of
         None \<Rightarrow> Inl (CoinError (lit ''coin error'')) | Some a \<Rightarrow> Inr a) (\<lambda>a.
     Inr \<lparr> coin_denom = d, coin_amount = a \<rparr>))"

definition raw_from_coin :: "'a libs_scheme \<Rightarrow> coin \<Rightarrow> raw_coin" where
  "raw_from_coin L c =
     \<lparr> rc_denom = denom_to_string (coin_denom c), rc_amount = uint_show L (coin_amount c) \<rparr>"

definition coin_encode_vec :: "'a libs_scheme \<Rightarrow> coin \<Rightarrow> bytes" where
  "coin_encode_vec L c = pb_encode (pb_coin L) (raw_from_coin L c)"

definition coin_decode :: "'a libs_scheme \<Rightarrow> bytes \<Rightarrow> (bytes + coin) option" where
  "coin_decode L bs = proto_decode L (pb_coin L) (\<lambda>raw. Some (coin_try_from L raw)) bs"

definition coin_ok :: "coin \<Rightarrow> bool" where
  "coin_ok c \<longleftrightarrow> denom_ok (coin_denom c)"

lemma coin_raw_round_trip:
  "uint256_ok L \<Longrightarrow> coin_ok c \<Longrightarrow> coin_try_from L (raw_from_coin L c) = Inr c"
  by (simp add: coin_try_from_def raw_from_coin_def uint256_okD coin_ok_def denom_try_from_def
      denom_ok_def) (cases "coin_denom c", simp)

lemma coin_decode_encode:
  assumes "uint256_ok L" "codec_ok (pb_coin L)" "coin_ok c"
  shows "coin_decode L (coin_encode_vec L c) = Some (Inr c)"
  unfolding coin_decode_def coin_encode_vec_def
  by (rule proto_decode_encode) (simp_all add: assms coin_raw_round_trip)

lemma coin_try_from_ok: "coin_try_from L raw = Inr c \<Longrightarrow> coin_ok c"
  by (auto simp: coin_try_from_def then_try_Inr coin_ok_def)

lemma coin_decode_ok: "coin_decode L bs = Some (Inr c) \<Longrightarrow> coin_ok c"
  by (auto simp: coin_decode_def proto_decode_def intro: coin_try_from_ok split: sum.splits)

section \<open>Coin lists of transfers and fees\<close>

datatype send_coins = SendCoins "coin list"

fun coin_list :: "send_coins \<Rightarrow> coin list" where
  "coin_list (SendCoins cs) = cs"

text \<open>The loop over \<open>coins[1..]\<close>, with the text of the previous denomination.\<close>

fun validate_rest :: "bytes \<Rightarrow> coin list \<Rightarrow> proto_error + unit" where
  "validate_rest previous_denom [] = Inr ()"
| "validate_rest previous_denom (c # cs) =
     (if coin_amount c = 0 then Inl (CoinsError (lit ''coin amount must be positive''))
      else if denom_to_string (coin_denom c) \<le> previous_denom
      then Inl (CoinsError (lit ''coins are not sorted and/or contain duplicates''))
      else validate_rest (denom_to_string (coin_denom c)) cs)"

definition validate_coins :: "coin list \<Rightarrow> proto_error + unit" where
  "validate_coins coins =
     (case coins of
        [] \<Rightarrow> Inl (CoinsError (lit ''list of coins is empty''))
      | c # cs \<Rightarrow>
          if coin_amount c = 0 then Inl (CoinsError (lit ''coin amount must be positive''))
          else validate_rest (denom_to_string (coin_denom c)) cs)"

definition send_coins_new :: "coin list \<Rightarrow> proto_error + send_coins" where
  "send_coins_new coins = then_try (validate_coins coins) (\<lambda>_. Inr (SendCoins coins))"

text \<open>The reference: at least one coin, positive amounts, strictly ascending denominations.\<close>

definition send_coins_ok :: "coin list \<Rightarrow> bool" where
  "send_coins_ok cs \<longleftrightarrow> cs \<noteq> [] \<and> (\<forall>c \<in> set cs. 0 < coin_amount c) \<and>
     sorted_wrt (<) (map (\<lambda>c. denom_to_string (coin_denom c)) cs)"

lemma validate_rest_Inr:
  "validate_rest p cs = Inr () \<longleftrightarrow>
     (\<forall>c \<in> set cs. 0 < coin_amount c \<and> p < denom_to_string (coin_denom c)) \<and>
     sorted_wrt (<) (map (\<lambda>c. denom_to_string (coin_denom c)) cs)"
proof (induction p cs rule: validate_rest.induct)
  case (2 p c cs)
  show ?case
  proof (cases "coin_amount c = 0 \<or> denom_to_string (coin_denom c) \<le> p")
    case True
    then show ?thesis by (auto simp: not_less [symmetric])
  next
    case False
    then have "validate_rest p (c # cs) = validate_rest (denom_to_string (coin_denom c)) cs"
      by simp
    moreover have "0 < coin_amount c" "p < denom_to_string (coin_denom c)"
      using False by (auto simp: word_neq_0_conv)
    ultimately show ?thesis using 2 False by (auto intro: less_trans)
  qed
qed simp

lemma send_coins_new_valid:
  "send_coins_new cs = Inr s \<longleftrightarrow> send_coins_ok cs \<and> s = SendCoins cs"
  by (cases cs) (auto simp: send_coins_new_def validate_coins_def send_coins_ok_def
      validate_rest_Inr then_try_Inr word_neq_0_conv)

lemma send_coins_ok_distinct:
  "send_coins_ok cs \<Longrightarrow> distinct (map coin_denom cs)"
proof -
  assume "send_coins_ok cs"
  then have "distinct (map denom_to_string (map coin_denom cs))"
    by (simp add: send_coins_ok_def strict_sorted_iff o_def)
  then show ?thesis by (auto simp: distinct_map inj_on_def)
qed

text \<open>Conversion of a list of raw coins, and back.\<close>

definition coins_try_from :: "'a libs_scheme \<Rightarrow> raw_coin list \<Rightarrow> proto_error + send_coins" where
  "coins_try_from L raws = then_try (collect_results (coin_try_from L) raws) send_coins_new"

lemma coins_round_trip:
  assumes "uint256_ok L" "send_coins_ok cs" "\<forall>c \<in> set cs. coin_ok c"
  shows "coins_try_from L (map (raw_from_coin L) cs) = Inr (SendCoins cs)"
proof -
  have "collect_results (coin_try_from L) (map (raw_from_coin L) cs) = Inr cs"
    by (rule collect_results_map) (use assms coin_raw_round_trip in blast)
  moreover have "send_coins_new cs = Inr (SendCoins cs)"
    using assms(2) by (simp add: send_coins_new_valid)
  ultimately show ?thesis by (simp add: coins_try_from_def)
qed

lemma collect_results_from:
  "collect_results f xs = Inr ys \<Longrightarrow> y \<in> set ys \<Longrightarrow> \<exists>x \<in> set xs. f x = Inr y"
  by (induction xs arbitrary: ys) (auto split: sum.splits)

lemma coins_try_from_ok:
  "coins_try_from L raws = Inr s \<Longrightarrow>
     send_coins_ok (coin_list s) \<and> (\<forall>c \<in> set (coin_list s). coin_ok c)"
  using coin_try_from_ok collect_results_from [of "coin_try_from L" raws "coin_list s"]
  by (fastforce simp: coins_try_from_def then_try_Inr send_coins_new_valid)

end
