(* ===== verification/Contexts.thy ===== *)
theory Contexts
  imports Multi_Store Proto_Types
begin

text \<open>
  Application errors and the contexts in which handlers run (\<open>src/gears/src/error.rs\<close>,
  \<open>src/gears/src/types/context.rs\<close>). A context holds the multi store; the database below it
  and the crates are the record \<open>host\<close>, which handlers read and do not change. The lemmas
  say what a handler sees of a store (\<open>view\<close>) and what it may change of it: the transaction
  caches only (\<open>tx_only\<close>).
\<close>

section \<open>Errors\<close>

datatype app_error =
  Bech32Error bytes
| InvalidRequest bytes
| SendError bytes
| AccountNotFound
| TxParseError bytes
| Coins bytes
| TxValidation bytes
| Timeout u64 u64
| Memo u64
| InvalidPublicKey
| TreeError trees_error
| IBC bytes
| Genesis bytes

definition app_error_code :: "app_error \<Rightarrow> u32" where
  "app_error_code e = 1"

text \<open>\<open>Display\<close>; the text of a tree error is that of \<open>trees::Error\<close>.\<close>

definition app_error_text :: "(trees_error \<Rightarrow> bytes) \<Rightarrow> app_error \<Rightarrow> bytes" where
  "app_error_text tree_text e =
     (case e of
        Bech32Error t \<Rightarrow> t
      | InvalidRequest msg \<Rightarrow> lit ''invalid request: '' @ msg
      | SendError msg \<Rightarrow> lit ''send error: '' @ msg
      | AccountNotFound \<Rightarrow> lit ''account does not exist''
      | TxParseError msg \<Rightarrow> lit ''tx parse error: '' @ msg
      | Coins msg \<Rightarrow> lit ''invalid coins: '' @ msg
      | TxValidation msg \<Rightarrow> lit ''invalid transaction: '' @ msg
      | Timeout t c \<Rightarrow> lit ''tx has timed out; timeout height: '' @ show_u64 t @
          lit '', current height: '' @ show_u64 c
      | Memo n \<Rightarrow> lit ''memo is too long, max length is '' @ show_u64 n
      | InvalidPublicKey \<Rightarrow> lit ''public key is invalid''
      | TreeError err \<Rightarrow> tree_text err
      | IBC msg \<Rightarrow> lit ''ibc routing error: '' @ msg
      | Genesis msg \<Rightarrow> msg)"

section \<open>Contexts\<close>

text \<open>Of Tendermint's block header only the chain id is used. Event attributes are indexed.\<close>

record header =
  header_chain_id :: bytes

datatype event = Event (event_kind: bytes) (event_attributes: "(bytes \<times> bytes) list")

record tx_context =
  tx_multi_store :: multistore
  tx_height :: u64
  tx_events :: "event list"
  tx_header :: header
  tx_bytes :: bytes

record init_context =
  init_multi_store :: multistore
  init_height :: u64
  init_events :: "event list"
  init_chain_id :: bytes

datatype ctx = TxContext tx_context | InitContext init_context

record query_context =
  query_multi_store :: multistore
  query_height :: u64

definition tx_context_new :: "multistore \<Rightarrow> u64 \<Rightarrow> header \<Rightarrow> bytes \<Rightarrow> tx_context" where
  "tx_context_new ms height header bs =
     \<lparr> tx_multi_store = ms, tx_height = height, tx_events = [], tx_header = header,
        tx_bytes = bs \<rparr>"

definition init_context_new :: "multistore \<Rightarrow> u64 \<Rightarrow> bytes \<Rightarrow> init_context" where
  "init_context_new ms height chain_id =
     \<lparr> init_multi_store = ms, init_height = height, init_events = [],
        init_chain_id = chain_id \<rparr>"

definition query_context_new :: "multistore \<Rightarrow> u64 \<Rightarrow> query_context" where
  "query_context_new ms height = \<lparr> query_multi_store = ms, query_height = height \<rparr>"

fun ctx_multi_store :: "ctx \<Rightarrow> multistore" where
  "ctx_multi_store (TxContext c) = tx_multi_store c"
| "ctx_multi_store (InitContext c) = init_multi_store c"

fun ctx_set_multi_store :: "ctx \<Rightarrow> multistore \<Rightarrow> ctx" where
  "ctx_set_multi_store (TxContext c) ms = TxContext (c\<lparr> tx_multi_store := ms \<rparr>)"
| "ctx_set_multi_store (InitContext c) ms = InitContext (c\<lparr> init_multi_store := ms \<rparr>)"

definition ctx_get_kv_store :: "ctx \<Rightarrow> bytes \<Rightarrow> kvstore option" where
  "ctx_get_kv_store ctx store_key = get_kv_store (ctx_multi_store ctx) store_key"

definition query_get_kv_store :: "query_context \<Rightarrow> bytes \<Rightarrow> kvstore option" where
  "query_get_kv_store ctx store_key = get_kv_store (query_multi_store ctx) store_key"

fun ctx_get_height :: "ctx \<Rightarrow> u64" where
  "ctx_get_height (TxContext c) = tx_height c"
| "ctx_get_height (InitContext c) = init_height c"

fun ctx_get_chain_id :: "ctx \<Rightarrow> bytes" where
  "ctx_get_chain_id (TxContext c) = header_chain_id (tx_header c)"
| "ctx_get_chain_id (InitContext c) = init_chain_id c"

fun ctx_events :: "ctx \<Rightarrow> event list" where
  "ctx_events (TxContext c) = tx_events c"
| "ctx_events (InitContext c) = init_events c"

fun ctx_append_events :: "ctx \<Rightarrow> event list \<Rightarrow> ctx" where
  "ctx_append_events (TxContext c) es = TxContext (c\<lparr> tx_events := tx_events c @ es \<rparr>)"
| "ctx_append_events (InitContext c) es = InitContext (c\<lparr> init_events := init_events c @ es \<rparr>)"

definition ctx_push_event :: "ctx \<Rightarrow> event \<Rightarrow> ctx" where
  "ctx_push_event ctx e = ctx_append_events ctx [e]"

text \<open>
  \<open>get_mutable_kv_store\<close> and the calls on the reference it returns: they run on the store,
  which is then part of the context again.
\<close>

definition with_store ::
  "ctx \<Rightarrow> bytes \<Rightarrow> (kvstore \<Rightarrow> ('e, 'a, kvstore) outcome) \<Rightarrow> ('e, 'a, ctx) outcome" where
  "with_store ctx store_key f = do {
     kv \<leftarrow> ctx_get_kv_store ctx store_key;
     (r, kv) \<leftarrow> f kv;
     Some (r, ctx_set_multi_store ctx (set_kv_store (ctx_multi_store ctx) store_key kv)) }"

section \<open>Reading and writing a store\<close>

record 'db host = libs +
  host_db :: "'db database_ops"
  host_state :: "'db"

definition kv_read :: "'db host \<Rightarrow> bytes \<Rightarrow> kvstore \<Rightarrow> bytes \<Rightarrow> bytes option option" where
  "kv_read H store_key kv key =
     kv_get (storage H) (module_db (host_db H) store_key) (host_state H) kv key"

definition kv_write :: "kvstore \<Rightarrow> bytes \<Rightarrow> bytes \<Rightarrow> ('e, unit, kvstore) outcome" where
  "kv_write kv key val = map_option (\<lambda>kv. (Inr (), kv)) (kv_set kv key val)"

definition ctx_read :: "'db host \<Rightarrow> ctx \<Rightarrow> bytes \<Rightarrow> bytes \<Rightarrow> bytes option option" where
  "ctx_read H ctx store_key key = do {
     kv \<leftarrow> ctx_get_kv_store ctx store_key;
     kv_read H store_key kv key }"

definition ctx_write :: "ctx \<Rightarrow> bytes \<Rightarrow> bytes \<Rightarrow> bytes \<Rightarrow> ctx option" where
  "ctx_write ctx store_key key val =
     map_option snd (with_store ctx store_key (\<lambda>kv. kv_write kv key val :: (unit, unit, kvstore) outcome))"

text \<open>
  The interface keepers rely on: reads of a state as a map from keys to values, and a write
  that changes it at one key. \<open>view look s f\<close> says that no read of \<open>s\<close> panics and what it
  returns.
\<close>

definition view ::
  "('st \<Rightarrow> bytes \<Rightarrow> bytes option option) \<Rightarrow> 'st \<Rightarrow> (bytes \<Rightarrow> bytes option) \<Rightarrow> bool" where
  "view look s f \<longleftrightarrow> (\<forall>k. look s k = Some (f k))"

lemma view_read: "view look s f \<Longrightarrow> look s k = Some (f k)"
  by (simp add: view_def)

lemma view_unique: "view look s f \<Longrightarrow> view look s g \<Longrightarrow> f = g"
  by (auto simp: view_def fun_eq_iff)

locale kv_interface =
  fixes look :: "'st \<Rightarrow> bytes \<Rightarrow> bytes option option"
    and put :: "'st \<Rightarrow> bytes \<Rightarrow> bytes \<Rightarrow> 'st option"
  assumes write_returns: "look s k0 = Some r \<Longrightarrow> key \<noteq> [] \<Longrightarrow> \<exists>t. put s key v = Some t"
    and read_write: "put s key v = Some t \<Longrightarrow>
      look t k = (if k = key then Some (Some v) else look s k)"
begin

lemma view_write: "view look s f \<Longrightarrow> put s key v = Some t \<Longrightarrow> view look t (f(key \<mapsto> v))"
  using read_write by (simp add: view_def)

lemma view_write_returns:
  "view look s f \<Longrightarrow> key \<noteq> [] \<Longrightarrow>
     \<exists>t. put s key v = Some t \<and> view look t (f(key \<mapsto> v))"
  using write_returns view_write view_read by metis

end

lemma get_set_kv_store:
  assumes "get_kv_store ms sk = Some kv0"
  shows "get_kv_store (set_kv_store ms sk kv) n = (if n = sk then Some kv else get_kv_store ms n)"
proof -
  have "map_of (map (\<lambda>(m, k). (m, if m = sk then kv else k)) xs) n
      = (if n = sk \<and> map_of xs sk \<noteq> None then Some kv else map_of xs n)"
    for xs :: "(bytes \<times> kvstore) list"
    by (induction xs) auto
  then show ?thesis using assms by (auto simp: get_kv_store_def set_kv_store_def)
qed

lemma ctx_set_multi_store_simps [simp]:
  "ctx_multi_store (ctx_set_multi_store ctx ms) = ms"
  "ctx_get_height (ctx_set_multi_store ctx ms) = ctx_get_height ctx"
  "ctx_get_chain_id (ctx_set_multi_store ctx ms) = ctx_get_chain_id ctx"
  "ctx_events (ctx_set_multi_store ctx ms) = ctx_events ctx"
  by (cases ctx; simp)+

lemma ctx_append_events_simps [simp]:
  "ctx_multi_store (ctx_append_events ctx es) = ctx_multi_store ctx"
  "ctx_get_height (ctx_append_events ctx es) = ctx_get_height ctx"
  "ctx_get_chain_id (ctx_append_events ctx es) = ctx_get_chain_id ctx"
  "ctx_events (ctx_append_events ctx es) = ctx_events ctx @ es"
  "ctx_get_kv_store (ctx_append_events ctx es) sk = ctx_get_kv_store ctx sk"
  by (cases ctx; simp add: ctx_get_kv_store_def)+

lemma with_store_Some:
  "with_store ctx sk f = Some (r, ctx') \<longleftrightarrow>
     (\<exists>kv kv'. ctx_get_kv_store ctx sk = Some kv \<and> f kv = Some (r, kv') \<and>
        ctx' = ctx_set_multi_store ctx (set_kv_store (ctx_multi_store ctx) sk kv'))"
  by (auto simp: with_store_def bind_eq_Some_conv)

lemma with_store_get:
  assumes "with_store ctx sk f = Some (r, ctx')" "ctx_get_kv_store ctx sk = Some kv"
    and "f kv = Some (r, kv')"
  shows "ctx_get_kv_store ctx' n = (if n = sk then Some kv' else ctx_get_kv_store ctx n)"
  using assms get_set_kv_store [of "ctx_multi_store ctx" sk kv kv' n]
  by (auto simp: with_store_Some ctx_get_kv_store_def)

abbreviation kv_view where "kv_view H sk \<equiv> view (kv_read H sk)"
abbreviation ctx_view where "ctx_view H sk \<equiv> view (\<lambda>ctx. ctx_read H ctx sk)"

lemma kv_interface_kv:
  "kv_interface (kv_read H sk) (\<lambda>kv k v. kv_set kv k v)"
proof
  show "kv_read H sk kv k0 = Some r \<Longrightarrow> key \<noteq> [] \<Longrightarrow> \<exists>t. kv_set kv key v = Some t" for kv k0 r key v
    by (simp add: kv_set_def)
  show "kv_set kv key v = Some t \<Longrightarrow>
      kv_read H sk t k = (if k = key then Some (Some v) else kv_read H sk kv k)" for kv key v t k
    unfolding kv_read_def by (rule kv_set_get)
qed

interpretation kv: kv_interface "kv_read H sk" kv_set for H :: "'db host" and sk
  by (rule kv_interface_kv)

lemma ctx_write_Some:
  "ctx_write ctx sk key v = Some ctx' \<longleftrightarrow>
     (\<exists>kv kv'. ctx_get_kv_store ctx sk = Some kv \<and> kv_set kv key v = Some kv' \<and>
        ctx' = ctx_set_multi_store ctx (set_kv_store (ctx_multi_store ctx) sk kv'))"
  by (auto simp: ctx_write_def with_store_Some kv_write_def)

lemma ctx_write_store:
  "ctx_write ctx sk key v = Some ctx' \<Longrightarrow> ctx_get_kv_store ctx sk = Some kv \<Longrightarrow>
     \<exists>kv'. kv_set kv key v = Some kv' \<and>
       ctx_get_kv_store ctx' n = (if n = sk then Some kv' else ctx_get_kv_store ctx n)"
  using get_set_kv_store [of "ctx_multi_store ctx" sk kv _ n]
  by (auto simp: ctx_write_Some ctx_get_kv_store_def)

interpretation cs: kv_interface "\<lambda>ctx. ctx_read H ctx sk" "\<lambda>ctx. ctx_write ctx sk"
  for H :: "'db host" and sk
proof
  fix ctx k0 r and key v :: bytes
  assume "ctx_read H ctx sk k0 = Some r" "key \<noteq> []"
  then obtain kv kv' where "ctx_get_kv_store ctx sk = Some kv" "kv_set kv key v = Some kv'"
    by (auto simp: ctx_read_def bind_eq_Some_conv kv_set_def)
  then show "\<exists>t. ctx_write ctx sk key v = Some t" by (auto simp: ctx_write_Some)
next
  fix ctx key v ctx' k
  assume w: "ctx_write ctx sk key v = Some ctx'"
  then obtain kv where kv: "ctx_get_kv_store ctx sk = Some kv" by (auto simp: ctx_write_Some)
  from ctx_write_store [OF w kv, of sk] kv.read_write [of kv key v _ H sk k] kv
  show "ctx_read H ctx' sk k = (if k = key then Some (Some v) else ctx_read H ctx sk k)"
    by (auto simp: ctx_read_def)
qed

text \<open>Writes to one store leave the others alone.\<close>

lemma ctx_write_other:
  "ctx_write ctx sk key v = Some ctx' \<Longrightarrow> n \<noteq> sk \<Longrightarrow> ctx_read H ctx' n k = ctx_read H ctx n k"
  using ctx_write_store by (fastforce simp: ctx_write_Some ctx_read_def)

lemma view_other:
  "ctx_write ctx sk key v = Some ctx' \<Longrightarrow> n \<noteq> sk \<Longrightarrow>
     ctx_view H n ctx' g \<longleftrightarrow> ctx_view H n ctx g"
  by (simp add: view_def ctx_write_other)

section \<open>Changes of the transaction caches only\<close>

definition ms_ok :: "multistore \<Rightarrow> bool" where
  "ms_ok ms \<longleftrightarrow> distinct (map fst (stores ms)) \<and> (\<forall>(n, kv) \<in> set (stores ms). kv_ok kv)"

definition kv_only :: "kvstore \<Rightarrow> kvstore \<Rightarrow> bool" where
  "kv_only kv kv' \<longleftrightarrow> (kv_ok kv \<longrightarrow> kv_ok kv') \<and> clear_tx_cache kv' = clear_tx_cache kv"

definition tx_only :: "ctx \<Rightarrow> ctx \<Rightarrow> bool" where
  "tx_only ctx ctx' \<longleftrightarrow>
     (ms_ok (ctx_multi_store ctx) \<longrightarrow> ms_ok (ctx_multi_store ctx') \<and>
        clear_tx_caches (ctx_multi_store ctx') = clear_tx_caches (ctx_multi_store ctx)) \<and>
     ctx_get_height ctx' = ctx_get_height ctx \<and> ctx_get_chain_id ctx' = ctx_get_chain_id ctx"

lemma kv_only_refl [simp]: "kv_only kv kv"
  by (simp add: kv_only_def)

lemma kv_only_trans: "kv_only a b \<Longrightarrow> kv_only b c \<Longrightarrow> kv_only a c"
  by (simp add: kv_only_def)

lemma kv_set_only: "kv_set kv k v = Some kv' \<Longrightarrow> kv_only kv kv'"
  by (auto simp: kv_only_def kv_set_ok) (auto simp: kv_set_def clear_tx_cache_def split: if_splits)

lemma tx_only_refl [simp]: "tx_only ctx ctx"
  by (simp add: tx_only_def)

lemma tx_only_trans: "tx_only a b \<Longrightarrow> tx_only b c \<Longrightarrow> tx_only a c"
  by (auto simp: tx_only_def)

lemma tx_only_events [simp]: "tx_only ctx (ctx_append_events ctx es)"
  by (simp add: tx_only_def)

lemma set_kv_store_only:
  assumes "ms_ok ms" "get_kv_store ms sk = Some kv" "kv_only kv kv'"
  shows "ms_ok (set_kv_store ms sk kv') \<and>
    clear_tx_caches (set_kv_store ms sk kv') = clear_tx_caches ms"
proof -
  have d: "distinct (map fst (stores ms))" and k: "(sk, kv) \<in> set (stores ms)"
    using assms(1,2) by (auto simp: ms_ok_def get_kv_store_def dest: map_of_SomeD)
  have eq: "n = sk \<Longrightarrow> q = kv" if "(n, q) \<in> set (stores ms)" for n q
    using that k d by (metis eq_key_imp_eq_value)
  have "map fst (stores (set_kv_store ms sk kv')) = map fst (stores ms)"
    by (simp add: set_kv_store_def case_prod_beta o_def)
  moreover have "kv_ok kv" using assms(1) k by (auto simp: ms_ok_def)
  ultimately have "ms_ok (set_kv_store ms sk kv')"
    using assms d by (auto simp add: ms_ok_def kv_only_def) (auto simp: set_kv_store_def)
  moreover have "clear_tx_caches (set_kv_store ms sk kv') = clear_tx_caches ms"
  proof -
    have "map (\<lambda>(n, kv). (n, clear_tx_cache kv)) (stores (set_kv_store ms sk kv'))
        = map (\<lambda>(n, kv). (n, clear_tx_cache kv)) (stores ms)"
      using assms(3) eq by (auto simp: set_kv_store_def kv_only_def)
    then show ?thesis by (simp add: clear_tx_caches_def) (simp add: set_kv_store_def)
  qed
  ultimately show ?thesis ..
qed

lemma with_store_only:
  assumes "with_store ctx sk f = Some (r, ctx')"
    and "\<And>kv kv'. f kv = Some (r, kv') \<Longrightarrow> kv_only kv kv'"
  shows "tx_only ctx ctx'"
proof -
  from assms(1) obtain kv kv' where g: "ctx_get_kv_store ctx sk = Some kv" and
    f: "f kv = Some (r, kv')" and
    c: "ctx' = ctx_set_multi_store ctx (set_kv_store (ctx_multi_store ctx) sk kv')"
    unfolding with_store_Some by blast
  show ?thesis
    using set_kv_store_only [of "ctx_multi_store ctx" sk kv kv'] g assms(2) [OF f]
    by (simp add: tx_only_def c ctx_get_kv_store_def)
qed

lemma ctx_write_only: "ctx_write ctx sk k v = Some ctx' \<Longrightarrow> tx_only ctx ctx'"
  by (auto simp: ctx_write_def kv_write_def intro: with_store_only kv_set_only)

text \<open>What a call that writes one store leaves alone: everything but that store's cache.\<close>

definition touches :: "'db host \<Rightarrow> bytes \<Rightarrow> ctx \<Rightarrow> ctx \<Rightarrow> bool" where
  "touches H sk ctx ctx' \<longleftrightarrow> tx_only ctx ctx' \<and> ctx_events ctx' = ctx_events ctx \<and>
     (\<forall>n g. n \<noteq> sk \<longrightarrow> ctx_view H n ctx' g = ctx_view H n ctx g)"

lemma touches_refl [simp]: "touches H sk ctx ctx"
  by (simp add: touches_def)

lemma touches_trans: "touches H sk a b \<Longrightarrow> touches H sk b c \<Longrightarrow> touches H sk a c"
  by (auto simp: touches_def intro: tx_only_trans)

lemma touchesD:
  assumes "touches H sk ctx ctx'"
  shows "tx_only ctx ctx'" "ctx_events ctx' = ctx_events ctx"
    "n \<noteq> sk \<Longrightarrow> ctx_view H n ctx' g = ctx_view H n ctx g"
  using assms by (simp_all add: touches_def)

lemma ctx_write_events: "ctx_write ctx sk k v = Some ctx' \<Longrightarrow> ctx_events ctx' = ctx_events ctx"
  by (auto simp: ctx_write_Some)

lemma ctx_write_touches: "ctx_write ctx sk k v = Some ctx' \<Longrightarrow> touches H sk ctx ctx'"
  by (simp add: touches_def ctx_write_only ctx_write_events view_other)

text \<open>A write of a store that can be read returns.\<close>

lemma view_put:
  assumes "ctx_view H sk ctx f" "key \<noteq> []"
  obtains ctx' where "ctx_write ctx sk key v = Some ctx'" "ctx_view H sk ctx' (f(key \<mapsto> v))"
    "touches H sk ctx ctx'"
  using cs.view_write_returns [OF assms, of v] ctx_write_touches that by blast

lemma clear_tx_caches_idem [simp]: "clear_tx_caches (clear_tx_caches ms) = clear_tx_caches ms"
  by (simp add: clear_tx_caches_def clear_tx_cache_def case_prod_beta o_def)

text \<open>Writing the transaction caches through does not fail, and no read of a store changes.\<close>

lemma write_all_tx_caches_eq:
  "\<forall>(n, kv) \<in> set kvs. kv_ok kv \<Longrightarrow>
     write_all_tx_caches kvs
       = Some (map (\<lambda>(n, kv). (n, kv\<lparr> block_cache := merged kv, tx_cache := [] \<rparr>)) kvs)"
  by (induction kvs) (auto simp: write_tx_cache_eq)

lemma write_tx_caches_views:
  assumes "ms_ok ms"
  obtains ms' where "write_then_clear_tx_caches ms = Some ms'" "ms_ok ms'"
    "clear_tx_caches ms' = ms'"
    "\<And>n kv. get_kv_store ms n = Some kv \<Longrightarrow> \<exists>kv'. get_kv_store ms' n = Some kv' \<and>
       (\<forall>C D s k. kv_get C D s kv' k = kv_get C D s kv k)"
proof -
  let ?w = "\<lambda>kv. kv\<lparr> block_cache := merged kv, tx_cache := [] \<rparr>"
  let ?ms = "ms\<lparr> stores := map (\<lambda>(n, kv). (n, ?w kv)) (stores ms) \<rparr>"
  have ok: "kv_ok kv" if "(n, kv) \<in> set (stores ms)" for n kv
    using assms that by (auto simp: ms_ok_def)
  have "write_then_clear_tx_caches ms = Some ?ms"
    using write_all_tx_caches_eq [of "stores ms"] ok
    by (auto simp: write_then_clear_tx_caches_def)
  moreover have "ms_ok ?ms"
    using assms merged_ok
    by (auto simp: ms_ok_def kv_ok_def case_prod_beta o_def)
  moreover have "clear_tx_caches ?ms = ?ms"
    by (simp add: clear_tx_caches_def clear_tx_cache_def case_prod_beta o_def)
  moreover have "\<exists>kv'. get_kv_store ?ms n = Some kv' \<and>
      (\<forall>C D s k. kv_get C D s kv' k = kv_get C D s kv k)" if "get_kv_store ms n = Some kv" for n kv
  proof -
    from that have "kv_ok kv" using ok by (auto simp: get_kv_store_def dest: map_of_SomeD)
    note k = this write_tx_cache_eq [OF this]
    have "\<forall>C D s k. kv_get C D s (?w kv) k = kv_get C D s kv k"
      by (intro allI conjunct1 [OF write_tx_cache_get [OF k]])
    moreover have "get_kv_store ?ms n = Some (?w kv)"
      using that by (simp add: get_kv_store_def map_of_map)
    ultimately show ?thesis by blast
  qed
  ultimately show thesis using that by blast
qed

end
