(* ===== verification/Params.thy ===== *)
theory Params
  imports Contexts
begin

text \<open>
  Module parameters. The keeper of \<open>src/gears/src/x/params/keeper.rs\<close> gives each module a
  prefix store in the parameter store; on it the parameters of the bank
  (\<open>src/x/bank/src/params.rs\<close>), of accounts (\<open>src/x/auth/src/params.rs\<close>) and of consensus
  (\<open>src/gears/src/baseapp/params.rs\<close>) are kept as text.
\<close>

section \<open>Subspaces\<close>

record params_keeper =
  pk_store_key :: bytes

definition get_raw_subspace ::
  "'db host \<Rightarrow> params_keeper \<Rightarrow> ctx \<Rightarrow> bytes \<Rightarrow> bytes \<Rightarrow> bytes option option" where
  "get_raw_subspace H pk ctx subspace key = do {
     params_store \<leftarrow> ctx_get_kv_store ctx (pk_store_key pk);
     prefix_get (storage H) (module_db (host_db H) (pk_store_key pk)) (host_state H)
       params_store subspace key }"

definition set_raw_subspace ::
  "params_keeper \<Rightarrow> ctx \<Rightarrow> bytes \<Rightarrow> bytes \<Rightarrow> bytes \<Rightarrow> ctx option" where
  "set_raw_subspace pk ctx subspace key val = do {
     params_store \<leftarrow> ctx_get_kv_store ctx (pk_store_key pk);
     params_store \<leftarrow> prefix_set params_store subspace key val;
     Some (ctx_set_multi_store ctx
       (set_kv_store (ctx_multi_store ctx) (pk_store_key pk) params_store)) }"

lemma get_raw_subspace_read:
  "get_raw_subspace H pk ctx p k = ctx_read H ctx (pk_store_key pk) (p @ k)"
  by (simp add: get_raw_subspace_def ctx_read_def kv_read_def prefix_get_def)

lemma set_raw_subspace_write:
  "set_raw_subspace pk ctx p k v = ctx_write ctx (pk_store_key pk) (p @ k) v"
proof -
  have "set_raw_subspace pk ctx p k v = Some c \<longleftrightarrow> ctx_write ctx (pk_store_key pk) (p @ k) v = Some c"
    for c
    by (auto simp: set_raw_subspace_def ctx_write_Some prefix_set_def bind_eq_Some_conv)
  then show ?thesis by (rule Some_ext)
qed

text \<open>Setting several keys in turn.\<close>

fun set_all_raw :: "params_keeper \<Rightarrow> bytes \<Rightarrow> ctx \<Rightarrow> (bytes \<times> bytes) list \<Rightarrow> ctx option" where
  "set_all_raw pk p ctx [] = Some ctx"
| "set_all_raw pk p ctx ((k, v) # es) =
     Option.bind (set_raw_subspace pk ctx p k v) (\<lambda>ctx. set_all_raw pk p ctx es)"

fun put_entries :: "bytes \<Rightarrow> (bytes \<times> bytes) list \<Rightarrow> (bytes \<Rightarrow> bytes option) \<Rightarrow> bytes \<Rightarrow> bytes option" where
  "put_entries p [] f = f"
| "put_entries p ((k, v) # es) f = put_entries p es (f(p @ k \<mapsto> v))"

lemma set_all_raw_view:
  assumes "ctx_view H (pk_store_key pk) ctx f" "\<forall>(k, v) \<in> set es. k \<noteq> []"
  shows "\<exists>ctx'. set_all_raw pk p ctx es = Some ctx' \<and> touches H (pk_store_key pk) ctx ctx' \<and>
     ctx_view H (pk_store_key pk) ctx' (put_entries p es f)"
  using assms
proof (induction es arbitrary: ctx f)
  case Nil
  then show ?case by auto
next
  case (Cons e es)
  obtain k v where e: "e = (k, v)" by (cases e)
  have "p @ k \<noteq> []" using Cons.prems(2) e by simp
  then obtain c where c: "ctx_write ctx (pk_store_key pk) (p @ k) v = Some c"
    "ctx_view H (pk_store_key pk) c (f(p @ k \<mapsto> v))" "touches H (pk_store_key pk) ctx c"
    using view_put [OF Cons.prems(1)] by metis
  have "\<forall>(k, v) \<in> set es. k \<noteq> []" using Cons.prems(2) by simp
  moreover have "set_all_raw pk p ctx (e # es) = set_all_raw pk p c es"
    by (simp add: e set_raw_subspace_write c(1))
  moreover have "put_entries p (e # es) f = put_entries p es (f(p @ k \<mapsto> v))"
    by (simp add: e)
  ultimately show ?case using Cons.IH [OF c(2)] touches_trans [OF c(3)] by metis
qed

section \<open>Bank parameters\<close>

definition KEY_SEND_ENABLED :: bytes where "KEY_SEND_ENABLED = lit ''SendEnabled''"

definition KEY_DEFAULT_SEND_ENABLED :: bytes where
  "KEY_DEFAULT_SEND_ENABLED = lit ''DefaultSendEnabled''"

record bank_params =
  default_send_enabled :: bool

record bank_params_keeper =
  bp_params_keeper :: params_keeper
  bp_subspace_key :: bytes

definition bank_params_get ::
  "'db host \<Rightarrow> bank_params_keeper \<Rightarrow> ctx \<Rightarrow> bank_params option" where
  "bank_params_get H bpk ctx = do {
     raw \<leftarrow> get_raw_subspace H (bp_params_keeper bpk) ctx (bp_subspace_key bpk)
       KEY_DEFAULT_SEND_ENABLED;
     raw \<leftarrow> raw;
     b \<leftarrow> parse_bool raw;
     Some \<lparr> default_send_enabled = b \<rparr> }"

definition bank_params_set :: "bank_params_keeper \<Rightarrow> ctx \<Rightarrow> bank_params \<Rightarrow> ctx option" where
  "bank_params_set bpk ctx params = do {
     ctx \<leftarrow> set_raw_subspace (bp_params_keeper bpk) ctx (bp_subspace_key bpk)
       KEY_DEFAULT_SEND_ENABLED (show_bool (default_send_enabled params));
     set_raw_subspace (bp_params_keeper bpk) ctx (bp_subspace_key bpk)
       KEY_SEND_ENABLED (lit ''[]'') }"

lemma bank_params_get_cong:
  assumes "ctx_view H (pk_store_key (bp_params_keeper bpk)) ctx f"
    and "ctx_view H (pk_store_key (bp_params_keeper bpk)) ctx' f"
  shows "bank_params_get H bpk ctx' = bank_params_get H bpk ctx"
  by (simp add: bank_params_get_def get_raw_subspace_read
      view_read [OF assms(1)] view_read [OF assms(2)])

lemma bank_params_set_all:
  "bank_params_set bpk ctx params = set_all_raw (bp_params_keeper bpk) (bp_subspace_key bpk) ctx
     [(KEY_DEFAULT_SEND_ENABLED, show_bool (default_send_enabled params)),
      (KEY_SEND_ENABLED, lit ''[]'')]"
  by (simp add: bank_params_set_def)

lemma bank_params_set_view:
  assumes "ctx_view H (pk_store_key (bp_params_keeper bpk)) ctx f"
  obtains ctx' f' where "bank_params_set bpk ctx params = Some ctx'" "touches H (pk_store_key (bp_params_keeper bpk)) ctx ctx'"
    "ctx_view H (pk_store_key (bp_params_keeper bpk)) ctx' f'"
    "bank_params_get H bpk ctx' = Some params"
    "\<And>k. \<not> prefix (bp_subspace_key bpk) k \<Longrightarrow> f' k = f k"
proof -
  let ?es = "[(KEY_DEFAULT_SEND_ENABLED, show_bool (default_send_enabled params)),
      (KEY_SEND_ENABLED, lit ''[]'')]"
  let ?f = "put_entries (bp_subspace_key bpk) ?es f"
  have ne: "KEY_SEND_ENABLED \<noteq> KEY_DEFAULT_SEND_ENABLED" "\<forall>(k, v) \<in> set ?es. k \<noteq> []"
    by (simp_all add: KEY_SEND_ENABLED_def KEY_DEFAULT_SEND_ENABLED_def)
  from set_all_raw_view [OF assms ne(2), of "bp_subspace_key bpk"] obtain ctx' where
    c: "bank_params_set bpk ctx params = Some ctx'" "touches H (pk_store_key (bp_params_keeper bpk)) ctx ctx'"
    "ctx_view H (pk_store_key (bp_params_keeper bpk)) ctx' ?f"
    unfolding bank_params_set_all by blast
  have "bank_params_get H bpk ctx' = Some params"
    using ne(1) view_read [OF c(3)]
    by (simp add: bank_params_get_def get_raw_subspace_read parse_show_bool)
  moreover have "?f k = f k" if "\<not> prefix (bp_subspace_key bpk) k" for k
    using that by auto
  ultimately show thesis using that c by blast
qed

section \<open>Account parameters\<close>

record auth_params =
  max_memo_characters :: u64
  tx_sig_limit :: u64
  tx_size_cost_per_byte :: u64
  sig_verify_cost_ed25519 :: u64
  sig_verify_cost_secp256k1 :: u64

definition KEY_MAX_MEMO_CHARACTERS :: bytes where
  "KEY_MAX_MEMO_CHARACTERS = lit ''MaxMemoCharacters''"

definition KEY_TX_SIG_LIMIT :: bytes where "KEY_TX_SIG_LIMIT = lit ''TxSigLimit''"

definition KEY_TX_SIZE_COST_PER_BYTE :: bytes where
  "KEY_TX_SIZE_COST_PER_BYTE = lit ''TxSizeCostPerByte''"

definition KEY_SIG_VERIFY_COST_ED25519 :: bytes where
  "KEY_SIG_VERIFY_COST_ED25519 = lit ''SigVerifyCostED25519''"

definition KEY_SIG_VERIFY_COST_SECP256K1 :: bytes where
  "KEY_SIG_VERIFY_COST_SECP256K1 = lit ''SigVerifyCostSecp256k1''"

lemmas auth_param_keys = KEY_MAX_MEMO_CHARACTERS_def KEY_TX_SIG_LIMIT_def
  KEY_TX_SIZE_COST_PER_BYTE_def KEY_SIG_VERIFY_COST_ED25519_def KEY_SIG_VERIFY_COST_SECP256K1_def

definition DEFAULT_PARAMS :: auth_params where
  "DEFAULT_PARAMS = \<lparr> max_memo_characters = 256, tx_sig_limit = 7, tx_size_cost_per_byte = 10,
     sig_verify_cost_ed25519 = 590, sig_verify_cost_secp256k1 = 1000 \<rparr>"

record auth_params_keeper =
  ap_params_keeper :: params_keeper
  ap_subspace_key :: bytes

text \<open>A number is kept between double quotes.\<close>

definition parse_param :: "bytes \<Rightarrow> u64 option" where
  "parse_param val = do {
     s \<leftarrow> strip_suffix [34] val;
     s \<leftarrow> strip_prefix [34] s;
     parse_u64 s }"

definition show_param :: "u64 \<Rightarrow> bytes" where
  "show_param n = [34] @ show_u64 n @ [34]"

definition get_raw_param ::
  "'db host \<Rightarrow> auth_params_keeper \<Rightarrow> ctx \<Rightarrow> bytes \<Rightarrow> bytes option" where
  "get_raw_param H apk ctx key = do {
     raw \<leftarrow> get_raw_subspace H (ap_params_keeper apk) ctx (ap_subspace_key apk) key;
     raw }"

definition auth_params_get ::
  "'db host \<Rightarrow> auth_params_keeper \<Rightarrow> ctx \<Rightarrow> auth_params option" where
  "auth_params_get H apk ctx = do {
     raw \<leftarrow> get_raw_param H apk ctx KEY_MAX_MEMO_CHARACTERS;
     max_memo \<leftarrow> parse_param raw;
     raw \<leftarrow> get_raw_param H apk ctx KEY_TX_SIG_LIMIT;
     sig_limit \<leftarrow> parse_param raw;
     raw \<leftarrow> get_raw_param H apk ctx KEY_TX_SIZE_COST_PER_BYTE;
     size_cost \<leftarrow> parse_param raw;
     raw \<leftarrow> get_raw_param H apk ctx KEY_SIG_VERIFY_COST_ED25519;
     ed25519 \<leftarrow> parse_param raw;
     raw \<leftarrow> get_raw_param H apk ctx KEY_SIG_VERIFY_COST_SECP256K1;
     secp256k1 \<leftarrow> parse_param raw;
     Some \<lparr> max_memo_characters = max_memo, tx_sig_limit = sig_limit,
       tx_size_cost_per_byte = size_cost, sig_verify_cost_ed25519 = ed25519,
       sig_verify_cost_secp256k1 = secp256k1 \<rparr> }"

definition auth_params_entries :: "auth_params \<Rightarrow> (bytes \<times> bytes) list" where
  "auth_params_entries params =
     [(KEY_MAX_MEMO_CHARACTERS, show_param (max_memo_characters params)),
      (KEY_TX_SIG_LIMIT, show_param (tx_sig_limit params)),
      (KEY_TX_SIZE_COST_PER_BYTE, show_param (tx_size_cost_per_byte params)),
      (KEY_SIG_VERIFY_COST_ED25519, show_param (sig_verify_cost_ed25519 params)),
      (KEY_SIG_VERIFY_COST_SECP256K1, show_param (sig_verify_cost_secp256k1 params))]"

definition auth_params_set :: "auth_params_keeper \<Rightarrow> ctx \<Rightarrow> auth_params \<Rightarrow> ctx option" where
  "auth_params_set apk ctx params =
     set_all_raw (ap_params_keeper apk) (ap_subspace_key apk) ctx (auth_params_entries params)"

lemma auth_params_get_cong:
  assumes "ctx_view H (pk_store_key (ap_params_keeper apk)) ctx f"
    and "ctx_view H (pk_store_key (ap_params_keeper apk)) ctx' f"
  shows "auth_params_get H apk ctx' = auth_params_get H apk ctx"
  by (simp add: auth_params_get_def get_raw_param_def get_raw_subspace_read
      view_read [OF assms(1)] view_read [OF assms(2)])

lemma parse_show_param: "parse_param (show_param n) = Some n"
  using strip_suffix_append [of "[34]" "34 # show_u64 n"] strip_prefix_append [of "[34]" "show_u64 n"]
  by (simp add: parse_param_def show_param_def parse_show_u64)

lemma auth_param_keys_distinct:
  "distinct [KEY_MAX_MEMO_CHARACTERS, KEY_TX_SIG_LIMIT, KEY_TX_SIZE_COST_PER_BYTE,
     KEY_SIG_VERIFY_COST_ED25519, KEY_SIG_VERIFY_COST_SECP256K1]"
  by (simp add: auth_param_keys)

lemma auth_params_set_view:
  assumes "ctx_view H (pk_store_key (ap_params_keeper apk)) ctx f"
  obtains ctx' f' where "auth_params_set apk ctx params = Some ctx'" "touches H (pk_store_key (ap_params_keeper apk)) ctx ctx'"
    "ctx_view H (pk_store_key (ap_params_keeper apk)) ctx' f'"
    "auth_params_get H apk ctx' = Some params"
    "\<And>k. \<not> prefix (ap_subspace_key apk) k \<Longrightarrow> f' k = f k"
proof -
  let ?f = "put_entries (ap_subspace_key apk) (auth_params_entries params) f"
  have ne: "\<forall>(k, v) \<in> set (auth_params_entries params). k \<noteq> []"
    by (simp add: auth_params_entries_def auth_param_keys)
  from set_all_raw_view [OF assms ne, of "ap_subspace_key apk"] obtain ctx' where
    c: "auth_params_set apk ctx params = Some ctx'" "touches H (pk_store_key (ap_params_keeper apk)) ctx ctx'"
    "ctx_view H (pk_store_key (ap_params_keeper apk)) ctx' ?f"
    unfolding auth_params_set_def by blast
  have "auth_params_get H apk ctx' = Some params"
    using auth_param_keys_distinct view_read [OF c(3)]
    by (simp add: auth_params_get_def get_raw_param_def get_raw_subspace_read
        auth_params_entries_def parse_show_param)
  moreover have "?f k = f k" if "\<not> prefix (ap_subspace_key apk) k" for k
    using that by (auto simp: auth_params_entries_def)
  ultimately show thesis using that c by blast
qed

section \<open>Consensus parameters\<close>

text \<open>Signed 64-bit values as integers; arithmetic outside their range panics.\<close>

definition i64_value :: "int \<Rightarrow> int option" where
  "i64_value n = (if - (2 ^ 63) \<le> n \<and> n < 2 ^ 63 then Some n else None)"

record raw_block_params =
  rbp_max_bytes :: int
  rbp_max_gas :: int

record duration =
  dur_seconds :: int
  dur_nanos :: int

record raw_evidence_params =
  rep_max_age_num_blocks :: int
  rep_max_age_duration :: "duration option"
  rep_max_bytes :: int

record raw_validator_params =
  rvp_pub_key_types :: "bytes list"

record consensus_params =
  cp_block :: "raw_block_params option"
  cp_evidence :: "raw_evidence_params option"
  cp_validator :: "raw_validator_params option"

record block_params =
  bp_max_bytes :: bytes
  bp_max_gas :: bytes

record evidence_params =
  ep_max_age_num_blocks :: bytes
  ep_max_age_duration :: "bytes option"
  ep_max_bytes :: bytes

record validator_params =
  vp_pub_key_types :: "bytes list"

definition SEC_TO_NANO :: int where "SEC_TO_NANO = 1000000000"

definition block_params_from :: "raw_block_params \<Rightarrow> block_params" where
  "block_params_from params =
     \<lparr> bp_max_bytes = show_i64 (rbp_max_bytes params), bp_max_gas = show_i64 (rbp_max_gas params) \<rparr>"

definition validator_params_from :: "raw_validator_params \<Rightarrow> validator_params" where
  "validator_params_from params = \<lparr> vp_pub_key_types = rvp_pub_key_types params \<rparr>"

definition duration_nanos :: "duration \<Rightarrow> int option" where
  "duration_nanos dur = do {
     n \<leftarrow> i64_value (dur_seconds dur * SEC_TO_NANO);
     i64_value (n + dur_nanos dur) }"

definition evidence_params_from :: "raw_evidence_params \<Rightarrow> evidence_params option" where
  "evidence_params_from params = do {
     d \<leftarrow> (case rep_max_age_duration params of
        None \<Rightarrow> Some None | Some dur \<Rightarrow> map_option Some (duration_nanos dur));
     Some \<lparr> ep_max_age_num_blocks = show_i64 (rep_max_age_num_blocks params),
       ep_max_age_duration = map_option show_i64 d,
       ep_max_bytes = show_i64 (rep_max_bytes params) \<rparr> }"

definition KEY_BLOCK_PARAMS :: bytes where "KEY_BLOCK_PARAMS = lit ''BlockParams''"
definition KEY_EVIDENCE_PARAMS :: bytes where "KEY_EVIDENCE_PARAMS = lit ''EvidenceParams''"
definition KEY_VALIDATOR_PARAMS :: bytes where "KEY_VALIDATOR_PARAMS = lit ''ValidatorParams''"

text \<open>\<open>serde_json::to_string\<close> on the three types is a parameter.\<close>

record json =
  block_json :: "block_params \<Rightarrow> bytes"
  evidence_json :: "evidence_params \<Rightarrow> bytes"
  validator_json :: "validator_params \<Rightarrow> bytes"

record baseapp_params_keeper =
  ba_params_keeper :: params_keeper
  ba_subspace_key :: bytes

definition set_optional ::
  "baseapp_params_keeper \<Rightarrow> ctx \<Rightarrow> bytes \<Rightarrow> bytes option option \<Rightarrow> ctx option" where
  "set_optional bak ctx key val = do {
     v \<leftarrow> val;
     (case v of None \<Rightarrow> Some ctx
      | Some v \<Rightarrow> set_raw_subspace (ba_params_keeper bak) ctx (ba_subspace_key bak) key v) }"

definition set_consensus_params ::
  "json \<Rightarrow> baseapp_params_keeper \<Rightarrow> ctx \<Rightarrow> consensus_params \<Rightarrow> ctx option" where
  "set_consensus_params J bak ctx params = do {
     ctx \<leftarrow> set_optional bak ctx KEY_BLOCK_PARAMS
       (Some (map_option (\<lambda>p. block_json J (block_params_from p)) (cp_block params)));
     ctx \<leftarrow> set_optional bak ctx KEY_EVIDENCE_PARAMS
       (case cp_evidence params of None \<Rightarrow> Some None
        | Some p \<Rightarrow> map_option (\<lambda>e. Some (evidence_json J e)) (evidence_params_from p));
     set_optional bak ctx KEY_VALIDATOR_PARAMS
       (Some (map_option (\<lambda>p. validator_json J (validator_params_from p)) (cp_validator params))) }"

lemma set_optional_view:
  assumes "ctx_view H (pk_store_key (ba_params_keeper bak)) ctx f" "key \<noteq> []" "val = Some v"
  shows "\<exists>ctx' f'. set_optional bak ctx key val = Some ctx' \<and>
     touches H (pk_store_key (ba_params_keeper bak)) ctx ctx' \<and>
     ctx_view H (pk_store_key (ba_params_keeper bak)) ctx' f'"
proof (cases v)
  case None
  with assms show ?thesis by (auto simp: set_optional_def)
next
  case (Some w)
  from set_all_raw_view [OF assms(1), of "[(key, w)]" "ba_subspace_key bak"] assms(2)
  show ?thesis by (auto simp: set_optional_def assms(3) Some)
qed

text \<open>
  Storing the consensus parameters returns exactly when the evidence age, in nanoseconds,
  fits a signed 64-bit integer.
\<close>

lemma set_consensus_params_returns:
  assumes v: "ctx_view H (pk_store_key (ba_params_keeper bak)) ctx f"
  shows "(\<exists>ctx'. set_consensus_params J bak ctx params = Some ctx') \<longleftrightarrow>
     (\<forall>e dur. cp_evidence params = Some e \<longrightarrow> rep_max_age_duration e = Some dur \<longrightarrow>
        duration_nanos dur \<noteq> None)"
proof -
  have keys: "KEY_BLOCK_PARAMS \<noteq> []" "KEY_EVIDENCE_PARAMS \<noteq> []" "KEY_VALIDATOR_PARAMS \<noteq> []"
    by (simp_all add: KEY_BLOCK_PARAMS_def KEY_EVIDENCE_PARAMS_def KEY_VALIDATOR_PARAMS_def)
  let ?ev = "case cp_evidence params of None \<Rightarrow> Some None
      | Some p \<Rightarrow> map_option (\<lambda>e. Some (evidence_json J e)) (evidence_params_from p)"
  let ?b = "map_option (\<lambda>p. block_json J (block_params_from p)) (cp_block params)"
  let ?v = "map_option (\<lambda>p. validator_json J (validator_params_from p)) (cp_validator params)"
  from set_optional_view [OF v keys(1), of "Some ?b" ?b] obtain c1 f1 where
    c1: "set_optional bak ctx KEY_BLOCK_PARAMS (Some ?b) = Some c1"
    "ctx_view H (pk_store_key (ba_params_keeper bak)) c1 f1" by blast
  have "(\<exists>c2. set_consensus_params J bak ctx params = Some c2) \<longleftrightarrow> ?ev \<noteq> None"
  proof (cases ?ev)
    case None
    then show ?thesis using c1 by (simp add: set_consensus_params_def set_optional_def)
  next
    case (Some e)
    from set_optional_view [OF c1(2) keys(2) Some] obtain c2 f2 where
      c2: "set_optional bak c1 KEY_EVIDENCE_PARAMS ?ev = Some c2"
      "ctx_view H (pk_store_key (ba_params_keeper bak)) c2 f2" by blast
    from set_optional_view [OF c2(2) keys(3), of "Some ?v" ?v] obtain c3 where
      "set_optional bak c2 KEY_VALIDATOR_PARAMS (Some ?v) = Some c3" by blast
    then show ?thesis using c1 c2 Some by (simp add: set_consensus_params_def)
  qed
  also have "?ev \<noteq> None \<longleftrightarrow> (\<forall>e dur. cp_evidence params = Some e \<longrightarrow>
      rep_max_age_duration e = Some dur \<longrightarrow> duration_nanos dur \<noteq> None)"
    by (auto simp: evidence_params_from_def bind_eq_Some_conv split: option.splits)
  finally show ?thesis .
qed

end
