(* ===== verification/Accounts.thy ===== *)
theory Accounts
  imports Proto_Types
begin

text \<open>
  Public keys and accounts: \<open>src/proto-messages/src/cosmos/crypto/secp256k1.rs\<close>, the
  \<open>PublicKey\<close> of \<open>.../tx/v1beta1/tx.rs\<close> and the account types of \<open>.../cosmos/auth.rs\<close>,
  with their conversions from and to protobuf. The round trip of an account through its stored
  bytes is the fact the keepers rely on.
\<close>

section \<open>Public keys\<close>

datatype pub_key = PubKey secp_key

definition pub_key_try_from :: "'a libs_scheme \<Rightarrow> bytes \<Rightarrow> proto_error + pub_key" where
  "pub_key_try_from L v =
     then_try (map_err (\<lambda>e. DecodeGeneral (lit ''invalid key: '' @ e)) (key_from_slice L v))
       (\<lambda>key. Inr (PubKey key))"

definition pub_key_try_from_raw :: "'a libs_scheme \<Rightarrow> raw_pub_key \<Rightarrow> proto_error + pub_key" where
  "pub_key_try_from_raw L raw = pub_key_try_from L (rpk_key raw)"

fun pub_key_bytes :: "'a libs_scheme \<Rightarrow> pub_key \<Rightarrow> bytes" where
  "pub_key_bytes L (PubKey key) = key_serialize L key"

definition raw_from_pub_key :: "'a libs_scheme \<Rightarrow> pub_key \<Rightarrow> raw_pub_key" where
  "raw_from_pub_key L key = \<lparr> rpk_key = pub_key_bytes L key \<rparr>"

text \<open>RIPEMD160(SHA256(pubkey)); the conversion of the digest to an address is expected.\<close>

definition pub_key_get_address :: "'a libs_scheme \<Rightarrow> pub_key \<Rightarrow> acc_address option" where
  "pub_key_get_address L key =
     (let hash = sha256 (storage L) (pub_key_bytes L key);
          hash = ripemd160 L hash
      in unwrap_result (Some (addr_try_from hash)))"

datatype public_key = Secp256k1 pub_key

fun public_key_get_address :: "'a libs_scheme \<Rightarrow> public_key \<Rightarrow> acc_address option" where
  "public_key_get_address L (Secp256k1 key) = pub_key_get_address L key"

definition SECP256K1_URL :: bytes where "SECP256K1_URL = lit ''/cosmos.crypto.secp256k1.PubKey''"

definition public_key_try_from ::
  "'a libs_scheme \<Rightarrow> any_message \<Rightarrow> (proto_error + public_key) option" where
  "public_key_try_from L any =
     (if type_url any = SECP256K1_URL
      then try_bind (map_option (map_err DecodeGeneral)
          (proto_decode L (pb_pub_key L) (\<lambda>raw. Some (pub_key_try_from_raw L raw)) (any_value any)))
        (\<lambda>key. Some (Inr (Secp256k1 key)))
      else Some (Inl (DecodeAny (lit ''Key type not recognized: '' @ type_url any))))"

fun any_from_public_key :: "'a libs_scheme \<Rightarrow> public_key \<Rightarrow> any_message" where
  "any_from_public_key L (Secp256k1 key) =
     \<lparr> type_url = SECP256K1_URL, any_value = pb_encode (pb_pub_key L) (raw_from_pub_key L key) \<rparr>"

lemma pub_key_round_trip:
  "keys_ok L \<Longrightarrow> pub_key_try_from_raw L (raw_from_pub_key L key) = Inr key"
  by (cases key) (simp add: pub_key_try_from_raw_def pub_key_try_from_def raw_from_pub_key_def
      keys_ok_def)

lemma public_key_round_trip:
  assumes "keys_ok L" "codec_ok (pb_pub_key L)"
  shows "public_key_try_from L (any_from_public_key L key) = Some (Inr key)"
proof (cases key)
  case (Secp256k1 k)
  have "proto_decode L (pb_pub_key L) (\<lambda>raw. Some (pub_key_try_from_raw L raw))
      (pb_encode (pb_pub_key L) (raw_from_pub_key L k)) = Some (Inr k)"
    by (rule proto_decode_encode [OF assms(2)]) (simp add: pub_key_round_trip [OF assms(1)])
  with Secp256k1 show ?thesis by (simp add: public_key_try_from_def)
qed

lemma public_key_address_ok:
  assumes "keys_ok L"
  obtains a where "public_key_get_address L key = Some a" "addr_ok a"
    "addr_bytes a = ripemd160 L (sha256 (storage L) (case key of Secp256k1 k \<Rightarrow> pub_key_bytes L k))"
proof (cases key)
  case (Secp256k1 k)
  then show thesis
    using that assms
    by (auto simp: pub_key_get_address_def addr_try_from_def keys_ok_def addr_ok_def)
qed

section \<open>Accounts\<close>

record base_account =
  ba_address :: acc_address
  ba_pub_key :: "public_key option"
  ba_account_number :: u64
  ba_sequence :: u64

record module_account =
  ma_base_account :: base_account
  ma_name :: bytes
  ma_permissions :: "bytes list"

datatype account = Base base_account | ModuleAcc module_account

definition base_account_try_from ::
  "'a libs_scheme \<Rightarrow> raw_base_account \<Rightarrow> (proto_error + base_account) option" where
  "base_account_try_from L raw =
     try_bind (Some (map_err (\<lambda>e. DecodeAddress (address_error_text L e))
       (from_bech32 L (rba_address raw)))) (\<lambda>address.
     try_bind (case rba_pub_key raw of
         Some key \<Rightarrow> try_bind (public_key_try_from L key) (\<lambda>key. Some (Inr (Some key)))
       | None \<Rightarrow> Some (Inr None)) (\<lambda>pub_key.
     Some (Inr \<lparr> ba_address = address, ba_pub_key = pub_key,
       ba_account_number = rba_account_number raw, ba_sequence = rba_sequence raw \<rparr>)))"

definition raw_from_base_account ::
  "'a libs_scheme \<Rightarrow> base_account \<Rightarrow> raw_base_account option" where
  "raw_from_base_account L acct = map_option (\<lambda>address.
     \<lparr> rba_address = address, rba_pub_key = map_option (any_from_public_key L) (ba_pub_key acct),
        rba_account_number = ba_account_number acct, rba_sequence = ba_sequence acct \<rparr>)
     (addr_to_string L (ba_address acct))"

definition module_account_try_from ::
  "'a libs_scheme \<Rightarrow> raw_module_account \<Rightarrow> (proto_error + module_account) option" where
  "module_account_try_from L raw =
     (case rma_base_account raw of
        None \<Rightarrow> Some (Inl (DecodeGeneral (lit ''missing base account field'')))
      | Some base \<Rightarrow> try_bind (base_account_try_from L base) (\<lambda>base.
          Some (Inr \<lparr> ma_base_account = base, ma_name = rma_name raw,
            ma_permissions = rma_permissions raw \<rparr>)))"

definition raw_from_module_account ::
  "'a libs_scheme \<Rightarrow> module_account \<Rightarrow> raw_module_account option" where
  "raw_from_module_account L acct = map_option (\<lambda>base.
     \<lparr> rma_base_account = Some base, rma_name = ma_name acct,
        rma_permissions = ma_permissions acct \<rparr>)
     (raw_from_base_account L (ma_base_account acct))"

fun account_base :: "account \<Rightarrow> base_account" where
  "account_base (Base acct) = acct"
| "account_base (ModuleAcc acct) = ma_base_account acct"

fun account_set_base :: "account \<Rightarrow> base_account \<Rightarrow> account" where
  "account_set_base (Base _) b = Base b"
| "account_set_base (ModuleAcc acct) b = ModuleAcc (acct\<lparr> ma_base_account := b \<rparr>)"

definition get_public_key :: "account \<Rightarrow> public_key option" where
  "get_public_key acct = ba_pub_key (account_base acct)"

definition get_address :: "account \<Rightarrow> acc_address" where
  "get_address acct = ba_address (account_base acct)"

definition set_public_key :: "account \<Rightarrow> public_key \<Rightarrow> account" where
  "set_public_key acct key =
     account_set_base acct ((account_base acct)\<lparr> ba_pub_key := Some key \<rparr>)"

definition increment_sequence :: "account \<Rightarrow> account option" where
  "increment_sequence acct = do {
     n \<leftarrow> checked_add (ba_sequence (account_base acct)) 1;
     Some (account_set_base acct ((account_base acct)\<lparr> ba_sequence := n \<rparr>)) }"

definition get_sequence :: "account \<Rightarrow> u64" where
  "get_sequence acct = ba_sequence (account_base acct)"

definition get_account_number :: "account \<Rightarrow> u64" where
  "get_account_number acct = ba_account_number (account_base acct)"

definition BASE_ACCOUNT_URL :: bytes where
  "BASE_ACCOUNT_URL = lit ''/cosmos.auth.v1beta1.BaseAccount''"

definition MODULE_ACCOUNT_URL :: bytes where
  "MODULE_ACCOUNT_URL = lit ''/cosmos.auth.v1beta1.ModuleAccount''"

definition account_try_from ::
  "'a libs_scheme \<Rightarrow> any_message \<Rightarrow> (proto_error + account) option" where
  "account_try_from L any =
     (if type_url any = BASE_ACCOUNT_URL
      then try_bind (map_option (map_err DecodeGeneral)
          (proto_decode L (pb_base_account L) (base_account_try_from L) (any_value any)))
        (\<lambda>base. Some (Inr (Base base)))
      else if type_url any = MODULE_ACCOUNT_URL
      then try_bind (map_option (map_err DecodeGeneral)
          (proto_decode L (pb_module_account L) (module_account_try_from L) (any_value any)))
        (\<lambda>module. Some (Inr (ModuleAcc module)))
      else Some (Inl (DecodeAny (lit ''account type not recognized: '' @ type_url any))))"

fun any_from_account :: "'a libs_scheme \<Rightarrow> account \<Rightarrow> any_message option" where
  "any_from_account L (Base base) = map_option (\<lambda>raw.
     \<lparr> type_url = BASE_ACCOUNT_URL, any_value = pb_encode (pb_base_account L) raw \<rparr>)
     (raw_from_base_account L base)"
| "any_from_account L (ModuleAcc module) = map_option (\<lambda>raw.
     \<lparr> type_url = MODULE_ACCOUNT_URL, any_value = pb_encode (pb_module_account L) raw \<rparr>)
     (raw_from_module_account L module)"

definition account_decode :: "'a libs_scheme \<Rightarrow> bytes \<Rightarrow> (bytes + account) option" where
  "account_decode L bs = proto_decode L (pb_any L) (account_try_from L) bs"

definition account_encode_vec :: "'a libs_scheme \<Rightarrow> account \<Rightarrow> bytes option" where
  "account_encode_vec L acct = map_option (pb_encode (pb_any L)) (any_from_account L acct)"

definition account_ok :: "account \<Rightarrow> bool" where
  "account_ok acct \<longleftrightarrow> addr_ok (get_address acct)"

lemma account_set_base_simps [simp]:
  "account_base (account_set_base acct b) = b"
  "account_set_base acct (account_base acct) = acct"
  by (cases acct; simp)+

lemma account_updates [simp]:
  "get_address (set_public_key acct key) = get_address acct"
  "get_public_key (set_public_key acct key) = Some key"
  "get_sequence (set_public_key acct key) = get_sequence acct"
  "get_account_number (set_public_key acct key) = get_account_number acct"
  by (simp_all add: get_address_def set_public_key_def get_public_key_def get_sequence_def
      get_account_number_def)

lemma increment_sequence_Some:
  assumes "increment_sequence acct = Some acct'"
  shows "get_address acct' = get_address acct" "get_public_key acct' = get_public_key acct"
    "get_account_number acct' = get_account_number acct"
    "unat (get_sequence acct') = Suc (unat (get_sequence acct))"
  using assms
  by (auto simp: increment_sequence_def bind_eq_Some_conv get_address_def get_public_key_def
      get_account_number_def get_sequence_def checked_add_SomeD)

text \<open>An account is read back from the bytes it is stored as; encoding it does not fail.\<close>

definition auth_libs_ok :: "'a libs_scheme \<Rightarrow> bool" where
  "auth_libs_ok L \<longleftrightarrow> bech32_ok L \<and> keys_ok L \<and> account_codecs_ok L"

lemma demo_auth_libs: "auth_libs_ok demo_libs"
  by (simp add: auth_libs_ok_def demo_libs_bech32 demo_libs_keys demo_libs_account)

lemma base_account_round_trip:
  assumes "auth_libs_ok L" "addr_ok (ba_address b)"
  obtains raw where "raw_from_base_account L b = Some raw"
    "base_account_try_from L raw = Some (Inr b)"
proof -
  have key: "public_key_try_from L (any_from_public_key L k) = Some (Inr k)" for k
    using assms(1) public_key_round_trip account_codecs_okD(2) by (auto simp: auth_libs_ok_def)
  from assms addr_string [of L "ba_address b"] obtain t where
    t: "addr_to_string L (ba_address b) = Some t" "from_bech32 L t = Inr (ba_address b)"
    by (auto simp: auth_libs_ok_def)
  let ?raw = "\<lparr> rba_address = t, rba_pub_key = map_option (any_from_public_key L) (ba_pub_key b),
        rba_account_number = ba_account_number b, rba_sequence = ba_sequence b \<rparr>"
  have "base_account_try_from L ?raw = Some (Inr b)"
    by (cases "ba_pub_key b") (simp_all add: base_account_try_from_def t key)
  moreover have "raw_from_base_account L b = Some ?raw"
    by (simp add: raw_from_base_account_def t)
  ultimately show thesis using that by blast
qed

lemma account_urls: "MODULE_ACCOUNT_URL \<noteq> BASE_ACCOUNT_URL"
  by (simp add: MODULE_ACCOUNT_URL_def BASE_ACCOUNT_URL_def)

lemma any_account_round_trip:
  assumes L: "auth_libs_ok L" and ok: "account_ok acct"
  obtains any where "any_from_account L acct = Some any" "account_try_from L any = Some (Inr acct)"
proof -
  note codecs = account_codecs_okD [of L]
  have c: "account_codecs_ok L" using L by (simp add: auth_libs_ok_def)
  have "\<exists>any. any_from_account L acct = Some any \<and> account_try_from L any = Some (Inr acct)"
  proof (cases acct)
    case (Base b)
    with ok base_account_round_trip [OF L, of b] obtain raw where
      "raw_from_base_account L b = Some raw" "base_account_try_from L raw = Some (Inr b)"
      by (auto simp: account_ok_def get_address_def)
    moreover from this(2) have "proto_decode L (pb_base_account L) (base_account_try_from L)
        (pb_encode (pb_base_account L) raw) = Some (Inr b)"
      by (rule proto_decode_encode [OF codecs(3) [OF c]])
    ultimately show ?thesis using Base by (simp add: account_try_from_def)
  next
    case (ModuleAcc m)
    with ok base_account_round_trip [OF L, of "ma_base_account m"] obtain raw where
      raw: "raw_from_base_account L (ma_base_account m) = Some raw"
      "base_account_try_from L raw = Some (Inr (ma_base_account m))"
      by (auto simp: account_ok_def get_address_def)
    let ?raw = "\<lparr> rma_base_account = Some raw, rma_name = ma_name m,
        rma_permissions = ma_permissions m \<rparr>"
    have "module_account_try_from L ?raw = Some (Inr m)"
      by (simp add: module_account_try_from_def raw)
    then have "proto_decode L (pb_module_account L) (module_account_try_from L)
        (pb_encode (pb_module_account L) ?raw) = Some (Inr m)"
      by (rule proto_decode_encode [OF codecs(4) [OF c]])
    then show ?thesis
      using ModuleAcc raw account_urls by (simp add: account_try_from_def raw_from_module_account_def)
  qed
  then show thesis using that by blast
qed

lemma account_round_trip:
  assumes L: "auth_libs_ok L" and ok: "account_ok acct"
  obtains bs where "account_encode_vec L acct = Some bs"
    "account_decode L bs = Some (Inr acct)"
proof -
  have c: "codec_ok (pb_any L)" using L account_codecs_okD(1) by (auto simp: auth_libs_ok_def)
  obtain any where any: "any_from_account L acct = Some any"
    "account_try_from L any = Some (Inr acct)" by (rule any_account_round_trip [OF L ok])
  from proto_decode_encode [OF c, of "account_try_from L", OF any(2)] any(1)
  show thesis by (intro that) (simp_all add: account_encode_vec_def account_decode_def)
qed

section \<open>Account queries\<close>

datatype query_account_request = QueryAccountRequest acc_address
datatype query_account_response = QueryAccountResponse account

definition query_account_request_try_from ::
  "'a libs_scheme \<Rightarrow> raw_account_request \<Rightarrow> proto_error + query_account_request" where
  "query_account_request_try_from L raw =
     then_try (map_err (\<lambda>e. DecodeAddress (address_error_text L e))
       (from_bech32 L (rar_address raw))) (\<lambda>address. Inr (QueryAccountRequest address))"

fun raw_from_query_account_request ::
  "'a libs_scheme \<Rightarrow> query_account_request \<Rightarrow> raw_account_request option" where
  "raw_from_query_account_request L (QueryAccountRequest address) =
     map_option (\<lambda>t. \<lparr> rar_address = t \<rparr>) (addr_to_string L address)"

definition query_account_response_try_from ::
  "'a libs_scheme \<Rightarrow> raw_account_response \<Rightarrow> (proto_error + query_account_response) option" where
  "query_account_response_try_from L raw =
     try_bind (ok_or (MissingField (lit ''account'')) (rar_account raw)) (\<lambda>any.
     try_bind (account_try_from L any) (\<lambda>account. Some (Inr (QueryAccountResponse account))))"

fun raw_from_query_account_response ::
  "'a libs_scheme \<Rightarrow> query_account_response \<Rightarrow> raw_account_response option" where
  "raw_from_query_account_response L (QueryAccountResponse account) =
     map_option (\<lambda>any. \<lparr> rar_account = Some any \<rparr>) (any_from_account L account)"

text \<open>
  An account is stored without a panic and read back as it was: the base account, its
  public key, its number and sequence, and for a module account its name and permissions.
\<close>

theorem account_codec_round_trip:
  assumes "auth_libs_ok L" "account_ok acct"
  shows "\<exists>bs. account_encode_vec L acct = Some bs \<and> account_decode L bs = Some (Inr acct)"
  using account_round_trip [OF assms] by blast

theorem account_codec_round_trip_witness:
  "\<exists>bs. account_encode_vec demo_libs (ModuleAcc \<lparr> ma_base_account = \<lparr> ba_address = AccAddress [7],
       ba_pub_key = Some (Secp256k1 (PubKey [2, 3])), ba_account_number = 4, ba_sequence = 5 \<rparr>,
       ma_name = [6], ma_permissions = [[8], []] \<rparr>) = Some bs \<and>
     account_decode demo_libs bs = Some (Inr (ModuleAcc \<lparr> ma_base_account =
       \<lparr> ba_address = AccAddress [7], ba_pub_key = Some (Secp256k1 (PubKey [2, 3])),
         ba_account_number = 4, ba_sequence = 5 \<rparr>, ma_name = [6], ma_permissions = [[8], []] \<rparr>))"
  by (rule account_codec_round_trip [OF demo_auth_libs])
    (simp add: account_ok_def get_address_def addr_ok_def)

end
