(* ===== verification/Demo_Host.thy ===== *)
theory Demo_Host
  imports Params Accounts
begin

text \<open>
  A concrete node for the witnesses: the demonstration crates over an empty in-memory
  database, and contexts over a multi store with the three stores of the application, empty.
\<close>

definition demo_host :: "memdb host" where
  "demo_host = libs.extend demo_libs \<lparr> host_db = memdb_ops, host_state = memdb_new \<rparr>"

lemma demo_host_fields [simp]:
  "storage demo_host = storage demo_libs" "uint_add demo_host = uint_add demo_libs"
  "uint_sub demo_host = uint_sub demo_libs" "uint_parse demo_host = uint_parse demo_libs"
  "uint_show demo_host = uint_show demo_libs" "bech32_decode demo_host = bech32_decode demo_libs"
  "bech32_encode demo_host = bech32_encode demo_libs" "to_base32 demo_host = to_base32 demo_libs"
  "from_base32 demo_host = from_base32 demo_libs" "ripemd160 demo_host = ripemd160 demo_libs"
  "key_from_slice demo_host = key_from_slice demo_libs"
  "key_serialize demo_host = key_serialize demo_libs"
  "sig_from_compact demo_host = sig_from_compact demo_libs"
  "verify_ecdsa demo_host = verify_ecdsa demo_libs"
  "pb_coin demo_host = pb_coin demo_libs" "pb_any demo_host = pb_any demo_libs"
  "pb_pub_key demo_host = pb_pub_key demo_libs"
  "pb_base_account demo_host = pb_base_account demo_libs"
  "pb_module_account demo_host = pb_module_account demo_libs"
  "pb_u64 demo_host = pb_u64 demo_libs" "pb_msg_send demo_host = pb_msg_send demo_libs"
  "host_db demo_host = memdb_ops" "host_state demo_host = memdb_new"
  by (simp_all add: demo_host_def libs.defs)

lemma demo_host_laws:
  "auth_libs_ok demo_host" "uint256_ok demo_host" "codec_ok (pb_coin demo_host)"
  "bech32_ok demo_host" "keys_ok demo_host" "account_codecs_ok demo_host"
  using demo_auth_libs demo_libs_uint256 demo_libs_coin demo_libs_bech32 demo_libs_keys
    demo_libs_account
  by (simp_all add: auth_libs_ok_def uint256_ok_def bech32_ok_def keys_ok_def
      account_codecs_ok_def)

definition BANK :: bytes where "BANK = lit ''bank''"
definition ACC :: bytes where "ACC = lit ''acc''"
definition PARAMS :: bytes where "PARAMS = lit ''params''"

lemma demo_names [simp]: "BANK \<noteq> ACC" "ACC \<noteq> BANK" "BANK \<noteq> PARAMS" "PARAMS \<noteq> BANK" "ACC \<noteq> PARAMS"
  "PARAMS \<noteq> ACC"
  by (simp_all add: BANK_def ACC_def PARAMS_def)

definition empty_store :: kvstore where
  "empty_store = \<lparr> persistent_store = \<lparr> tree_root = None, tree_loaded_version = 0,
     tree_versions = [] \<rparr>, block_cache = [], tx_cache = [] \<rparr>"

definition demo_stores :: multistore where
  "demo_stores = \<lparr> head_version = 0, head_commit_hash = EMPTY_HASH,
     stores = [(BANK, empty_store), (ACC, empty_store), (PARAMS, empty_store)] \<rparr>"

definition demo_init :: ctx where
  "demo_init = InitContext (init_context_new demo_stores 0 (lit ''demo''))"

definition demo_tx :: ctx where
  "demo_tx = TxContext (tx_context_new demo_stores 1 \<lparr> header_chain_id = lit ''demo'' \<rparr> [])"

lemma demo_view:
  assumes "sk \<in> {BANK, ACC, PARAMS}" "ctx_multi_store ctx = demo_stores"
  shows "ctx_view H sk ctx (\<lambda>k. None)"
  using assms
  by (auto simp: view_def ctx_read_def ctx_get_kv_store_def get_kv_store_def demo_stores_def
      kv_read_def kv_get_def empty_store_def tree_get_def)

lemma demo_ctx_stores [simp]:
  "ctx_multi_store demo_init = demo_stores" "ctx_multi_store demo_tx = demo_stores"
  by (simp_all add: demo_init_def demo_tx_def init_context_new_def tx_context_new_def)

lemma demo_stores_ok: "ms_ok demo_stores" "clear_tx_caches demo_stores = demo_stores"
  by (simp_all add: ms_ok_def demo_stores_def empty_store_def kv_ok_def clear_tx_caches_def
      clear_tx_cache_def)

end
