(* ===== verification/Auth_Keeper.thy ===== *)
theory Auth_Keeper
  imports Demo_Host
begin

text \<open>
  The accounts module: \<open>src/x/auth/src/keeper.rs\<close>, \<open>handler.rs\<close>, \<open>types.rs\<close> and the \<open>Module\<close> of
  \<open>src/gears/src/x/auth/auth.rs\<close>. The keeper stores accounts by address and the next account
  number in one store; its abstract state is a map of accounts and a number
  (\<open>auth_state\<close>), and every operation refines an operation on that.
\<close>

section \<open>Modules\<close>

datatype module = FeeCollector

fun module_get_address :: "'a libs_scheme \<Rightarrow> module \<Rightarrow> acc_address option" where
  "module_get_address L FeeCollector =
     unwrap_result (Some (from_bech32 L (lit ''cosmos17xpfvakm2amg962yls6f84z3kell8c5lserqta'')))"

fun module_get_name :: "module \<Rightarrow> bytes" where
  "module_get_name FeeCollector = lit ''fee_collector''"

fun module_get_permissions :: "module \<Rightarrow> bytes list" where
  "module_get_permissions FeeCollector = []"

section \<open>The keeper\<close>

definition ACCOUNT_STORE_PREFIX :: bytes where "ACCOUNT_STORE_PREFIX = [1]"

definition GLOBAL_ACCOUNT_NUMBER_KEY :: bytes where
  "GLOBAL_ACCOUNT_NUMBER_KEY = lit ''globalAccountNumber''"

definition create_auth_store_key :: "acc_address \<Rightarrow> bytes" where
  "create_auth_store_key address = ACCOUNT_STORE_PREFIX @ addr_bytes address"

record auth_keeper =
  ak_store_key :: bytes
  ak_params_keeper :: auth_params_keeper

record auth_genesis =
  ag_accounts :: "base_account list"
  ag_params :: auth_params

definition auth_get_auth_params :: "'db host \<Rightarrow> auth_keeper \<Rightarrow> ctx \<Rightarrow> auth_params option" where
  "auth_get_auth_params H ak ctx = auth_params_get H (ak_params_keeper ak) ctx"

definition auth_has_account :: "'db host \<Rightarrow> auth_keeper \<Rightarrow> ctx \<Rightarrow> acc_address \<Rightarrow> bool option" where
  "auth_has_account H ak ctx addr =
     map_option (\<lambda>r. r \<noteq> None) (ctx_read H ctx (ak_store_key ak) (create_auth_store_key addr))"

definition auth_get_account ::
  "'db host \<Rightarrow> auth_keeper \<Rightarrow> ctx \<Rightarrow> acc_address \<Rightarrow> account option option" where
  "auth_get_account H ak ctx addr = do {
     r \<leftarrow> ctx_read H ctx (ak_store_key ak) (create_auth_store_key addr);
     (case r of
        Some buf \<Rightarrow> map_option Some (unwrap_result (account_decode H buf))
      | None \<Rightarrow> Some None) }"

definition auth_set_account :: "'db host \<Rightarrow> auth_keeper \<Rightarrow> ctx \<Rightarrow> account \<Rightarrow> ctx option" where
  "auth_set_account H ak ctx acct = do {
     bs \<leftarrow> account_encode_vec H acct;
     ctx_write ctx (ak_store_key ak) (create_auth_store_key (get_address acct)) bs }"

definition get_next_account_number :: "'db host \<Rightarrow> auth_keeper \<Rightarrow> ctx \<Rightarrow> (u64 \<times> ctx) option" where
  "get_next_account_number H ak ctx = do {
     r \<leftarrow> ctx_read H ctx (ak_store_key ak) GLOBAL_ACCOUNT_NUMBER_KEY;
     acct_num \<leftarrow> (case r of
        None \<Rightarrow> Some 0
      | Some num \<Rightarrow> unwrap_result (Some (pb_decode (pb_u64 H) num)));
     next_acct_num \<leftarrow> checked_add acct_num 1;
     ctx \<leftarrow> ctx_write ctx (ak_store_key ak) GLOBAL_ACCOUNT_NUMBER_KEY
       (pb_encode (pb_u64 H) next_acct_num);
     Some (acct_num, ctx) }"

definition create_new_base_account ::
  "'db host \<Rightarrow> auth_keeper \<Rightarrow> ctx \<Rightarrow> acc_address \<Rightarrow> ctx option" where
  "create_new_base_account H ak ctx addr = do {
     (n, ctx) \<leftarrow> get_next_account_number H ak ctx;
     auth_set_account H ak ctx (Base \<lparr> ba_address = addr, ba_pub_key = None,
       ba_account_number = n, ba_sequence = 0 \<rparr>) }"

definition check_create_new_module_account ::
  "'db host \<Rightarrow> auth_keeper \<Rightarrow> ctx \<Rightarrow> module \<Rightarrow> ctx option" where
  "check_create_new_module_account H ak ctx m = do {
     addr \<leftarrow> module_get_address H m;
     exists \<leftarrow> auth_has_account H ak ctx addr;
     if exists then Some ctx
     else do {
       (n, ctx) \<leftarrow> get_next_account_number H ak ctx;
       auth_set_account H ak ctx (ModuleAcc \<lparr> ma_base_account = \<lparr> ba_address = addr,
           ba_pub_key = None, ba_account_number = n, ba_sequence = 0 \<rparr>,
         ma_name = module_get_name m, ma_permissions = module_get_permissions m \<rparr>) } }"

fun init_accounts :: "'db host \<Rightarrow> auth_keeper \<Rightarrow> ctx \<Rightarrow> base_account list \<Rightarrow> ctx option" where
  "init_accounts H ak ctx [] = Some ctx"
| "init_accounts H ak ctx (acct # accts) = do {
     (n, ctx) \<leftarrow> get_next_account_number H ak ctx;
     ctx \<leftarrow> auth_set_account H ak ctx (Base (acct\<lparr> ba_account_number := n \<rparr>));
     init_accounts H ak ctx accts }"

definition auth_init_genesis :: "'db host \<Rightarrow> auth_keeper \<Rightarrow> ctx \<Rightarrow> auth_genesis \<Rightarrow> ctx option" where
  "auth_init_genesis H ak ctx genesis = do {
     ctx \<leftarrow> auth_params_set (ak_params_keeper ak) ctx (ag_params genesis);
     ctx \<leftarrow> init_accounts H ak ctx (ag_accounts genesis);
     check_create_new_module_account H ak ctx FeeCollector }"

definition query_read :: "'db host \<Rightarrow> query_context \<Rightarrow> bytes \<Rightarrow> bytes \<Rightarrow> bytes option option" where
  "query_read H ctx store_key key = do {
     kv \<leftarrow> query_get_kv_store ctx store_key;
     kv_read H store_key kv key }"

definition query_account ::
  "'db host \<Rightarrow> auth_keeper \<Rightarrow> query_context \<Rightarrow> query_account_request \<Rightarrow>
     (app_error + query_account_response) option" where
  "query_account H ak ctx req = (case req of QueryAccountRequest address \<Rightarrow> do {
     r \<leftarrow> query_read H ctx (ak_store_key ak) (create_auth_store_key address);
     (case r of
        Some buf \<Rightarrow> do {
          account \<leftarrow> unwrap_result (account_decode H buf);
          Some (Inr (QueryAccountResponse account)) }
      | None \<Rightarrow> Some (Inl AccountNotFound)) })"

section \<open>The handler\<close>

record request_query =
  query_path :: bytes
  query_data :: bytes

definition auth_handle_query ::
  "'db host \<Rightarrow> auth_keeper \<Rightarrow> query_context \<Rightarrow> request_query \<Rightarrow> (app_error + bytes) option" where
  "auth_handle_query H ak ctx query =
     (if query_path query = lit ''/cosmos.auth.v1beta1.Query/Account''
      then try_bind (map_option (map_err InvalidRequest)
          (proto_decode H (pb_account_request H)
            (\<lambda>raw. Some (query_account_request_try_from H raw)) (query_data query))) (\<lambda>req.
        try_bind (query_account H ak ctx req) (\<lambda>res.
        map_option (\<lambda>raw. Inr (pb_encode (pb_account_response H) raw))
          (raw_from_query_account_response H res)))
      else Some (Inl (InvalidRequest (lit ''query path not found''))))"

section \<open>The abstract state\<close>

text \<open>
  Accounts by address, and the next account number. \<open>auth_rel\<close> relates them to the contents of
  the store: every account key is absent or decodes to the account, and the number key is
  absent (zero) or decodes to the number.
\<close>

definition auth_rel ::
  "'a libs_scheme \<Rightarrow> (bytes \<Rightarrow> bytes option) \<Rightarrow> (acc_address \<Rightarrow> account option) \<Rightarrow> u64 \<Rightarrow> bool" where
  "auth_rel L f accs n \<longleftrightarrow>
     (\<forall>a. map_option (account_decode L) (f (create_auth_store_key a))
        = map_option (\<lambda>x. Some (Inr x)) (accs a)) \<and>
     (case f GLOBAL_ACCOUNT_NUMBER_KEY of
        None \<Rightarrow> n = 0 | Some bs \<Rightarrow> pb_decode (pb_u64 L) bs = Inr n)"

definition auth_state ::
  "'db host \<Rightarrow> auth_keeper \<Rightarrow> ctx \<Rightarrow> (acc_address \<Rightarrow> account option) \<Rightarrow> u64 \<Rightarrow> bool" where
  "auth_state H ak ctx accs n \<longleftrightarrow>
     (\<exists>f. ctx_view H (ak_store_key ak) ctx f \<and> auth_rel H f accs n)"

abbreviation new_base :: "acc_address \<Rightarrow> u64 \<Rightarrow> account" where
  "new_base addr n \<equiv> Base \<lparr> ba_address = addr, ba_pub_key = None, ba_account_number = n,
     ba_sequence = 0 \<rparr>"

abbreviation new_module :: "acc_address \<Rightarrow> u64 \<Rightarrow> account" where
  "new_module addr n \<equiv> ModuleAcc \<lparr> ma_base_account = \<lparr> ba_address = addr, ba_pub_key = None,
     ba_account_number = n, ba_sequence = 0 \<rparr>, ma_name = module_get_name FeeCollector,
     ma_permissions = [] \<rparr>"

lemma auth_keys [simp]:
  "create_auth_store_key a = create_auth_store_key b \<longleftrightarrow> a = b"
  "create_auth_store_key a \<noteq> GLOBAL_ACCOUNT_NUMBER_KEY"
  "GLOBAL_ACCOUNT_NUMBER_KEY \<noteq> create_auth_store_key a"
  "create_auth_store_key a \<noteq> []" "GLOBAL_ACCOUNT_NUMBER_KEY \<noteq> []"
  by (auto simp: create_auth_store_key_def ACCOUNT_STORE_PREFIX_def GLOBAL_ACCOUNT_NUMBER_KEY_def)

lemma auth_rel_account:
  "auth_rel L f accs n \<Longrightarrow> f (create_auth_store_key a) = Some bs \<Longrightarrow>
     \<exists>acct. accs a = Some acct \<and> account_decode L bs = Some (Inr acct)"
  by (cases "accs a") (auto simp: auth_rel_def dest!: spec [of _ a])

lemma auth_rel_None:
  "auth_rel L f accs n \<Longrightarrow> f (create_auth_store_key a) = None \<longleftrightarrow> accs a = None"
  by (metis auth_rel_def map_option_is_None)

lemma has_account_refines:
  assumes "auth_state H ak ctx accs n"
  shows "auth_has_account H ak ctx a = Some (accs a \<noteq> None)"
proof -
  from assms obtain f where f: "ctx_view H (ak_store_key ak) ctx f" "auth_rel H f accs n"
    by (auto simp: auth_state_def)
  show ?thesis
    using auth_rel_None [OF f(2), of a] by (simp add: auth_has_account_def view_read [OF f(1)] del: not_None_eq)
qed

lemma get_account_refines:
  assumes "auth_state H ak ctx accs n"
  shows "auth_get_account H ak ctx a = Some (accs a)"
proof -
  from assms obtain f where f: "ctx_view H (ak_store_key ak) ctx f" "auth_rel H f accs n"
    by (auto simp: auth_state_def)
  show ?thesis
    using view_read [OF f(1)] auth_rel_account [OF f(2), of a] auth_rel_None [OF f(2), of a]
    by (cases "f (create_auth_store_key a)") (auto simp: auth_get_account_def)
qed

lemma set_account_refines:
  assumes "auth_libs_ok H" "auth_state H ak ctx accs n" "account_ok acct"
  obtains ctx' where "auth_set_account H ak ctx acct = Some ctx'"
    "auth_state H ak ctx' (accs(get_address acct \<mapsto> acct)) n" "touches H (ak_store_key ak) ctx ctx'"
proof -
  from assms(2) obtain f where f: "ctx_view H (ak_store_key ak) ctx f" "auth_rel H f accs n"
    by (auto simp: auth_state_def)
  from account_round_trip [OF assms(1,3)] obtain bs where
    bs: "account_encode_vec H acct = Some bs" "account_decode H bs = Some (Inr acct)" .
  let ?k = "create_auth_store_key (get_address acct)"
  obtain ctx' where c: "ctx_write ctx (ak_store_key ak) ?k bs = Some ctx'"
    "ctx_view H (ak_store_key ak) ctx' (f(?k \<mapsto> bs))" "touches H (ak_store_key ak) ctx ctx'"
    by (rule view_put [OF f(1), of ?k bs]) simp_all
  have "auth_rel H (f(?k \<mapsto> bs)) (accs(get_address acct \<mapsto> acct)) n"
    using f(2) bs(2) by (simp add: auth_rel_def)
  then show thesis using that c bs(1) by (auto simp: auth_set_account_def auth_state_def)
qed

lemma next_account_number_refines:
  assumes "account_codecs_ok H" "auth_state H ak ctx accs n" "Suc (unat n) < 2 ^ 64"
  obtains ctx' where "get_next_account_number H ak ctx = Some (n, ctx')"
    "auth_state H ak ctx' accs (n + 1)" "touches H (ak_store_key ak) ctx ctx'"
proof -
  from assms(2) obtain f where f: "ctx_view H (ak_store_key ak) ctx f" "auth_rel H f accs n"
    by (auto simp: auth_state_def)
  let ?bs = "pb_encode (pb_u64 H) (n + 1)"
  obtain ctx' where c: "ctx_write ctx (ak_store_key ak) GLOBAL_ACCOUNT_NUMBER_KEY ?bs = Some ctx'"
    "ctx_view H (ak_store_key ak) ctx' (f(GLOBAL_ACCOUNT_NUMBER_KEY \<mapsto> ?bs))"
    "touches H (ak_store_key ak) ctx ctx'"
    by (rule view_put [OF f(1), of GLOBAL_ACCOUNT_NUMBER_KEY ?bs]) simp_all
  have "auth_rel H (f(GLOBAL_ACCOUNT_NUMBER_KEY \<mapsto> ?bs)) accs (n + 1)"
    using f(2) account_codecs_okD(5) [OF assms(1)] by (simp add: auth_rel_def codec_okD)
  moreover have "get_next_account_number H ak ctx = Some (n, ctx')"
    using f(2) assms(3) c(1) view_read [OF f(1)]
    by (auto simp: get_next_account_number_def auth_rel_def checked_add_def split: option.splits)
  ultimately show thesis using that c by (auto simp: auth_state_def)
qed

lemma auth_libs_codecs: "auth_libs_ok L \<Longrightarrow> account_codecs_ok L"
  by (simp add: auth_libs_ok_def)

lemma create_new_base_account_refines:
  assumes L: "auth_libs_ok H" and s: "auth_state H ak ctx accs n" and n: "Suc (unat n) < 2 ^ 64"
    and a: "addr_ok a"
  obtains ctx' where "create_new_base_account H ak ctx a = Some ctx'"
    "auth_state H ak ctx' (accs(a \<mapsto> new_base a n)) (n + 1)" "touches H (ak_store_key ak) ctx ctx'"
proof -
  obtain c1 where c1: "get_next_account_number H ak ctx = Some (n, c1)"
    "auth_state H ak c1 accs (n + 1)" "touches H (ak_store_key ak) ctx c1"
    by (rule next_account_number_refines [OF auth_libs_codecs [OF L] s n])
  have "account_ok (new_base a n)" using a by (simp add: account_ok_def get_address_def)
  from set_account_refines [OF L c1(2) this] obtain c2 where
    "auth_set_account H ak c1 (new_base a n) = Some c2"
    "auth_state H ak c2 (accs(a \<mapsto> new_base a n)) (n + 1)" "touches H (ak_store_key ak) c1 c2"
    by (auto simp: get_address_def)
  then show thesis
    using that c1 by (simp add: create_new_base_account_def) (metis touches_trans)
qed

lemma check_create_module_refines:
  assumes L: "auth_libs_ok H" and s: "auth_state H ak ctx accs n"
    and a: "module_get_address H m = Some a" and n: "accs a = None \<Longrightarrow> Suc (unat n) < 2 ^ 64"
  obtains ctx' where "check_create_new_module_account H ak ctx m = Some ctx'"
    "auth_state H ak ctx' (if accs a = None then accs(a \<mapsto> new_module a n) else accs)
       (if accs a = None then n + 1 else n)" "touches H (ak_store_key ak) ctx ctx'"
proof (cases "accs a = None")
  case False
  then obtain y where "accs a = Some y" by blast
  then show thesis
    using that [of ctx] has_account_refines [OF s, of a] s a
    by (simp add: check_create_new_module_account_def)
next
  case True
  obtain c1 where c1: "get_next_account_number H ak ctx = Some (n, c1)"
    "auth_state H ak c1 accs (n + 1)" "touches H (ak_store_key ak) ctx c1"
    by (rule next_account_number_refines [OF auth_libs_codecs [OF L] s n [OF True]])
  have "addr_ok a"
    using a from_bech32_ok by (cases m) (auto simp: unwrap_result_Some)
  then have "account_ok (new_module a n)" by (simp add: account_ok_def get_address_def)
  from set_account_refines [OF L c1(2) this] obtain c2 where c2:
    "auth_set_account H ak c1 (new_module a n) = Some c2"
    "auth_state H ak c2 (accs(a \<mapsto> new_module a n)) (n + 1)" "touches H (ak_store_key ak) c1 c2"
    by (auto simp: get_address_def)
  have "check_create_new_module_account H ak ctx m = Some c2"
    using True a has_account_refines [OF s, of a] c1 c2
    by (cases m) (simp add: check_create_new_module_account_def)
  then show thesis using that c2 True touches_trans [OF c1(3) c2(3)] by simp
qed

section \<open>Genesis\<close>

fun number_accounts ::
  "(acc_address \<Rightarrow> account option) \<Rightarrow> u64 \<Rightarrow> base_account list \<Rightarrow> acc_address \<Rightarrow> account option" where
  "number_accounts accs n [] = accs"
| "number_accounts accs n (acct # accts) =
     number_accounts (accs(ba_address acct \<mapsto> Base (acct\<lparr> ba_account_number := n \<rparr>))) (n + 1) accts"

lemma init_accounts_refines:
  assumes L: "auth_libs_ok H" and s: "auth_state H ak ctx accs n"
    and n: "unat n + length accts < 2 ^ 64" and a: "\<forall>acct \<in> set accts. addr_ok (ba_address acct)"
  shows "\<exists>ctx'. init_accounts H ak ctx accts = Some ctx' \<and>
     auth_state H ak ctx' (number_accounts accs n accts) (n + of_nat (length accts)) \<and>
     touches H (ak_store_key ak) ctx ctx'"
  using s n a
proof (induction accts arbitrary: ctx accs n)
  case Nil
  then show ?case by auto
next
  case (Cons acct accts)
  let ?acct = "Base (acct\<lparr> ba_account_number := n \<rparr>)"
  have b: "Suc (unat n) < 2 ^ 64" using Cons.prems(2) by simp
  obtain c1 where c1: "get_next_account_number H ak ctx = Some (n, c1)"
    "auth_state H ak c1 accs (n + 1)" "touches H (ak_store_key ak) ctx c1"
    by (rule next_account_number_refines [OF auth_libs_codecs [OF L] Cons.prems(1) b])
  have "account_ok ?acct" using Cons.prems(3) by (simp add: account_ok_def get_address_def)
  from set_account_refines [OF L c1(2) this] obtain c2 where c2:
    "auth_set_account H ak c1 ?acct = Some c2"
    "auth_state H ak c2 (accs(ba_address acct \<mapsto> ?acct)) (n + 1)" "touches H (ak_store_key ak) c1 c2"
    by (auto simp: get_address_def)
  have "unat (n + 1) = Suc (unat n)"
    using b by (simp add: unat_word_ariths)
  then have "unat (n + 1) + length accts < 2 ^ 64" using Cons.prems(2) by simp
  moreover have "\<forall>acct \<in> set accts. addr_ok (ba_address acct)" using Cons.prems(3) by simp
  moreover have "init_accounts H ak ctx (acct # accts) = init_accounts H ak c2 accts"
    using c1(1) c2(1) by simp
  moreover have "touches H (ak_store_key ak) ctx c2" using touches_trans [OF c1(3) c2(3)] .
  moreover have "n + 1 + of_nat (length accts) = n + of_nat (length (acct # accts))" by simp
  moreover have "number_accounts accs n (acct # accts)
      = number_accounts (accs(ba_address acct \<mapsto> ?acct)) (n + 1) accts" by simp
  ultimately show ?case using Cons.IH [OF c2(2)] touches_trans by metis
qed

lemma number_accounts_other:
  "a \<notin> ba_address ` set accts \<Longrightarrow> number_accounts accs n accts a = accs a"
  by (induction accs n accts rule: number_accounts.induct) auto

lemma number_accounts_nth:
  "distinct (map ba_address accts) \<Longrightarrow> i < length accts \<Longrightarrow>
     number_accounts accs n accts (ba_address (accts ! i))
       = Some (Base ((accts ! i)\<lparr> ba_account_number := n + of_nat i \<rparr>))"
proof (induction accs n accts arbitrary: i rule: number_accounts.induct)
  case (2 accs n acct accts)
  show ?case
  proof (cases i)
    case 0
    with 2(2) show ?thesis by (simp add: number_accounts_other)
  next
    case (Suc j)
    with 2(2,3) 2(1) [of j] show ?thesis by (simp add: add.assoc del: fun_upd_apply)
  qed
qed simp

lemma auth_init_genesis_refines:
  assumes L: "auth_libs_ok H" and s: "auth_state H ak ctx Map.empty 0"
    and p: "ctx_view H (pk_store_key (ap_params_keeper (ak_params_keeper ak))) ctx g"
    and ne: "pk_store_key (ap_params_keeper (ak_params_keeper ak)) \<noteq> ak_store_key ak"
    and n: "Suc (length (ag_accounts genesis)) < 2 ^ 64"
    and a: "\<forall>acct \<in> set (ag_accounts genesis). addr_ok (ba_address acct)"
    and fc: "module_get_address H FeeCollector = Some fc"
    and fresh: "fc \<notin> ba_address ` set (ag_accounts genesis)"
  shows "\<exists>ctx'. auth_init_genesis H ak ctx genesis = Some ctx' \<and>
     auth_state H ak ctx' ((number_accounts Map.empty 0 (ag_accounts genesis))
       (fc \<mapsto> new_module fc (of_nat (length (ag_accounts genesis)))))
       (of_nat (Suc (length (ag_accounts genesis)))) \<and>
     auth_get_auth_params H ak ctx' = Some (ag_params genesis) \<and> tx_only ctx ctx' \<and>
     (\<forall>k h. k \<noteq> ak_store_key ak \<longrightarrow> k \<noteq> pk_store_key (ap_params_keeper (ak_params_keeper ak)) \<longrightarrow>
        ctx_view H k ctx' h = ctx_view H k ctx h)"
proof -
  let ?ps = "pk_store_key (ap_params_keeper (ak_params_keeper ak))"
  let ?len = "of_nat (length (ag_accounts genesis)) :: u64"
  let ?accs = "number_accounts Map.empty 0 (ag_accounts genesis)"
  from auth_params_set_view [OF p] obtain c1 f' where c1:
    "auth_params_set (ak_params_keeper ak) ctx (ag_params genesis) = Some c1"
    "touches H ?ps ctx c1" "ctx_view H ?ps c1 f'"
    "auth_params_get H (ak_params_keeper ak) c1 = Some (ag_params genesis)" by metis
  have "auth_state H ak c1 Map.empty 0"
    using s touchesD(3) [OF c1(2) ne [symmetric]] by (simp add: auth_state_def)
  from init_accounts_refines [OF L this, of "ag_accounts genesis"] n a obtain c2 where c2:
    "init_accounts H ak c1 (ag_accounts genesis) = Some c2"
    "auth_state H ak c2 ?accs ?len" "touches H (ak_store_key ak) c1 c2" by auto
  have none: "?accs fc = None" using fresh by (simp add: number_accounts_other)
  have "unat ?len = length (ag_accounts genesis)"
    using n by (intro unat_of_nat_bounded) simp
  from check_create_module_refines [OF L c2(2) fc] this n none obtain c3 where c3:
    "check_create_new_module_account H ak c2 FeeCollector = Some c3"
    "auth_state H ak c3 (?accs(fc \<mapsto> new_module fc ?len)) (?len + 1)"
    "touches H (ak_store_key ak) c2 c3" by (auto simp: add.commute)
  have t: "touches H (ak_store_key ak) c1 c3" using touches_trans [OF c2(3) c3(3)] .
  have "ctx_view H ?ps c3 f'" using touchesD(3) [OF t ne] c1(3) by simp
  then have "auth_params_get H (ak_params_keeper ak) c3 = Some (ag_params genesis)"
    using c1(4) auth_params_get_cong [OF c1(3)] by simp
  moreover have "tx_only ctx c3" using touchesD(1) c1(2) t tx_only_trans by blast
  moreover have "ctx_view H k c3 h = ctx_view H k ctx h" if "k \<noteq> ak_store_key ak" "k \<noteq> ?ps" for k h
    using touchesD(3) [OF t] touchesD(3) [OF c1(2)] that by simp
  ultimately show ?thesis
    using c1(1) c2(1) c3 by (simp add: auth_init_genesis_def auth_get_auth_params_def add.commute)
qed

section \<open>Account numbers\<close>

text \<open>
  Stored accounts are under their own address and have pairwise different numbers below the
  next one.
\<close>

definition auth_inv :: "(acc_address \<Rightarrow> account option) \<Rightarrow> u64 \<Rightarrow> bool" where
  "auth_inv accs n \<longleftrightarrow>
     (\<forall>a acct. accs a = Some acct \<longrightarrow>
        get_address acct = a \<and> addr_ok a \<and> unat (get_account_number acct) < unat n) \<and>
     (\<forall>a b x y. accs a = Some x \<longrightarrow> accs b = Some y \<longrightarrow>
        get_account_number x = get_account_number y \<longrightarrow> a = b)"

lemma auth_inv_empty: "auth_inv Map.empty 0"
  by (simp add: auth_inv_def)

lemma auth_inv_new:
  assumes "auth_inv accs n" "Suc (unat n) < 2 ^ 64" "get_address acct = a" "addr_ok a"
    and "get_account_number acct = n"
  shows "auth_inv (accs(a \<mapsto> acct)) (n + 1)"
proof -
  have "unat (n + 1) = Suc (unat n)" using assms(2) by (simp add: unat_word_ariths)
  moreover have "get_account_number x \<noteq> n" if "accs b = Some x" for b x
    using assms(1) that by (auto simp: auth_inv_def)
  ultimately show ?thesis
    using assms unfolding auth_inv_def by (auto simp: less_Suc_eq) blast+
qed

lemma auth_inv_update:
  assumes "auth_inv accs n" "accs a = Some acct" "get_address acct' = a"
    and "get_account_number acct' = get_account_number acct"
  shows "auth_inv (accs(a \<mapsto> acct')) n"
  using assms unfolding auth_inv_def by auto

lemma auth_inv_number:
  assumes "auth_inv accs n" "unat n + length accts < 2 ^ 64"
    and "\<forall>acct \<in> set accts. addr_ok (ba_address acct)"
  shows "auth_inv (number_accounts accs n accts) (n + of_nat (length accts))"
  using assms
proof (induction accs n accts rule: number_accounts.induct)
  case (2 accs n acct accts)
  have "unat (n + 1) = Suc (unat n)" using 2(3) by (simp add: unat_word_ariths)
  moreover have "auth_inv (accs(ba_address acct \<mapsto> Base (acct\<lparr> ba_account_number := n \<rparr>))) (n + 1)"
    using 2(2-4) by (intro auth_inv_new) (auto simp: get_address_def get_account_number_def)
  ultimately show ?case using 2 by (simp add: add.assoc del: fun_upd_apply)
qed simp

section \<open>Properties\<close>

lemma auth_state_empty: "ctx_view H (ak_store_key ak) ctx (\<lambda>k. None) \<Longrightarrow> auth_state H ak ctx Map.empty 0"
  by (auto simp: auth_state_def auth_rel_def)

text \<open>
  Genesis on empty stores returns; it stores the parameters, gives the genesis accounts the
  numbers 0, 1, ... in their order and the fee collector the next one, and creates no other
  account.
\<close>

theorem genesis_accounts:
  assumes "auth_libs_ok H" "ctx_view H (ak_store_key ak) ctx (\<lambda>k. None)"
    and "ctx_view H (pk_store_key (ap_params_keeper (ak_params_keeper ak))) ctx g"
    and "pk_store_key (ap_params_keeper (ak_params_keeper ak)) \<noteq> ak_store_key ak"
    and "Suc (length (ag_accounts genesis)) < 2 ^ 64"
    and "\<forall>acct \<in> set (ag_accounts genesis). addr_ok (ba_address acct)"
    and "distinct (map ba_address (ag_accounts genesis))"
    and "module_get_address H FeeCollector = Some fc"
    and "fc \<notin> ba_address ` set (ag_accounts genesis)"
  shows "\<exists>ctx'. auth_init_genesis H ak ctx genesis = Some ctx' \<and>
     auth_get_auth_params H ak ctx' = Some (ag_params genesis) \<and>
     (\<forall>i < length (ag_accounts genesis).
        auth_get_account H ak ctx' (ba_address (ag_accounts genesis ! i))
          = Some (Some (Base ((ag_accounts genesis ! i)\<lparr> ba_account_number := of_nat i \<rparr>)))) \<and>
     auth_get_account H ak ctx' fc
       = Some (Some (new_module fc (of_nat (length (ag_accounts genesis))))) \<and>
     (\<forall>a. a \<noteq> fc \<and> a \<notin> ba_address ` set (ag_accounts genesis) \<longrightarrow>
        auth_get_account H ak ctx' a = Some None)"
proof -
  from auth_init_genesis_refines [OF assms(1) auth_state_empty [OF assms(2)] assms(3-6,8,9)]
  obtain ctx' where c: "auth_init_genesis H ak ctx genesis = Some ctx'"
    "auth_state H ak ctx' ((number_accounts Map.empty 0 (ag_accounts genesis))
       (fc \<mapsto> new_module fc (of_nat (length (ag_accounts genesis)))))
       (of_nat (Suc (length (ag_accounts genesis))))"
    "auth_get_auth_params H ak ctx' = Some (ag_params genesis)" by blast
  have "ba_address (ag_accounts genesis ! i) \<noteq> fc" if "i < length (ag_accounts genesis)" for i
    using assms(9) that by (metis image_eqI nth_mem)
  then show ?thesis
    using c number_accounts_nth [OF assms(7), of _ Map.empty 0]
    by (simp add: get_account_refines [OF c(2)] number_accounts_other)
qed

definition demo_auth :: auth_keeper where
  "demo_auth = \<lparr> ak_store_key = ACC, ak_params_keeper = \<lparr> ap_params_keeper =
     \<lparr> pk_store_key = PARAMS \<rparr>, ap_subspace_key = lit ''auth/'' \<rparr> \<rparr>"

definition demo_base :: "u8 \<Rightarrow> base_account" where
  "demo_base b = \<lparr> ba_address = AccAddress [b], ba_pub_key = None, ba_account_number = 9,
     ba_sequence = 0 \<rparr>"

definition demo_fee_collector :: acc_address where
  "demo_fee_collector = AccAddress (lit ''7xpfvakm2amg962yls6f84z3kell8c5lserqta'')"

lemma demo_auth_keys [simp]:
  "ak_store_key demo_auth = ACC"
  "pk_store_key (ap_params_keeper (ak_params_keeper demo_auth)) = PARAMS"
  by (simp_all add: demo_auth_def)

lemma demo_fee_collector:
  "module_get_address demo_host FeeCollector = Some demo_fee_collector"
  by (simp add: demo_fee_collector_def from_bech32_def demo_libs_def BECH32_PREFIX_ACC_ADDR_def BECH32_MAIN_PREFIX_def)

theorem genesis_accounts_witness:
  "\<exists>ctx'. auth_init_genesis demo_host demo_auth demo_init
       \<lparr> ag_accounts = [demo_base 3, demo_base 4], ag_params = DEFAULT_PARAMS \<rparr> = Some ctx' \<and>
     auth_get_account demo_host demo_auth ctx' (AccAddress [4])
       = Some (Some (Base ((demo_base 4)\<lparr> ba_account_number := 1 \<rparr>))) \<and>
     auth_get_account demo_host demo_auth ctx' demo_fee_collector
       = Some (Some (new_module demo_fee_collector 2))"
proof -
  let ?g = "\<lparr> ag_accounts = [demo_base 3, demo_base 4], ag_params = DEFAULT_PARAMS \<rparr>"
  have v: "ctx_view demo_host ACC demo_init (\<lambda>k. None)"
    "ctx_view demo_host PARAMS demo_init (\<lambda>k. None)" by (simp_all add: demo_view)
  have fc: "demo_fee_collector \<notin> ba_address ` set (ag_accounts ?g)"
    by (simp add: demo_fee_collector_def demo_base_def)
  have d: "distinct (map ba_address (ag_accounts ?g))"
    "\<forall>acct \<in> set (ag_accounts ?g). addr_ok (ba_address acct)"
    "Suc (length (ag_accounts ?g)) < 2 ^ 64"
    by (simp_all add: demo_base_def addr_ok_def)
  note genesis_accounts [of demo_host demo_auth demo_init "\<lambda>k. None" ?g demo_fee_collector,
      OF demo_host_laws(1) _ _ _ d(3,2,1) demo_fee_collector fc, unfolded demo_auth_keys]
  from this [OF v demo_names(6)] obtain ctx' where c: "auth_init_genesis demo_host demo_auth demo_init ?g = Some ctx'"
    "\<forall>i < length (ag_accounts ?g). auth_get_account demo_host demo_auth ctx'
        (ba_address (ag_accounts ?g ! i))
       = Some (Some (Base ((ag_accounts ?g ! i)\<lparr> ba_account_number := of_nat i \<rparr>)))"
    "auth_get_account demo_host demo_auth ctx' demo_fee_collector
       = Some (Some (new_module demo_fee_collector (of_nat (length (ag_accounts ?g)))))"
    by blast
  from c(2) have "auth_get_account demo_host demo_auth ctx' (ba_address (demo_base 4))
      = Some (Some (Base ((demo_base 4)\<lparr> ba_account_number := 1 \<rparr>)))"
    by (auto dest!: spec [of _ 1])
  then show ?thesis using c(1,3) by (auto simp: demo_base_def)
qed

end
