(* ===== verification/Bank_Messages.thy ===== *)
theory Bank_Messages
  imports Proto_Types
begin

text \<open>
  The messages and queries of the bank module: \<open>MsgSend\<close>
  (\<open>src/proto-messages/src/cosmos/bank/v1beta1/tx.rs\<close>), the query types of \<open>query.rs\<close> beside it,
  and the message type of \<open>src/x/bank/src/message.rs\<close>, with their conversions.
\<close>

section \<open>MsgSend\<close>

record msg_send =
  from_address :: acc_address
  to_address :: acc_address
  msg_amount :: send_coins

definition decode_address :: "'a libs_scheme \<Rightarrow> bytes \<Rightarrow> proto_error + acc_address" where
  "decode_address L t = map_err (\<lambda>e. DecodeAddress (address_error_text L e)) (from_bech32 L t)"

definition msg_send_try_from :: "'a libs_scheme \<Rightarrow> raw_msg_send \<Rightarrow> proto_error + msg_send" where
  "msg_send_try_from L raw =
     then_try (decode_address L (rms_from_address raw)) (\<lambda>from_addr.
     then_try (decode_address L (rms_to_address raw)) (\<lambda>to_addr.
     then_try (collect_results (coin_try_from L) (rms_amount raw)) (\<lambda>coins.
     then_try (send_coins_new coins) (\<lambda>amount.
     Inr \<lparr> from_address = from_addr, to_address = to_addr, msg_amount = amount \<rparr>))))"

definition raw_from_msg_send :: "'a libs_scheme \<Rightarrow> msg_send \<Rightarrow> raw_msg_send option" where
  "raw_from_msg_send L msg = do {
     from_addr \<leftarrow> addr_to_string L (from_address msg);
     to_addr \<leftarrow> addr_to_string L (to_address msg);
     Some \<lparr> rms_from_address = from_addr, rms_to_address = to_addr,
       rms_amount = map (raw_from_coin L) (coin_list (msg_amount msg)) \<rparr> }"

definition MSG_SEND_URL :: bytes where "MSG_SEND_URL = lit ''/cosmos.bank.v1beta1.MsgSend''"

definition any_from_msg_send :: "'a libs_scheme \<Rightarrow> msg_send \<Rightarrow> any_message option" where
  "any_from_msg_send L msg = map_option (\<lambda>raw.
     \<lparr> type_url = MSG_SEND_URL, any_value = pb_encode (pb_msg_send L) raw \<rparr>)
     (raw_from_msg_send L msg)"

section \<open>The bank's message type\<close>

datatype bank_message = Send msg_send

fun bank_get_signers :: "bank_message \<Rightarrow> acc_address list" where
  "bank_get_signers (Send msg) = [from_address msg]"

fun bank_validate_basic :: "bank_message \<Rightarrow> bytes + unit" where
  "bank_validate_basic (Send _) = Inr ()"

fun any_from_bank_message :: "'a libs_scheme \<Rightarrow> bank_message \<Rightarrow> any_message option" where
  "any_from_bank_message L (Send msg) = map_option (\<lambda>raw.
     \<lparr> type_url = MSG_SEND_URL, any_value = pb_encode (pb_msg_send L) raw \<rparr>)
     (raw_from_msg_send L msg)"

text \<open>The \<open>unwrap\<close> of the decoded message: malformed bytes of a transaction panic.\<close>

definition bank_message_try_from ::
  "'a libs_scheme \<Rightarrow> any_message \<Rightarrow> (proto_error + bank_message) option" where
  "bank_message_try_from L any =
     (if type_url any = MSG_SEND_URL
      then do {
        msg \<leftarrow> unwrap_result
          (proto_decode L (pb_msg_send L) (\<lambda>raw. Some (msg_send_try_from L raw)) (any_value any));
        Some (Inr (Send msg)) }
      else Some (Inl (DecodeGeneral (lit ''message type not recognized''))))"

definition msg_send_ok :: "msg_send \<Rightarrow> bool" where
  "msg_send_ok msg \<longleftrightarrow> addr_ok (from_address msg) \<and> addr_ok (to_address msg) \<and>
     send_coins_ok (coin_list (msg_amount msg)) \<and> (\<forall>c \<in> set (coin_list (msg_amount msg)). coin_ok c)"

lemma msg_send_try_from_ok:
  assumes "msg_send_try_from L raw = Inr msg"
  shows "msg_send_ok msg"
proof -
  from assms obtain coins where "from_bech32 L (rms_from_address raw) = Inr (from_address msg)"
    "from_bech32 L (rms_to_address raw) = Inr (to_address msg)"
    "collect_results (coin_try_from L) (rms_amount raw) = Inr coins"
    "send_coins_new coins = Inr (msg_amount msg)"
    by (auto simp: msg_send_try_from_def then_try_Inr decode_address_def)
  then show ?thesis
    using from_bech32_ok coins_try_from_ok [of L "rms_amount raw" "msg_amount msg"]
    by (auto simp: msg_send_ok_def coins_try_from_def)
qed

lemma bank_message_try_from_ok:
  "bank_message_try_from L any = Some (Inr (Send msg)) \<Longrightarrow> msg_send_ok msg"
  by (auto simp: bank_message_try_from_def proto_decode_def bind_eq_Some_conv unwrap_result_Some
      intro: msg_send_try_from_ok split: if_splits sum.splits)

lemma msg_send_round_trip:
  assumes "bech32_ok L" "uint256_ok L" "msg_send_ok msg"
  obtains raw where "raw_from_msg_send L msg = Some raw" "msg_send_try_from L raw = Inr msg"
proof -
  obtain t where t: "addr_to_string L (from_address msg) = Some t"
    "from_bech32 L t = Inr (from_address msg)"
    using addr_string [OF assms(1), of "from_address msg"] assms(3) by (auto simp: msg_send_ok_def)
  obtain u where u: "addr_to_string L (to_address msg) = Some u"
    "from_bech32 L u = Inr (to_address msg)"
    using addr_string [OF assms(1), of "to_address msg"] assms(3) by (auto simp: msg_send_ok_def)
  obtain cs where cs: "msg_amount msg = SendCoins cs" by (cases "msg_amount msg")
  then have "send_coins_ok cs" "\<forall>c \<in> set cs. coin_ok c"
    using assms(3) by (auto simp: msg_send_ok_def)
  moreover from this have "collect_results (coin_try_from L) (map (raw_from_coin L) cs) = Inr cs"
    using coin_raw_round_trip [OF assms(2)] by (intro collect_results_map) blast
  moreover have "send_coins_new cs = Inr (msg_amount msg)"
    using calculation(1) by (simp add: send_coins_new_valid cs)
  ultimately have "msg_send_try_from L \<lparr> rms_from_address = t, rms_to_address = u,
      rms_amount = map (raw_from_coin L) cs \<rparr> = Inr msg"
    by (simp add: msg_send_try_from_def decode_address_def t u)
  then show thesis using that t u cs by (simp add: raw_from_msg_send_def)
qed

section \<open>Queries\<close>

record query_balance_request =
  qbr_address :: acc_address
  qbr_denom :: denom

datatype query_balance_response = QueryBalanceResponse (balance: "coin option")

record query_all_balances_request =
  qabr_address :: acc_address
  qabr_pagination :: "bytes option"

record query_all_balances_response =
  balances :: "coin list"
  balances_pagination :: "bytes option"

record query_total_supply_response =
  supply_coins :: "coin list"
  supply_pagination :: "bytes option"

definition query_balance_request_try_from ::
  "'a libs_scheme \<Rightarrow> raw_balance_request \<Rightarrow> proto_error + query_balance_request" where
  "query_balance_request_try_from L raw =
     then_try (decode_address L (rbr_address raw)) (\<lambda>address.
     then_try (map_err (\<lambda>_. CoinError (lit ''invalid denom'')) (denom_try_from (rbr_denom raw))) (\<lambda>d.
     Inr \<lparr> qbr_address = address, qbr_denom = d \<rparr>))"

definition raw_from_query_balance_request ::
  "'a libs_scheme \<Rightarrow> query_balance_request \<Rightarrow> raw_balance_request option" where
  "raw_from_query_balance_request L query = map_option (\<lambda>t.
     \<lparr> rbr_address = t, rbr_denom = denom_to_string (qbr_denom query) \<rparr>)
     (addr_to_string L (qbr_address query))"

definition query_all_balances_request_try_from ::
  "'a libs_scheme \<Rightarrow> raw_all_balances_request \<Rightarrow> proto_error + query_all_balances_request" where
  "query_all_balances_request_try_from L raw =
     then_try (decode_address L (rabr_address raw)) (\<lambda>address.
     Inr \<lparr> qabr_address = address, qabr_pagination = rabr_pagination raw \<rparr>)"

definition raw_from_query_all_balances_request ::
  "'a libs_scheme \<Rightarrow> query_all_balances_request \<Rightarrow> raw_all_balances_request option" where
  "raw_from_query_all_balances_request L query = map_option (\<lambda>t.
     \<lparr> rabr_address = t, rabr_pagination = qabr_pagination query \<rparr>)
     (addr_to_string L (qabr_address query))"

definition query_all_balances_response_try_from ::
  "'a libs_scheme \<Rightarrow> raw_coins_response \<Rightarrow> proto_error + query_all_balances_response" where
  "query_all_balances_response_try_from L raw =
     then_try (collect_results (coin_try_from L) (rcr_coins raw)) (\<lambda>bs.
     Inr \<lparr> balances = bs, balances_pagination = rcr_pagination raw \<rparr>)"

definition raw_from_query_all_balances_response ::
  "'a libs_scheme \<Rightarrow> query_all_balances_response \<Rightarrow> raw_coins_response" where
  "raw_from_query_all_balances_response L query =
     \<lparr> rcr_coins = map (raw_from_coin L) (balances query),
        rcr_pagination = balances_pagination query \<rparr>"

definition query_balance_response_try_from ::
  "'a libs_scheme \<Rightarrow> raw_balance_response \<Rightarrow> proto_error + query_balance_response" where
  "query_balance_response_try_from L raw =
     (case rbr_balance raw of
        None \<Rightarrow> Inr (QueryBalanceResponse None)
      | Some coin \<Rightarrow> then_try (coin_try_from L coin) (\<lambda>c. Inr (QueryBalanceResponse (Some c))))"

definition raw_from_query_balance_response ::
  "'a libs_scheme \<Rightarrow> query_balance_response \<Rightarrow> raw_balance_response" where
  "raw_from_query_balance_response L query =
     \<lparr> rbr_balance = map_option (raw_from_coin L) (balance query) \<rparr>"

definition query_total_supply_response_try_from ::
  "'a libs_scheme \<Rightarrow> raw_coins_response \<Rightarrow> proto_error + query_total_supply_response" where
  "query_total_supply_response_try_from L raw =
     then_try (collect_results (coin_try_from L) (rcr_coins raw)) (\<lambda>cs.
     Inr \<lparr> supply_coins = cs, supply_pagination = rcr_pagination raw \<rparr>)"

definition raw_from_query_total_supply_response ::
  "'a libs_scheme \<Rightarrow> query_total_supply_response \<Rightarrow> raw_coins_response" where
  "raw_from_query_total_supply_response L query =
     \<lparr> rcr_coins = map (raw_from_coin L) (supply_coins query),
        rcr_pagination = supply_pagination query \<rparr>"

end
