(* ===== verification/Bank_Keeper.thy ===== *)
theory Bank_Keeper
  imports Auth_Keeper Bank_Messages
begin

text \<open>
  The bank module: \<open>src/x/bank/src/keeper.rs\<close>, \<open>handler.rs\<close> and \<open>types.rs\<close>. Balances are coins
  in a store, under a key made of the holder's address and the denomination. The abstract state
  is a ledger, the amount of every denomination that every address holds, and transfers refine
  a transfer on it that says when it succeeds, fails or overflows.
\<close>

section \<open>The keeper\<close>

definition SUPPLY_KEY :: bytes where "SUPPLY_KEY = [0]"

definition ADDRESS_BALANCES_STORE_PREFIX :: bytes where "ADDRESS_BALANCES_STORE_PREFIX = [2]"

record bank_keeper =
  bk_store_key :: bytes
  bk_params_keeper :: bank_params_keeper
  bk_auth_keeper :: auth_keeper

record bank_balance =
  bb_address :: acc_address
  bb_coins :: "coin list"

record bank_genesis =
  bg_balances :: "bank_balance list"
  bg_params :: bank_params

definition create_denom_balance_prefix :: "acc_address \<Rightarrow> bytes option" where
  "create_denom_balance_prefix addr = do {
     len \<leftarrow> addr_len addr;
     Some (ADDRESS_BALANCES_STORE_PREFIX @ [len] @ addr_bytes addr) }"

abbreviation bank_prefix_get where
  "bank_prefix_get H sk \<equiv> prefix_get (storage H) (module_db (host_db H) sk) (host_state H)"

abbreviation insufficient_funds :: app_error where
  "insufficient_funds \<equiv> SendError (lit ''Insufficient funds'')"

text \<open>One turn of the loop over the coins of a transfer, on the bank's store.\<close>

definition send_coin ::
  "'db host \<Rightarrow> bytes \<Rightarrow> acc_address \<Rightarrow> acc_address \<Rightarrow> coin \<Rightarrow> kvstore \<Rightarrow>
     (app_error, event, kvstore) outcome" where
  "send_coin H sk from_addr to_addr coin kv = do {
     p \<leftarrow> create_denom_balance_prefix from_addr;
     from_balance \<leftarrow> bank_prefix_get H sk kv p (denom_to_string (coin_denom coin));
     (case from_balance of
        None \<Rightarrow> Some (Inl insufficient_funds, kv)
      | Some bs \<Rightarrow> do {
          from_balance \<leftarrow> unwrap_result (coin_decode H bs);
          if coin_amount from_balance < coin_amount coin
          then Some (Inl insufficient_funds, kv)
          else do {
            a \<leftarrow> uint_sub H (coin_amount from_balance) (coin_amount coin);
            kv \<leftarrow> prefix_set kv p (denom_to_string (coin_denom coin))
              (coin_encode_vec H (from_balance\<lparr> coin_amount := a \<rparr>));
            q \<leftarrow> create_denom_balance_prefix to_addr;
            to_balance \<leftarrow> bank_prefix_get H sk kv q (denom_to_string (coin_denom coin));
            to_balance \<leftarrow> (case to_balance of
                Some bs \<Rightarrow> unwrap_result (coin_decode H bs)
              | None \<Rightarrow> Some \<lparr> coin_denom = coin_denom coin, coin_amount = 0 \<rparr>);
            a \<leftarrow> uint_add H (coin_amount to_balance) (coin_amount coin);
            kv \<leftarrow> prefix_set kv q (denom_to_string (coin_denom coin))
              (coin_encode_vec H (to_balance\<lparr> coin_amount := a \<rparr>));
            recipient \<leftarrow> addr_to_string H to_addr;
            sender \<leftarrow> addr_to_string H from_addr;
            Some (Inr (Event (lit ''transfer'') [(lit ''recipient'', recipient),
              (lit ''sender'', sender), (lit ''amount'', uint_show H (coin_amount coin))]), kv) } }) }"

fun send_loop ::
  "'db host \<Rightarrow> bytes \<Rightarrow> acc_address \<Rightarrow> acc_address \<Rightarrow> coin list \<Rightarrow> event list \<Rightarrow> kvstore \<Rightarrow>
     (app_error, event list, kvstore) outcome" where
  "send_loop H sk from_addr to_addr [] events kv = Some (Inr events, kv)"
| "send_loop H sk from_addr to_addr (coin # coins) events kv =
     and_then (send_coin H sk from_addr to_addr coin kv) (\<lambda>e kv.
       send_loop H sk from_addr to_addr coins (events @ [e]) kv)"

definition bank_send_coins ::
  "'db host \<Rightarrow> bank_keeper \<Rightarrow> ctx \<Rightarrow> msg_send \<Rightarrow> (app_error, unit, ctx) outcome" where
  "bank_send_coins H bk ctx msg =
     and_then (with_store ctx (bk_store_key bk)
         (send_loop H (bk_store_key bk) (from_address msg) (to_address msg)
            (coin_list (msg_amount msg)) []))
       (\<lambda>events ctx. Some (Inr (), ctx_append_events ctx events))"

definition send_coins_from_account_to_account ::
  "'db host \<Rightarrow> bank_keeper \<Rightarrow> ctx \<Rightarrow> msg_send \<Rightarrow> (app_error, unit, ctx) outcome" where
  "send_coins_from_account_to_account H bk ctx msg =
     and_then (bank_send_coins H bk ctx msg) (\<lambda>_ ctx. do {
       exists \<leftarrow> auth_has_account H (bk_auth_keeper bk) ctx (to_address msg);
       ctx \<leftarrow> (if \<not> exists then create_new_base_account H (bk_auth_keeper bk) ctx (to_address msg)
         else Some ctx);
       Some (Inr (), ctx) })"

definition send_coins_from_account_to_module ::
  "'db host \<Rightarrow> bank_keeper \<Rightarrow> ctx \<Rightarrow> acc_address \<Rightarrow> module \<Rightarrow> send_coins \<Rightarrow>
     (app_error, unit, ctx) outcome" where
  "send_coins_from_account_to_module H bk ctx from_addr to_module amount = do {
     ctx \<leftarrow> check_create_new_module_account H (bk_auth_keeper bk) ctx to_module;
     to_addr \<leftarrow> module_get_address H to_module;
     bank_send_coins H bk ctx \<lparr> from_address = from_addr, to_address = to_addr, msg_amount = amount \<rparr> }"

definition set_supply :: "'db host \<Rightarrow> bank_keeper \<Rightarrow> ctx \<Rightarrow> coin \<Rightarrow> ctx option" where
  "set_supply H bk ctx coin = do {
     bank_store \<leftarrow> ctx_get_kv_store ctx (bk_store_key bk);
     bank_store \<leftarrow> prefix_set bank_store SUPPLY_KEY (denom_to_string (coin_denom coin))
       (uint_show H (coin_amount coin));
     Some (ctx_set_multi_store ctx
       (set_kv_store (ctx_multi_store ctx) (bk_store_key bk) bank_store)) }"

subsection \<open>Genesis\<close>

text \<open>
  The total supply is a hash map: an association list without repeated keys, whose order is
  that of the map's iteration.
\<close>

fun supply_insert :: "denom \<Rightarrow> u256 \<Rightarrow> (denom \<times> u256) list \<Rightarrow> (denom \<times> u256) list" where
  "supply_insert d a [] = [(d, a)]"
| "supply_insert d a ((e, b) # m) = (if e = d then (d, a) # m else (e, b) # supply_insert d a m)"

fun init_coins ::
  "'db host \<Rightarrow> bytes \<Rightarrow> coin list \<Rightarrow> (denom \<times> u256) list \<Rightarrow> kvstore \<Rightarrow>
     ((denom \<times> u256) list \<times> kvstore) option" where
  "init_coins H p [] total_supply kv = Some (total_supply, kv)"
| "init_coins H p (coin # coins) total_supply kv = do {
     kv \<leftarrow> prefix_set kv p (denom_to_string (coin_denom coin)) (coin_encode_vec H coin);
     let current = (case map_of total_supply (coin_denom coin) of None \<Rightarrow> 0 | Some a \<Rightarrow> a);
     a \<leftarrow> uint_add H (coin_amount coin) current;
     init_coins H p coins (supply_insert (coin_denom coin) a total_supply) kv }"

fun init_balances ::
  "'db host \<Rightarrow> bank_balance list \<Rightarrow> (denom \<times> u256) list \<Rightarrow> kvstore \<Rightarrow>
     ((denom \<times> u256) list \<times> kvstore) option" where
  "init_balances H [] total_supply kv = Some (total_supply, kv)"
| "init_balances H (b # bs) total_supply kv = do {
     p \<leftarrow> create_denom_balance_prefix (bb_address b);
     (total_supply, kv) \<leftarrow> init_coins H p (bb_coins b) total_supply kv;
     init_balances H bs total_supply kv }"

fun set_supplies :: "'db host \<Rightarrow> bank_keeper \<Rightarrow> (denom \<times> u256) list \<Rightarrow> ctx \<Rightarrow> ctx option" where
  "set_supplies H bk [] ctx = Some ctx"
| "set_supplies H bk ((d, a) # total_supply) ctx = do {
     ctx \<leftarrow> set_supply H bk ctx \<lparr> coin_denom = d, coin_amount = a \<rparr>;
     set_supplies H bk total_supply ctx }"

definition bank_init_genesis :: "'db host \<Rightarrow> bank_keeper \<Rightarrow> ctx \<Rightarrow> bank_genesis \<Rightarrow> ctx option" where
  "bank_init_genesis H bk ctx genesis = do {
     ctx \<leftarrow> bank_params_set (bk_params_keeper bk) ctx (bg_params genesis);
     bank_store \<leftarrow> ctx_get_kv_store ctx (bk_store_key bk);
     (total_supply, bank_store) \<leftarrow> init_balances H (bg_balances genesis) [] bank_store;
     set_supplies H bk total_supply (ctx_set_multi_store ctx
       (set_kv_store (ctx_multi_store ctx) (bk_store_key bk) bank_store)) }"

subsection \<open>Queries\<close>

definition query_balance ::
  "'db host \<Rightarrow> bank_keeper \<Rightarrow> query_context \<Rightarrow> query_balance_request \<Rightarrow> query_balance_response option" where
  "query_balance H bk ctx req = do {
     bank_store \<leftarrow> query_get_kv_store ctx (bk_store_key bk);
     p \<leftarrow> create_denom_balance_prefix (qbr_address req);
     bal \<leftarrow> bank_prefix_get H (bk_store_key bk) bank_store p (denom_to_string (qbr_denom req));
     (case bal of
        Some amount \<Rightarrow> map_option (\<lambda>c. QueryBalanceResponse (Some c))
          (unwrap_result (coin_decode H amount))
      | None \<Rightarrow> Some (QueryBalanceResponse None)) }"

fun decode_coins :: "'db host \<Rightarrow> (bytes \<times> bytes) list \<Rightarrow> coin list option" where
  "decode_coins H [] = Some []"
| "decode_coins H ((k, bs) # es) = do {
     c \<leftarrow> unwrap_result (coin_decode H bs);
     cs \<leftarrow> decode_coins H es;
     Some (c # cs) }"

definition query_all_balances ::
  "'db host \<Rightarrow> bank_keeper \<Rightarrow> query_context \<Rightarrow> query_all_balances_request \<Rightarrow>
     query_all_balances_response option" where
  "query_all_balances H bk ctx req = do {
     bank_store \<leftarrow> query_get_kv_store ctx (bk_store_key bk);
     p \<leftarrow> create_denom_balance_prefix (qabr_address req);
     es \<leftarrow> prefix_range (storage H) (module_db (host_db H) (bk_store_key bk)) (host_state H)
       bank_store p Unbounded Unbounded;
     bs \<leftarrow> decode_coins H es;
     Some \<lparr> balances = bs, balances_pagination = None \<rparr> }"

text \<open>
  Keys and values go through \<open>from_utf8_lossy\<close>; bytes that are not UTF-8 become replacement
  characters, which neither a denomination nor a number contains, so both parse or panic alike.
\<close>

fun decode_supplies :: "'db host \<Rightarrow> (bytes \<times> bytes) list \<Rightarrow> coin list option" where
  "decode_supplies H [] = Some []"
| "decode_supplies H ((k, v) # es) = do {
     d \<leftarrow> unwrap_result (Some (denom_from_str k));
     a \<leftarrow> uint_parse H v;
     cs \<leftarrow> decode_supplies H es;
     Some (\<lparr> coin_denom = d, coin_amount = a \<rparr> # cs) }"

definition get_paginated_total_supply ::
  "'db host \<Rightarrow> bank_keeper \<Rightarrow> query_context \<Rightarrow> coin list option" where
  "get_paginated_total_supply H bk ctx = do {
     bank_store \<leftarrow> query_get_kv_store ctx (bk_store_key bk);
     es \<leftarrow> prefix_range (storage H) (module_db (host_db H) (bk_store_key bk)) (host_state H)
       bank_store SUPPLY_KEY Unbounded Unbounded;
     decode_supplies H es }"

section \<open>The handler\<close>

fun bank_handle ::
  "'db host \<Rightarrow> bank_keeper \<Rightarrow> ctx \<Rightarrow> bank_message \<Rightarrow> (app_error, unit, ctx) outcome" where
  "bank_handle H bk ctx (Send msg) = send_coins_from_account_to_account H bk ctx msg"

definition bank_handle_query ::
  "'db host \<Rightarrow> bank_keeper \<Rightarrow> query_context \<Rightarrow> request_query \<Rightarrow> (app_error + bytes) option" where
  "bank_handle_query H bk ctx query =
     (if query_path query = lit ''/cosmos.bank.v1beta1.Query/AllBalances''
      then try_bind (map_option (map_err InvalidRequest)
          (proto_decode H (pb_all_balances_request H)
            (\<lambda>raw. Some (query_all_balances_request_try_from H raw)) (query_data query))) (\<lambda>req.
        map_option (\<lambda>res. Inr (pb_encode (pb_all_balances_response H)
            (raw_from_query_all_balances_response H res)))
          (query_all_balances H bk ctx req))
      else if query_path query = lit ''/cosmos.bank.v1beta1.Query/TotalSupply''
      then map_option (\<lambda>cs. Inr (pb_encode (pb_total_supply_response H)
            (raw_from_query_total_supply_response H
              \<lparr> supply_coins = cs, supply_pagination = None \<rparr>)))
          (get_paginated_total_supply H bk ctx)
      else if query_path query = lit ''/cosmos.bank.v1beta1.Query/Balance''
      then try_bind (map_option (map_err InvalidRequest)
          (proto_decode H (pb_balance_request H)
            (\<lambda>raw. Some (query_balance_request_try_from H raw)) (query_data query))) (\<lambda>req.
        map_option (\<lambda>res. Inr (pb_encode (pb_balance_response H)
            (raw_from_query_balance_response H res)))
          (query_balance H bk ctx req))
      else Some (Inl (InvalidRequest (lit ''query path not found''))))"

end
