(* ===== verification/Bank_Ledger.thy ===== *)
theory Bank_Ledger
  imports Bank_Keeper
begin

text \<open>
  The bank refines a ledger. \<open>spec_send\<close> is the transfer on the ledger: coins move one after
  the other until the first that the sender does not have; an overflow of the receiver's
  balance is a panic. \<open>send_coin\<close>, \<open>send_loop\<close> and \<open>send_coins\<close> of the keeper simulate it.
\<close>

section \<open>The ledger\<close>

type_synonym ledger = "acc_address \<Rightarrow> denom \<Rightarrow> nat"

definition debit :: "ledger \<Rightarrow> acc_address \<Rightarrow> denom \<Rightarrow> nat \<Rightarrow> ledger" where
  "debit bal a d n = bal(a := (bal a)(d := bal a d - n))"

definition credit :: "ledger \<Rightarrow> acc_address \<Rightarrow> denom \<Rightarrow> nat \<Rightarrow> ledger" where
  "credit bal a d n = bal(a := (bal a)(d := bal a d + n))"

abbreviation amount :: "coin \<Rightarrow> nat" where "amount c \<equiv> unat (coin_amount c)"

fun spec_send ::
  "ledger \<Rightarrow> acc_address \<Rightarrow> acc_address \<Rightarrow> coin list \<Rightarrow> (bool \<times> ledger) option" where
  "spec_send bal from_addr to_addr [] = Some (True, bal)"
| "spec_send bal from_addr to_addr (c # cs) =
     (let d = coin_denom c; n = amount c; bal1 = debit bal from_addr d n
      in if bal from_addr d < n then Some (False, bal)
         else if 2 ^ 256 \<le> bal1 to_addr d + n then None
         else spec_send (credit bal1 to_addr d n) from_addr to_addr cs)"

text \<open>The amount of a denomination in a list of coins, and the holdings of a set of addresses.\<close>

definition amount_of :: "coin list \<Rightarrow> denom \<Rightarrow> nat" where
  "amount_of cs d = (\<Sum>c \<leftarrow> cs. if coin_denom c = d then amount c else 0)"

definition holdings :: "ledger \<Rightarrow> acc_address set \<Rightarrow> denom \<Rightarrow> nat" where
  "holdings bal A d = (\<Sum>a \<in> A. bal a d)"

lemma sum_upd_nat:
  assumes "finite A" "a \<in> A"
  shows "(\<Sum>x \<in> A. (f(a := v)) x) + f a = (\<Sum>x \<in> A. f x) + (v :: nat)"
  using assms by (simp add: sum.remove [OF assms] add.commute)

lemma holdings_upd:
  assumes "finite A" "a \<in> A"
  shows "holdings (bal(a := (bal a)(d := v))) A e + (if e = d then bal a d else 0)
    = holdings bal A e + (if e = d then v else 0)"
proof -
  let ?g = "(\<lambda>x. bal x e)(a := if e = d then v else bal a e)"
  have "holdings (bal(a := (bal a)(d := v))) A e = (\<Sum>x \<in> A. ?g x)"
    unfolding holdings_def by (intro sum.cong) auto
  moreover have "(\<Sum>x \<in> A. ?g x) + bal a e
      = holdings bal A e + (if e = d then v else bal a e)"
    unfolding holdings_def by (rule sum_upd_nat [OF assms, of "\<lambda>x. bal x e"])
  ultimately show ?thesis by (simp split: if_splits)
qed

lemma holdings_move:
  assumes "finite A" "a \<in> A" "b \<in> A" "n \<le> bal a d"
  shows "holdings (credit (debit bal a d n) b d n) A e = holdings bal A e"
  using holdings_upd [OF assms(1,2), of bal d "bal a d - n" e]
    holdings_upd [OF assms(1,3), of "debit bal a d n" d "debit bal a d n b d + n" e] assms(4)
  by (auto simp: debit_def credit_def split: if_splits)

lemma spec_send_holdings:
  assumes "finite A" "a \<in> A" "b \<in> A"
  shows "spec_send bal a b cs = Some (r, bal') \<Longrightarrow> holdings bal' A e = holdings bal A e"
proof (induction cs arbitrary: bal)
  case (Cons c cs)
  show ?case
  proof (cases "bal a (coin_denom c) < amount c")
    case False
    then have "holdings (credit (debit bal a (coin_denom c) (amount c)) b (coin_denom c) (amount c))
        A e = holdings bal A e"
      by (intro holdings_move [OF assms]) simp
    with Cons False show ?thesis by (auto simp: Let_def split: if_splits)
  qed (use Cons.prems in \<open>simp add: Let_def\<close>)
qed simp

lemma spec_send_returns:
  assumes "finite A" "a \<in> A" "b \<in> A"
  shows "\<forall>d. holdings bal A d < 2 ^ 256 \<Longrightarrow> spec_send bal a b cs \<noteq> None"
proof (induction cs arbitrary: bal)
  case (Cons c cs)
  let ?d = "coin_denom c" and ?n = "amount c"
  let ?bal = "credit (debit bal a ?d ?n) b ?d ?n"
  show ?case
  proof (cases "bal a ?d < ?n")
    case False
    then have h: "holdings ?bal A e = holdings bal A e" for e
      using holdings_move [OF assms, of ?n bal ?d e] by simp
    have "?bal b ?d \<le> holdings ?bal A ?d"
      unfolding holdings_def using assms(1,3) by (intro member_le_sum) auto
    also have "holdings ?bal A ?d < 2 ^ 256" unfolding h using Cons.prems by (rule spec)
    finally have "?bal b ?d < 2 ^ 256" .
    then have "\<not> 2 ^ 256 \<le> debit bal a ?d ?n b ?d + ?n" by (simp add: credit_def)
    moreover have "spec_send ?bal a b cs \<noteq> None"
      by (rule Cons.IH) (use Cons.prems h in simp)
    ultimately show ?thesis using False by (simp add: Let_def)
  qed (simp add: Let_def)
qed simp

lemma spec_send_insufficient:
  assumes "distinct (map coin_denom cs)" "spec_send bal a b cs = Some (r, bal')"
  shows "r \<longleftrightarrow> (\<forall>c \<in> set cs. amount c \<le> bal a (coin_denom c))"
  using assms
proof (induction cs arbitrary: bal)
  case (Cons c cs)
  let ?d = "coin_denom c" and ?n = "amount c"
  let ?bal = "credit (debit bal a ?d ?n) b ?d ?n"
  show ?case
  proof (cases "bal a ?d < ?n")
    case False
    have same: "?bal a (coin_denom c') = bal a (coin_denom c')" if "c' \<in> set cs" for c'
    proof -
      have "coin_denom c' \<noteq> ?d" using Cons.prems(1) that by (auto simp: image_iff)
      then show ?thesis by (simp add: credit_def debit_def)
    qed
    have "spec_send ?bal a b cs = Some (r, bal')"
      using Cons.prems(2) False by (simp add: Let_def split: if_splits)
    then have "r \<longleftrightarrow> (\<forall>c \<in> set cs. amount c \<le> ?bal a (coin_denom c))"
      using Cons.IH Cons.prems(1) by simp
    then show ?thesis using same False by (simp add: not_less)
  qed (use Cons.prems(2) in \<open>auto simp: Let_def\<close>)
qed simp

text \<open>What a successful transfer does to every balance.\<close>

lemma amount_of_Cons: "amount_of (c # cs) d = (if coin_denom c = d then amount c else 0) + amount_of cs d"
  by (simp add: amount_of_def)

lemma spec_send_moves:
  assumes "a \<noteq> b"
  shows "spec_send bal a b cs = Some (True, bal') \<Longrightarrow>
     amount_of cs d \<le> bal a d \<and> bal' a d = bal a d - amount_of cs d \<and>
     bal' b d = bal b d + amount_of cs d"
proof (induction cs arbitrary: bal)
  case Nil
  then show ?case by (simp add: amount_of_def)
next
  case (Cons c cs)
  let ?d = "coin_denom c" and ?n = "amount c"
  let ?bal = "credit (debit bal a ?d ?n) b ?d ?n"
  from Cons.prems have f: "\<not> bal a ?d < ?n" "spec_send ?bal a b cs = Some (True, bal')"
    by (auto simp: Let_def split: if_splits)
  have "?bal a d = bal a d - (if ?d = d then ?n else 0)" "?bal b d = bal b d + (if ?d = d then ?n else 0)"
    using assms by (auto simp: credit_def debit_def)
  with Cons.IH [OF f(2)] f(1) show ?case by (auto simp: amount_of_Cons)
qed

lemma spec_send_result:
  assumes "finite A" "a \<in> A" "b \<in> A" "\<forall>d. holdings bal A d < 2 ^ 256"
  obtains r bal' where "spec_send bal a b cs = Some (r, bal')"
  using spec_send_returns [OF assms, of cs] by (auto simp del: not_None_eq)

lemma spec_send_others:
  "spec_send bal a b cs = Some (r, bal') \<Longrightarrow> x \<noteq> a \<Longrightarrow> x \<noteq> b \<Longrightarrow> bal' x = bal x"
  by (induction cs arbitrary: bal)
    (auto simp: Let_def credit_def debit_def split: if_splits)

lemma spec_send_self: "spec_send bal a a cs = Some (r, bal') \<Longrightarrow> bal' = bal"
proof (induction cs arbitrary: bal)
  case (Cons c cs)
  have "amount c \<le> bal a (coin_denom c) \<Longrightarrow>
      credit (debit bal a (coin_denom c) (amount c)) a (coin_denom c) (amount c) = bal"
    by (auto simp: credit_def debit_def fun_eq_iff)
  with Cons show ?case by (auto simp: Let_def split: if_splits)
qed simp

section \<open>The ledger in the store\<close>

definition balance_key :: "acc_address \<Rightarrow> denom \<Rightarrow> bytes" where
  "balance_key a d = ADDRESS_BALANCES_STORE_PREFIX @ [of_nat (length (addr_bytes a))] @
     addr_bytes a @ denom_to_string d"

definition bank_rel :: "'a libs_scheme \<Rightarrow> (bytes \<Rightarrow> bytes option) \<Rightarrow> ledger \<Rightarrow> bool" where
  "bank_rel L f bal \<longleftrightarrow> (\<forall>a d. addr_ok a \<longrightarrow> denom_ok d \<longrightarrow>
     (case f (balance_key a d) of
        None \<Rightarrow> bal a d = 0
      | Some bs \<Rightarrow> \<exists>c. coin_decode L bs = Some (Inr c) \<and> coin_denom c = d \<and> amount c = bal a d))"

definition kv_ledger :: "'db host \<Rightarrow> bytes \<Rightarrow> kvstore \<Rightarrow> ledger \<Rightarrow> bool" where
  "kv_ledger H sk kv bal \<longleftrightarrow> (\<exists>f. kv_view H sk kv f \<and> bank_rel H f bal)"

definition bank_state :: "'db host \<Rightarrow> bank_keeper \<Rightarrow> ctx \<Rightarrow> ledger \<Rightarrow> bool" where
  "bank_state H bk ctx bal \<longleftrightarrow>
     (\<exists>f. ctx_view H (bk_store_key bk) ctx f \<and> bank_rel H f bal)"

definition bank_libs_ok :: "'a libs_scheme \<Rightarrow> bool" where
  "bank_libs_ok L \<longleftrightarrow> uint256_ok L \<and> codec_ok (pb_coin L) \<and> bech32_ok L"

lemma balance_key_inj [simp]:
  assumes "addr_ok a" "addr_ok b"
  shows "balance_key a d = balance_key b e \<longleftrightarrow> a = b \<and> d = e"
proof
  assume k: "balance_key a d = balance_key b e"
  then have "(of_nat (length (addr_bytes a)) :: u8) = of_nat (length (addr_bytes b))"
    by (simp add: balance_key_def)
  then have "length (addr_bytes a) = length (addr_bytes b)"
    by (rule of_nat_inj_bounded [rotated 2]) (use assms in \<open>simp_all add: addr_ok_def\<close>)
  with k show "a = b \<and> d = e" by (simp add: balance_key_def)
qed simp

lemma balance_prefix:
  assumes "addr_ok a"
  obtains p where "create_denom_balance_prefix a = Some p"
    "\<And>d. p @ denom_to_string d = balance_key a d"
  using that assms by (simp add: create_denom_balance_prefix_def addr_len_ok balance_key_def)

lemma balance_key_not_Nil [simp]: "balance_key a d \<noteq> []"
  by (simp add: balance_key_def ADDRESS_BALANCES_STORE_PREFIX_def)

lemma bank_rel_upd:
  assumes "bank_rel L f bal" "addr_ok a" "denom_ok d" "coin_decode L bs = Some (Inr c)"
    and "coin_denom c = d"
  shows "bank_rel L (f(balance_key a d \<mapsto> bs)) (bal(a := (bal a)(d := amount c)))"
  unfolding bank_rel_def
proof (intro allI impI)
  fix x y
  assume ok: "addr_ok x" "denom_ok y"
  show "case (f(balance_key a d \<mapsto> bs)) (balance_key x y) of
      None \<Rightarrow> (bal(a := (bal a)(d := amount c))) x y = 0
    | Some bs \<Rightarrow> \<exists>ca. coin_decode L bs = Some (Inr ca) \<and> coin_denom ca = y \<and>
        amount ca = (bal(a := (bal a)(d := amount c))) x y"
  proof (cases "x = a \<and> y = d")
    case True
    then show ?thesis using assms(4,5) by simp
  next
    case False
    then have "(f(balance_key a d \<mapsto> bs)) (balance_key x y) = f (balance_key x y)"
      using ok(1) assms(2) by auto
    moreover have "(bal(a := (bal a)(d := amount c))) x y = bal x y" using False by auto
    moreover have "case f (balance_key x y) of None \<Rightarrow> bal x y = 0
        | Some bs \<Rightarrow> \<exists>ca. coin_decode L bs = Some (Inr ca) \<and> coin_denom ca = y \<and> amount ca = bal x y"
      using assms(1) ok by (simp add: bank_rel_def)
    ultimately show ?thesis
      by (cases "f (balance_key x y)") (simp_all del: fun_upd_apply)
  qed
qed

lemma bank_rel_Some:
  assumes "bank_rel L f bal" "addr_ok a" "denom_ok d" "f (balance_key a d) = Some bs"
  obtains c where "coin_decode L bs = Some (Inr c)" "coin_denom c = d" "amount c = bal a d"
  using assms by (auto simp: bank_rel_def dest!: spec [of _ a] spec [of _ d])

lemma bank_rel_None:
  "bank_rel L f bal \<Longrightarrow> addr_ok a \<Longrightarrow> denom_ok d \<Longrightarrow> f (balance_key a d) = None \<Longrightarrow> bal a d = 0"
  by (auto simp: bank_rel_def dest!: spec [of _ a] spec [of _ d])

lemma bank_prefix_get_read: "bank_prefix_get H sk kv p k = kv_read H sk kv (p @ k)"
  by (simp add: prefix_get_def kv_read_def)

text \<open>Writing the coin of a holder with a new amount.\<close>

lemma kv_put_balance:
  assumes L: "bank_libs_ok H" and v: "kv_view H sk kv f" and r: "bank_rel H f bal"
    and a: "addr_ok a" and d: "denom_ok d" and c: "coin_ok c" "coin_denom c = d"
  obtains kv' where "kv_set kv (balance_key a d) (coin_encode_vec H c) = Some kv'"
    "kv_view H sk kv' (f(balance_key a d \<mapsto> coin_encode_vec H c))" "kv_only kv kv'"
    "bank_rel H (f(balance_key a d \<mapsto> coin_encode_vec H c)) (bal(a := (bal a)(d := amount c)))"
proof -
  from kv.view_write_returns [OF v balance_key_not_Nil] obtain kv' where
    "kv_set kv (balance_key a d) (coin_encode_vec H c) = Some kv'"
    "kv_view H sk kv' (f(balance_key a d \<mapsto> coin_encode_vec H c))" by blast
  moreover have "coin_decode H (coin_encode_vec H c) = Some (Inr c)"
    using L c by (simp add: bank_libs_ok_def coin_decode_encode)
  ultimately show thesis using that bank_rel_upd [OF r a d _ c(2)] kv_set_only by blast
qed

section \<open>The transfer simulates the specification\<close>

lemma send_coin_refines:
  assumes L: "bank_libs_ok H" and s: "kv_ledger H sk kv bal"
    and a: "addr_ok a" "addr_ok b" and d: "denom_ok (coin_denom c)" and pos: "0 < coin_amount c"
  defines "bal1 \<equiv> debit bal a (coin_denom c) (amount c)"
  shows "(if bal a (coin_denom c) < amount c then
       send_coin H sk a b c kv = Some (Inl insufficient_funds, kv)
     else if 2 ^ 256 \<le> bal1 b (coin_denom c) + amount c then send_coin H sk a b c kv = None
     else \<exists>e kv'. send_coin H sk a b c kv = Some (Inr e, kv') \<and> kv_only kv kv' \<and>
       kv_ledger H sk kv' (credit bal1 b (coin_denom c) (amount c)))"
proof -
  let ?d = "coin_denom c"
  from s obtain f where f: "kv_view H sk kv f" "bank_rel H f bal" by (auto simp: kv_ledger_def)
  obtain p where p: "create_denom_balance_prefix a = Some p" "\<And>d. p @ denom_to_string d = balance_key a d"
    by (rule balance_prefix [OF a(1)]) blast
  obtain q where q: "create_denom_balance_prefix b = Some q" "\<And>d. q @ denom_to_string d = balance_key b d"
    by (rule balance_prefix [OF a(2)]) blast
  have u: "uint256_ok H" and bech: "bech32_ok H" using L by (simp_all add: bank_libs_ok_def)
  obtain ta where ta: "addr_to_string H a = Some ta" by (rule addr_string [OF bech])
  obtain tb where tb: "addr_to_string H b = Some tb" by (rule addr_string [OF bech])
  note S = send_coin_def bank_prefix_get_read prefix_set_def p q view_read [OF f(1)]
  show ?thesis
  proof (cases "f (balance_key a ?d)")
    case None
    moreover have "0 < amount c" using pos by (simp add: word_less_nat_alt)
    ultimately show ?thesis using bank_rel_None [OF f(2) a(1) d] by (simp add: S)
  next
    case (Some bs)
    obtain fc where fc: "coin_decode H bs = Some (Inr fc)" "coin_denom fc = ?d" "amount fc = bal a ?d"
      using bank_rel_Some [OF f(2) a(1) d Some] .
    show ?thesis
    proof (cases "bal a ?d < amount c")
      case True
      then show ?thesis using Some fc by (simp add: S word_less_nat_alt)
    next
      case False
      then have le: "coin_amount c \<le> coin_amount fc" "\<not> coin_amount fc < coin_amount c"
        using fc(3) by (simp_all add: word_le_nat_alt word_less_nat_alt)
      let ?fc = "fc\<lparr> coin_amount := coin_amount fc - coin_amount c \<rparr>"
      let ?g = "f(balance_key a ?d \<mapsto> coin_encode_vec H ?fc)"
      have "coin_ok ?fc" "coin_denom ?fc = ?d" using coin_decode_ok [OF fc(1)] fc(2) by (simp_all add: coin_ok_def)
      from kv_put_balance [OF L f a(1) d this] obtain kv1 where kv1:
        "kv_set kv (balance_key a ?d) (coin_encode_vec H ?fc) = Some kv1"
        "kv_view H sk kv1 ?g" "kv_only kv kv1"
        "bank_rel H ?g (bal(a := (bal a)(?d := amount ?fc)))" .
      have "amount ?fc = bal a ?d - amount c" using le(1) fc(3) by (simp add: unat_sub)
      then have r1: "bank_rel H ?g bal1" using kv1(4) by (simp add: bal1_def debit_def)
      have "\<exists>tc. (case ?g (balance_key b ?d) of
            Some bs \<Rightarrow> unwrap_result (coin_decode H bs)
          | None \<Rightarrow> Some \<lparr> coin_denom = ?d, coin_amount = 0 \<rparr>) = Some tc \<and>
          coin_ok tc \<and> coin_denom tc = ?d \<and> amount tc = bal1 b ?d"
      proof (cases "?g (balance_key b ?d)")
        case None
        then show ?thesis using bank_rel_None [OF r1 a(2) d None] d
          by (simp add: coin_ok_def del: fun_upd_apply)
      next
        case (Some bs')
        then obtain tc where "coin_decode H bs' = Some (Inr tc)" "coin_denom tc = ?d" "amount tc = bal1 b ?d"
          using bank_rel_Some [OF r1 a(2) d Some] by blast
        then show ?thesis using Some coin_decode_ok by (auto simp del: fun_upd_apply)
      qed
      then obtain tc where tc: "(case ?g (balance_key b ?d) of
            Some bs \<Rightarrow> unwrap_result (coin_decode H bs)
          | None \<Rightarrow> Some \<lparr> coin_denom = ?d, coin_amount = 0 \<rparr>) = Some tc"
        "coin_ok tc" "coin_denom tc = ?d" "amount tc = bal1 b ?d" by blast
      let ?tc = "tc\<lparr> coin_amount := coin_amount tc + coin_amount c \<rparr>"
      have step: "send_coin H sk a b c kv = do {
          x \<leftarrow> checked_add (coin_amount tc) (coin_amount c);
          kv \<leftarrow> kv_set kv1 (balance_key b ?d) (coin_encode_vec H (tc\<lparr> coin_amount := x \<rparr>));
          Some (Inr (Event (lit ''transfer'') [(lit ''recipient'', tb), (lit ''sender'', ta),
            (lit ''amount'', uint_show H (coin_amount c))]), kv) }"
        using Some fc(1) le kv1(1) tc(1)
        by (simp add: S view_read [OF kv1(2)] uint256_okD [OF u] ta tb del: fun_upd_apply)
      show ?thesis
      proof (cases "2 ^ 256 \<le> bal1 b ?d + amount c")
        case True
        then show ?thesis using False tc(4) by (simp add: step checked_add_def)
      next
        case ok: False
        have "coin_ok ?tc" "coin_denom ?tc = ?d" using tc(2,3) by (simp_all add: coin_ok_def)
        from kv_put_balance [OF L kv1(2) r1 a(2) d this] obtain kv2 where kv2:
          "kv_set kv1 (balance_key b ?d) (coin_encode_vec H ?tc) = Some kv2"
          "kv_view H sk kv2 (?g(balance_key b ?d \<mapsto> coin_encode_vec H ?tc))" "kv_only kv1 kv2"
          "bank_rel H (?g(balance_key b ?d \<mapsto> coin_encode_vec H ?tc))
             (bal1(b := (bal1 b)(?d := amount ?tc)))" .
        have add: "checked_add (coin_amount tc) (coin_amount c) = Some (coin_amount tc + coin_amount c)"
          using ok tc(4) by (simp add: checked_add_def)
        from checked_add_SomeD [OF this] tc(4) have "amount ?tc = bal1 b ?d + amount c" by simp
        then have "kv_ledger H sk kv2 (credit bal1 b ?d (amount c))"
          using kv2(2,4) by (auto simp: kv_ledger_def credit_def)
        then show ?thesis
          using False ok add kv2(1,3) kv1(3) kv_only_trans by (auto simp: step)
      qed
    qed
  qed
qed

lemma send_loop_refines:
  assumes L: "bank_libs_ok H" and a: "addr_ok a" "addr_ok b"
  shows "kv_ledger H sk kv bal \<Longrightarrow> \<forall>c \<in> set cs. coin_ok c \<and> 0 < coin_amount c \<Longrightarrow>
    (case spec_send bal a b cs of
       None \<Rightarrow> send_loop H sk a b cs events kv = None
     | Some (r, bal') \<Rightarrow> \<exists>kv' res. send_loop H sk a b cs events kv = Some (res, kv') \<and>
         kv_only kv kv' \<and> kv_ledger H sk kv' bal' \<and>
         (if r then \<exists>es. res = Inr (events @ es) \<and> length es = length cs
          else res = Inl insufficient_funds))"
proof (induction cs arbitrary: kv bal events)
  case (Cons c cs)
  let ?d = "coin_denom c" and ?n = "amount c"
  let ?bal1 = "debit bal a ?d ?n"
  have c: "denom_ok ?d" "0 < coin_amount c" using Cons.prems(2) by (auto simp: coin_ok_def)
  note R = send_coin_refines [OF L Cons.prems(1) a c]
  show ?case
  proof (cases "bal a ?d < ?n")
    case True
    then show ?thesis using R Cons.prems(1) by (simp add: Let_def)
  next
    case f: False
    show ?thesis
    proof (cases "2 ^ 256 \<le> ?bal1 b ?d + ?n")
      case True
      then show ?thesis using f R by (simp add: Let_def)
    next
      case False
      with f R obtain e kv1 where k1: "send_coin H sk a b c kv = Some (Inr e, kv1)" "kv_only kv kv1"
        "kv_ledger H sk kv1 (credit ?bal1 b ?d ?n)" by auto
      have "\<forall>c \<in> set cs. coin_ok c \<and> 0 < coin_amount c" using Cons.prems(2) by simp
      from Cons.IH [OF k1(3) this, of "events @ [e]"] f False k1(1,2) show ?thesis
        by (auto simp: Let_def split: option.splits if_splits intro: kv_only_trans)
    qed
  qed
qed auto

text \<open>The whole transfer on a context; its events are appended when it succeeds.\<close>

lemma send_coins_refines:
  assumes L: "bank_libs_ok H" and s: "bank_state H bk ctx bal" and m: "msg_send_ok msg"
  defines "spec \<equiv> spec_send bal (from_address msg) (to_address msg) (coin_list (msg_amount msg))"
  shows "case spec of
       None \<Rightarrow> bank_send_coins H bk ctx msg = None
     | Some (r, bal') \<Rightarrow> \<exists>ctx' es. bank_send_coins H bk ctx msg
           = Some (if r then Inr () else Inl insufficient_funds, ctx') \<and>
         tx_only ctx ctx' \<and> bank_state H bk ctx' bal' \<and>
         ctx_events ctx' = ctx_events ctx @ es \<and>
         length es = (if r then length (coin_list (msg_amount msg)) else 0) \<and>
         (\<forall>n g. n \<noteq> bk_store_key bk \<longrightarrow> ctx_view H n ctx' g = ctx_view H n ctx g)"
proof -
  let ?sk = "bk_store_key bk" and ?cs = "coin_list (msg_amount msg)"
  from s obtain f where f: "ctx_view H ?sk ctx f" "bank_rel H f bal" by (auto simp: bank_state_def)
  from view_read [OF f(1), of "[]"] obtain kv where kv: "ctx_get_kv_store ctx ?sk = Some kv"
    by (auto simp: ctx_read_def bind_eq_Some_conv)
  then have "kv_view H ?sk kv f" using f(1) by (auto simp: view_def ctx_read_def)
  then have l: "kv_ledger H ?sk kv bal" using f(2) by (auto simp: kv_ledger_def)
  have c: "addr_ok (from_address msg)" "addr_ok (to_address msg)"
    "\<forall>c \<in> set ?cs. coin_ok c \<and> 0 < coin_amount c"
    using m by (auto simp: msg_send_ok_def send_coins_ok_def)
  note R = send_loop_refines [OF L c(1,2) l c(3), of "[]"]
  show ?thesis
  proof (cases spec)
    case None
    then show ?thesis using R by (simp add: spec_def bank_send_coins_def with_store_def kv)
  next
    case (Some rb)
    obtain r bal' where rb: "rb = (r, bal')" by (cases rb)
    from R [folded spec_def, unfolded Some rb option.case prod.case] obtain kv' res where k: "send_loop H ?sk (from_address msg) (to_address msg) ?cs [] kv
        = Some (res, kv')" "kv_only kv kv'" "kv_ledger H ?sk kv' bal'"
      "if r then \<exists>es. res = Inr ([] @ es) \<and> length es = length ?cs else res = Inl insufficient_funds"
      by blast
    let ?ctx = "ctx_set_multi_store ctx (set_kv_store (ctx_multi_store ctx) ?sk kv')"
    have w: "with_store ctx ?sk (send_loop H ?sk (from_address msg) (to_address msg) ?cs [])
        = Some (res, ?ctx)" using kv k(1) by (simp add: with_store_def)
    have g: "ctx_get_kv_store ?ctx n = (if n = ?sk then Some kv' else ctx_get_kv_store ctx n)" for n
      using with_store_get [OF w kv k(1)] .
    have v: "bank_state H bk ?ctx bal'" "\<forall>n g. n \<noteq> ?sk \<longrightarrow> ctx_view H n ?ctx g = ctx_view H n ctx g"
      using k(3) g by (auto simp: bank_state_def kv_ledger_def view_def ctx_read_def)
    have t: "tx_only ctx ?ctx"
      using set_kv_store_only [of "ctx_multi_store ctx" ?sk kv kv'] kv k(2)
      by (simp add: tx_only_def ctx_get_kv_store_def)
    have app: "ctx_view H n (ctx_append_events x es) g = ctx_view H n x g" for n x es g
      by (simp add: view_def ctx_read_def)
    show ?thesis
    proof (cases r)
      case True
      with k(4) obtain es where "res = Inr es" "length es = length ?cs" by auto
      then show ?thesis
        using Some rb True w v t tx_only_trans [OF t tx_only_events]
        by (auto simp: bank_send_coins_def bank_state_def app)
    next
      case False
      then show ?thesis using Some rb w v t k(4) by (auto simp: bank_send_coins_def)
    qed
  qed
qed

section \<open>Transfers of the application\<close>

text \<open>The ledger and the accounts together, in their two stores.\<close>

definition app_state ::
  "'db host \<Rightarrow> bank_keeper \<Rightarrow> ctx \<Rightarrow> ledger \<Rightarrow> (acc_address \<Rightarrow> account option) \<Rightarrow> u64 \<Rightarrow> bool" where
  "app_state H bk ctx bal accs n \<longleftrightarrow>
     bank_state H bk ctx bal \<and> auth_state H (bk_auth_keeper bk) ctx accs n \<and>
     bk_store_key bk \<noteq> ak_store_key (bk_auth_keeper bk)"

definition libs_ok :: "'a libs_scheme \<Rightarrow> bool" where
  "libs_ok L \<longleftrightarrow> auth_libs_ok L \<and> uint256_ok L \<and> codec_ok (pb_coin L)"

lemma libs_okD: "libs_ok L \<Longrightarrow> auth_libs_ok L" "libs_ok L \<Longrightarrow> bank_libs_ok L"
  by (simp_all add: libs_ok_def bank_libs_ok_def auth_libs_ok_def)

lemma app_state_touches:
  assumes "app_state H bk ctx bal accs n" "touches H (ak_store_key (bk_auth_keeper bk)) ctx ctx'"
    and "auth_state H (bk_auth_keeper bk) ctx' accs' n'"
  shows "app_state H bk ctx' bal accs' n'"
  using assms touchesD(3) [OF assms(2), of "bk_store_key bk"]
  by (auto simp: app_state_def bank_state_def)

lemma send_coins_app:
  assumes L: "libs_ok H" and s: "app_state H bk ctx bal accs n" and m: "msg_send_ok msg"
  shows "case spec_send bal (from_address msg) (to_address msg) (coin_list (msg_amount msg)) of
       None \<Rightarrow> bank_send_coins H bk ctx msg = None
     | Some (r, bal') \<Rightarrow> \<exists>ctx'. bank_send_coins H bk ctx msg
           = Some (if r then Inr () else Inl insufficient_funds, ctx') \<and>
         tx_only ctx ctx' \<and> app_state H bk ctx' bal' accs n"
proof -
  have b: "bank_state H bk ctx bal" using s by (simp add: app_state_def)
  have a: "auth_state H (bk_auth_keeper bk) c accs n"
    if "\<forall>n g. n \<noteq> bk_store_key bk \<longrightarrow> ctx_view H n c g = ctx_view H n ctx g" for c
    using s that by (auto simp: app_state_def auth_state_def)
  show ?thesis
    using send_coins_refines [OF libs_okD(2) [OF L] b m] a s
    by (fastforce simp: app_state_def split: option.splits)
qed

abbreviation with_recipient where
  "with_recipient accs to_addr n \<equiv>
     if accs to_addr = None then accs(to_addr \<mapsto> new_base to_addr n) else accs"

lemma send_to_account_app:
  assumes L: "libs_ok H" and s: "app_state H bk ctx bal accs n" and m: "msg_send_ok msg"
    and n: "accs (to_address msg) = None \<Longrightarrow> Suc (unat n) < 2 ^ 64"
  shows "case spec_send bal (from_address msg) (to_address msg) (coin_list (msg_amount msg)) of
       None \<Rightarrow> send_coins_from_account_to_account H bk ctx msg = None
     | Some (r, bal') \<Rightarrow> \<exists>ctx'. send_coins_from_account_to_account H bk ctx msg
           = Some (if r then Inr () else Inl insufficient_funds, ctx') \<and> tx_only ctx ctx' \<and>
         (if r then app_state H bk ctx' bal' (with_recipient accs (to_address msg) n)
            (if accs (to_address msg) = None then n + 1 else n)
          else app_state H bk ctx' bal' accs n)"
proof (cases "spec_send bal (from_address msg) (to_address msg) (coin_list (msg_amount msg))")
  case None
  with send_coins_app [OF L s m] show ?thesis by (simp add: send_coins_from_account_to_account_def)
next
  case (Some rb)
  obtain r bal' where rb: "rb = (r, bal')" by (cases rb)
  from send_coins_app [OF L s m, unfolded Some rb option.case prod.case] obtain c1 where c1:
    "bank_send_coins H bk ctx msg = Some (if r then Inr () else Inl insufficient_funds, c1)"
    "tx_only ctx c1" "app_state H bk c1 bal' accs n" by blast
  show ?thesis
  proof (cases "r \<and> accs (to_address msg) = None")
    case True
    have a: "auth_state H (bk_auth_keeper bk) c1 accs n" using c1(3) by (simp add: app_state_def)
    have "addr_ok (to_address msg)" using m by (simp add: msg_send_ok_def)
    then obtain c2 where c2:
      "create_new_base_account H (bk_auth_keeper bk) c1 (to_address msg) = Some c2"
      "auth_state H (bk_auth_keeper bk) c2 (accs(to_address msg \<mapsto> new_base (to_address msg) n)) (n + 1)"
      "touches H (ak_store_key (bk_auth_keeper bk)) c1 c2"
      using create_new_base_account_refines [OF libs_okD(1) [OF L] a n] True by metis
    have "send_coins_from_account_to_account H bk ctx msg = Some (Inr (), c2)"
      using True c1(1) c2(1) has_account_refines [OF a, of "to_address msg"]
      by (simp add: send_coins_from_account_to_account_def)
    then show ?thesis
      using True Some rb app_state_touches [OF c1(3) c2(3,2)]
        tx_only_trans [OF c1(2) touchesD(1) [OF c2(3)]] by simp
  next
    case False
    have "auth_has_account H (bk_auth_keeper bk) c1 (to_address msg)
        = Some (accs (to_address msg) \<noteq> None)"
      using c1(3) has_account_refines by (auto simp: app_state_def simp del: not_None_eq)
    then show ?thesis
      using False Some rb c1 by (auto simp: send_coins_from_account_to_account_def)
  qed
qed

lemma send_to_module_app:
  assumes L: "libs_ok H" and s: "app_state H bk ctx bal accs n"
    and m: "addr_ok from_addr" "send_coins_ok (coin_list amt)" "\<forall>c \<in> set (coin_list amt). coin_ok c"
    and fc: "module_get_address H md = Some fc"
    and n: "accs fc = None \<Longrightarrow> Suc (unat n) < 2 ^ 64"
  defines "accs' \<equiv> if accs fc = None then accs(fc \<mapsto> new_module fc n) else accs"
  defines "n' \<equiv> if accs fc = None then n + 1 else n"
  shows "case spec_send bal from_addr fc (coin_list amt) of
       None \<Rightarrow> send_coins_from_account_to_module H bk ctx from_addr md amt = None
     | Some (r, bal') \<Rightarrow> \<exists>ctx'. send_coins_from_account_to_module H bk ctx from_addr md amt
           = Some (if r then Inr () else Inl insufficient_funds, ctx') \<and> tx_only ctx ctx' \<and>
         app_state H bk ctx' bal' accs' n'"
proof -
  let ?msg = "\<lparr> from_address = from_addr, to_address = fc, msg_amount = amt \<rparr>"
  have a: "auth_state H (bk_auth_keeper bk) ctx accs n" using s by (simp add: app_state_def)
  obtain c1 where c1: "check_create_new_module_account H (bk_auth_keeper bk) ctx md = Some c1"
    "auth_state H (bk_auth_keeper bk) c1 accs' n'"
    "touches H (ak_store_key (bk_auth_keeper bk)) ctx c1"
    unfolding accs'_def n'_def by (rule check_create_module_refines [OF libs_okD(1) [OF L] a fc n])
  have s1: "app_state H bk c1 bal accs' n'" by (rule app_state_touches [OF s c1(3,2)])
  have "addr_ok fc" using fc from_bech32_ok by (cases md) (auto simp: unwrap_result_Some)
  then have "msg_send_ok ?msg" using m by (simp add: msg_send_ok_def)
  from send_coins_app [OF L s1 this]
  show ?thesis
    using c1(1) fc tx_only_trans [OF touchesD(1) [OF c1(3)]]
    by (fastforce simp: send_coins_from_account_to_module_def split: option.splits)
qed

section \<open>A funded node\<close>

definition DOGE :: denom where "DOGE = Denom (lit ''doge'')"

definition demo_bank :: bank_keeper where
  "demo_bank = \<lparr> bk_store_key = BANK, bk_params_keeper = \<lparr> bp_params_keeper =
     \<lparr> pk_store_key = PARAMS \<rparr>, bp_subspace_key = lit ''bank/'' \<rparr>, bk_auth_keeper = demo_auth \<rparr>"

definition demo_ledger :: "acc_address \<Rightarrow> denom \<Rightarrow> nat" where
  "demo_ledger = (\<lambda>_ _. 0)(AccAddress [3] := (\<lambda>_. 0)(DOGE := 10))"

definition demo_send :: msg_send where
  "demo_send = \<lparr> from_address = AccAddress [3], to_address = AccAddress [4],
     msg_amount = SendCoins [\<lparr> coin_denom = DOGE, coin_amount = 7 \<rparr>] \<rparr>"

text \<open>The ledger in which one address holds ten coins and nobody else anything.\<close>

definition funded :: "acc_address \<Rightarrow> ledger" where
  "funded a = (\<lambda>_ _. 0)(a := (\<lambda>_. 0)(DOGE := 10))"

lemma demo_ledger_funded: "demo_ledger = funded (AccAddress [3])"
  by (simp add: demo_ledger_def funded_def)

lemma demo_bank_keys [simp]: "bk_store_key demo_bank = BANK" "bk_auth_keeper demo_bank = demo_auth"
  by (simp_all add: demo_bank_def)

lemma demo_libs_ok: "libs_ok demo_host" "bank_libs_ok demo_host"
  using demo_host_laws by (simp_all add: libs_ok_def bank_libs_ok_def)

lemma demo_denom_ok: "denom_ok DOGE"
  by (simp add: DOGE_def denom_ok_def denom_match_def is_letter_def is_denom_char_def)

lemma demo_send_fields [simp]:
  "from_address demo_send = AccAddress [3]" "to_address demo_send = AccAddress [4]"
  "coin_list (msg_amount demo_send) = [\<lparr> coin_denom = DOGE, coin_amount = 7 \<rparr>]"
  by (simp_all add: demo_send_def)

lemma demo_send_ok: "msg_send_ok demo_send"
  by (simp add: msg_send_ok_def addr_ok_def send_coins_ok_def coin_ok_def demo_denom_ok)

lemma demo_holdings: "holdings demo_ledger {AccAddress [3], AccAddress [4]} d < 2 ^ 256"
  by (simp add: holdings_def demo_ledger_def)

text \<open>A context in which the bank holds ten coins of one address, and there are no accounts.\<close>

lemma demo_funded_params:
  assumes "addr_ok a"
  obtains ctx where "app_state demo_host demo_bank ctx (funded a) Map.empty 0"
    "ctx_view demo_host PARAMS ctx Map.empty" "tx_only demo_tx ctx"
proof -
  let ?c = "\<lparr> coin_denom = DOGE, coin_amount = 10 \<rparr>"
  have v: "ctx_view demo_host BANK demo_tx Map.empty" "ctx_view demo_host ACC demo_tx Map.empty"
    by (simp_all add: demo_view)
  obtain ctx where c: "ctx_write demo_tx BANK (balance_key a DOGE)
      (coin_encode_vec demo_host ?c) = Some ctx"
    "ctx_view demo_host BANK ctx
      (Map.empty(balance_key a DOGE \<mapsto> coin_encode_vec demo_host ?c))"
    "touches demo_host BANK demo_tx ctx"
    by (rule view_put [OF v(1) balance_key_not_Nil])
  have "coin_decode demo_host (coin_encode_vec demo_host ?c) = Some (Inr ?c)"
    using demo_host_laws demo_denom_ok by (simp add: coin_decode_encode coin_ok_def)
  then have "bank_rel demo_host (Map.empty(balance_key a DOGE
      \<mapsto> coin_encode_vec demo_host ?c)) (funded a)"
    using bank_rel_upd [of demo_host Map.empty "\<lambda>_ _. 0" a DOGE _ ?c] demo_denom_ok assms
    by (simp add: bank_rel_def funded_def)
  moreover have "auth_state demo_host demo_auth ctx Map.empty 0"
    using auth_state_empty [of demo_host demo_auth ctx] touchesD(3) [OF c(3), of ACC] v(2) by simp
  ultimately have "app_state demo_host demo_bank ctx (funded a) Map.empty 0"
    using c(2) by (auto simp: app_state_def bank_state_def)
  moreover have "ctx_view demo_host PARAMS ctx Map.empty"
    using touchesD(3) [OF c(3), of PARAMS] demo_view [of PARAMS demo_tx] by simp
  ultimately show thesis using that touchesD(1) [OF c(3)] by blast
qed

lemma demo_funded:
  obtains ctx where "app_state demo_host demo_bank ctx demo_ledger Map.empty 0"
  using demo_funded_params [of "AccAddress [3]"] unfolding demo_ledger_funded
  by (auto simp: addr_ok_def)

section \<open>Properties\<close>

text \<open>
  (C17) A transfer refines the ledger: for every well-formed message, \<open>send_coins\<close> panics exactly
  when the ledger's transfer overflows, fails with insufficient funds exactly when the ledger's
  does, and in both other cases leaves the store holding the ledger's balances; a successful one
  appends an event per coin, and only transaction caches change.
\<close>

theorem send_refines_ledger:
  assumes "bank_libs_ok H" "bank_state H bk ctx bal" "msg_send_ok msg"
  shows "case spec_send bal (from_address msg) (to_address msg) (coin_list (msg_amount msg)) of
       None \<Rightarrow> bank_send_coins H bk ctx msg = None
     | Some (r, bal') \<Rightarrow> \<exists>ctx' es. bank_send_coins H bk ctx msg
           = Some (if r then Inr () else Inl insufficient_funds, ctx') \<and>
         tx_only ctx ctx' \<and> bank_state H bk ctx' bal' \<and>
         ctx_events ctx' = ctx_events ctx @ es \<and>
         length es = (if r then length (coin_list (msg_amount msg)) else 0) \<and>
         (\<forall>n g. n \<noteq> bk_store_key bk \<longrightarrow> ctx_view H n ctx' g = ctx_view H n ctx g)"
  by (rule send_coins_refines [OF assms])

theorem send_refines_ledger_witness:
  "\<exists>ctx ctx' bal'. bank_state demo_host demo_bank ctx demo_ledger \<and>
     bank_send_coins demo_host demo_bank ctx demo_send = Some (Inr (), ctx') \<and>
     bank_state demo_host demo_bank ctx' bal' \<and>
     bal' (AccAddress [3]) DOGE = 3 \<and> bal' (AccAddress [4]) DOGE = 7"
proof -
  obtain ctx where "app_state demo_host demo_bank ctx demo_ledger Map.empty 0" by (rule demo_funded)
  then have s: "bank_state demo_host demo_bank ctx demo_ledger" by (simp add: app_state_def)
  have "spec_send demo_ledger (AccAddress [3]) (AccAddress [4])
      (coin_list (msg_amount demo_send)) = Some (True, credit (debit demo_ledger
        (AccAddress [3]) DOGE 7) (AccAddress [4]) DOGE 7)"
    by (simp add: demo_ledger_def debit_def Let_def)
  then show ?thesis
    using send_refines_ledger [OF demo_libs_ok(2) s demo_send_ok] s
    by (fastforce simp: debit_def credit_def demo_ledger_def)
qed

text \<open>
  A payment with sorted, positive coins whose amounts the sender has: it returns without a
  panic as long as no denomination exceeds 256 bits in total, moves exactly the amounts, leaves
  every other balance alone, and gives the recipient an account with the next number if there
  was none.
\<close>

theorem payment_moves_coins:
  assumes "libs_ok H" "app_state H bk ctx bal accs n" "msg_send_ok msg"
    and "accs (to_address msg) = None \<longrightarrow> Suc (unat n) < 2 ^ 64"
    and "from_address msg \<noteq> to_address msg"
    and "finite A" "from_address msg \<in> A" "to_address msg \<in> A" "\<forall>d. holdings bal A d < 2 ^ 256"
    and "\<forall>c \<in> set (coin_list (msg_amount msg)). amount c \<le> bal (from_address msg) (coin_denom c)"
  shows "\<exists>ctx' bal'. send_coins_from_account_to_account H bk ctx msg = Some (Inr (), ctx') \<and>
     app_state H bk ctx' bal' (with_recipient accs (to_address msg) n)
       (if accs (to_address msg) = None then n + 1 else n) \<and>
     (\<forall>d. bal' (from_address msg) d
        = bal (from_address msg) d - amount_of (coin_list (msg_amount msg)) d \<and>
       bal' (to_address msg) d = bal (to_address msg) d + amount_of (coin_list (msg_amount msg)) d) \<and>
     (\<forall>x. x \<noteq> from_address msg \<and> x \<noteq> to_address msg \<longrightarrow> bal' x = bal x)"
proof -
  let ?cs = "coin_list (msg_amount msg)"
  obtain r bal' where spec: "spec_send bal (from_address msg) (to_address msg) ?cs = Some (r, bal')"
    by (rule spec_send_result [OF assms(6-9)])
  have "distinct (map coin_denom ?cs)"
    using assms(3) send_coins_ok_distinct by (simp add: msg_send_ok_def)
  then have r using spec_send_insufficient [OF _ spec] assms(10) by simp
  then obtain ctx' where "send_coins_from_account_to_account H bk ctx msg = Some (Inr (), ctx')"
      "app_state H bk ctx' bal' (with_recipient accs (to_address msg) n)
        (if accs (to_address msg) = None then n + 1 else n)"
    using send_to_account_app [OF assms(1-3)] assms(4) spec by auto
  moreover have "bal' (from_address msg) d = bal (from_address msg) d - amount_of ?cs d \<and>
      bal' (to_address msg) d = bal (to_address msg) d + amount_of ?cs d" for d
    using spec_send_moves [OF assms(5), of bal ?cs bal' d] spec \<open>r\<close> by simp
  moreover have "bal' x = bal x" if "x \<noteq> from_address msg" "x \<noteq> to_address msg" for x
    by (rule spec_send_others [OF spec that])
  ultimately show ?thesis by blast
qed

theorem payment_moves_coins_witness:
  "\<exists>ctx ctx' bal'. app_state demo_host demo_bank ctx demo_ledger Map.empty 0 \<and>
     send_coins_from_account_to_account demo_host demo_bank ctx demo_send = Some (Inr (), ctx') \<and>
     app_state demo_host demo_bank ctx' bal' [AccAddress [4] \<mapsto> new_base (AccAddress [4]) 0] 1 \<and>
     bal' (AccAddress [3]) DOGE = 3 \<and> bal' (AccAddress [4]) DOGE = 7"
proof -
  obtain ctx where s: "app_state demo_host demo_bank ctx demo_ledger Map.empty 0" by (rule demo_funded)
  have 1: "(Map.empty :: acc_address \<rightharpoonup> account) (to_address demo_send) = None \<longrightarrow> Suc (unat (0 :: u64)) < 2 ^ 64"
    "from_address demo_send \<noteq> to_address demo_send"
    "finite {AccAddress [3], AccAddress [4]}"
    "from_address demo_send \<in> {AccAddress [3], AccAddress [4]}"
    "to_address demo_send \<in> {AccAddress [3], AccAddress [4]}"
    "\<forall>d. holdings demo_ledger {AccAddress [3], AccAddress [4]} d < 2 ^ 256"
    "\<forall>c \<in> set (coin_list (msg_amount demo_send)).
      amount c \<le> demo_ledger (from_address demo_send) (coin_denom c)"
    using demo_holdings by simp_all (simp add: demo_ledger_def)
  note payment_moves_coins [OF demo_libs_ok(1) s demo_send_ok 1, unfolded demo_send_fields]
  then obtain ctx' bal' where c: "send_coins_from_account_to_account demo_host demo_bank ctx demo_send
      = Some (Inr (), ctx')"
    "app_state demo_host demo_bank ctx' bal' [AccAddress [4] \<mapsto> new_base (AccAddress [4]) 0] 1"
    "bal' (AccAddress [3]) DOGE = demo_ledger (AccAddress [3]) DOGE
      - amount_of [\<lparr> coin_denom = DOGE, coin_amount = 7 \<rparr>] DOGE"
    "bal' (AccAddress [4]) DOGE = demo_ledger (AccAddress [4]) DOGE
      + amount_of [\<lparr> coin_denom = DOGE, coin_amount = 7 \<rparr>] DOGE"
    unfolding if_P [OF refl] add_0 by blast
  moreover have "bal' (AccAddress [3]) DOGE = 3" "bal' (AccAddress [4]) DOGE = 7"
    using c(3,4) by (simp_all add: amount_of_def demo_ledger_def)
  ultimately show ?thesis using s by blast
qed

text \<open>
  (C21) No payment creates or destroys coins, whether it succeeds or stops half-way for lack of
  funds: what any set of addresses with the sender and the recipient holds stays the same, in
  every denomination; and it does not panic while those holdings fit 256 bits.
\<close>

theorem payment_conserves:
  assumes "libs_ok H" "app_state H bk ctx bal accs n" "msg_send_ok msg"
    and "accs (to_address msg) = None \<longrightarrow> Suc (unat n) < 2 ^ 64"
    and "finite A" "from_address msg \<in> A" "to_address msg \<in> A" "\<forall>d. holdings bal A d < 2 ^ 256"
  shows "\<exists>r ctx' bal' accs' n'. send_coins_from_account_to_account H bk ctx msg = Some (r, ctx') \<and>
     app_state H bk ctx' bal' accs' n' \<and> (\<forall>d. holdings bal' A d = holdings bal A d)"
proof -
  let ?cs = "coin_list (msg_amount msg)"
  obtain r bal' where spec: "spec_send bal (from_address msg) (to_address msg) ?cs = Some (r, bal')"
    by (rule spec_send_result [OF assms(5-8)])
  have "\<forall>d. holdings bal' A d = holdings bal A d"
    using spec_send_holdings [OF assms(5-7) spec] by blast
  moreover obtain r' ctx' accs' n' where
      "send_coins_from_account_to_account H bk ctx msg = Some (r', ctx')"
      "app_state H bk ctx' bal' accs' n'"
    by (cases r) (use send_to_account_app [OF assms(1-3)] assms(4) spec in auto)
  ultimately show ?thesis by blast
qed

theorem payment_conserves_witness:
  "\<exists>ctx r ctx' bal' accs' n'. app_state demo_host demo_bank ctx demo_ledger Map.empty 0 \<and>
     send_coins_from_account_to_account demo_host demo_bank ctx demo_send = Some (r, ctx') \<and>
     app_state demo_host demo_bank ctx' bal' accs' n' \<and>
     holdings bal' {AccAddress [3], AccAddress [4]} DOGE = 10"
proof -
  obtain ctx where s: "app_state demo_host demo_bank ctx demo_ledger Map.empty 0" by (rule demo_funded)
  have "holdings demo_ledger {AccAddress [3], AccAddress [4]} DOGE = 10"
    by (simp add: holdings_def demo_ledger_def)
  moreover have "\<exists>r ctx' bal' accs' n'.
      send_coins_from_account_to_account demo_host demo_bank ctx demo_send = Some (r, ctx') \<and>
      app_state demo_host demo_bank ctx' bal' accs' n' \<and>
      (\<forall>d. holdings bal' {AccAddress [3], AccAddress [4]} d
        = holdings demo_ledger {AccAddress [3], AccAddress [4]} d)"
    by (rule payment_conserves [OF demo_libs_ok(1) s demo_send_ok])
      (use demo_holdings in \<open>simp_all del: fun_upd_apply\<close>)
  ultimately show ?thesis using s by metis
qed

end
