(* ===== verification/Tx.thy ===== *)
theory Tx
  imports Accounts Bank_Messages
begin

text \<open>
  Transactions: \<open>src/proto-messages/src/cosmos/tx/v1beta1/tx.rs\<close>. The application's message
  type is a parameter: the functions of the trait \<open>Message\<close> are the record \<open>message_ops\<close>, and
  the locale \<open>message_interface\<close> holds what its implementations promise. A transaction is
  decoded from its bytes together with the raw form that the signatures cover.
\<close>

section \<open>Signers, fees and tips\<close>

definition MAX_GAS_WANTED :: u64 where "MAX_GAS_WANTED = 9223372036854775807"

record signature_data =
  sg_signature :: bytes
  sg_sequence :: u64

record signer_info =
  si_public_key :: "public_key option"
  si_mode_info :: "bytes option"
  si_sequence :: u64

record fee =
  fee_amount :: "send_coins option"
  fee_gas_limit :: u64
  fee_payer :: "acc_address option"
  fee_granter :: bytes

record tip =
  tip_amount :: "send_coins option"
  tipper :: acc_address

record auth_info =
  signer_infos :: "signer_info list"
  ai_fee :: fee
  ai_tip :: "tip option"

definition signer_info_try_from ::
  "'a libs_scheme \<Rightarrow> raw_signer_info \<Rightarrow> (proto_error + signer_info) option" where
  "signer_info_try_from L raw =
     try_bind (case rsi_public_key raw of
         Some any \<Rightarrow> try_bind (public_key_try_from L any) (\<lambda>key. Some (Inr (Some key)))
       | None \<Rightarrow> Some (Inr None)) (\<lambda>key.
     Some (Inr \<lparr> si_public_key = key, si_mode_info = rsi_mode_info raw,
       si_sequence = rsi_sequence raw \<rparr>))"

definition raw_from_signer_info :: "'a libs_scheme \<Rightarrow> signer_info \<Rightarrow> raw_signer_info" where
  "raw_from_signer_info L info =
     \<lparr> rsi_public_key = map_option (any_from_public_key L) (si_public_key info),
        rsi_mode_info = si_mode_info info, rsi_sequence = si_sequence info \<rparr>"

text \<open>The loop that looks for a coin that is not zero.\<close>

fun fee_all_zero :: "'a libs_scheme \<Rightarrow> raw_coin list \<Rightarrow> proto_error + bool" where
  "fee_all_zero L [] = Inr True"
| "fee_all_zero L (c # cs) =
     (case uint_parse L (rc_amount c) of
        None \<Rightarrow> Inl (CoinError (lit ''coin error''))
      | Some amount \<Rightarrow> if amount \<noteq> 0 then Inr False else fee_all_zero L cs)"

definition payer_try_from :: "'a libs_scheme \<Rightarrow> bytes \<Rightarrow> proto_error + acc_address option" where
  "payer_try_from L payer =
     (if payer = [] then Inr None
      else then_try (decode_address L payer) (\<lambda>addr. Inr (Some addr)))"

definition fee_try_from :: "'a libs_scheme \<Rightarrow> raw_fee \<Rightarrow> proto_error + fee" where
  "fee_try_from L raw =
     (if rf_gas_limit raw > MAX_GAS_WANTED
      then Inl (DecodeGeneral (lit ''invalid gas supplied '' @ show_u64 (rf_gas_limit raw) @
        lit '' > '' @ show_u64 MAX_GAS_WANTED))
      else then_try (fee_all_zero L (rf_amount raw)) (\<lambda>all_zero.
        then_try (payer_try_from L (rf_payer raw)) (\<lambda>payer.
        if all_zero
        then Inr \<lparr> fee_amount = None, fee_gas_limit = rf_gas_limit raw, fee_payer = payer,
          fee_granter = rf_granter raw \<rparr>
        else then_try (coins_try_from L (rf_amount raw)) (\<lambda>amount.
          Inr \<lparr> fee_amount = Some amount, fee_gas_limit = rf_gas_limit raw, fee_payer = payer,
            fee_granter = rf_granter raw \<rparr>))))"

definition raw_from_fee :: "'a libs_scheme \<Rightarrow> fee \<Rightarrow> raw_fee option" where
  "raw_from_fee L f = do {
     payer \<leftarrow> (case fee_payer f of Some addr \<Rightarrow> addr_to_string L addr | None \<Rightarrow> Some []);
     (case fee_amount f of
        Some amount \<Rightarrow> Some \<lparr> rf_amount = map (raw_from_coin L) (coin_list amount),
          rf_gas_limit = fee_gas_limit f, rf_payer = payer, rf_granter = fee_granter f \<rparr>
      | None \<Rightarrow> Some \<lparr> rf_amount = [], rf_gas_limit = fee_gas_limit f, rf_payer = payer,
          rf_granter = fee_granter f \<rparr>) }"

definition tip_try_from :: "'a libs_scheme \<Rightarrow> raw_tip \<Rightarrow> proto_error + tip" where
  "tip_try_from L raw =
     then_try (decode_address L (rt_tipper raw)) (\<lambda>tipper.
     then_try (coins_try_from L (rt_amount raw)) (\<lambda>amount.
     Inr \<lparr> tip_amount = Some amount, tipper = tipper \<rparr>))"

definition raw_from_tip :: "'a libs_scheme \<Rightarrow> tip \<Rightarrow> raw_tip option" where
  "raw_from_tip L t = do {
     tipper \<leftarrow> addr_to_string L (tipper t);
     (case tip_amount t of
        Some amount \<Rightarrow> Some \<lparr> rt_amount = map (raw_from_coin L) (coin_list amount),
          rt_tipper = tipper \<rparr>
      | None \<Rightarrow> Some \<lparr> rt_amount = [], rt_tipper = tipper \<rparr>) }"

text \<open>
  \<open>collect\<close> stops at the first signer that does not convert; its error is looked at after the
  conversion of the tip, whose error comes first.
\<close>

fun collect_infos ::
  "'a libs_scheme \<Rightarrow> raw_signer_info list \<Rightarrow> (proto_error + signer_info list) option" where
  "collect_infos L [] = Some (Inr [])"
| "collect_infos L (raw # raws) =
     try_bind (signer_info_try_from L raw) (\<lambda>info.
     try_bind (collect_infos L raws) (\<lambda>infos. Some (Inr (info # infos))))"

definition auth_info_try_from ::
  "'a libs_scheme \<Rightarrow> raw_auth_info \<Rightarrow> (proto_error + auth_info) option" where
  "auth_info_try_from L raw = do {
     infos \<leftarrow> collect_infos L (rai_signer_infos raw);
     Some (
       then_try (case rai_tip raw of
           Some t \<Rightarrow> then_try (tip_try_from L t) (\<lambda>t. Inr (Some t)) | None \<Rightarrow> Inr None) (\<lambda>tip.
       then_try infos (\<lambda>signer_infos.
       then_try (case rai_fee raw of
           None \<Rightarrow> Inl (MissingField (lit ''fee'')) | Some fee \<Rightarrow> fee_try_from L fee) (\<lambda>fee.
       Inr \<lparr> signer_infos = signer_infos, ai_fee = fee, ai_tip = tip \<rparr>)))) }"

definition raw_from_auth_info :: "'a libs_scheme \<Rightarrow> auth_info \<Rightarrow> raw_auth_info option" where
  "raw_from_auth_info L auth_info = do {
     fee \<leftarrow> raw_from_fee L (ai_fee auth_info);
     tip \<leftarrow> (case ai_tip auth_info of
         Some t \<Rightarrow> map_option Some (raw_from_tip L t) | None \<Rightarrow> Some None);
     Some \<lparr> rai_signer_infos = map (raw_from_signer_info L) (signer_infos auth_info),
       rai_fee = Some fee, rai_tip = tip \<rparr> }"

section \<open>The message trait\<close>

record 'm message_ops =
  msg_signers :: "'m \<Rightarrow> acc_address list"
  msg_validate_basic :: "'m \<Rightarrow> bytes + unit"
  msg_into_any :: "'m \<Rightarrow> any_message option"
  msg_try_from :: "any_message \<Rightarrow> (proto_error + 'm) option"

section \<open>Transactions\<close>

record 'm tx_body =
  tb_messages :: "'m list"
  tb_memo :: bytes
  tb_timeout_height :: u64
  tb_extension_options :: "any_message list"
  tb_non_critical_extension_options :: "any_message list"

record 'm tx =
  tx_body :: "'m tx_body"
  tx_auth_info :: auth_info
  tx_signatures :: "bytes list"
  tx_signatures_data :: "signature_data list"

record 'm tx_with_raw =
  twr_tx :: "'m tx"
  twr_raw :: tx_raw

fun messages_try_from ::
  "'m message_ops \<Rightarrow> any_message list \<Rightarrow> (proto_error + 'm list) option" where
  "messages_try_from ops [] = Some (Inr [])"
| "messages_try_from ops (any # anys) =
     try_bind (msg_try_from ops any) (\<lambda>msg.
     try_bind (messages_try_from ops anys) (\<lambda>msgs. Some (Inr (msg # msgs))))"

definition tx_body_try_from ::
  "'m message_ops \<Rightarrow> raw_tx_body \<Rightarrow> (proto_error + 'm tx_body) option" where
  "tx_body_try_from ops raw =
     try_bind (messages_try_from ops (rtb_messages raw)) (\<lambda>messages.
     Some (Inr \<lparr> tb_messages = messages, tb_memo = rtb_memo raw,
       tb_timeout_height = rtb_timeout_height raw,
       tb_extension_options = rtb_extension_options raw,
       tb_non_critical_extension_options = rtb_non_critical_extension_options raw \<rparr>))"

fun messages_into_any :: "'m message_ops \<Rightarrow> 'm list \<Rightarrow> any_message list option" where
  "messages_into_any ops [] = Some []"
| "messages_into_any ops (msg # msgs) = do {
     any \<leftarrow> msg_into_any ops msg;
     anys \<leftarrow> messages_into_any ops msgs;
     Some (any # anys) }"

definition raw_from_tx_body :: "'m message_ops \<Rightarrow> 'm tx_body \<Rightarrow> raw_tx_body option" where
  "raw_from_tx_body ops body = do {
     messages \<leftarrow> messages_into_any ops (tb_messages body);
     Some \<lparr> rtb_messages = messages, rtb_memo = tb_memo body,
       rtb_timeout_height = tb_timeout_height body,
       rtb_extension_options = tb_extension_options body,
       rtb_non_critical_extension_options = tb_non_critical_extension_options body \<rparr> }"

text \<open>The signatures with the sequence numbers of their signers; the lengths agree.\<close>

definition extract_signatures_data :: "bytes list \<Rightarrow> signer_info list \<Rightarrow> signature_data list" where
  "extract_signatures_data signatures infos =
     map (\<lambda>(signature, info). \<lparr> sg_signature = signature, sg_sequence = si_sequence info \<rparr>)
       (zip signatures infos)"

definition tx_try_from ::
  "'a libs_scheme \<Rightarrow> 'm message_ops \<Rightarrow> raw_tx \<Rightarrow> (proto_error + 'm tx) option" where
  "tx_try_from L ops raw =
     try_bind (ok_or (MissingField (lit ''body'')) (rtx_body raw)) (\<lambda>body.
     if rtb_extension_options body \<noteq> []
     then Some (Inl (DecodeGeneral (lit ''unknown extension options'')))
     else
       try_bind (ok_or (MissingField (lit ''auth_info'')) (rtx_auth_info raw)) (\<lambda>auth_info.
       try_bind (auth_info_try_from L auth_info) (\<lambda>auth_info.
       if length (rtx_signatures raw) \<noteq> length (signer_infos auth_info)
       then Some (Inl (DecodeGeneral (lit ''signatures list does not match signer_infos length'')))
       else
         try_bind (tx_body_try_from ops body) (\<lambda>body.
         Some (Inr \<lparr> tx_body = body, tx_auth_info = auth_info, tx_signatures = rtx_signatures raw,
           tx_signatures_data =
             extract_signatures_data (rtx_signatures raw) (signer_infos auth_info) \<rparr>)))))"

definition raw_from_tx :: "'a libs_scheme \<Rightarrow> 'm message_ops \<Rightarrow> 'm tx \<Rightarrow> raw_tx option" where
  "raw_from_tx L ops tx = do {
     body \<leftarrow> raw_from_tx_body ops (tx_body tx);
     auth_info \<leftarrow> raw_from_auth_info L (tx_auth_info tx);
     Some \<lparr> rtx_body = Some body, rtx_auth_info = Some auth_info,
       rtx_signatures = tx_signatures tx \<rparr> }"

definition tx_with_raw_from_bytes ::
  "'a libs_scheme \<Rightarrow> 'm message_ops \<Rightarrow> bytes \<Rightarrow> (proto_error + 'm tx_with_raw) option" where
  "tx_with_raw_from_bytes L ops raw =
     try_bind (map_option (map_err DecodeGeneral) (proto_decode L (pb_tx L) (tx_try_from L ops) raw)) (\<lambda>tx.
     try_bind (Some (map_err DecodeGeneral (pb_decode (pb_tx_raw L) raw))) (\<lambda>raw.
     Some (Inr \<lparr> twr_tx = tx, twr_raw = raw \<rparr>)))"

subsection \<open>Accessors\<close>

definition get_msgs :: "'m tx \<Rightarrow> 'm list" where
  "get_msgs tx = tb_messages (tx_body tx)"

text \<open>\<open>seen.insert(addr.to_string())\<close>, and the push when it was new.\<close>

definition see_signer ::
  "'a libs_scheme \<Rightarrow> acc_address list \<times> bytes list \<Rightarrow> acc_address \<Rightarrow>
     (acc_address list \<times> bytes list) option" where
  "see_signer L s addr = do {
     t \<leftarrow> addr_to_string L addr;
     Some (if t \<in> set (snd s) then s else (fst s @ [addr], snd s @ [t])) }"

fun see_signers ::
  "'a libs_scheme \<Rightarrow> acc_address list \<times> bytes list \<Rightarrow> acc_address list \<Rightarrow>
     (acc_address list \<times> bytes list) option" where
  "see_signers L s [] = Some s"
| "see_signers L s (addr # addrs) = do {
     s \<leftarrow> see_signer L s addr;
     see_signers L s addrs }"

definition get_signers ::
  "'a libs_scheme \<Rightarrow> 'm message_ops \<Rightarrow> 'm tx \<Rightarrow> acc_address list option" where
  "get_signers L ops tx = do {
     s \<leftarrow> see_signers L ([], []) (concat (map (msg_signers ops) (get_msgs tx)));
     s \<leftarrow> (case fee_payer (ai_fee (tx_auth_info tx)) of
         Some addr \<Rightarrow> see_signer L s addr | None \<Rightarrow> Some s);
     Some (fst s) }"

definition get_signatures :: "'m tx \<Rightarrow> bytes list" where
  "get_signatures tx = tx_signatures tx"

definition get_signatures_data :: "'m tx \<Rightarrow> signature_data list" where
  "get_signatures_data tx = tx_signatures_data tx"

definition get_timeout_height :: "'m tx \<Rightarrow> u64" where
  "get_timeout_height tx = tb_timeout_height (tx_body tx)"

definition get_memo :: "'m tx \<Rightarrow> bytes" where
  "get_memo tx = tb_memo (tx_body tx)"

definition get_fee :: "'m tx \<Rightarrow> send_coins option" where
  "get_fee tx = fee_amount (ai_fee (tx_auth_info tx))"

text \<open>Without a payer the first signer pays; indexing the empty list panics.\<close>

definition get_fee_payer ::
  "'a libs_scheme \<Rightarrow> 'm message_ops \<Rightarrow> 'm tx \<Rightarrow> acc_address option" where
  "get_fee_payer L ops tx =
     (case fee_payer (ai_fee (tx_auth_info tx)) of
        Some payer \<Rightarrow> Some payer
      | None \<Rightarrow> do {
          signers \<leftarrow> get_signers L ops tx;
          if signers = [] then None else Some (hd signers) })"

definition get_public_keys :: "'m tx \<Rightarrow> public_key option list" where
  "get_public_keys tx = map si_public_key (signer_infos (tx_auth_info tx))"

section \<open>The signers of a transaction\<close>

lemma addr_string_inj:
  assumes "bech32_ok L" "addr_ok a" "addr_ok b"
    and "addr_to_string L a = Some t" "addr_to_string L b = Some t"
  shows "a = b"
  using addr_string [OF assms(1), of a] addr_string [OF assms(1), of b] assms(2-)
  by (metis option.inject sum.inject(2))

text \<open>The reference: the addresses in the order of their first occurrence.\<close>

definition add_new :: "acc_address \<Rightarrow> acc_address list \<Rightarrow> acc_address list" where
  "add_new a as = (if a \<in> set as then as else as @ [a])"

lemma add_new_set [simp]: "set (add_new a as) = insert a (set as)"
  by (auto simp: add_new_def)

lemma add_new_distinct [simp]: "distinct as \<Longrightarrow> distinct (add_new a as)"
  by (auto simp: add_new_def)

lemma fold_add_new:
  "set (fold add_new bs as) = set as \<union> set bs" "distinct as \<Longrightarrow> distinct (fold add_new bs as)"
  "\<exists>cs. fold add_new bs as = as @ cs"
proof -
  show "set (fold add_new bs as) = set as \<union> set bs" by (induction bs arbitrary: as) auto
  show "distinct as \<Longrightarrow> distinct (fold add_new bs as)" by (induction bs arbitrary: as) auto
  show "\<exists>cs. fold add_new bs as = as @ cs"
  proof (induction bs arbitrary: as)
    case (Cons b bs)
    from Cons [of "add_new b as"] show ?case by (auto simp: add_new_def split: if_splits)
  qed simp
qed

definition seen_rel :: "'a libs_scheme \<Rightarrow> acc_address list \<Rightarrow> bytes list \<Rightarrow> bool" where
  "seen_rel L as ts \<longleftrightarrow>
     list_all2 (\<lambda>a t. addr_ok a \<and> addr_to_string L a = Some t) as ts"

lemma seen_rel_mem:
  assumes "bech32_ok L" "seen_rel L as ts" "addr_ok a" "addr_to_string L a = Some t"
  shows "t \<in> set ts \<longleftrightarrow> a \<in> set as"
proof
  assume "t \<in> set ts"
  then obtain i where "i < length ts" "ts ! i = t" by (auto simp: in_set_conv_nth)
  moreover from this have "addr_ok (as ! i)" "addr_to_string L (as ! i) = Some t" "i < length as"
    using assms(2) by (auto simp: seen_rel_def list_all2_conv_all_nth)
  ultimately show "a \<in> set as"
    using addr_string_inj [OF assms(1,3) _ assms(4)] by (metis nth_mem)
next
  assume "a \<in> set as"
  then obtain i where "i < length as" "as ! i = a" by (auto simp: in_set_conv_nth)
  then show "t \<in> set ts"
    using assms(2,4) by (auto simp: seen_rel_def list_all2_conv_all_nth in_set_conv_nth)
qed

lemma see_signer_adds:
  assumes "bech32_ok L" "seen_rel L as ts" "addr_ok a"
  obtains ts' where "see_signer L (as, ts) a = Some (add_new a as, ts')"
    "seen_rel L (add_new a as) ts'"
proof -
  obtain t where t: "addr_to_string L a = Some t" by (rule addr_string [OF assms(1)])
  show thesis
  proof (cases "a \<in> set as")
    case True
    then show thesis
      using that [of ts] assms(2) seen_rel_mem [OF assms t] t
      by (simp add: see_signer_def add_new_def)
  next
    case False
    then show thesis
      using that [of "ts @ [t]"] assms(2,3) seen_rel_mem [OF assms t] t
      by (simp add: see_signer_def add_new_def seen_rel_def list_all2_appendI)
  qed
qed

lemma see_signers_add:
  assumes "bech32_ok L" "seen_rel L as ts" "\<forall>a \<in> set bs. addr_ok a"
  obtains ts' where "see_signers L (as, ts) bs = Some (fold add_new bs as, ts')"
    "seen_rel L (fold add_new bs as) ts'"
proof -
  have "\<exists>ts'. see_signers L (as, ts) bs = Some (fold add_new bs as, ts') \<and>
      seen_rel L (fold add_new bs as) ts'"
    using assms(2,3)
  proof (induction bs arbitrary: as ts)
    case (Cons b bs)
    obtain ts1 where t: "see_signer L (as, ts) b = Some (add_new b as, ts1)"
      "seen_rel L (add_new b as) ts1"
      by (rule see_signer_adds [OF assms(1) Cons.prems(1), of b]) (use Cons.prems(2) in auto)
    from Cons.IH [OF t(2)] Cons.prems(2) t(1) show ?case by simp
  qed simp
  then show thesis using that by blast
qed

section \<open>Conversions\<close>

definition fee_ok :: "fee \<Rightarrow> bool" where
  "fee_ok f \<longleftrightarrow> fee_gas_limit f \<le> MAX_GAS_WANTED \<and> (\<forall>a. fee_payer f = Some a \<longrightarrow> addr_ok a) \<and>
     (\<forall>s. fee_amount f = Some s \<longrightarrow>
        send_coins_ok (coin_list s) \<and> (\<forall>c \<in> set (coin_list s). coin_ok c))"

definition tip_ok :: "tip \<Rightarrow> bool" where
  "tip_ok t \<longleftrightarrow> addr_ok (tipper t) \<and> (\<exists>s. tip_amount t = Some s \<and>
     send_coins_ok (coin_list s) \<and> (\<forall>c \<in> set (coin_list s). coin_ok c))"

definition tx_ok :: "('m \<Rightarrow> bool) \<Rightarrow> 'm tx \<Rightarrow> bool" where
  "tx_ok mok tx \<longleftrightarrow> (\<forall>m \<in> set (get_msgs tx). mok m) \<and>
     tb_extension_options (tx_body tx) = [] \<and> fee_ok (ai_fee (tx_auth_info tx)) \<and>
     (\<forall>t. ai_tip (tx_auth_info tx) = Some t \<longrightarrow> tip_ok t) \<and>
     length (tx_signatures tx) = length (signer_infos (tx_auth_info tx)) \<and>
     tx_signatures_data tx
       = extract_signatures_data (tx_signatures tx) (signer_infos (tx_auth_info tx))"

lemma decode_address_ok: "decode_address L t = Inr a \<Longrightarrow> addr_ok a"
  by (simp add: decode_address_def from_bech32_ok)

lemma fee_try_from_ok: "fee_try_from L raw = Inr f \<Longrightarrow> fee_ok f"
  by (auto simp: fee_try_from_def payer_try_from_def then_try_Inr fee_ok_def not_less dest: decode_address_ok
      coins_try_from_ok split: if_splits)

lemma tip_try_from_ok: "tip_try_from L raw = Inr t \<Longrightarrow> tip_ok t"
  by (auto simp: tip_try_from_def then_try_Inr tip_ok_def dest: decode_address_ok
      coins_try_from_ok)

lemma auth_info_try_from_ok:
  assumes "auth_info_try_from L raw = Some (Inr ai)"
  shows "fee_ok (ai_fee ai)" "ai_tip ai = Some t \<Longrightarrow> tip_ok t"
  using assms fee_try_from_ok tip_try_from_ok
  by (auto simp: auth_info_try_from_def bind_eq_Some_conv then_try_Inr split: option.splits)

definition message_libs_ok :: "'a libs_scheme \<Rightarrow> bool" where
  "message_libs_ok L \<longleftrightarrow> auth_libs_ok L \<and> uint256_ok L \<and> codec_ok (pb_msg_send L)"

lemma message_libs_okD:
  assumes "message_libs_ok L"
  shows "bech32_ok L" "uint256_ok L" "keys_ok L" "codec_ok (pb_pub_key L)" "codec_ok (pb_msg_send L)"
  using assms
  by (simp_all add: message_libs_ok_def auth_libs_ok_def account_codecs_ok_def)

lemma fee_all_zero_coins:
  assumes "uint256_ok L" "send_coins_ok cs"
  shows "fee_all_zero L (map (raw_from_coin L) cs) = Inr False"
  using assms
  by (cases cs) (auto simp: send_coins_ok_def raw_from_coin_def uint256_okD)

lemma fee_round_trip:
  assumes L: "message_libs_ok L" and ok: "fee_ok f"
  obtains raw where "raw_from_fee L f = Some raw" "fee_try_from L raw = Inr f"
proof -
  note l = message_libs_okD [OF L]
  have "\<exists>p. (case fee_payer f of Some addr \<Rightarrow> addr_to_string L addr | None \<Rightarrow> Some []) = Some p \<and>
      payer_try_from L p = Inr (fee_payer f)"
  proof (cases "fee_payer f")
    case (Some a)
    with ok have "addr_ok a" by (simp add: fee_ok_def)
    then obtain t where "addr_to_string L a = Some t" "t \<noteq> []" "from_bech32 L t = Inr a"
      using addr_string [OF l(1), of a] by blast
    then show ?thesis using Some by (simp add: payer_try_from_def decode_address_def)
  qed (simp add: payer_try_from_def)
  then obtain p where p: "(case fee_payer f of Some addr \<Rightarrow> addr_to_string L addr | None \<Rightarrow> Some []) = Some p"
    "payer_try_from L p = Inr (fee_payer f)" by blast
  show thesis
  proof (cases "fee_amount f")
    case None
    let ?raw = "\<lparr> rf_amount = [], rf_gas_limit = fee_gas_limit f, rf_payer = p,
      rf_granter = fee_granter f \<rparr>"
    have "fee_try_from L ?raw = Inr f"
      using p(2) None ok by (cases f) (simp add: fee_try_from_def fee_ok_def not_less)
    then show thesis using that [of ?raw] p(1) None by (simp add: raw_from_fee_def)
  next
    case (Some s)
    let ?raw = "\<lparr> rf_amount = map (raw_from_coin L) (coin_list s), rf_gas_limit = fee_gas_limit f,
      rf_payer = p, rf_granter = fee_granter f \<rparr>"
    have s: "send_coins_ok (coin_list s)" "\<forall>c \<in> set (coin_list s). coin_ok c"
      using ok Some by (simp_all add: fee_ok_def)
    have "coins_try_from L (map (raw_from_coin L) (coin_list s)) = Inr s"
      using coins_round_trip [OF l(2) s] by (cases s) simp
    then have "fee_try_from L ?raw = Inr f"
      using p(2) Some ok fee_all_zero_coins [OF l(2) s(1)]
      by (cases f) (simp add: fee_try_from_def fee_ok_def not_less)
    then show thesis using that [of ?raw] p(1) Some by (simp add: raw_from_fee_def)
  qed
qed

lemma tip_round_trip:
  assumes L: "message_libs_ok L" and ok: "tip_ok t"
  obtains raw where "raw_from_tip L t = Some raw" "tip_try_from L raw = Inr t"
proof -
  note l = message_libs_okD [OF L]
  from ok obtain s where s: "tip_amount t = Some s" "send_coins_ok (coin_list s)"
    "\<forall>c \<in> set (coin_list s). coin_ok c" "addr_ok (tipper t)" by (auto simp: tip_ok_def)
  from addr_string [OF l(1), of "tipper t"] s(4) obtain u where
    u: "addr_to_string L (tipper t) = Some u" "from_bech32 L u = Inr (tipper t)" by blast
  have "coins_try_from L (map (raw_from_coin L) (coin_list s)) = Inr s"
    using coins_round_trip [OF l(2) s(2,3)] by (cases s) simp
  then have "tip_try_from L \<lparr> rt_amount = map (raw_from_coin L) (coin_list s), rt_tipper = u \<rparr> = Inr t"
    using s(1) by (cases t) (simp add: tip_try_from_def decode_address_def u(2) [simplified])
  then show thesis using that s(1) u(1) by (simp add: raw_from_tip_def)
qed

lemma infos_round_trip:
  assumes "message_libs_ok L"
  shows "collect_infos L (map (raw_from_signer_info L) infos) = Some (Inr infos)"
proof (induction infos)
  case (Cons info infos)
  have "signer_info_try_from L (raw_from_signer_info L info) = Some (Inr info)"
    using public_key_round_trip [OF message_libs_okD(3,4) [OF assms]]
    by (cases "si_public_key info") (simp_all add: signer_info_try_from_def raw_from_signer_info_def)
  with Cons show ?case by simp
qed simp

lemma auth_info_round_trip:
  assumes L: "message_libs_ok L" and ok: "fee_ok (ai_fee ai)" "\<And>t. ai_tip ai = Some t \<Longrightarrow> tip_ok t"
  obtains raw where "raw_from_auth_info L ai = Some raw" "auth_info_try_from L raw = Some (Inr ai)"
proof -
  obtain f where f: "raw_from_fee L (ai_fee ai) = Some f" "fee_try_from L f = Inr (ai_fee ai)"
    by (rule fee_round_trip [OF L ok(1)])
  show thesis
  proof (cases "ai_tip ai")
    case None
    then show thesis
      using that f infos_round_trip [OF L]
      by (simp add: raw_from_auth_info_def auth_info_try_from_def)
  next
    case (Some t)
    obtain r where "raw_from_tip L t = Some r" "tip_try_from L r = Inr t"
      by (rule tip_round_trip [OF L ok(2) [OF Some]])
    then show thesis
      using that f infos_round_trip [OF L] Some
      by (simp add: raw_from_auth_info_def auth_info_try_from_def)
  qed
qed

section \<open>The interface of message types\<close>

text \<open>
  A message that an application accepts converts to the wire and back, decoding yields such
  messages only, and their signers are addresses.
\<close>

locale message_interface =
  fixes L :: "'a libs_scheme" and ops :: "'m message_ops" and mok :: "'m \<Rightarrow> bool"
  assumes into_any: "message_libs_ok L \<Longrightarrow> mok m \<Longrightarrow>
      \<exists>any. msg_into_any ops m = Some any \<and> msg_try_from ops any = Some (Inr m)"
    and from_any: "msg_try_from ops any = Some (Inr m) \<Longrightarrow> mok m"
    and signers_ok: "mok m \<Longrightarrow> a \<in> set (msg_signers ops m) \<Longrightarrow> addr_ok a"
begin

lemma messages_round_trip:
  assumes "message_libs_ok L"
  shows "\<forall>m \<in> set ms. mok m \<Longrightarrow>
     \<exists>anys. messages_into_any ops ms = Some anys \<and> messages_try_from ops anys = Some (Inr ms)"
proof (induction ms)
  case (Cons m ms)
  then obtain anys where "messages_into_any ops ms = Some anys"
    "messages_try_from ops anys = Some (Inr ms)" by auto
  moreover from Cons.prems into_any [OF assms, of m] obtain any where
    "msg_into_any ops m = Some any" "msg_try_from ops any = Some (Inr m)" by auto
  ultimately show ?case by simp
qed simp

lemma messages_from_ok:
  "messages_try_from ops anys = Some (Inr ms) \<Longrightarrow> m \<in> set ms \<Longrightarrow> mok m"
  by (induction anys arbitrary: ms) (auto simp: try_bind_Inr_conv dest: from_any)

lemma tx_from_ok:
  assumes "tx_try_from L ops raw = Some (Inr tx)"
  shows "tx_ok mok tx"
proof -
  from assms obtain body ai b where
    "rtb_extension_options body = []"
    "auth_info_try_from L ai = Some (Inr (tx_auth_info tx))"
    "length (rtx_signatures raw) = length (signer_infos (tx_auth_info tx))"
    "tx_body_try_from ops body = Some (Inr b)"
    "tx = \<lparr> tx_body = b, tx_auth_info = tx_auth_info tx, tx_signatures = rtx_signatures raw,
       tx_signatures_data =
         extract_signatures_data (rtx_signatures raw) (signer_infos (tx_auth_info tx)) \<rparr>"
    by (auto simp: tx_try_from_def try_bind_Inr_conv split: if_splits)
  then show ?thesis
    using auth_info_try_from_ok [of L ai "tx_auth_info tx"] messages_from_ok
    by (cases tx) (auto simp: tx_ok_def get_msgs_def tx_body_try_from_def try_bind_Inr_conv)
qed

lemma tx_raw_round_trip:
  assumes L: "message_libs_ok L" and ok: "tx_ok mok tx"
  obtains raw where "raw_from_tx L ops tx = Some raw" "tx_try_from L ops raw = Some (Inr tx)"
proof -
  obtain ai where ai: "raw_from_auth_info L (tx_auth_info tx) = Some ai"
    "auth_info_try_from L ai = Some (Inr (tx_auth_info tx))"
    by (rule auth_info_round_trip [OF L]) (use ok in \<open>auto simp: tx_ok_def\<close>)
  from messages_round_trip [OF L, of "get_msgs tx"] ok obtain anys where
    "messages_into_any ops (get_msgs tx) = Some anys"
    "messages_try_from ops anys = Some (Inr (get_msgs tx))" by (auto simp: tx_ok_def)
  with ai ok that show thesis
    by (cases tx; cases "tx_body tx")
      (simp add: raw_from_tx_def raw_from_tx_body_def tx_try_from_def tx_body_try_from_def
        get_msgs_def tx_ok_def)
qed

lemma signers_spec:
  assumes L: "bech32_ok L" and ok: "tx_ok mok tx"
  shows "get_signers L ops tx = Some (fold add_new
     (concat (map (msg_signers ops) (get_msgs tx)) @
       (case fee_payer (ai_fee (tx_auth_info tx)) of Some a \<Rightarrow> [a] | None \<Rightarrow> [])) [])"
proof -
  let ?as = "concat (map (msg_signers ops) (get_msgs tx))"
  have a: "\<forall>a \<in> set ?as. addr_ok a" using ok signers_ok by (auto simp: tx_ok_def)
  have e: "seen_rel L [] []" by (simp add: seen_rel_def)
  obtain ts where ts: "see_signers L ([], []) ?as = Some (fold add_new ?as [], ts)"
    "seen_rel L (fold add_new ?as []) ts"
    by (rule see_signers_add [OF L e a])
  show ?thesis
  proof (cases "fee_payer (ai_fee (tx_auth_info tx))")
    case None
    with ts show ?thesis by (simp add: get_signers_def)
  next
    case (Some p)
    then have "addr_ok p" using ok by (simp add: tx_ok_def fee_ok_def)
    from see_signer_adds [OF L ts(2) this] Some ts(1) show ?thesis
      by (fastforce simp: get_signers_def)
  qed
qed

lemma get_signers_returns:
  assumes "bech32_ok L" "tx_ok mok tx"
  obtains as where "get_signers L ops tx = Some as" "distinct as"
    "set as = (\<Union>m \<in> set (get_msgs tx). set (msg_signers ops m)) \<union>
       set_option (fee_payer (ai_fee (tx_auth_info tx)))"
    "\<forall>a \<in> set as. addr_ok a"
proof -
  let ?bs = "concat (map (msg_signers ops) (get_msgs tx)) @
       (case fee_payer (ai_fee (tx_auth_info tx)) of Some a \<Rightarrow> [a] | None \<Rightarrow> [])"
  have "set ?bs = (\<Union>m \<in> set (get_msgs tx). set (msg_signers ops m)) \<union>
       set_option (fee_payer (ai_fee (tx_auth_info tx)))"
    by (cases "fee_payer (ai_fee (tx_auth_info tx))") auto
  moreover have "\<forall>a \<in> set ?bs. addr_ok a"
    using assms(2) signers_ok by (auto simp: tx_ok_def fee_ok_def split: option.splits)
  ultimately show thesis
    by (intro that [OF signers_spec [OF assms]])
      (simp_all only: fold_add_new list.set distinct.simps Un_empty_left)
qed

end

end
