(* ===== verification/Ante.thy ===== *)
theory Ante
  imports Bank_Ledger Tx
begin

text \<open>
  The checks before a transaction's messages run: \<open>src/gears/src/baseapp/ante.rs\<close>. The traits
  \<open>BankKeeper\<close> and \<open>AuthKeeper\<close> are records of their methods. The locale \<open>ante_keepers\<close> states
  what the handler relies on, over the abstract accounts and ledger; the lemmas in it say what a
  successful run has checked and changed. It is interpreted on the auth and bank keepers.
\<close>

section \<open>The traits\<close>

record bank_trait =
  bt_send_coins_from_account_to_module ::
    "ctx \<Rightarrow> acc_address \<Rightarrow> module \<Rightarrow> send_coins \<Rightarrow> (app_error, unit, ctx) outcome"

record auth_trait =
  at_get_auth_params :: "ctx \<Rightarrow> auth_params option"
  at_has_account :: "ctx \<Rightarrow> acc_address \<Rightarrow> bool option"
  at_get_account :: "ctx \<Rightarrow> acc_address \<Rightarrow> account option option"
  at_set_account :: "ctx \<Rightarrow> account \<Rightarrow> ctx option"

record ante_handler =
  ante_bank_keeper :: bank_trait
  ante_auth_keeper :: auth_trait

section \<open>The handlers\<close>

definition count_text :: "string \<Rightarrow> nat \<Rightarrow> nat \<Rightarrow> bytes" where
  "count_text what n m =
     lit ''wrong number of '' @ lit what @ lit ''; expected '' @ show_nat n @ lit '', got '' @ show_nat m"

definition validate_basic_ante_handler ::
  "'a libs_scheme \<Rightarrow> 'm message_ops \<Rightarrow> 'm tx \<Rightarrow> (app_error + unit) option" where
  "validate_basic_ante_handler L ops tx =
     (let sigs = get_signatures tx in
      if sigs = [] then Some (Inl (TxValidation (lit ''signature list is empty'')))
      else do {
        signers \<leftarrow> get_signers L ops tx;
        if length sigs \<noteq> length signers
        then Some (Inl (TxValidation (count_text ''signatures'' (length signers) (length sigs))))
        else Some (Inr ()) })"

definition tx_timeout_height_ante_handler :: "ctx \<Rightarrow> 'm tx \<Rightarrow> app_error + unit" where
  "tx_timeout_height_ante_handler ctx tx =
     (let timeout_height = get_timeout_height tx in
      if timeout_height = 0 then Inr ()
      else let block_height = ctx_get_height ctx in
        if ctx_get_height ctx > timeout_height then Inl (Timeout timeout_height block_height)
        else Inr ())"

definition validate_memo_ante_handler ::
  "auth_trait \<Rightarrow> ctx \<Rightarrow> 'm tx \<Rightarrow> (app_error + unit) option" where
  "validate_memo_ante_handler ak ctx tx = do {
     params \<leftarrow> at_get_auth_params ak ctx;
     let max_memo_chars = max_memo_characters params;
     if length (get_memo tx) \<ge> 2 ^ 64 then Some (Inl (Memo max_memo_chars))
     else if length (get_memo tx) > unat max_memo_chars then Some (Inl (Memo max_memo_chars))
     else Some (Inr ()) }"

definition deduct_fee_ante_handler ::
  "'a libs_scheme \<Rightarrow> 'm message_ops \<Rightarrow> ante_handler \<Rightarrow> ctx \<Rightarrow> 'm tx \<Rightarrow>
     (app_error, unit, ctx) outcome" where
  "deduct_fee_ante_handler L ops ah ctx tx = do {
     fee_payer \<leftarrow> get_fee_payer L ops tx;
     exists \<leftarrow> at_has_account (ante_auth_keeper ah) ctx fee_payer;
     if \<not> exists then Some (Inl AccountNotFound, ctx)
     else (case get_fee tx of
         Some fee \<Rightarrow> bt_send_coins_from_account_to_module (ante_bank_keeper ah) ctx fee_payer
           FeeCollector fee
       | None \<Rightarrow> Some (Inr (), ctx)) }"

text \<open>The loop runs over the keys with the signers at the same positions.\<close>

fun set_pub_keys ::
  "'a libs_scheme \<Rightarrow> auth_trait \<Rightarrow> (public_key option \<times> acc_address) list \<Rightarrow> ctx \<Rightarrow>
     (app_error, unit, ctx) outcome" where
  "set_pub_keys L ak [] ctx = Some (Inr (), ctx)"
| "set_pub_keys L ak ((key, signer) # ks) ctx =
     (case key of
        None \<Rightarrow> set_pub_keys L ak ks ctx
      | Some key \<Rightarrow> do {
          addr \<leftarrow> public_key_get_address L key;
          if addr \<noteq> signer then Some (Inl InvalidPublicKey, ctx)
          else do {
            acct \<leftarrow> at_get_account ak ctx addr;
            (case acct of
               None \<Rightarrow> Some (Inl AccountNotFound, ctx)
             | Some acct \<Rightarrow>
                 if get_public_key acct \<noteq> None then set_pub_keys L ak ks ctx
                 else do {
                   ctx \<leftarrow> at_set_account ak ctx (set_public_key acct key);
                   set_pub_keys L ak ks ctx }) } })"

definition set_pub_key_ante_handler ::
  "'a libs_scheme \<Rightarrow> 'm message_ops \<Rightarrow> auth_trait \<Rightarrow> ctx \<Rightarrow> 'm tx \<Rightarrow>
     (app_error, unit, ctx) outcome" where
  "set_pub_key_ante_handler L ops ak ctx tx = do {
     let public_keys = get_public_keys tx;
     signers \<leftarrow> get_signers L ops tx;
     if length signers \<noteq> length public_keys
     then Some (Inl (TxValidation
       (count_text ''signer info'' (length signers) (length public_keys))), ctx)
     else set_pub_keys L ak (zip public_keys signers) ctx }"

definition sign_bytes_of :: "'a libs_scheme \<Rightarrow> ctx \<Rightarrow> tx_raw \<Rightarrow> account \<Rightarrow> bytes" where
  "sign_bytes_of L ctx raw acct = pb_encode (pb_sign_doc L)
     \<lparr> sd_body_bytes = body_bytes raw, sd_auth_info_bytes = auth_info_bytes raw,
       sd_chain_id = ctx_get_chain_id ctx, sd_account_number = get_account_number acct \<rparr>"

text \<open>One turn of the loop of \<open>sig_verification_handler\<close>.\<close>

definition verify_signer ::
  "'a libs_scheme \<Rightarrow> auth_trait \<Rightarrow> ctx \<Rightarrow> tx_raw \<Rightarrow> signature_data \<Rightarrow> acc_address \<Rightarrow>
     (app_error + unit) option" where
  "verify_signer L ak ctx raw data signer = do {
     acct \<leftarrow> at_get_account ak ctx signer;
     (case acct of
        None \<Rightarrow> Some (Inl AccountNotFound)
      | Some acct \<Rightarrow>
          let account_seq = get_sequence acct in
          if account_seq \<noteq> sg_sequence data
          then Some (Inl (TxValidation (lit ''incorrect tx sequence; expected '' @
            show_u64 account_seq @ lit '', got '' @ show_u64 (sg_sequence data))))
          else do {
            let message = sha256 (storage L) (sign_bytes_of L ctx raw acct);
            public_key \<leftarrow> get_public_key acct;
            (case public_key of
               Secp256k1 pub_key \<Rightarrow> do {
                 key \<leftarrow> unwrap_result (Some (key_from_slice L (pub_key_bytes L pub_key)));
                 signature \<leftarrow> sig_from_compact L (sg_signature data);
                 if verify_ecdsa L message signature key then Some (Inr ())
                 else Some (Inl (TxValidation (lit ''invalid signature''))) }) }) }"

fun verify_signers ::
  "'a libs_scheme \<Rightarrow> auth_trait \<Rightarrow> ctx \<Rightarrow> tx_raw \<Rightarrow> (signature_data \<times> acc_address) list \<Rightarrow>
     (app_error + unit) option" where
  "verify_signers L ak ctx raw [] = Some (Inr ())"
| "verify_signers L ak ctx raw ((data, signer) # ds) =
     try_bind (verify_signer L ak ctx raw data signer) (\<lambda>_. verify_signers L ak ctx raw ds)"

definition sig_verification_handler ::
  "'a libs_scheme \<Rightarrow> 'm message_ops \<Rightarrow> auth_trait \<Rightarrow> ctx \<Rightarrow> 'm tx_with_raw \<Rightarrow>
     (app_error + unit) option" where
  "sig_verification_handler L ops ak ctx tx = do {
     signers \<leftarrow> get_signers L ops (twr_tx tx);
     let signature_data = get_signatures_data (twr_tx tx);
     if length signature_data \<noteq> length signers
     then Some (Inl (TxValidation
       (count_text ''signatures'' (length signers) (length signature_data))))
     else verify_signers L ak ctx (twr_raw tx) (zip signature_data signers) }"

fun increment_sequences ::
  "auth_trait \<Rightarrow> acc_address list \<Rightarrow> ctx \<Rightarrow> (app_error, unit, ctx) outcome" where
  "increment_sequences ak [] ctx = Some (Inr (), ctx)"
| "increment_sequences ak (signer # signers) ctx = do {
     acct \<leftarrow> at_get_account ak ctx signer;
     (case acct of
        None \<Rightarrow> Some (Inl AccountNotFound, ctx)
      | Some acct \<Rightarrow> do {
          acct \<leftarrow> increment_sequence acct;
          ctx \<leftarrow> at_set_account ak ctx acct;
          increment_sequences ak signers ctx }) }"

definition increment_sequence_ante_handler ::
  "'a libs_scheme \<Rightarrow> 'm message_ops \<Rightarrow> auth_trait \<Rightarrow> ctx \<Rightarrow> 'm tx \<Rightarrow>
     (app_error, unit, ctx) outcome" where
  "increment_sequence_ante_handler L ops ak ctx tx = do {
     signers \<leftarrow> get_signers L ops tx;
     increment_sequences ak signers ctx }"

text \<open>A handler that only reads the context.\<close>

definition reading :: "('e + 'a) option \<Rightarrow> 's \<Rightarrow> ('e, 'a, 's) outcome" where
  "reading m s = map_option (\<lambda>r. (r, s)) m"

definition ante_run ::
  "'a libs_scheme \<Rightarrow> 'm message_ops \<Rightarrow> ante_handler \<Rightarrow> ctx \<Rightarrow> 'm tx_with_raw \<Rightarrow>
     (app_error, unit, ctx) outcome" where
  "ante_run L ops ah ctx tx =
     and_then (reading (validate_basic_ante_handler L ops (twr_tx tx)) ctx) (\<lambda>_ ctx.
     and_then (reading (Some (tx_timeout_height_ante_handler ctx (twr_tx tx))) ctx) (\<lambda>_ ctx.
     and_then (reading (validate_memo_ante_handler (ante_auth_keeper ah) ctx (twr_tx tx)) ctx) (\<lambda>_ ctx.
     and_then (deduct_fee_ante_handler L ops ah ctx (twr_tx tx)) (\<lambda>_ ctx.
     and_then (set_pub_key_ante_handler L ops (ante_auth_keeper ah) ctx (twr_tx tx)) (\<lambda>_ ctx.
     and_then (reading (sig_verification_handler L ops (ante_auth_keeper ah) ctx tx) ctx) (\<lambda>_ ctx.
     increment_sequence_ante_handler L ops (ante_auth_keeper ah) ctx (twr_tx tx)))))))"

lemma reading_Inr: "reading m s = Some (Inr x, t) \<longleftrightarrow> m = Some (Inr x) \<and> t = s"
  by (auto simp: reading_def)

lemma reading_Some: "reading m s = Some (r, t) \<longleftrightarrow> m = Some r \<and> t = s"
  by (auto simp: reading_def)

lemma and_then_reading:
  "and_then (reading m s) f = Some (r, t) \<Longrightarrow> t = s \<or> (\<exists>x. f x s = Some (r, t))"
  by (auto simp: and_then_Some reading_Some)

lemma and_then_step:
  assumes "and_then m f = Some (r, t)"
  obtains x s where "m = Some (x, s)" "s = t \<or> (\<exists>y. f y s = Some (r, t))"
  using assms by (auto simp: and_then_Some)

section \<open>What a run relies on\<close>

text \<open>
  Accounts may only gain a public key: address, number and sequence stay.
\<close>

definition gains_key :: "account \<Rightarrow> account \<Rightarrow> bool" where
  "gains_key x y \<longleftrightarrow> get_sequence y = get_sequence x \<and>
     get_account_number y = get_account_number x \<and>
     (get_public_key x \<noteq> None \<longrightarrow> get_public_key y = get_public_key x)"

definition gain_keys ::
  "(acc_address \<Rightarrow> account option) \<Rightarrow> (acc_address \<Rightarrow> account option) \<Rightarrow> bool" where
  "gain_keys accs accs' \<longleftrightarrow> (\<forall>a. rel_option gains_key (accs a) (accs' a))"

lemma gains_key_refl [simp]: "gains_key x x"
  by (simp add: gains_key_def)

lemma gain_keys_refl [simp]: "gain_keys accs accs"
  by (simp add: gain_keys_def option.rel_refl)

lemma gain_keys_trans:
  assumes "gain_keys a b" "gain_keys b c"
  shows "gain_keys a c"
proof -
  have "rel_option gains_key (a x) (c x)" for x
    using assms [unfolded gain_keys_def, THEN spec, of x]
    by (cases "a x"; cases "b x"; cases "c x") (auto simp: gains_key_def)
  then show ?thesis by (simp add: gain_keys_def)
qed

text \<open>Over the life of the chain an account keeps its number and its sequence does not fall.\<close>

definition evolves ::
  "(acc_address \<Rightarrow> account option) \<Rightarrow> (acc_address \<Rightarrow> account option) \<Rightarrow> bool" where
  "evolves accs accs' \<longleftrightarrow> (\<forall>a x. accs a = Some x \<longrightarrow> (\<exists>y. accs' a = Some y \<and>
     get_account_number y = get_account_number x \<and> get_sequence x \<le> get_sequence y))"

lemma evolves_refl [simp]: "evolves accs accs"
  by (simp add: evolves_def)

lemma evolvesD:
  assumes "evolves accs accs'" "accs a = Some x"
  obtains y where "accs' a = Some y" "get_account_number y = get_account_number x"
    "get_sequence x \<le> get_sequence y"
  using assms unfolding evolves_def by blast

lemma evolves_trans:
  assumes "evolves a b" "evolves b c"
  shows "evolves a c"
  unfolding evolves_def
proof (intro allI impI)
  fix k x
  assume "a k = Some x"
  then obtain y where y: "b k = Some y" "get_account_number y = get_account_number x"
    "get_sequence x \<le> get_sequence y" by (rule evolvesD [OF assms(1)])
  from evolvesD [OF assms(2) y(1)] obtain z where "c k = Some z"
    "get_account_number z = get_account_number y" "get_sequence y \<le> get_sequence z" .
  with y show "\<exists>z. c k = Some z \<and> get_account_number z = get_account_number x \<and>
      get_sequence x \<le> get_sequence z" by auto
qed

lemma evolves_map_le: "accs \<subseteq>\<^sub>m accs' \<Longrightarrow> evolves accs accs'"
  by (force simp: evolves_def map_le_def dom_def)

lemma evolves_gain_keys:
  assumes "gain_keys accs accs'"
  shows "evolves accs accs'"
  unfolding evolves_def
proof (intro allI impI)
  fix a x
  assume "accs a = Some x"
  with assms [unfolded gain_keys_def, THEN spec, of a] show "\<exists>y. accs' a = Some y \<and>
      get_account_number y = get_account_number x \<and> get_sequence x \<le> get_sequence y"
    by (cases "accs' a") (auto simp: gains_key_def)
qed

text \<open>The signature of a signer covers the raw transaction, the chain and the account.\<close>

definition authorised ::
  "'a libs_scheme \<Rightarrow> bytes \<Rightarrow> tx_raw \<Rightarrow> signature_data \<Rightarrow> account \<Rightarrow> bool" where
  "authorised L chain raw data acct \<longleftrightarrow> (\<exists>pub_key key signature.
     get_public_key acct = Some (Secp256k1 pub_key) \<and>
     key_from_slice L (pub_key_bytes L pub_key) = Inr key \<and>
     sig_from_compact L (sg_signature data) = Some signature \<and>
     verify_ecdsa L (sha256 (storage L) (pb_encode (pb_sign_doc L)
       \<lparr> sd_body_bytes = body_bytes raw, sd_auth_info_bytes = auth_info_bytes raw,
         sd_chain_id = chain, sd_account_number = get_account_number acct \<rparr>)) signature key)"

lemma verify_signer_Inr:
  assumes "at_get_account ak ctx a = Some r" "verify_signer L ak ctx raw data a = Some (Inr ())"
  obtains x where "r = Some x" "get_sequence x = sg_sequence data"
    "authorised L (ctx_get_chain_id ctx) raw data x"
proof (cases r)
  case None
  then show thesis using assms by (simp add: verify_signer_def)
next
  case (Some x)
  note V = assms(2) [unfolded verify_signer_def assms(1) Some bind.simps option.case Let_def]
  have seq: "get_sequence x = sg_sequence data" using V by (auto split: if_splits)
  obtain k where k: "get_public_key x = Some (Secp256k1 k)"
  proof (cases "get_public_key x")
    case (Some k)
    with that show thesis by (cases k) simp
  qed (use V seq in simp)
  obtain key where key: "key_from_slice L (pub_key_bytes L k) = Inr key"
    using V seq k by (cases "key_from_slice L (pub_key_bytes L k)") simp_all
  obtain sig where sig: "sig_from_compact L (sg_signature data) = Some sig"
    using V seq k key by (cases "sig_from_compact L (sg_signature data)") simp_all
  have "authorised L (ctx_get_chain_id ctx) raw data x"
    using V seq k key sig by (simp add: authorised_def sign_bytes_of_def split: if_splits)
  with that Some seq show thesis by blast
qed

text \<open>The account once the key of its signer info is set, which an account with a key ignores.\<close>

definition with_key :: "public_key option \<Rightarrow> account \<Rightarrow> account" where
  "with_key key x = (case key of Some k \<Rightarrow>
       if get_public_key x = None then set_public_key x k else x
     | None \<Rightarrow> x)"

lemma with_key_fields [simp]:
  "get_sequence (with_key key x) = get_sequence x" "get_address (with_key key x) = get_address x"
  "get_account_number (with_key key x) = get_account_number x" "with_key None x = x"
  by (simp_all add: with_key_def split: option.splits)

lemma with_key_increment [simp]:
  "increment_sequence (with_key key x) = None \<longleftrightarrow> increment_sequence x = None"
proof -
  have "ba_sequence (account_base (with_key key x)) = ba_sequence (account_base x)"
    by (simp flip: get_sequence_def)
  then show ?thesis by (auto simp: increment_sequence_def bind_eq_None_conv)
qed

text \<open>
  What a run does for one signer: its sequence is that of the signature, which is checked with
  the account's key, or with the key of the signer info if the account has none and is given this
  one, and is then incremented.
\<close>

definition signer_step ::
  "'a libs_scheme \<Rightarrow> bytes \<Rightarrow> tx_raw \<Rightarrow> signature_data \<Rightarrow> public_key option \<Rightarrow> account \<Rightarrow> account \<Rightarrow> bool" where
  "signer_step L chain raw data key x z \<longleftrightarrow> get_sequence x = sg_sequence data \<and>
     authorised L chain raw data (with_key key x) \<and> increment_sequence (with_key key x) = Some z"

lemma signer_stepD:
  assumes "signer_step L chain raw data key x z"
  shows "get_sequence x = sg_sequence data" "sg_sequence data < get_sequence z"
    "get_account_number z = get_account_number x"
  using assms increment_sequence_Some(3,4)
  by (auto simp: signer_step_def word_less_nat_alt)

text \<open>
  A transaction is spent once the sequence of its first signer is past the one it was signed with.
\<close>

definition spent ::
  "'a libs_scheme \<Rightarrow> 'm message_ops \<Rightarrow> 'm tx \<Rightarrow> (acc_address \<Rightarrow> account option) \<Rightarrow> bool" where
  "spent L ops tx accs \<longleftrightarrow> (\<exists>a as z. get_signers L ops tx = Some (a # as) \<and> accs a = Some z \<and>
     sg_sequence (get_signatures_data tx ! 0) < get_sequence z)"

lemma spent_evolves:
  assumes "spent L ops tx accs" "evolves accs accs'"
  shows "spent L ops tx accs'"
proof -
  from assms(1) obtain a as z where a: "get_signers L ops tx = Some (a # as)" "accs a = Some z"
    "sg_sequence (get_signatures_data tx ! 0) < get_sequence z" by (auto simp: spent_def)
  from evolvesD [OF assms(2) a(2)] obtain y where "accs' a = Some y"
    "get_sequence z \<le> get_sequence y" .
  with a(1,3) show ?thesis by (auto simp: spent_def)
qed

text \<open>
  The keepers keep a ledger and the accounts under their addresses; the fee is paid to the
  address \<open>fc\<close> of the fee collector, whose account may be created.
\<close>

locale ante_keepers = message_interface H ops mok
  for H :: "'db host" and ops :: "'m message_ops" and mok :: "'m \<Rightarrow> bool" +
  fixes ah :: ante_handler
    and R :: "ctx \<Rightarrow> ledger \<Rightarrow> (acc_address \<Rightarrow> account option) \<Rightarrow> bool"
    and fc :: acc_address
  assumes bech32: "R ctx bal accs \<Longrightarrow> bech32_ok H"
    and keyed: "R ctx bal accs \<Longrightarrow> accs a = Some x \<Longrightarrow> get_address x = a"
    and has: "R ctx bal accs \<Longrightarrow>
      at_has_account (ante_auth_keeper ah) ctx a = Some (accs a \<noteq> None)"
    and get: "R ctx bal accs \<Longrightarrow> at_get_account (ante_auth_keeper ah) ctx a = Some (accs a)"
    and put: "R ctx bal accs \<Longrightarrow> accs a = Some x \<Longrightarrow> get_address y = a \<Longrightarrow>
      get_account_number y = get_account_number x \<Longrightarrow>
      \<exists>ctx'. at_set_account (ante_auth_keeper ah) ctx y = Some ctx' \<and>
        R ctx' bal (accs(a \<mapsto> y)) \<and> tx_only ctx ctx'"
    and pay: "R ctx bal accs \<Longrightarrow> addr_ok a \<Longrightarrow> send_coins_ok (coin_list s) \<Longrightarrow>
      \<forall>c \<in> set (coin_list s). coin_ok c \<Longrightarrow>
      bt_send_coins_from_account_to_module (ante_bank_keeper ah) ctx a FeeCollector s
        = Some (r, ctx') \<Longrightarrow>
      \<exists>b bal' accs'. spec_send bal a fc (coin_list s) = Some (b, bal') \<and> (r = Inr () \<longleftrightarrow> b) \<and>
        R ctx' bal' accs' \<and> tx_only ctx ctx' \<and> accs \<subseteq>\<^sub>m accs' \<and> dom accs' \<subseteq> insert fc (dom accs)"
begin

lemma set_pub_keys_effect:
  assumes "R ctx bal accs" "set_pub_keys H (ante_auth_keeper ah) ks ctx = Some (r, ctx')"
  obtains accs' where "R ctx' bal accs'" "tx_only ctx ctx'" "gain_keys accs accs'"
proof -
  have "\<exists>accs'. R ctx' bal accs' \<and> tx_only ctx ctx' \<and> gain_keys accs accs'"
    using assms
  proof (induction ks arbitrary: ctx accs)
    case (Cons p ks)
    obtain key signer where p: "p = (key, signer)" by (cases p)
    show ?case
    proof (cases "set_pub_keys H (ante_auth_keeper ah) (p # ks) ctx
        = set_pub_keys H (ante_auth_keeper ah) ks ctx")
      case True
      then show ?thesis using Cons by simp
    next
      case False
      show ?thesis
      proof (cases "ctx' = ctx")
        case True
        then show ?thesis using Cons.prems(1) by auto
      next
        case changed: False
        from Cons.prems(2) False changed obtain k addr x c where k: "key = Some k"
          "public_key_get_address H k = Some addr" "accs addr = Some x" "get_public_key x = None"
          "at_set_account (ante_auth_keeper ah) ctx (set_public_key x k) = Some c"
          "set_pub_keys H (ante_auth_keeper ah) ks c = Some (r, ctx')"
          unfolding p
          by (auto simp: get [OF Cons.prems(1)] bind_eq_Some_conv simp del: not_None_eq
              split: option.splits if_splits)
        from put [OF Cons.prems(1) k(3), of "set_public_key x k"] keyed [OF Cons.prems(1) k(3)] k(5)
        have c: "R c bal (accs(addr \<mapsto> set_public_key x k))" "tx_only ctx c" by auto
        have g: "gain_keys accs (accs(addr \<mapsto> set_public_key x k))"
          using k(3,4) by (auto simp: gain_keys_def gains_key_def option.rel_refl)
        from Cons.IH [OF c(1) k(6)] show ?thesis
          using tx_only_trans [OF c(2)] gain_keys_trans [OF g] by blast
      qed
    qed
  qed auto
  then show thesis using that by blast
qed

lemma set_pub_key_effect:
  assumes "R ctx bal accs"
    and "set_pub_key_ante_handler H ops (ante_auth_keeper ah) ctx tx = Some (r, ctx')"
  obtains accs' where "R ctx' bal accs'" "tx_only ctx ctx'" "gain_keys accs accs'"
proof (cases "ctx' = ctx")
  case True
  then show thesis using that [of accs] assms(1) by simp
next
  case False
  with assms(2) obtain ks where "set_pub_keys H (ante_auth_keeper ah) ks ctx = Some (r, ctx')"
    by (auto simp: set_pub_key_ante_handler_def bind_eq_Some_conv Let_def split: if_splits)
  then show thesis using set_pub_keys_effect [OF assms(1)] that by blast
qed

text \<open>
  When the keys are set, every key belongs to its signer, whose account exists, and no other account
  has changed.
\<close>

lemma set_pub_keys_success:
  assumes "R ctx bal accs" "set_pub_keys H (ante_auth_keeper ah) ks ctx = Some (Inr (), ctx')"
    and "distinct (map snd ks)"
  shows "\<exists>accs'. R ctx' bal accs' \<and> tx_only ctx ctx' \<and> (\<forall>a. a \<notin> snd ` set ks \<longrightarrow> accs' a = accs a) \<and>
     (\<forall>(key, a) \<in> set ks. accs' a = map_option (with_key key) (accs a) \<and>
        (\<forall>k. key = Some k \<longrightarrow> public_key_get_address H k = Some a))"
  using assms
proof (induction ks arbitrary: ctx accs)
  case (Cons p ks)
  obtain key a where p: "p = (key, a)" by (cases p)
  let ?accs = "accs(a := map_option (with_key key) (accs a))"
  have "\<exists>c. set_pub_keys H (ante_auth_keeper ah) ks c = Some (Inr (), ctx') \<and> R c bal ?accs \<and> tx_only ctx c \<and>
      (\<forall>k. key = Some k \<longrightarrow> public_key_get_address H k = Some a)"
  proof (cases key)
    case None
    have "?accs = accs" using None by (cases "accs a") (auto simp: fun_eq_iff)
    then show ?thesis using Cons.prems(1,2) p None by (intro exI [of _ ctx]) simp
  next
    case (Some k)
    from Cons.prems(2) p Some obtain x where x: "public_key_get_address H k = Some a" "accs a = Some x"
      by (auto simp: get [OF Cons.prems(1)] bind_eq_Some_conv simp del: not_None_eq
          split: option.splits if_splits)
    show ?thesis
    proof (cases "get_public_key x = None")
      case True
      from put [OF Cons.prems(1) x(2), of "set_public_key x k"] keyed [OF Cons.prems(1) x(2)] obtain c where
        c: "at_set_account (ante_auth_keeper ah) ctx (set_public_key x k) = Some c"
        "R c bal (accs(a \<mapsto> set_public_key x k))" "tx_only ctx c" by auto
      then show ?thesis using Cons.prems(2) p Some x True
        by (intro exI [of _ c]) (simp add: get [OF Cons.prems(1)] with_key_def)
    next
      case False
      then have "?accs = accs" using x(2) Some by (auto simp: fun_eq_iff with_key_def)
      then show ?thesis using Cons.prems(1,2) p Some x False
        by (intro exI [of _ ctx]) (simp add: get [OF Cons.prems(1)] del: not_None_eq)
    qed
  qed
  then obtain c where c: "set_pub_keys H (ante_auth_keeper ah) ks c = Some (Inr (), ctx')" "R c bal ?accs"
    "tx_only ctx c" "\<forall>k. key = Some k \<longrightarrow> public_key_get_address H k = Some a" by blast
  have d: "a \<notin> snd ` set ks" "distinct (map snd ks)" using Cons.prems(3) p by auto
  from Cons.IH [OF c(2,1) d(2)] obtain accs' where i: "R ctx' bal accs'" "tx_only c ctx'"
    "\<forall>b. b \<notin> snd ` set ks \<longrightarrow> accs' b = ?accs b"
    "\<forall>(key, b) \<in> set ks. accs' b = map_option (with_key key) (?accs b) \<and>
       (\<forall>k. key = Some k \<longrightarrow> public_key_get_address H k = Some b)" by blast
  have "accs' b = map_option (with_key k) (accs b) \<and> (\<forall>k'. k = Some k' \<longrightarrow> public_key_get_address H k' = Some b)"
    if "(k, b) \<in> set (p # ks)" for k b
  proof (cases "b = a")
    case True
    then have "(k, b) = p" using that d(1) by force
    then show ?thesis using i(3) d(1) p c(4) by simp
  next
    case False
    with i(4) that p show ?thesis by fastforce
  qed
  moreover have "\<forall>b. b \<notin> snd ` set (p # ks) \<longrightarrow> accs' b = accs b" using i(3) p by auto
  ultimately show ?case using i(1) tx_only_trans [OF c(3) i(2)] by (intro exI [of _ accs'] conjI) auto
qed auto

lemma set_pub_key_success:
  assumes "R ctx bal accs" "get_signers H ops tx = Some signers" "distinct signers"
    and "set_pub_key_ante_handler H ops (ante_auth_keeper ah) ctx tx = Some (Inr (), ctx')"
  obtains accs' where "R ctx' bal accs'" "tx_only ctx ctx'" "length (get_public_keys tx) = length signers"
    "\<And>a. a \<notin> set signers \<Longrightarrow> accs' a = accs a"
    "\<And>i. i < length signers \<Longrightarrow> accs' (signers ! i) = map_option (with_key (get_public_keys tx ! i)) (accs (signers ! i)) \<and>
       (\<forall>k. get_public_keys tx ! i = Some k \<longrightarrow> public_key_get_address H k = Some (signers ! i))"
proof -
  have l: "length (get_public_keys tx) = length signers"
    and run: "set_pub_keys H (ante_auth_keeper ah) (zip (get_public_keys tx) signers) ctx = Some (Inr (), ctx')"
    using assms(2,4) by (auto simp: set_pub_key_ante_handler_def Let_def split: if_splits)
  have m: "map snd (zip (get_public_keys tx) signers) = signers" using l by simp
  then have sn: "snd ` set (zip (get_public_keys tx) signers) = set signers" by (metis list.set_map)
  obtain accs' where a: "R ctx' bal accs'" "tx_only ctx ctx'" "\<forall>a. a \<notin> set signers \<longrightarrow> accs' a = accs a"
    "\<forall>(key, a) \<in> set (zip (get_public_keys tx) signers). accs' a = map_option (with_key key) (accs a) \<and>
        (\<forall>k. key = Some k \<longrightarrow> public_key_get_address H k = Some a)"
    using set_pub_keys_success [OF assms(1) run] assms(3) unfolding m sn by blast
  have "(get_public_keys tx ! i, signers ! i) \<in> set (zip (get_public_keys tx) signers)" if "i < length signers" for i
    using that l by (auto simp: set_zip)
  with a(4) show thesis by (intro that [OF a(1,2) l]) (use a(3) in \<open>fastforce+\<close>)
qed

lemma increment_effect:
  assumes "R ctx bal accs" "increment_sequences (ante_auth_keeper ah) as ctx = Some (r, ctx')"
  obtains accs' where "R ctx' bal accs'" "tx_only ctx ctx'"
    "\<And>a. a \<notin> set as \<Longrightarrow> accs' a = accs a"
    "\<And>a. r = Inr () \<Longrightarrow> distinct as \<Longrightarrow> a \<in> set as \<Longrightarrow>
       \<exists>x y. accs a = Some x \<and> increment_sequence x = Some y \<and> accs' a = Some y"
proof -
  have "\<exists>accs'. R ctx' bal accs' \<and> tx_only ctx ctx' \<and> (\<forall>a. a \<notin> set as \<longrightarrow> accs' a = accs a) \<and>
     (r = Inr () \<longrightarrow> distinct as \<longrightarrow> (\<forall>a \<in> set as.
       \<exists>x y. accs a = Some x \<and> increment_sequence x = Some y \<and> accs' a = Some y))"
    using assms
  proof (induction as arbitrary: ctx accs)
    case (Cons a as)
    show ?case
    proof (cases "accs a")
      case None
      then show ?thesis using Cons.prems by (auto simp: get [OF Cons.prems(1)])
    next
      case (Some x)
      with Cons.prems(2) obtain y c where y: "increment_sequence x = Some y"
        "at_set_account (ante_auth_keeper ah) ctx y = Some c"
        "increment_sequences (ante_auth_keeper ah) as c = Some (r, ctx')"
        by (auto simp: get [OF Cons.prems(1)] bind_eq_Some_conv)
      note y' = increment_sequence_Some [OF y(1)]
      have c: "R c bal (accs(a \<mapsto> y))" "tx_only ctx c"
        using put [OF Cons.prems(1) Some, of y] keyed [OF Cons.prems(1) Some] y' y(2) by auto
      from Cons.IH [OF c(1) y(3)] obtain accs' where i: "R ctx' bal accs'" "tx_only c ctx'"
        "\<forall>b. b \<notin> set as \<longrightarrow> accs' b = (accs(a \<mapsto> y)) b"
        "r = Inr () \<longrightarrow> distinct as \<longrightarrow> (\<forall>b \<in> set as. \<exists>x' z. (accs(a \<mapsto> y)) b = Some x' \<and>
           increment_sequence x' = Some z \<and> accs' b = Some z)" by blast
      have "\<exists>x y. accs b = Some x \<and> increment_sequence x = Some y \<and> accs' b = Some y"
        if "r = Inr ()" "distinct (a # as)" "b \<in> set (a # as)" for b
        using that i(3,4) Some y(1) by (cases "b = a") auto
      moreover have "\<forall>b. b \<notin> set (a # as) \<longrightarrow> accs' b = accs b" using i(3) by simp
      ultimately show ?thesis using i(1) tx_only_trans [OF c(2) i(2)] by blast
    qed
  qed auto
  then show thesis using that by blast
qed

lemma verify_signers_Inr:
  assumes "R ctx bal accs"
    and "verify_signers H (ante_auth_keeper ah) ctx raw ds = Some (Inr ())" "(data, a) \<in> set ds"
  obtains x where "accs a = Some x" "get_sequence x = sg_sequence data"
    "authorised H (ctx_get_chain_id ctx) raw data x"
proof -
  have "verify_signer H (ante_auth_keeper ah) ctx raw data a = Some (Inr ())"
    using assms(2,3) by (induction ds) (auto simp: try_bind_Inr_conv)
  then show thesis using that verify_signer_Inr [OF get [OF assms(1)]] by metis
qed

lemma fee_payer_ok:
  assumes "R ctx bal accs" "tx_ok mok tx" "get_fee_payer H ops tx = Some payer"
  shows "addr_ok payer"
proof (cases "fee_payer (ai_fee (tx_auth_info tx))")
  case (Some a)
  then show ?thesis using assms by (auto simp: get_fee_payer_def tx_ok_def fee_ok_def)
next
  case None
  obtain as where as: "get_signers H ops tx = Some as" "\<forall>a \<in> set as. addr_ok a"
    by (rule get_signers_returns [OF bech32 [OF assms(1)] assms(2)])
  moreover have "as \<noteq> []" "payer = hd as"
    using None assms(3) as(1) by (simp_all add: get_fee_payer_def split: if_splits)
  ultimately show ?thesis using as(2) by simp
qed

text \<open>The fee: the ledger after it, and the accounts with the fee collector's.\<close>

lemma deduct_fee_effect:
  assumes s: "R ctx bal accs" and ok: "tx_ok mok tx"
    and run: "deduct_fee_ante_handler H ops ah ctx tx = Some (r, ctx')"
  obtains bal' accs' payer where "R ctx' bal' accs'" "tx_only ctx ctx'"
    "accs \<subseteq>\<^sub>m accs'" "dom accs' \<subseteq> insert fc (dom accs)"
    "get_fee_payer H ops tx = Some payer"
    "r = Inr () \<Longrightarrow> accs payer \<noteq> None \<and> (case get_fee tx of None \<Rightarrow> bal' = bal
      | Some fee \<Rightarrow> spec_send bal payer fc (coin_list fee) = Some (True, bal'))"
    "bal' = bal \<or> (\<exists>fee b. get_fee tx = Some fee \<and>
       spec_send bal payer fc (coin_list fee) = Some (b, bal'))"
proof -
  from run obtain payer where p: "get_fee_payer H ops tx = Some payer"
    by (auto simp: deduct_fee_ante_handler_def bind_eq_Some_conv)
  note D = deduct_fee_ante_handler_def p has [OF s]
  show thesis
  proof (cases "accs payer = None")
    case True
    then show thesis using that [of bal accs payer] s p run by (auto simp: D)
  next
    case False
    show thesis
    proof (cases "get_fee tx")
      case None
      then show thesis using that [of bal accs payer] s p run False by (auto simp: D)
    next
      case (Some fee)
      then have c: "send_coins_ok (coin_list fee)" "\<forall>c \<in> set (coin_list fee). coin_ok c"
        using ok by (auto simp: tx_ok_def fee_ok_def get_fee_def)
      have "bt_send_coins_from_account_to_module (ante_bank_keeper ah) ctx payer FeeCollector fee
          = Some (r, ctx')" using run Some False by (simp add: D del: not_None_eq)
      from pay [OF s fee_payer_ok [OF s ok p] c this] show thesis
        using that p Some False by (auto simp del: not_None_eq)
    qed
  qed
qed

lemma increment_evolves:
  assumes "R ctx bal accs" "increment_sequences (ante_auth_keeper ah) as ctx = Some (r, ctx')"
  obtains accs' where "R ctx' bal accs'" "tx_only ctx ctx'" "evolves accs accs'"
proof -
  have "\<exists>accs'. R ctx' bal accs' \<and> tx_only ctx ctx' \<and> evolves accs accs'"
    using assms
  proof (induction as arbitrary: ctx accs)
    case (Cons a as)
    show ?case
    proof (cases "accs a")
      case None
      then show ?thesis using Cons.prems by (auto simp: get [OF Cons.prems(1)])
    next
      case (Some x)
      with Cons.prems(2) obtain y c where y: "increment_sequence x = Some y"
        "at_set_account (ante_auth_keeper ah) ctx y = Some c"
        "increment_sequences (ante_auth_keeper ah) as c = Some (r, ctx')"
        by (auto simp: get [OF Cons.prems(1)] bind_eq_Some_conv)
      note y' = increment_sequence_Some [OF y(1)]
      have c: "R c bal (accs(a \<mapsto> y))" "tx_only ctx c"
        using put [OF Cons.prems(1) Some, of y] keyed [OF Cons.prems(1) Some] y' y(2) by auto
      have "evolves accs (accs(a \<mapsto> y))"
        using Some y' by (auto simp: evolves_def word_le_nat_alt)
      with Cons.IH [OF c(1) y(3)] show ?thesis
        using tx_only_trans [OF c(2)] evolves_trans by blast
    qed
  qed auto
  then show thesis using that by blast
qed

text \<open>A run, successful or not, keeps the stores' relation and changes transaction caches only.\<close>

lemma ante_run_effect:
  assumes s: "R ctx bal accs" and ok: "tx_ok mok (twr_tx tx)"
    and run: "ante_run H ops ah ctx tx = Some (r, ctx')"
  obtains bal' accs' where "R ctx' bal' accs'" "tx_only ctx ctx'" "evolves accs accs'"
    "bal' = bal \<or> (\<exists>payer fee b. get_fee_payer H ops (twr_tx tx) = Some payer \<and>
       get_fee (twr_tx tx) = Some fee \<and>
       spec_send bal payer fc (coin_list fee) = Some (b, bal'))"
proof -
  let ?ak = "ante_auth_keeper ah"
  have "ctx' = ctx \<or> (\<exists>f. and_then (deduct_fee_ante_handler H ops ah ctx (twr_tx tx)) (\<lambda>_. f)
      = Some (r, ctx') \<and> (\<forall>c. f c = and_then (set_pub_key_ante_handler H ops ?ak c (twr_tx tx)) (\<lambda>_ c.
        and_then (reading (sig_verification_handler H ops ?ak c tx) c) (\<lambda>_ c.
        increment_sequence_ante_handler H ops ?ak c (twr_tx tx)))))"
    using run unfolding ante_run_def by (auto dest!: and_then_reading)
  then consider "ctx' = ctx" | f where
    "and_then (deduct_fee_ante_handler H ops ah ctx (twr_tx tx)) (\<lambda>_. f) = Some (r, ctx')"
    "\<And>c. f c = and_then (set_pub_key_ante_handler H ops ?ak c (twr_tx tx)) (\<lambda>_ c.
        and_then (reading (sig_verification_handler H ops ?ak c tx) c) (\<lambda>_ c.
        increment_sequence_ante_handler H ops ?ak c (twr_tx tx)))" by blast
  then show thesis
  proof cases
    case 1
    then show thesis using that [of bal accs] s by simp
  next
    case 2
    obtain r1 c1 where c1: "deduct_fee_ante_handler H ops ah ctx (twr_tx tx) = Some (r1, c1)"
      "c1 = ctx' \<or> f c1 = Some (r, ctx')"
      by (rule and_then_step [OF 2(1)]) auto
    from deduct_fee_effect [OF s ok c1(1)] obtain bal1 accs1 payer where e1: "R c1 bal1 accs1"
      "tx_only ctx c1" "accs \<subseteq>\<^sub>m accs1" "get_fee_payer H ops (twr_tx tx) = Some payer"
      "bal1 = bal \<or> (\<exists>fee b. get_fee (twr_tx tx) = Some fee \<and>
         spec_send bal payer fc (coin_list fee) = Some (b, bal1))" by metis
    note b = e1(4,5)
    have "\<exists>accs2. R ctx' bal1 accs2 \<and> tx_only c1 ctx' \<and> evolves accs1 accs2"
    proof (cases "c1 = ctx'")
      case True
      then show ?thesis using e1(1) by auto
    next
      case False
      then have f: "f c1 = Some (r, ctx')" using c1(2) by simp
      obtain r2 c2 where c2:
        "set_pub_key_ante_handler H ops ?ak c1 (twr_tx tx) = Some (r2, c2)"
        "c2 = ctx' \<or> and_then (reading (sig_verification_handler H ops ?ak c2 tx) c2) (\<lambda>_ c.
        increment_sequence_ante_handler H ops ?ak c (twr_tx tx)) = Some (r, ctx')"
        by (rule and_then_step [OF f [unfolded 2(2)]]) auto
      have "\<exists>accs2. R c2 bal1 accs2 \<and> tx_only c1 c2 \<and> evolves accs1 accs2"
        by (rule set_pub_key_effect [OF e1(1) c2(1)]) (use evolves_gain_keys in blast)
      then obtain accs2 where e2: "R c2 bal1 accs2" "tx_only c1 c2" "evolves accs1 accs2"
        by (elim exE conjE)
      have "ctx' = c2 \<or> increment_sequence_ante_handler H ops ?ak c2 (twr_tx tx) = Some (r, ctx')"
        using c2(2) by (auto dest!: and_then_reading)
      then have "\<exists>accs3. R ctx' bal1 accs3 \<and> tx_only c2 ctx' \<and> evolves accs2 accs3"
      proof
        assume "ctx' = c2"
        then show ?thesis using e2(1) by (intro exI [of _ accs2]) simp
      next
        assume "increment_sequence_ante_handler H ops ?ak c2 (twr_tx tx) = Some (r, ctx')"
        then obtain as where "increment_sequences ?ak as c2 = Some (r, ctx')"
          by (auto simp: increment_sequence_ante_handler_def bind_eq_Some_conv)
        from increment_evolves [OF e2(1) this] show ?thesis by blast
      qed
      then show ?thesis
        using tx_only_trans [OF e2(2)] evolves_trans [OF e2(3)] by blast
    qed
    then obtain accs2 where "R ctx' bal1 accs2" "tx_only c1 ctx'" "evolves accs1 accs2" by blast
    then show thesis
      using that [of bal1 accs2] tx_only_trans [OF e1(2)] evolves_trans [OF evolves_map_le [OF e1(3)]] b
      by blast
  qed
qed

text \<open>What a successful run has checked and done, signer by signer.\<close>

lemma ante_run_success:
  assumes s: "R ctx bal accs" and ok: "tx_ok mok (twr_tx tx)"
    and run: "ante_run H ops ah ctx tx = Some (Inr (), ctx')"
  obtains signers bal' accs1 accs' where
    "get_signers H ops (twr_tx tx) = Some signers" "distinct signers" "signers \<noteq> []"
    "length (get_signatures (twr_tx tx)) = length signers"
    "get_timeout_height (twr_tx tx) = 0 \<or> ctx_get_height ctx \<le> get_timeout_height (twr_tx tx)"
    "\<exists>p. at_get_auth_params (ante_auth_keeper ah) ctx = Some p \<and>
       length (get_memo (twr_tx tx)) \<le> unat (max_memo_characters p)"
    "R ctx' bal' accs'" "tx_only ctx ctx'"
    "case get_fee (twr_tx tx) of None \<Rightarrow> bal' = bal
      | Some fee \<Rightarrow> \<exists>payer. get_fee_payer H ops (twr_tx tx) = Some payer \<and>
          spec_send bal payer fc (coin_list fee) = Some (True, bal')"
    "accs \<subseteq>\<^sub>m accs1" "dom accs1 \<subseteq> insert fc (dom accs)"
    "\<And>i. i < length signers \<Longrightarrow> \<exists>x z. accs1 (signers ! i) = Some x \<and>
       signer_step H (ctx_get_chain_id ctx) (twr_raw tx) (get_signatures_data (twr_tx tx) ! i)
         (get_public_keys (twr_tx tx) ! i) x z \<and>
       accs' (signers ! i) = Some z"
    "\<And>a. a \<notin> set signers \<Longrightarrow> accs' a = accs1 a"
    "length (get_public_keys (twr_tx tx)) = length signers"
    "\<And>i k. i < length signers \<Longrightarrow> get_public_keys (twr_tx tx) ! i = Some k \<Longrightarrow>
       public_key_get_address H k = Some (signers ! i)"
    "\<exists>payer. get_fee_payer H ops (twr_tx tx) = Some payer \<and> accs payer \<noteq> None"
proof -
  let ?ak = "ante_auth_keeper ah" and ?tx = "twr_tx tx"
  let ?data = "get_signatures_data (twr_tx tx)"
  from run obtain c1 c2 where r:
    "validate_basic_ante_handler H ops ?tx = Some (Inr ())"
    "tx_timeout_height_ante_handler ctx ?tx = Inr ()"
    "validate_memo_ante_handler ?ak ctx ?tx = Some (Inr ())"
    "deduct_fee_ante_handler H ops ah ctx ?tx = Some (Inr (), c1)"
    "set_pub_key_ante_handler H ops ?ak c1 ?tx = Some (Inr (), c2)"
    "sig_verification_handler H ops ?ak c2 tx = Some (Inr ())"
    "increment_sequence_ante_handler H ops ?ak c2 ?tx = Some (Inr (), ctx')"
    by (auto simp: ante_run_def and_then_Inr reading_Inr)
  obtain signers where sg: "get_signers H ops ?tx = Some signers" "distinct signers"
    by (rule get_signers_returns [OF bech32 [OF s] ok])
  have n: "get_signatures ?tx \<noteq> []" "length (get_signatures ?tx) = length signers"
    using r(1) sg(1) by (auto simp: validate_basic_ante_handler_def Let_def split: if_splits)
  have t: "get_timeout_height ?tx = 0 \<or> ctx_get_height ctx \<le> get_timeout_height ?tx"
    using r(2) by (auto simp: tx_timeout_height_ante_handler_def Let_def split: if_splits)
  have m: "\<exists>p. at_get_auth_params ?ak ctx = Some p \<and>
       length (get_memo ?tx) \<le> unat (max_memo_characters p)"
    using r(3)
    by (auto simp: validate_memo_ante_handler_def bind_eq_Some_conv Let_def split: if_splits)
  obtain bal1 accs1 payer where e1: "R c1 bal1 accs1" "tx_only ctx c1" "accs \<subseteq>\<^sub>m accs1"
    "dom accs1 \<subseteq> insert fc (dom accs)" "get_fee_payer H ops ?tx = Some payer"
    "case get_fee ?tx of None \<Rightarrow> bal1 = bal
      | Some fee \<Rightarrow> spec_send bal payer fc (coin_list fee) = Some (True, bal1)"
    "accs payer \<noteq> None"
    by (rule deduct_fee_effect [OF s ok r(4)]) auto
  let ?keys = "get_public_keys ?tx"
  obtain accs2 where e2: "R c2 bal1 accs2" "tx_only c1 c2" "length ?keys = length signers"
    "\<And>a. a \<notin> set signers \<Longrightarrow> accs2 a = accs1 a"
    "\<And>i. i < length signers \<Longrightarrow> accs2 (signers ! i) = map_option (with_key (?keys ! i)) (accs1 (signers ! i)) \<and>
       (\<forall>k. ?keys ! i = Some k \<longrightarrow> public_key_get_address H k = Some (signers ! i))"
    by (rule set_pub_key_success [OF e1(1) sg r(5)]) (rule that, assumption+)
  have d: "length ?data = length signers" "verify_signers H ?ak c2 (twr_raw tx) (zip ?data signers) = Some (Inr ())"
    using r(6) sg(1) by (auto simp: sig_verification_handler_def Let_def split: if_splits)
  have "increment_sequences ?ak signers c2 = Some (Inr (), ctx')"
    using r(7) sg(1) by (simp add: increment_sequence_ante_handler_def)
  from increment_effect [OF e2(1) this] obtain accs3 where e3: "R ctx' bal1 accs3" "tx_only c2 ctx'"
    "\<And>a. a \<notin> set signers \<Longrightarrow> accs3 a = accs2 a"
    "\<And>a. a \<in> set signers \<Longrightarrow>
       \<exists>x y. accs2 a = Some x \<and> increment_sequence x = Some y \<and> accs3 a = Some y"
    using sg(2) by metis
  have chain: "ctx_get_chain_id c2 = ctx_get_chain_id ctx"
    using tx_only_trans [OF e1(2) e2(2)] by (simp add: tx_only_def)
  have each: "\<exists>x z. accs1 (signers ! i) = Some x \<and>
       signer_step H (ctx_get_chain_id ctx) (twr_raw tx) (?data ! i) (?keys ! i) x z \<and>
       accs3 (signers ! i) = Some z" if i: "i < length signers" for i
  proof -
    have "(?data ! i, signers ! i) \<in> set (zip ?data signers)"
      using i d(1) by (auto simp: set_zip)
    then obtain y where y: "accs2 (signers ! i) = Some y" "get_sequence y = sg_sequence (?data ! i)"
      "authorised H (ctx_get_chain_id c2) (twr_raw tx) (?data ! i) y"
      by (rule verify_signers_Inr [OF e2(1) d(2)])
    from e2(5) [OF i] y(1) obtain x where x: "accs1 (signers ! i) = Some x" "y = with_key (?keys ! i) x"
      by (cases "accs1 (signers ! i)") auto
    have "signers ! i \<in> set signers" using i by simp
    from e3(4) [OF this] y(1) obtain z where "increment_sequence y = Some z"
      "accs3 (signers ! i) = Some z" by auto
    moreover have "get_sequence x = sg_sequence (?data ! i)"
      using x(2) y(2) by simp
    ultimately show ?thesis using x y(3) chain by (auto simp: signer_step_def)
  qed
  show thesis
  proof (rule that [OF sg])
    show "signers \<noteq> []" "length (get_signatures ?tx) = length signers" using n by auto
    show "tx_only ctx ctx'" by (rule tx_only_trans [OF e1(2) tx_only_trans [OF e2(2) e3(2)]])
    show "case get_fee ?tx of None \<Rightarrow> bal1 = bal
      | Some fee \<Rightarrow> \<exists>payer. get_fee_payer H ops ?tx = Some payer \<and>
          spec_send bal payer fc (coin_list fee) = Some (True, bal1)"
      using e1(5,6) by (simp split: option.splits)
    show "accs3 a = accs1 a" if "a \<notin> set signers" for a using e2(4) e3(3) that by simp
    show "public_key_get_address H k = Some (signers ! i)" if "i < length signers" "?keys ! i = Some k" for i k
      using e2(5) [OF that(1)] that(2) by blast
    show "\<exists>payer. get_fee_payer H ops ?tx = Some payer \<and> accs payer \<noteq> None" using e1(5,7) by blast
  qed (use t m e1(3,4) e2(3) e3(1) each in blast)+
qed

text \<open>
  A successful run spends the transaction: it increments the first signer's sequence, and
  sequences never fall, so no later run over the same accounts succeeds.
\<close>

lemma success_spends:
  assumes s: "R ctx bal accs" and ok: "tx_ok mok (twr_tx tx)"
    and run: "ante_run H ops ah ctx tx = Some (Inr (), ctx1)"
  obtains bal1 accs1 where "R ctx1 bal1 accs1" "tx_only ctx ctx1" "spent H ops (twr_tx tx) accs1"
    "evolves accs accs1"
proof -
  let ?data = "get_signatures_data (twr_tx tx)"
  obtain signers bal' accs1 accs' where a: "get_signers H ops (twr_tx tx) = Some signers"
    "signers \<noteq> []" "R ctx1 bal' accs'" "tx_only ctx ctx1" "accs \<subseteq>\<^sub>m accs1"
    "\<And>i. i < length signers \<Longrightarrow> \<exists>x z. accs1 (signers ! i) = Some x \<and>
       signer_step H (ctx_get_chain_id ctx) (twr_raw tx) (?data ! i) (get_public_keys (twr_tx tx) ! i) x z \<and>
       accs' (signers ! i) = Some z"
    "\<And>a. a \<notin> set signers \<Longrightarrow> accs' a = accs1 a"
    by (rule ante_run_success [OF s ok run], rule that) assumption+
  have "\<exists>y. accs' k = Some y \<and> get_account_number y = get_account_number x \<and>
      get_sequence x \<le> get_sequence y" if x: "accs1 k = Some x" for k x
  proof (cases "k \<in> set signers")
    case True
    then obtain i where i: "i < length signers" "k = signers ! i" by (auto simp: in_set_conv_nth)
    from a(6) [OF i(1)] x i(2) obtain z where "accs' k = Some z"
      "signer_step H (ctx_get_chain_id ctx) (twr_raw tx) (?data ! i) (get_public_keys (twr_tx tx) ! i) x z" by auto
    then show ?thesis using signer_stepD [of H _ _ _ _ x z] by fastforce
  next
    case False
    with a(7) x show ?thesis by simp
  qed
  then have "evolves accs1 accs'" by (simp add: evolves_def)
  with evolves_map_le [OF a(5)] have e: "evolves accs accs'" by (rule evolves_trans)
  from a(6) [of 0] a(2) obtain z where "sg_sequence (?data ! 0) < get_sequence z"
    "accs' (signers ! 0) = Some z" using signer_stepD(2) by fastforce
  with a(1,2) have "spent H ops (twr_tx tx) accs'" by (cases signers) (auto simp: spent_def)
  with a(3,4) e that show thesis by blast
qed

lemma spent_fails:
  assumes c: "R c b accs" and ok: "tx_ok mok (twr_tx tx)" and sp: "spent H ops (twr_tx tx) accs"
  shows "ante_run H ops ah c tx \<noteq> Some (Inr (), c')"
proof
  let ?data = "get_signatures_data (twr_tx tx)"
  assume run: "ante_run H ops ah c tx = Some (Inr (), c')"
  obtain signers accs3 accs4 where b: "get_signers H ops (twr_tx tx) = Some signers"
    "accs \<subseteq>\<^sub>m accs3"
    "\<And>i. i < length signers \<Longrightarrow> \<exists>x z. accs3 (signers ! i) = Some x \<and>
      signer_step H (ctx_get_chain_id c) (twr_raw tx) (?data ! i) (get_public_keys (twr_tx tx) ! i) x z \<and>
      accs4 (signers ! i) = Some z"
    by (rule ante_run_success [OF c ok run], rule that) assumption+
  from sp b(1) obtain a as v where v: "signers = a # as" "accs a = Some v"
    "sg_sequence (?data ! 0) < get_sequence v" by (auto simp: spent_def)
  from v(1) b(3) [of 0] obtain w where w: "accs3 a = Some w"
    "get_sequence w = sg_sequence (?data ! 0)" using signer_stepD(1) by fastforce
  have "w = v" using b(2) v(2) w(1) by (force simp: map_le_def dom_def)
  with w(2) v(3) show False by simp
qed

subsection \<open>When a run succeeds\<close>

text \<open>
  Conversely, a transaction without a fee whose signers have sequences and signatures as required
  passes, the signature being verified with the key of the account or, if it has none yet, with
  the one the transaction brings along.
\<close>

lemma set_pub_keys_pass:
  assumes "R ctx bal accs" "distinct (map snd ks)"
    and "\<forall>(key, a) \<in> set ks. accs a \<noteq> None \<and> (\<forall>k. key = Some k \<longrightarrow> public_key_get_address H k = Some a)"
  shows "\<exists>ctx' accs'. set_pub_keys H (ante_auth_keeper ah) ks ctx = Some (Inr (), ctx') \<and>
     R ctx' bal accs' \<and> tx_only ctx ctx' \<and> (\<forall>a. a \<notin> snd ` set ks \<longrightarrow> accs' a = accs a) \<and>
     (\<forall>(key, a) \<in> set ks. accs' a = map_option (with_key key) (accs a))"
  using assms
proof (induction ks arbitrary: ctx accs)
  case (Cons p ks)
  obtain key a where p: "p = (key, a)" by (cases p)
  with Cons.prems obtain x where x: "accs a = Some x"
    "\<And>k. key = Some k \<Longrightarrow> public_key_get_address H k = Some a" by auto
  let ?accs = "accs(a := map_option (with_key key) (accs a))"
  have "\<exists>c. set_pub_keys H (ante_auth_keeper ah) (p # ks) ctx = set_pub_keys H (ante_auth_keeper ah) ks c \<and>
      R c bal ?accs \<and> tx_only ctx c"
  proof (cases "get_public_key x = None \<and> key \<noteq> None")
    case True
    then obtain k where k: "key = Some k" by auto
    have "get_address (set_public_key x k) = a" using keyed [OF Cons.prems(1) x(1)] by simp
    from put [OF Cons.prems(1) x(1) this] obtain c where
      "at_set_account (ante_auth_keeper ah) ctx (set_public_key x k) = Some c"
      "R c bal (accs(a \<mapsto> set_public_key x k))" "tx_only ctx c" by auto
    then show ?thesis using p k x True by (auto simp: get [OF Cons.prems(1)] with_key_def)
  next
    case False
    then have "?accs = accs" using x(1) by (auto simp: fun_eq_iff with_key_def split: option.splits)
    then show ?thesis
      using False p x Cons.prems(1)
      by (cases key) (auto simp: get [OF Cons.prems(1)])
  qed
  then obtain c where c: "set_pub_keys H (ante_auth_keeper ah) (p # ks) ctx
      = set_pub_keys H (ante_auth_keeper ah) ks c" "R c bal ?accs" "tx_only ctx c" by blast
  have d: "a \<notin> snd ` set ks" "distinct (map snd ks)" using Cons.prems(2) p by auto
  then have "\<forall>(key, b) \<in> set ks. ?accs b \<noteq> None \<and> (\<forall>k. key = Some k \<longrightarrow> public_key_get_address H k = Some b)"
    using Cons.prems(3) by force
  from Cons.IH [OF c(2) d(2) this] obtain c' accs' where i:
    "set_pub_keys H (ante_auth_keeper ah) ks c = Some (Inr (), c')" "R c' bal accs'" "tx_only c c'"
    "\<forall>b. b \<notin> snd ` set ks \<longrightarrow> accs' b = ?accs b"
    "\<forall>(key, b) \<in> set ks. accs' b = map_option (with_key key) (?accs b)" by blast
  have "accs' b = map_option (with_key k) (accs b)" if "(k, b) \<in> set ks" for k b
  proof -
    have "b \<noteq> a" using that d(1) by force
    with i(5) that show ?thesis by fastforce
  qed
  then have "\<forall>(key, b) \<in> set (p # ks). accs' b = map_option (with_key key) (accs b)"
    using i(4) d(1) p by auto
  moreover have "\<forall>b. b \<notin> snd ` set (p # ks) \<longrightarrow> accs' b = accs b" using i(4) p by auto
  ultimately show ?case using c(1) i(1,2) tx_only_trans [OF c(3) i(3)]
    by (intro exI [of _ c'] exI [of _ accs'] conjI) simp_all
qed auto

lemma verify_signer_passes:
  assumes "at_get_account ak ctx a = Some (Some x)" "get_sequence x = sg_sequence data"
    and "authorised H (ctx_get_chain_id ctx) raw data x"
  shows "verify_signer H ak ctx raw data a = Some (Inr ())"
  using assms(2,3)
  by (auto simp: verify_signer_def assms(1) authorised_def sign_bytes_of_def Let_def)

lemma verify_signers_pass:
  assumes "R ctx bal accs"
    and "\<forall>(data, a) \<in> set ds. \<exists>x. accs a = Some x \<and> get_sequence x = sg_sequence data \<and>
      authorised H (ctx_get_chain_id ctx) raw data x"
  shows "verify_signers H (ante_auth_keeper ah) ctx raw ds = Some (Inr ())"
  using assms(2)
proof (induction ds)
  case (Cons p ds)
  obtain data a where p: "p = (data, a)" by (cases p)
  with Cons.prems obtain x where "accs a = Some x" "get_sequence x = sg_sequence data"
    "authorised H (ctx_get_chain_id ctx) raw data x" by auto
  then have "verify_signer H (ante_auth_keeper ah) ctx raw data a = Some (Inr ())"
    by (intro verify_signer_passes) (simp_all add: get [OF assms(1)])
  then show ?case using Cons p by simp
qed simp

lemma increment_returns:
  assumes "R ctx bal accs" "distinct as"
    and "\<forall>a \<in> set as. \<exists>x. accs a = Some x \<and> increment_sequence x \<noteq> None"
  obtains ctx' where "increment_sequences (ante_auth_keeper ah) as ctx = Some (Inr (), ctx')"
proof -
  have "\<exists>ctx'. increment_sequences (ante_auth_keeper ah) as ctx = Some (Inr (), ctx')"
    using assms
  proof (induction as arbitrary: ctx accs)
    case (Cons a as)
    then obtain x y where x: "accs a = Some x" "increment_sequence x = Some y" by auto
    note y = increment_sequence_Some [OF x(2)]
    from put [OF Cons.prems(1) x(1), of y] keyed [OF Cons.prems(1) x(1)] y obtain c where
      c: "at_set_account (ante_auth_keeper ah) ctx y = Some c" "R c bal (accs(a \<mapsto> y))" by auto
    have "\<forall>b \<in> set as. \<exists>x. (accs(a \<mapsto> y)) b = Some x \<and> increment_sequence x \<noteq> None"
      using Cons.prems(2,3) by auto
    from Cons.IH [OF c(2) _ this] Cons.prems(2) show ?case
      using x c(1) by (auto simp: get [OF Cons.prems(1)])
  qed simp
  then show thesis using that by blast
qed

lemma ante_run_returns:
  assumes s: "R ctx bal accs" and ok: "tx_ok mok (twr_tx tx)"
    and sg: "get_signers H ops (twr_tx tx) = Some signers" "signers \<noteq> []"
    and n: "length (get_signatures (twr_tx tx)) = length signers"
    and timeout: "get_timeout_height (twr_tx tx) = 0 \<or>
      ctx_get_height ctx \<le> get_timeout_height (twr_tx tx)"
    and memo: "at_get_auth_params (ante_auth_keeper ah) ctx = Some p"
      "length (get_memo (twr_tx tx)) \<le> unat (max_memo_characters p)"
    and fee: "get_fee (twr_tx tx) = None" "get_fee_payer H ops (twr_tx tx) = Some payer"
      "accs payer \<noteq> None"
    and each: "\<And>i. i < length signers \<Longrightarrow> \<exists>x. accs (signers ! i) = Some x \<and>
      get_sequence x = sg_sequence (get_signatures_data (twr_tx tx) ! i) \<and>
      authorised H (ctx_get_chain_id ctx) (twr_raw tx) (get_signatures_data (twr_tx tx) ! i)
        (with_key (get_public_keys (twr_tx tx) ! i) x) \<and>
      increment_sequence x \<noteq> None \<and>
      (\<forall>k. get_public_keys (twr_tx tx) ! i = Some k \<longrightarrow> public_key_get_address H k = Some (signers ! i))"
  obtains ctx' where "ante_run H ops ah ctx tx = Some (Inr (), ctx')"
proof -
  let ?ak = "ante_auth_keeper ah" and ?tx = "twr_tx tx"
  let ?data = "get_signatures_data (twr_tx tx)"
  have len: "length (signer_infos (tx_auth_info ?tx)) = length signers"
    "length ?data = length signers"
    using ok n by (simp_all add: tx_ok_def get_signatures_def get_signatures_data_def
        extract_signatures_data_def)
  have dist: "distinct signers"
    using get_signers_returns [OF bech32 [OF s] ok] sg(1) by fastforce
  have pair: "\<exists>i < length signers. a = xs ! i \<and> b = signers ! i"
    if "(a, b) \<in> set (zip xs signers)" "length xs = length signers" for a b and xs :: "'c list"
    using that by (auto simp: set_zip)
  have 1: "validate_basic_ante_handler H ops ?tx = Some (Inr ())"
    using sg n by (auto simp: validate_basic_ante_handler_def Let_def)
  have 2: "tx_timeout_height_ante_handler ctx ?tx = Inr ()"
    using timeout by (auto simp: tx_timeout_height_ante_handler_def Let_def not_less)
  have "length (get_memo ?tx) < 2 ^ 64"
    using memo(2) unsigned_less [of "max_memo_characters p", where ?'a = nat] by simp
  then have 3: "validate_memo_ante_handler ?ak ctx ?tx = Some (Inr ())"
    using memo by (simp add: validate_memo_ante_handler_def Let_def not_le not_less)
  have 4: "deduct_fee_ante_handler H ops ah ctx ?tx = Some (Inr (), ctx)"
    using fee by (simp add: deduct_fee_ante_handler_def has [OF s] del: not_None_eq)
  let ?ks = "zip (get_public_keys ?tx) signers"
  have lk: "length (get_public_keys ?tx) = length signers" using len by (simp add: get_public_keys_def)
  have at: "(get_public_keys ?tx ! i, signers ! i) \<in> set ?ks" if "i < length signers" for i
    using that lk by (auto simp: set_zip)
  have "\<forall>(key, a) \<in> set ?ks. accs a \<noteq> None \<and> (\<forall>k. key = Some k \<longrightarrow> public_key_get_address H k = Some a)"
    using pair [OF _ lk] each by fastforce
  moreover have "distinct (map snd ?ks)" using dist lk by simp
  ultimately obtain c accs' where c: "set_pub_keys H ?ak ?ks ctx = Some (Inr (), c)" "R c bal accs'"
    "tx_only ctx c" "\<forall>(key, a) \<in> set ?ks. accs' a = map_option (with_key key) (accs a)"
    using set_pub_keys_pass [OF s] by meson
  from c(1) have 5: "set_pub_key_ante_handler H ops ?ak ctx ?tx = Some (Inr (), c)"
    using sg lk by (simp add: set_pub_key_ante_handler_def Let_def)
  have chain: "ctx_get_chain_id c = ctx_get_chain_id ctx" using c(3) by (simp add: tx_only_def)
  have keyed: "\<exists>x. accs' (signers ! i) = Some x \<and> get_sequence x = sg_sequence (?data ! i) \<and>
      authorised H (ctx_get_chain_id c) (twr_raw tx) (?data ! i) x \<and> increment_sequence x \<noteq> None"
    if i: "i < length signers" for i
  proof -
    from each [OF i] obtain x where x: "accs (signers ! i) = Some x"
      "get_sequence x = sg_sequence (?data ! i)" "increment_sequence x \<noteq> None"
      "authorised H (ctx_get_chain_id ctx) (twr_raw tx) (?data ! i) (with_key (get_public_keys ?tx ! i) x)"
      by blast
    have "accs' (signers ! i) = Some (with_key (get_public_keys ?tx ! i) x)"
      using c(4) at [OF i] x(1) by fastforce
    then show ?thesis using x(2-4) chain by (simp del: not_None_eq)
  qed
  have "verify_signers H ?ak c (twr_raw tx) (zip ?data signers) = Some (Inr ())"
  proof (rule verify_signers_pass [OF c(2)], rule ballI)
    fix q
    assume q: "q \<in> set (zip ?data signers)"
    obtain data a where k: "q = (data, a)" by (cases q)
    obtain i where i: "i < length signers" "data = ?data ! i" "a = signers ! i"
      using pair [of data a ?data] len q k by auto
    from keyed [OF i(1)] show "case q of (data, a) \<Rightarrow> \<exists>x. accs' a = Some x \<and>
        get_sequence x = sg_sequence data \<and>
        authorised H (ctx_get_chain_id c) (twr_raw tx) data x"
      unfolding k i(2,3) by auto
  qed
  then have 6: "sig_verification_handler H ops ?ak c tx = Some (Inr ())"
    using sg len by (simp add: sig_verification_handler_def Let_def)
  have "\<forall>a \<in> set signers. \<exists>x. accs' a = Some x \<and> increment_sequence x \<noteq> None"
    using keyed by (metis in_set_conv_nth)
  from increment_returns [OF c(2) dist this] obtain ctx' where
    "increment_sequences ?ak signers c = Some (Inr (), ctx')" .
  then have "increment_sequence_ante_handler H ops ?ak c ?tx = Some (Inr (), ctx')"
    using sg by (simp add: increment_sequence_ante_handler_def)
  with 1 2 3 4 5 6 have "ante_run H ops ah ctx tx = Some (Inr (), ctx')"
    by (simp add: ante_run_def reading_def)
  then show thesis by (rule that)
qed

end

end
