(* ===== verification/State_Sync.thy ===== *)
theory State_Sync
  imports KV_Store "HOL-Library.Multiset"
begin

text \<open>
  State sync: a node exports all nodes of a module's tree at a height
  (\<open>NodeDB::get_all_nodes\<close>, \<open>src/trees/src/iavl/node_db.rs\<close>) as a map from hexadecimal hash to
  serialized node, and a peer imports them (\<open>KVStore::process_all_state_info\<close>,
  \<open>src/store/src/store.rs\<close>). A \<open>HashMap\<close> is the list of its entries; the order in which the
  importer goes through them is arbitrary.
\<close>

section \<open>Hexadecimal strings\<close>

definition hex_digit :: "nat \<Rightarrow> u8" where
  "hex_digit n = (if n < 10 then of_nat (48 + n) else of_nat (87 + n))"

definition u8_array_to_hex_string :: "bytes \<Rightarrow> bytes" where
  "u8_array_to_hex_string bs =
     concat (map (\<lambda>b. [hex_digit (unat b div 16), hex_digit (unat b mod 16)]) bs)"

definition digit_value :: "u8 \<Rightarrow> nat option" where
  "digit_value c =
     (if 48 \<le> unat c \<and> unat c \<le> 57 then Some (unat c - 48)
      else if 97 \<le> unat c \<and> unat c \<le> 102 then Some (unat c - 87)
      else if 65 \<le> unat c \<and> unat c \<le> 70 then Some (unat c - 55)
      else None)"

text \<open>
  \<open>u8::from_str_radix(_, 16)\<close> on a chunk of two bytes, which takes a leading plus sign; a chunk
  that is not UTF-8 has no hexadecimal digits either.
\<close>

definition u8_from_chunk :: "u8 \<Rightarrow> u8 \<Rightarrow> u8 option" where
  "u8_from_chunk a b =
     (if a = 43 then map_option of_nat (digit_value b)
      else do { x \<leftarrow> digit_value a; y \<leftarrow> digit_value b; Some (of_nat (16 * x + y)) })"

fun parse_chunks :: "bytes \<Rightarrow> bytes option" where
  "parse_chunks [] = Some []"
| "parse_chunks [a] = map_option (\<lambda>x. [of_nat x]) (digit_value a)"
| "parse_chunks (a # b # s) =
     do { x \<leftarrow> u8_from_chunk a b; xs \<leftarrow> parse_chunks s; Some (x # xs) }"

definition hex_string_to_bytes :: "bytes \<Rightarrow> bytes option" where
  "hex_string_to_bytes s = (if length s \<noteq> 64 then None else parse_chunks s)"

lemma digit_value_hex_digit: "n < 16 \<Longrightarrow> digit_value (hex_digit n) = Some n"
proof -
  assume n: "n < 16"
  then have "unat (of_nat (48 + n) :: u8) = 48 + n" "unat (of_nat (87 + n) :: u8) = 87 + n"
    by (intro unat_of_nat_bounded; simp)+
  with n show ?thesis by (simp add: digit_value_def hex_digit_def)
qed

lemma hex_digit_not_plus: "n < 16 \<Longrightarrow> hex_digit n \<noteq> 43"
  using digit_value_hex_digit [of n] by (auto simp: digit_value_def)

lemma hex_Cons:
  "u8_array_to_hex_string (b # bs)
     = hex_digit (unat b div 16) # hex_digit (unat b mod 16) # u8_array_to_hex_string bs"
  by (simp add: u8_array_to_hex_string_def)

lemma parse_hex: "parse_chunks (u8_array_to_hex_string bs) = Some bs"
proof (induction bs)
  case (Cons b bs)
  have b: "unat b < 256" using unat_bound [of b] by simp
  then have "unat b div 16 < 16" "unat b mod 16 < 16" by simp_all
  moreover have id: "(of_nat (unat b) :: u8) = b" by simp
  ultimately have "u8_from_chunk (hex_digit (unat b div 16)) (hex_digit (unat b mod 16))
      = Some (of_nat (16 * (unat b div 16) + unat b mod 16))"
    by (simp only: u8_from_chunk_def digit_value_hex_digit hex_digit_not_plus if_False
        Option.bind.simps)
  also have "16 * (unat b div 16) + unat b mod 16 = unat b" by simp
  finally have "u8_from_chunk (hex_digit (unat b div 16)) (hex_digit (unat b mod 16)) = Some b"
    by (simp only: id)
  with Cons show ?case by (simp only: hex_Cons parse_chunks.simps Option.bind.simps)
qed (simp add: u8_array_to_hex_string_def)

lemma length_hex [simp]: "length (u8_array_to_hex_string bs) = 2 * length bs"
  by (induction bs) (simp_all add: u8_array_to_hex_string_def)

lemma hex_round_trip:
  "length bs = 32 \<Longrightarrow> hex_string_to_bytes (u8_array_to_hex_string bs) = Some bs"
  by (simp add: hex_string_to_bytes_def parse_hex)

lemma hex_inj [simp]: "u8_array_to_hex_string a = u8_array_to_hex_string b \<longleftrightarrow> a = b"
  by (metis option.inject parse_hex)

section \<open>Export\<close>

partial_function (option) recursive_get_all_nodes ::
  "crates \<Rightarrow> 'db database_ops \<Rightarrow> 'db \<Rightarrow> node \<Rightarrow> (bytes \<times> bytes) list \<Rightarrow>
     (bytes \<times> bytes) list option" where
  "recursive_get_all_nodes C D s n nodes_map =
     (case n of
        Leaf leaf \<Rightarrow>
          Some (btree_insert (u8_array_to_hex_string (node_hash C n)) (serialize C n) nodes_map)
      | Inner inner \<Rightarrow>
          Option.bind (get_node C D s (left_hash inner)) (\<lambda>left_node.
          Option.bind
            (case left_node of
               None \<Rightarrow> Some (btree_insert (u8_array_to_hex_string (node_hash C n)) (serialize C n)
                 nodes_map)
             | Some l \<Rightarrow> recursive_get_all_nodes C D s l
                 (btree_insert (u8_array_to_hex_string (node_hash C n)) (serialize C n) nodes_map))
            (\<lambda>nodes_map.
          Option.bind (get_node C D s (right_hash inner)) (\<lambda>right_node.
            case right_node of
              None \<Rightarrow> Some nodes_map
            | Some r \<Rightarrow> recursive_get_all_nodes C D s r nodes_map))))"

definition get_all_nodes ::
  "crates \<Rightarrow> 'db database_ops \<Rightarrow> 'db \<Rightarrow> u64 \<Rightarrow> (bytes \<times> (bytes \<times> bytes) list) option" where
  "get_all_nodes C D s ver = do {
     root_node \<leftarrow> unwrap_result (get_root_node C D s ver);
     root_node \<leftarrow> root_node;
     root_hash \<leftarrow> unwrap_result (get_root_hash C D s ver);
     nodes_map \<leftarrow> recursive_get_all_nodes C D s root_node [];
     Some (u8_array_to_hex_string root_hash, nodes_map) }"

definition kv_load_all_nodes ::
  "crates \<Rightarrow> 'db database_ops \<Rightarrow> 'db \<Rightarrow> u64 \<Rightarrow> (bytes \<times> (bytes \<times> bytes) list) option" where
  "kv_load_all_nodes C D s ver = get_all_nodes C D s ver"

section \<open>Import\<close>

definition default_node :: node where
  "default_node = Leaf \<lparr> leaf_key = [], leaf_value = [], leaf_version = 0 \<rparr>"

fun import_nodes ::
  "crates \<Rightarrow> 'db database_ops \<Rightarrow> bytes \<Rightarrow> (bytes \<times> bytes) list \<Rightarrow> node \<Rightarrow> 'db \<Rightarrow>
     (node \<times> 'db) option" where
  "import_nodes C D module_root_hash [] root_node s = Some (root_node, s)"
| "import_nodes C D module_root_hash ((hash, state_nodes) # ns) root_node s = do {
     root_node \<leftarrow> (if hash = module_root_hash
                   then unwrap_result (deserialize C state_nodes) else Some root_node);
     node \<leftarrow> unwrap_result (deserialize C state_nodes);
     node_hash_bytes \<leftarrow> hex_string_to_bytes hash;
     import_nodes C D module_root_hash ns root_node (save_node C D s node node_hash_bytes) }"

definition process_all_state_info ::
  "crates \<Rightarrow> 'db database_ops \<Rightarrow> 'db \<Rightarrow> kvstore \<Rightarrow> bytes \<times> (bytes \<times> bytes) list \<Rightarrow> u64 \<Rightarrow>
     (bytes \<times> kvstore \<times> 'db) option" where
  "process_all_state_info C D s kv modules_state ver = do {
     (root_node, s) \<leftarrow> import_nodes C D (fst modules_state) (snd modules_state) default_node s;
     hash \<leftarrow> hex_string_to_bytes (fst modules_state);
     Some (hash, kv\<lparr> persistent_store := tree_update (persistent_store kv) (Some root_node) ver \<rparr>,
       s) }"

section \<open>What is exported\<close>

text \<open>The entries of a tree's nodes, in the order of the traversal.\<close>

definition node_entry :: "crates \<Rightarrow> atree \<Rightarrow> bytes \<times> bytes" where
  "node_entry C t = (u8_array_to_hex_string (ahash C t), serialize C (conc C t))"

fun exported :: "atree \<Rightarrow> atree list" where
  "exported (ALf k v w) = [ALf k v w]"
| "exported (ANd fl l k w r fr) = ANd fl l k w r fr # exported l @ exported r"

lemma set_exported [simp]: "set (exported t) = subs t"
  by (induction t) auto

abbreviation insert_all :: "(bytes \<times> bytes) list \<Rightarrow> (bytes \<times> bytes) list \<Rightarrow> (bytes \<times> bytes) list" where
  "insert_all es m \<equiv> fold (\<lambda>(k, v). btree_insert k v) es m"

lemma serialize_cold [simp]: "serialize C (conc C (cold t)) = serialize C (conc C t)"
  by (simp add: conc_cold)

lemma recursive_get_all_nodes_stored:
  "stored C D s t \<Longrightarrow> recursive_get_all_nodes C D s (conc C (cold t)) m
     = Some (insert_all (map (node_entry C) (exported t)) m)"
proof (induction t arbitrary: m)
  case (ALf k v w)
  then show ?case
    by (subst recursive_get_all_nodes.simps) (simp add: node_entry_def new_leaf_def)
next
  case (ANd fl l k w r fr)
  let ?t = "ANd fl l k w r fr"
  have st: "stored C D s l" "stored C D s r" using ANd.prems by simp_all
  obtain n where n: "conc C (cold ?t) = Inner n" "left_hash n = ahash C l" "right_hash n = ahash C r"
    by simp
  have h: "node_hash C (Inner n) = ahash C ?t" "serialize C (Inner n) = serialize C (conc C ?t)"
    using ahash_cold [of C ?t] serialize_cold [of C ?t] by (simp_all only: n(1))
  have ne: "(case node_entry C ?t of (k, v) \<Rightarrow> btree_insert k v)
      = btree_insert (u8_array_to_hex_string (ahash C ?t)) (serialize C (conc C ?t))"
    by (simp only: node_entry_def prod.case)
  show ?case
    unfolding n(1)
    by (subst recursive_get_all_nodes.simps)
      (simp only: node.case n h stored_get [OF st(1)] stored_get [OF st(2)] Option.bind.simps
        option.case ANd.IH(1) [OF st(1)] ANd.IH(2) [OF st(2)] exported.simps list.map fold_simps
        map_append fold_append comp_def ne)
qed

text \<open>Inserting entries that agree with each other gives exactly those entries.\<close>

lemma set_btree_insert:
  "btree_ok m \<Longrightarrow> set (btree_insert k v m) = insert (k, v) (set m - {e. fst e = k})"
proof (induction m)
  case (Cons e m)
  have "fst x \<noteq> fst e" if "x \<in> set m" for x
    using that Cons.prems by (auto simp: btree_ok_Cons)
  with Cons show ?case by (auto simp: btree_ok_Cons)
qed simp

lemma set_insert_all:
  assumes "btree_ok m" "inj_on fst (set m \<union> set es)"
  shows "set (insert_all es m) = set m \<union> set es"
  using assms
proof (induction es arbitrary: m)
  case (Cons e es)
  obtain k v where e: "e = (k, v)" by (cases e)
  have "set m - {e. fst e = k} = set m - {(k, v)}"
    using Cons.prems(2) e by (auto dest: inj_onD)
  then have s: "set (btree_insert k v m) = insert (k, v) (set m)"
    using set_btree_insert [OF Cons.prems(1)] by auto
  have "inj_on fst (set (btree_insert k v m) \<union> set es)"
    using Cons.prems(2) s e by (simp add: insert_commute)
  with Cons.IH [of "btree_insert k v m"] Cons.prems(1) s e show ?case by auto
qed simp

section \<open>What is imported\<close>

lemma import_nodes_entries:
  assumes "varint_ok C" "sha256_ok C" "\<forall>x \<in> set xs. persistable x"
    and "\<forall>x \<in> set xs. ahash C x = ahash C a \<longrightarrow> x = a"
  shows "import_nodes C D (u8_array_to_hex_string (ahash C a)) (map (node_entry C) xs) root s
     = Some (if a \<in> set xs then conc C (cold a) else root,
         fold (\<lambda>x s. save_node C D s (conc C x) (ahash C x)) xs s)"
  using assms(3,4)
proof (induction xs arbitrary: root s)
  case (Cons x xs)
  have "storable (conc C x)" using storable_conc [OF assms(2)] Cons.prems(1) by simp
  from deserialize_serialize_append [OF assms(1) this, of "[]"]
  have d: "deserialize C (serialize C (conc C x)) = Some (Inr (conc C (cold x)))"
    by (simp add: conc_cold)
  have hx: "hex_string_to_bytes (u8_array_to_hex_string (ahash C x)) = Some (ahash C x)"
    using assms(2) by (intro hex_round_trip) (simp add: node_hash_def)
  have sv: "save_node C D s (conc C (cold x)) (ahash C x) = save_node C D s (conc C x) (ahash C x)"
    by (simp add: save_node_def)
  have "ahash C x = ahash C a \<longleftrightarrow> x = a" using Cons.prems(2) by auto
  then show ?case
    using Cons.IH [of _ "save_node C D s (conc C x) (ahash C x)"] Cons.prems d hx sv
    by (cases "x = a") (simp_all add: node_entry_def)
qed simp

lemma stored_of_get:
  "\<forall>x \<in> subs t. get_node C D s (ahash C x) = Some (Some (conc C (cold x))) \<Longrightarrow> stored C D s t"
proof (induction t)
  case (ANd fl l k w r fr)
  then show ?case by (simp only: stored.simps subs.simps) blast
qed simp

lemma export_entries:
  assumes "varint_ok C" "sha256_ok C" "savable C D s a"
  shows "set (insert_all (map (node_entry C) (exported a)) []) = node_entry C ` subs a"
proof -
  have "inj_on fst (set [] \<union> set (map (node_entry C) (exported a)))"
    using subs_hash_unique [OF assms(1,2)] assms(3)
    by (auto simp: inj_on_def node_entry_def savable_def)
  from set_insert_all [OF btree_ok_Nil this] show ?thesis by simp
qed

context database
begin

lemma saves_get:
  assumes "varint_ok C" "sha256_ok C" "\<forall>x \<in> set xs. persistable x"
    and "\<forall>x \<in> set xs. ahash C x = ahash C t \<longrightarrow> x = t"
  shows "get_node C D (fold (\<lambda>x s. save_node C D s (conc C x) (ahash C x)) xs s) (ahash C t)
     = (if t \<in> set xs then Some (Some (conc C (cold t))) else get_node C D s (ahash C t))"
  using assms(3,4)
proof (induction xs arbitrary: s)
  case (Cons x xs)
  have "storable (conc C x)" using storable_conc [OF assms(2)] Cons.prems(1) by simp
  note g = save_node_get [OF assms(1) this, of s "ahash C x" "ahash C t"]
  have "ahash C t = ahash C x \<longleftrightarrow> x = t" using Cons.prems(2) by auto
  with Cons g show ?case by (cases "x = t") (simp_all add: conc_cold)
qed simp

lemma import_stored:
  assumes "varint_ok C" "sha256_ok C" "savable C D' s' a"
    and ns: "set ns = node_entry C ` subs a"
  shows "\<exists>kv' t. process_all_state_info C D s kv (u8_array_to_hex_string (ahash C a), ns) ver
       = Some (ahash C a, kv', t) \<and>
     tree_root (persistent_store kv') = Some (conc C (cold a)) \<and>
     tree_loaded_version (persistent_store kv') = ver \<and> stored C D t a \<and>
     (\<forall>k. db_get D t (1 # k) = db_get D s (1 # k))"
proof -
  note sv = assms(3) [unfolded savable_def]
  have uniq: "x = y" if "x \<in> subs a" "y \<in> subs a" "ahash C x = ahash C y" for x y
    using subs_hash_unique [OF assms(1,2) _ _ _ that] sv by blast
  have "\<forall>e \<in> set ns. \<exists>x. e = node_entry C x \<and> x \<in> subs a" using ns by auto
  then obtain f where f: "\<forall>e \<in> set ns. e = node_entry C (f e) \<and> f e \<in> subs a" by metis
  let ?xs = "map f ns"
  have map: "ns = map (node_entry C) ?xs" using f by (simp add: map_idI)
  have sub: "set ?xs \<subseteq> subs a" using f by auto
  have "y \<in> set ?xs" if "y \<in> subs a" for y
  proof -
    have "node_entry C y \<in> set ns" using ns that by simp
    then have "node_entry C y = node_entry C (f (node_entry C y))"
      "f (node_entry C y) \<in> subs a" using f by auto
    then have "f (node_entry C y) = y" using uniq that by (simp add: node_entry_def)
    with \<open>node_entry C y \<in> set ns\<close> show ?thesis by force
  qed
  with sub have xs: "set ?xs = subs a" by blast
  have pers: "\<forall>x \<in> set ?xs. persistable x" using xs subs_persistable sv by blast
  let ?t = "fold (\<lambda>x s. save_node C D s (conc C x) (ahash C x)) ?xs s"
  have imp: "import_nodes C D (u8_array_to_hex_string (ahash C a)) ns default_node s
      = Some (conc C (cold a), ?t)"
    using import_nodes_entries [OF assms(1,2) pers, of a D default_node s] uniq xs
    unfolding map [symmetric] by (simp del: set_map)
  have "get_node C D ?t (ahash C x) = Some (Some (conc C (cold x)))" if "x \<in> subs a" for x
    using saves_get [OF assms(1,2) pers, of x s] uniq xs that by (simp del: set_map)
  then have st: "stored C D ?t a" by (intro stored_of_get) blast
  have hx: "hex_string_to_bytes (u8_array_to_hex_string (ahash C a)) = Some (ahash C a)"
    using assms(2) by (intro hex_round_trip) (simp add: node_hash_def)
  have "db_get D (fold (\<lambda>x s. save_node C D s (conc C x) (ahash C x)) ys s) (1 # k)
      = db_get D s (1 # k)" for ys k
    by (induction ys arbitrary: s) (simp_all add: save_node_other)
  then show ?thesis using imp st hx
    by (simp add: process_all_state_info_def tree_update_def)
qed

end

lemma get_all_nodes_stored:
  assumes "stored C D s a" "get_root_hash C D s ver = Some (Inr (ahash C a))"
    and "ahash C a \<noteq> EMPTY_HASH"
  shows "get_all_nodes C D s ver = Some (u8_array_to_hex_string (ahash C a),
     insert_all (map (node_entry C) (exported a)) [])"
  using assms(2,3) stored_get [OF assms(1)] recursive_get_all_nodes_stored [OF assms(1)]
  by (simp add: get_all_nodes_def get_root_node_def)

section \<open>What is not recorded\<close>

context prefix_stripping
begin

lemma import_nodes_roots:
  "import_nodes C D h ns root s = Some (root', t) \<Longrightarrow>
     (\<forall>k. db_get D t (1 # k) = db_get D s (1 # k)) \<and> (inv s \<longrightarrow> inv t)"
proof (induction ns arbitrary: root s)
  case (Cons e ns)
  obtain hash bz where e: "e = (hash, bz)" by (cases e)
  from Cons.prems e obtain root1 n hb where
    "import_nodes C D h ns root1 (save_node C D s n hb) = Some (root', t)"
    by (auto simp: bind_eq_Some_conv)
  moreover have "inv s \<Longrightarrow> inv (save_node C D s n hb)" by (simp add: save_node_def inv_put)
  ultimately show ?case using Cons.IH by simp
qed simp

lemma get_versions_cong:
  assumes "inv s" "inv t" "\<And>k. db_get D t (1 # k) = db_get D s (1 # k)"
  shows "get_versions C D t = get_versions C D s"
proof -
  obtain es where es: "db_prefix_iterator D s ROOTS_PREFIX = Some es"
    "\<And>k w. (k, w) \<in> set es \<longleftrightarrow> db_get D s (1 # k) = Some w"
    using scan [OF assms(1), of ROOTS_PREFIX] by (auto simp: ROOTS_PREFIX_def)
  obtain es' where es': "db_prefix_iterator D t ROOTS_PREFIX = Some es'"
    "\<And>k w. (k, w) \<in> set es' \<longleftrightarrow> db_get D t (1 # k) = Some w"
    using scan [OF assms(2), of ROOTS_PREFIX] by (auto simp: ROOTS_PREFIX_def)
  have set: "set es' = set es" using es(2) es'(2) assms(3) by (metis subrelI subset_antisym)
  show ?thesis
  proof (cases "\<forall>e \<in> set es. dec_u64 C (fst e) \<noteq> None")
    case True
    with set decode_versions_total obtain vs vs' where
      "decode_versions C es = Some vs" "decode_versions C es' = Some vs'" by metis
    moreover from this decode_versions_Some set have "sorted vs'" "distinct vs'" "sorted vs"
      "distinct vs" "set vs' = set vs" by metis+
    then have "vs' = vs" by (rule sorted_distinct_set_unique)
    ultimately show ?thesis using es(1) es'(1) by (simp add: get_versions_def)
  next
    case False
    with set decode_versions_Some have "decode_versions C es = None" "decode_versions C es' = None"
      by (metis option.exhaust)+
    then show ?thesis using es(1) es'(1) by (simp add: get_versions_def)
  qed
qed

lemma import_not_recorded:
  assumes "inv s" "process_all_state_info C D s kv ms ver = Some (h, kv', t)"
  shows "get_versions C D t = get_versions C D s \<and>
     get_root_hash C D t v = get_root_hash C D s v"
proof -
  from assms(2) obtain root' where
    "import_nodes C D (fst ms) (snd ms) default_node s = Some (root', t)"
    by (auto simp: process_all_state_info_def bind_eq_Some_conv)
  from import_nodes_roots [OF this] assms(1) have
    "inv t" "\<And>k. db_get D t (1 # k) = db_get D s (1 # k)" by simp_all
  then show ?thesis
    using get_versions_cong [OF assms(1)]
    by (simp add: get_root_hash_def get_root_key_def ROOTS_PREFIX_def)
qed

end

section \<open>Properties\<close>

text \<open>
  State sync transfers a module's tree: the export of a stored tree succeeds, and a peer
  that imports the exported nodes, in any order and into any database, gets the same root hash
  and a store in which every key reads as in the exporting tree; no step panics.
\<close>

theorem state_sync_transfers:
  assumes "varint_ok C" "sha256_ok C"
    and "stored C (prefixdb_ops (prefixdb_new memdb_ops p)) s a"
    and "savable C (prefixdb_ops (prefixdb_new memdb_ops p)) s (cold a)"
    and "get_root_hash C (prefixdb_ops (prefixdb_new memdb_ops p)) s ver
      = Some (Inr (node_hash C (conc C a)))"
  shows "\<exists>hash nodes. kv_load_all_nodes C (prefixdb_ops (prefixdb_new memdb_ops p)) s ver
       = Some (hash, nodes) \<and>
     (\<forall>ns. mset ns = mset nodes \<longrightarrow>
       (\<exists>kv' t'. process_all_state_info C (prefixdb_ops (prefixdb_new memdb_ops p)) t kv (hash, ns) ver
          = Some (node_hash C (conc C a), kv', t') \<and>
        (\<forall>key. tree_get C (prefixdb_ops (prefixdb_new memdb_ops p)) t' (persistent_store kv') key
          = Some (map_of (entries a) key))))"
proof -
  let ?D = "prefixdb_ops (prefixdb_new memdb_ops p)"
  let ?m = "insert_all (map (node_entry C) (exported (cold a))) []"
  have st: "stored C ?D s (cold a)" using assms(3) by simp
  have ex: "get_all_nodes C ?D s ver = Some (u8_array_to_hex_string (ahash C (cold a)), ?m)"
    using assms(4,5) by (intro get_all_nodes_stored [OF st]) (simp_all add: savable_def)
  have "\<exists>kv' t'. process_all_state_info C ?D t kv (u8_array_to_hex_string (ahash C (cold a)), ns) ver
        = Some (ahash C a, kv', t') \<and>
      (\<forall>key. tree_get C ?D t' (persistent_store kv') key = Some (map_of (entries a) key))"
    if "mset ns = mset ?m" for ns
  proof -
    have "set ns = node_entry C ` subs (cold a)"
      using export_entries [OF assms(1,2,4)] arg_cong [OF that, of set_mset]
      by (simp only: set_mset_mset)
    from mem_prefixed.stripped.import_stored [OF assms(1,2,4) this, of p t kv ver]
    obtain kv' t' where *: "process_all_state_info C ?D t kv
        (u8_array_to_hex_string (ahash C (cold a)), ns) ver = Some (ahash C a, kv', t')"
      "tree_root (persistent_store kv') = Some (conc C (cold a))" "stored C ?D t' a"
      by auto
    have "recursive_get C ?D t' (conc C (cold a)) key = Some (map_of (entries a) key)" for key
      using recursive_get_conc [OF stored_backed [OF *(3)], of key] assms(4)
      by (simp add: savable_def)
    with * show ?thesis by (auto simp: tree_get_def)
  qed
  with ex show ?thesis by (auto simp: kv_load_all_nodes_def)
qed

text \<open>A database with one committed leaf.\<close>

definition demo_leaf :: atree where
  "demo_leaf = ALf [1] [10] 1"

abbreviation demo_db :: "memdb database_ops" where
  "demo_db \<equiv> prefixdb_ops (prefixdb_new memdb_ops [7])"

definition demo_state :: memdb where
  "demo_state = node_db_save_version demo_crates demo_db
     (save_node demo_crates demo_db memdb_new (conc demo_crates demo_leaf)
       (ahash demo_crates demo_leaf)) 1 (ahash demo_crates demo_leaf)"

lemma demo_state_facts:
  "stored demo_crates demo_db demo_state demo_leaf"
  "savable demo_crates demo_db demo_state (cold demo_leaf)"
  "get_root_hash demo_crates demo_db demo_state 1 = Some (Inr (ahash demo_crates demo_leaf))"
proof -
  have "storable (conc demo_crates demo_leaf)" by (simp add: demo_leaf_def new_leaf_def)
  from mem_prefixed.stripped.save_node_get [OF demo_crates_varint this, of "[7]" memdb_new
      "ahash demo_crates demo_leaf" "ahash demo_crates demo_leaf"]
  have "stored demo_crates demo_db (save_node demo_crates demo_db memdb_new
      (conc demo_crates demo_leaf) (ahash demo_crates demo_leaf)) demo_leaf"
    by (simp add: demo_leaf_def new_leaf_def)
  then show "stored demo_crates demo_db demo_state demo_leaf"
    unfolding demo_state_def mem_prefixed.stripped.stored_root_put .
  show "savable demo_crates demo_db demo_state (cold demo_leaf)"
    by (simp add: savable_def demo_leaf_def demo_eval inj_on_insert EMPTY_HASH_def)
  show "get_root_hash demo_crates demo_db demo_state 1 = Some (Inr (ahash demo_crates demo_leaf))"
    using demo_crates_sha256 mem_prefixed.stripped.get_put_same [of "[7]"]
    by (simp add: get_root_hash_def demo_state_def node_db_save_version_def node_hash_def
        del: prefixdb_ops_simps)
qed

theorem state_sync_transfers_witness:
  "\<exists>hash nodes kv' t'. kv_load_all_nodes demo_crates demo_db demo_state 1 = Some (hash, nodes) \<and>
     process_all_state_info demo_crates demo_db memdb_new demo_store_empty (hash, nodes) 1
       = Some (ahash demo_crates demo_leaf, kv', t') \<and>
     tree_get demo_crates demo_db t' (persistent_store kv') [1] = Some (Some [10])"
proof -
  from state_sync_transfers [OF demo_crates_varint demo_crates_sha256 demo_state_facts,
      where t = memdb_new and kv = demo_store_empty]
  obtain hash nodes where 1: "kv_load_all_nodes demo_crates demo_db demo_state 1 = Some (hash, nodes)"
    and 2: "\<forall>ns. mset ns = mset nodes \<longrightarrow> (\<exists>kv' t'. process_all_state_info demo_crates demo_db
      memdb_new demo_store_empty (hash, ns) 1 = Some (ahash demo_crates demo_leaf, kv', t') \<and>
      (\<forall>key. tree_get demo_crates demo_db t' (persistent_store kv') key
        = Some (map_of (entries demo_leaf) key)))" by blast
  from 1 2 [rule_format, of nodes] show ?thesis by (fastforce simp: demo_leaf_def)
qed

text \<open>
  State sync is not recorded as a version: after an import the database lists the same
  versions and root hashes as before, so a node that is restarted opens the tree it had before
  the import.
\<close>

theorem state_sync_not_recorded:
  assumes "memdb_ok s"
    and "process_all_state_info C (prefixdb_ops (prefixdb_new memdb_ops p)) s kv ms ver
      = Some (h, kv', t)"
  shows "tree_loaded_version (persistent_store kv') = ver \<and>
     get_versions C (prefixdb_ops (prefixdb_new memdb_ops p)) t
       = get_versions C (prefixdb_ops (prefixdb_new memdb_ops p)) s \<and>
     get_root_hash C (prefixdb_ops (prefixdb_new memdb_ops p)) t v
       = get_root_hash C (prefixdb_ops (prefixdb_new memdb_ops p)) s v"
proof -
  have "tree_loaded_version (persistent_store kv') = ver"
    using assms(2) by (auto simp: process_all_state_info_def bind_eq_Some_conv tree_update_def)
  then show ?thesis using mem_prefixed.stripped.import_not_recorded [OF assms] by blast
qed

theorem state_sync_not_recorded_witness:
  "\<exists>kv' t. process_all_state_info demo_crates demo_db memdb_new demo_store_empty
       (u8_array_to_hex_string (ahash demo_crates demo_leaf), [node_entry demo_crates demo_leaf]) 1
       = Some (ahash demo_crates demo_leaf, kv', t) \<and>
     tree_loaded_version (persistent_store kv') = 1 \<and>
     get_versions demo_crates demo_db t = get_versions demo_crates demo_db memdb_new"
proof -
  have ns: "set [node_entry demo_crates demo_leaf] = node_entry demo_crates ` subs demo_leaf"
    by (simp add: demo_leaf_def)
  have sv: "savable demo_crates demo_db demo_state demo_leaf"
    using demo_state_facts(2) by (simp add: demo_leaf_def)
  from mem_prefixed.stripped.import_stored [OF demo_crates_varint demo_crates_sha256 sv ns,
      where s = memdb_new and kv = demo_store_empty and p = "[7]" and ver = 1]
  have "\<exists>kv' t. process_all_state_info demo_crates demo_db memdb_new
      demo_store_empty (u8_array_to_hex_string (ahash demo_crates demo_leaf),
        [node_entry demo_crates demo_leaf]) 1 = Some (ahash demo_crates demo_leaf, kv', t)"
    by (elim exE conjE) (intro exI, assumption)
  then obtain kv' t where *: "process_all_state_info demo_crates demo_db memdb_new
      demo_store_empty (u8_array_to_hex_string (ahash demo_crates demo_leaf),
        [node_entry demo_crates demo_leaf]) 1 = Some (ahash demo_crates demo_leaf, kv', t)" by blast
  from state_sync_not_recorded [OF memdb_new_ok this] * show ?thesis by blast
qed

text \<open>
  The hexadecimal form of a 32-byte hash is read back as that hash.
\<close>

theorem hash_hex_round_trip:
  assumes "length bs = 32"
  shows "hex_string_to_bytes (u8_array_to_hex_string bs) = Some bs"
  by (rule hex_round_trip [OF assms])

theorem hash_hex_round_trip_witness:
  "hex_string_to_bytes (u8_array_to_hex_string (replicate 32 175)) = Some (replicate 32 175)"
  using hash_hex_round_trip [of "replicate 32 175"] by simp

end
