(* ===== verification/Base_App.thy ===== *)
theory Base_App
  imports Ante State_Sync
begin

text \<open>
  The application behind Tendermint: \<open>src/gears/src/baseapp/baseapp.rs\<close>. The node's state is the
  multi store, the height, the header of the block being executed and the database; every ABCI
  call is a function on it (each call holds the locks it needs until it returns, so calls are
  steps). \<open>None\<close> is a panic or the exit of the process. The application's parts, the
  implementations of the traits \<open>Handler\<close> and \<open>Message\<close> and the keepers, are the record \<open>app\<close>.
\<close>

section \<open>State and parameters\<close>

record 'db app_node =
  nd_multi_store :: multistore
  nd_height :: u64
  nd_block_header :: "header option"
  nd_db :: 'db

record ('db, 'm, 'g) app =
  app_ops :: "'m message_ops"
  app_ante :: "'db host \<Rightarrow> ante_handler"
  app_handle_tx :: "'db host \<Rightarrow> ctx \<Rightarrow> 'm \<Rightarrow> (app_error, unit, ctx) outcome"
  app_handle_init_genesis :: "'db host \<Rightarrow> ctx \<Rightarrow> 'g \<Rightarrow> ctx option"
  app_handle_query :: "'db host \<Rightarrow> query_context \<Rightarrow> request_query \<Rightarrow> (app_error + bytes) option"
  app_params_keeper :: baseapp_params_keeper
  app_json :: json
  app_parse_genesis :: "bytes \<Rightarrow> bytes + 'g"
  app_store_names :: "bytes list"
  app_tree_text :: "trees_error \<Rightarrow> bytes"
  app_name :: bytes
  app_version :: bytes
  app_peer_id :: bytes

text \<open>The crates over the node's database.\<close>

definition node_host :: "'db host \<Rightarrow> 'db app_node \<Rightarrow> 'db host" where
  "node_host H nd = H\<lparr> host_state := nd_db nd \<rparr>"

definition base_app_new ::
  "'db host \<Rightarrow> ('db, 'm, 'g) app \<Rightarrow> 'db \<Rightarrow> 'db app_node option" where
  "base_app_new H app db = do {
     multi_store \<leftarrow> multi_new (storage H) (host_db H) db (app_store_names app);
     Some \<lparr> nd_multi_store = multi_store, nd_height = head_version multi_store,
       nd_block_header = None, nd_db = db \<rparr> }"

text \<open>\<open>u64\<close> to \<open>i64\<close> with \<open>try_into().expect(..)\<close>.\<close>

definition expect_i64 :: "u64 \<Rightarrow> int option" where
  "expect_i64 n = i64_value (uint n)"

definition increment_block_height :: "'db app_node \<Rightarrow> (u64 \<times> 'db app_node) option" where
  "increment_block_height nd = do {
     height \<leftarrow> checked_add (nd_height nd) 1;
     Some (height, nd\<lparr> nd_height := height \<rparr>) }"

definition update_block_height :: "'db app_node \<Rightarrow> u64 \<Rightarrow> 'db app_node" where
  "update_block_height nd new_height = nd\<lparr> nd_height := new_height \<rparr>"

definition set_block_header :: "'db app_node \<Rightarrow> header \<Rightarrow> 'db app_node" where
  "set_block_header nd header = nd\<lparr> nd_block_header := Some header \<rparr>"

definition get_last_commit_hash :: "'db app_node \<Rightarrow> bytes" where
  "get_last_commit_hash nd = head_commit_hash (nd_multi_store nd)"

definition set_multi_store :: "'db app_node \<Rightarrow> multistore \<Rightarrow> 'db app_node" where
  "set_multi_store nd ms = nd\<lparr> nd_multi_store := ms \<rparr>"

section \<open>Transactions\<close>

fun validate_msgs :: "'m message_ops \<Rightarrow> 'm list \<Rightarrow> app_error + unit" where
  "validate_msgs ops [] = Inr ()"
| "validate_msgs ops (msg # msgs) =
     then_try (map_err TxValidation (msg_validate_basic ops msg)) (\<lambda>_. validate_msgs ops msgs)"

definition validate_basic_tx_msgs :: "'m message_ops \<Rightarrow> 'm list \<Rightarrow> app_error + unit" where
  "validate_basic_tx_msgs ops msgs =
     (if msgs = [] then Inl (InvalidRequest (lit ''must contain at least one message''))
      else validate_msgs ops msgs)"

fun run_msgs ::
  "(ctx \<Rightarrow> 'm \<Rightarrow> (app_error, unit, ctx) outcome) \<Rightarrow> ctx \<Rightarrow> 'm list \<Rightarrow>
     (app_error, unit, ctx) outcome" where
  "run_msgs handle_tx ctx [] = Some (Inr (), ctx)"
| "run_msgs handle_tx ctx (msg # msgs) =
     and_then (handle_tx ctx msg) (\<lambda>_ ctx. run_msgs handle_tx ctx msgs)"

definition new_tx_ctx :: "'db app_node \<Rightarrow> multistore \<Rightarrow> bytes \<Rightarrow> ctx option" where
  "new_tx_ctx nd ms raw =
     map_option (\<lambda>header. TxContext (tx_context_new ms (nd_height nd) header raw))
       (nd_block_header nd)"

definition run_tx ::
  "'db host \<Rightarrow> ('db, 'm, 'g) app \<Rightarrow> 'db app_node \<Rightarrow> bytes \<Rightarrow>
     (app_error, event list, 'db app_node) outcome" where
  "run_tx H app nd raw =
     and_then (reading (map_option (map_err (\<lambda>e. TxParseError (proto_error_text e)))
         (tx_with_raw_from_bytes H (app_ops app) raw)) nd) (\<lambda>tx nd.
     and_then (reading (Some (validate_basic_tx_msgs (app_ops app) (get_msgs (twr_tx tx)))) nd) (\<lambda>_ nd. do {
       ctx \<leftarrow> new_tx_ctx nd (nd_multi_store nd) raw;
       (res, ctx) \<leftarrow> ante_run (node_host H nd) (app_ops app) (app_ante app (node_host H nd)) ctx tx;
       (case res of
          Inl e \<Rightarrow> Some (Inl e, set_multi_store nd (clear_tx_caches (ctx_multi_store ctx)))
        | Inr _ \<Rightarrow> do {
            ms \<leftarrow> write_then_clear_tx_caches (ctx_multi_store ctx);
            ctx \<leftarrow> new_tx_ctx nd ms raw;
            (res, ctx) \<leftarrow> run_msgs (app_handle_tx app (node_host H nd)) ctx (get_msgs (twr_tx tx));
            (case res of
               Inr _ \<Rightarrow> do {
                 ms \<leftarrow> write_then_clear_tx_caches (ctx_multi_store ctx);
                 Some (Inr (ctx_events ctx), set_multi_store nd ms) }
             | Inl e \<Rightarrow> Some (Inl e, set_multi_store nd (clear_tx_caches (ctx_multi_store ctx)))) }) }))"

section \<open>ABCI calls\<close>

record response_init_chain =
  ric_consensus_params :: "consensus_params option"
  ric_validators :: "bytes list"
  ric_app_hash :: bytes

record request_init_chain =
  rqi_chain_id :: bytes
  rqi_consensus_params :: "consensus_params option"
  rqi_validators :: "bytes list"
  rqi_app_state_bytes :: bytes

definition init_chain ::
  "'db host \<Rightarrow> ('db, 'm, 'g) app \<Rightarrow> 'db app_node \<Rightarrow> request_init_chain \<Rightarrow>
     (response_init_chain \<times> 'db app_node) option" where
  "init_chain H app nd request = do {
     let ctx = InitContext (init_context_new (nd_multi_store nd) (nd_height nd)
       (rqi_chain_id request));
     ctx \<leftarrow> (case rqi_consensus_params request of
         Some params \<Rightarrow> set_consensus_params (app_json app) (app_params_keeper app) ctx params
       | None \<Rightarrow> Some ctx);
     genesis \<leftarrow> unwrap_result (Some (map_err Genesis
       (app_parse_genesis app (rqi_app_state_bytes request))));
     ctx \<leftarrow> app_handle_init_genesis app (node_host H nd) ctx genesis;
     ms \<leftarrow> write_then_clear_tx_caches (ctx_multi_store ctx);
     Some (\<lparr> ric_consensus_params = rqi_consensus_params request,
         ric_validators = rqi_validators request, ric_app_hash = lit ''hash_goes_here'' \<rparr>,
       set_multi_store nd ms) }"

record response_info =
  rin_data :: bytes
  rin_version :: bytes
  rin_app_version :: u64
  rin_last_block_height :: int
  rin_last_block_app_hash :: bytes

definition abci_info :: "('db, 'm, 'g) app \<Rightarrow> 'db app_node \<Rightarrow> response_info option" where
  "abci_info app nd = do {
     height \<leftarrow> expect_i64 (nd_height nd);
     Some \<lparr> rin_data = app_name app, rin_version = app_version app, rin_app_version = 1,
       rin_last_block_height = height, rin_last_block_app_hash = get_last_commit_hash nd \<rparr> }"

record response_query =
  rqu_code :: u32
  rqu_log :: bytes
  rqu_key :: bytes
  rqu_value :: bytes
  rqu_height :: int

definition abci_query ::
  "'db host \<Rightarrow> ('db, 'm, 'g) app \<Rightarrow> 'db app_node \<Rightarrow> request_query \<Rightarrow> response_query option" where
  "abci_query H app nd request = do {
     let ctx = query_context_new (nd_multi_store nd) (nd_height nd);
     res \<leftarrow> app_handle_query app (node_host H nd) ctx request;
     (case res of
        Inr val \<Rightarrow> do {
          height \<leftarrow> expect_i64 (nd_height nd);
          Some \<lparr> rqu_code = 0, rqu_log = lit ''exists'', rqu_key = query_data request,
            rqu_value = val, rqu_height = height \<rparr> }
      | Inl e \<Rightarrow> Some \<lparr> rqu_code = 1, rqu_log = app_error_text (app_tree_text app) e,
          rqu_key = query_data request, rqu_value = [], rqu_height = 0 \<rparr>) }"

text \<open>The responses to transactions; the fields are those that are not always empty.\<close>

record response_tx =
  rtx_code :: u32
  rtx_log :: bytes
  rtx_gas_wanted :: int
  rtx_events :: "event list"

definition check_tx :: "bytes \<Rightarrow> response_tx" where
  "check_tx request = \<lparr> rtx_code = 0, rtx_log = [], rtx_gas_wanted = 1, rtx_events = [] \<rparr>"

definition deliver_tx ::
  "'db host \<Rightarrow> ('db, 'm, 'g) app \<Rightarrow> 'db app_node \<Rightarrow> bytes \<Rightarrow> (response_tx \<times> 'db app_node) option" where
  "deliver_tx H app nd raw = do {
     (res, nd) \<leftarrow> run_tx H app nd raw;
     Some (case res of
         Inr events \<Rightarrow> \<lparr> rtx_code = 0, rtx_log = [], rtx_gas_wanted = 0, rtx_events = events \<rparr>
       | Inl e \<Rightarrow> \<lparr> rtx_code = app_error_code e, rtx_log = app_error_text (app_tree_text app) e,
           rtx_gas_wanted = 0, rtx_events = [] \<rparr>, nd) }"

record response_commit =
  rco_data :: bytes
  rco_retain_height :: int

definition abci_commit :: "'db host \<Rightarrow> 'db app_node \<Rightarrow> (response_commit \<times> 'db app_node) option" where
  "abci_commit H nd = do {
     (new_height, nd) \<leftarrow> increment_block_height nd;
     (hash, ms, db) \<leftarrow> multi_commit (storage H) (host_db H) (nd_db nd) (nd_multi_store nd);
     retain_height \<leftarrow> expect_i64 (new_height - 1);
     Some (\<lparr> rco_data = hash, rco_retain_height = retain_height \<rparr>,
       nd\<lparr> nd_multi_store := ms, nd_db := db \<rparr>) }"

text \<open>The header Tendermint sends, after its conversion to the domain type.\<close>

definition begin_block :: "'db app_node \<Rightarrow> header option \<Rightarrow> 'db app_node option" where
  "begin_block nd request_header = map_option (set_block_header nd) request_header"

definition abci_echo :: "bytes \<Rightarrow> bytes" where
  "abci_echo message = message"

section \<open>State sync messages\<close>

text \<open>
  The two messages of the peer-to-peer network: a node's height, and the exported nodes of all
  its stores. Hash maps are association lists.
\<close>

datatype sync_message =
  VersionMsg u64 bytes
| StateMsg "(bytes \<times> bytes \<times> (bytes \<times> bytes) list) list" u64 bytes

definition sync_version :: "('db, 'm, 'g) app \<Rightarrow> 'db app_node \<Rightarrow> sync_message" where
  "sync_version app nd = VersionMsg (nd_height nd) (app_peer_id app)"

fun export_states ::
  "'db host \<Rightarrow> 'db app_node \<Rightarrow> bytes list \<Rightarrow> (bytes \<times> bytes \<times> (bytes \<times> bytes) list) list option" where
  "export_states H nd [] = Some []"
| "export_states H nd (name # names) = do {
     kv_store \<leftarrow> get_kv_store (nd_multi_store nd) name;
     (root_hash, nodes) \<leftarrow> kv_load_all_nodes (storage H) (module_db (host_db H) name) (nd_db nd)
       (nd_height nd);
     states \<leftarrow> export_states H nd names;
     Some ((name, root_hash, nodes) # states) }"

text \<open>The message to publish, if any.\<close>

definition process_version_msg ::
  "'db host \<Rightarrow> ('db, 'm, 'g) app \<Rightarrow> 'db app_node \<Rightarrow> u64 \<Rightarrow> bytes \<Rightarrow> sync_message option option" where
  "process_version_msg H app nd best_height from_addr =
     (if nd_height nd > best_height then do {
        states \<leftarrow> export_states H nd (app_store_names app);
        Some (Some (StateMsg states (nd_height nd) from_addr)) }
      else Some None)"

fun import_states ::
  "'db host \<Rightarrow> bytes list \<Rightarrow> (bytes \<times> bytes \<times> (bytes \<times> bytes) list) list \<Rightarrow> u64 \<Rightarrow>
     multistore \<Rightarrow> 'db \<Rightarrow> (store_info list \<times> multistore \<times> 'db) option" where
  "import_states H names [] height ms db = Some ([], ms, db)"
| "import_states H names ((store, state_nodes) # states) height ms db =
     (if store \<notin> set names then None
      else do {
        kvstore \<leftarrow> get_kv_store ms store;
        (root_hash, kvstore, db) \<leftarrow> process_all_state_info (storage H) (module_db (host_db H) store)
          db kvstore state_nodes height;
        (stores_info, ms, db) \<leftarrow> import_states H names states height
          (set_kv_store ms store kvstore) db;
        Some (\<lparr> info_name = store, info_hash = root_hash \<rparr> # stores_info, ms, db) })"

definition process_state_msg ::
  "'db host \<Rightarrow> ('db, 'm, 'g) app \<Rightarrow> 'db app_node \<Rightarrow>
     (bytes \<times> bytes \<times> (bytes \<times> bytes) list) list \<Rightarrow> bytes \<Rightarrow> u64 \<Rightarrow> 'db app_node option" where
  "process_state_msg H app nd states to_addr height =
     (if app_peer_id app = to_addr \<and> nd_height nd < height then do {
        (stores_info, ms, db) \<leftarrow> import_states H (app_store_names app) states height
          (nd_multi_store nd) (nd_db nd);
        multistore_hash \<leftarrow> hash_store_infos (storage H) stores_info;
        let ms = set_head_version (set_head_commit_hash ms multistore_hash) height;
        Some (update_block_height (nd\<lparr> nd_multi_store := ms, nd_db := db \<rparr>) height) }
      else Some nd)"

fun process_message ::
  "'db host \<Rightarrow> ('db, 'm, 'g) app \<Rightarrow> 'db app_node \<Rightarrow> sync_message \<Rightarrow>
     (sync_message option \<times> 'db app_node) option" where
  "process_message H app nd (VersionMsg best_height from_addr) =
     map_option (\<lambda>reply. (reply, nd)) (process_version_msg H app nd best_height from_addr)"
| "process_message H app nd (StateMsg states height to_addr) =
     map_option (\<lambda>nd. (None, nd)) (process_state_msg H app nd states to_addr height)"

section \<open>One transaction\<close>

lemma node_host_simps [simp]:
  "storage (node_host H nd) = storage H" "host_db (node_host H nd) = host_db H"
  "host_state (node_host H nd) = nd_db nd"
  by (simp_all add: node_host_def)

lemma set_multi_store_simps [simp]:
  "nd_multi_store (set_multi_store nd ms) = ms" "nd_height (set_multi_store nd ms) = nd_height nd"
  "nd_block_header (set_multi_store nd ms) = nd_block_header nd"
  "nd_db (set_multi_store nd ms) = nd_db nd" "set_multi_store nd (nd_multi_store nd) = nd"
  "node_host H (set_multi_store nd ms) = node_host H nd"
  by (simp_all add: set_multi_store_def node_host_def)

text \<open>The four ways a transaction can end.\<close>

lemma run_tx_cases:
  assumes "run_tx H app nd raw = Some (r, nd')"
  obtains (rejected) e where "r = Inl e" "nd' = nd"
  | (ante) tx ctx e c1 where
      "tx_with_raw_from_bytes H (app_ops app) raw = Some (Inr tx)"
      "new_tx_ctx nd (nd_multi_store nd) raw = Some ctx"
      "ante_run (node_host H nd) (app_ops app) (app_ante app (node_host H nd)) ctx tx = Some (Inl e, c1)"
      "r = Inl e" "nd' = set_multi_store nd (clear_tx_caches (ctx_multi_store c1))"
  | (msgs) tx ctx c1 ms ctx2 e c2 where
      "tx_with_raw_from_bytes H (app_ops app) raw = Some (Inr tx)"
      "new_tx_ctx nd (nd_multi_store nd) raw = Some ctx"
      "ante_run (node_host H nd) (app_ops app) (app_ante app (node_host H nd)) ctx tx = Some (Inr (), c1)"
      "write_then_clear_tx_caches (ctx_multi_store c1) = Some ms" "new_tx_ctx nd ms raw = Some ctx2"
      "run_msgs (app_handle_tx app (node_host H nd)) ctx2 (get_msgs (twr_tx tx)) = Some (Inl e, c2)"
      "r = Inl e" "nd' = set_multi_store nd (clear_tx_caches (ctx_multi_store c2))"
  | (executed) tx ctx c1 ms ctx2 c2 ms2 where
      "tx_with_raw_from_bytes H (app_ops app) raw = Some (Inr tx)"
      "new_tx_ctx nd (nd_multi_store nd) raw = Some ctx"
      "ante_run (node_host H nd) (app_ops app) (app_ante app (node_host H nd)) ctx tx = Some (Inr (), c1)"
      "write_then_clear_tx_caches (ctx_multi_store c1) = Some ms" "new_tx_ctx nd ms raw = Some ctx2"
      "run_msgs (app_handle_tx app (node_host H nd)) ctx2 (get_msgs (twr_tx tx)) = Some (Inr (), c2)"
      "write_then_clear_tx_caches (ctx_multi_store c2) = Some ms2"
      "r = Inr (ctx_events c2)" "nd' = set_multi_store nd ms2"
proof -
  from assms consider e where "r = Inl e" "nd' = nd"
    | tx ctx res c where "tx_with_raw_from_bytes H (app_ops app) raw = Some (Inr tx)"
      "new_tx_ctx nd (nd_multi_store nd) raw = Some ctx"
      "ante_run (node_host H nd) (app_ops app) (app_ante app (node_host H nd)) ctx tx = Some (res, c)"
      "(case res of
          Inl e \<Rightarrow> Some (Inl e, set_multi_store nd (clear_tx_caches (ctx_multi_store c)))
        | Inr _ \<Rightarrow> do {
            ms \<leftarrow> write_then_clear_tx_caches (ctx_multi_store c);
            ctx \<leftarrow> new_tx_ctx nd ms raw;
            (res, ctx) \<leftarrow> run_msgs (app_handle_tx app (node_host H nd)) ctx (get_msgs (twr_tx tx));
            (case res of
               Inr _ \<Rightarrow> do {
                 ms \<leftarrow> write_then_clear_tx_caches (ctx_multi_store ctx);
                 Some (Inr (ctx_events ctx), set_multi_store nd ms) }
             | Inl e \<Rightarrow> Some (Inl e, set_multi_store nd (clear_tx_caches (ctx_multi_store ctx)))) })
        = Some (r, nd')"
    unfolding run_tx_def
    by (fastforce simp: and_then_Some reading_Some bind_eq_Some_conv)
  then show thesis
  proof cases
    case 1
    then show thesis by (rule rejected)
  next
    case 2
    show thesis
    proof (cases res)
      case (Inl e)
      then show thesis using 2 by (intro ante [of tx ctx e c]) simp_all
    next
      case (Inr u)
      with 2(4) obtain ms ctx2 res2 c2 where m: "write_then_clear_tx_caches (ctx_multi_store c) = Some ms"
        "new_tx_ctx nd ms raw = Some ctx2"
        "run_msgs (app_handle_tx app (node_host H nd)) ctx2 (get_msgs (twr_tx tx)) = Some (res2, c2)"
        "(case res2 of
               Inr _ \<Rightarrow> do {
                 ms \<leftarrow> write_then_clear_tx_caches (ctx_multi_store c2);
                 Some (Inr (ctx_events c2), set_multi_store nd ms) }
             | Inl e \<Rightarrow> Some (Inl e, set_multi_store nd (clear_tx_caches (ctx_multi_store c2))))
         = Some (r, nd')"
        by (auto simp: bind_eq_Some_conv)
      have a: "ante_run (node_host H nd) (app_ops app) (app_ante app (node_host H nd)) ctx tx
          = Some (Inr (), c)" using 2(3) Inr by simp
      show thesis
      proof (cases res2)
        case (Inl e)
        then show thesis using 2 a m by (intro msgs [of tx ctx c ms ctx2 e c2]) simp_all
      next
        case (Inr v)
        with m(4) obtain ms2 where "write_then_clear_tx_caches (ctx_multi_store c2) = Some ms2"
          "r = Inr (ctx_events c2)" "nd' = set_multi_store nd ms2"
          by (auto simp: bind_eq_Some_conv)
        then show thesis using 2 a m Inr by (intro executed [of tx ctx c ms ctx2 c2 ms2]) simp_all
      qed
    qed
  qed
qed

text \<open>Between transactions the transaction caches are empty.\<close>

definition clean :: "multistore \<Rightarrow> bool" where
  "clean ms \<longleftrightarrow> ms_ok ms \<and> clear_tx_caches ms = ms"

definition same_reads :: "'db host \<Rightarrow> multistore \<Rightarrow> multistore \<Rightarrow> bool" where
  "same_reads H ms ms' \<longleftrightarrow> (\<forall>n kv. get_kv_store ms n = Some kv \<longrightarrow>
     (\<exists>kv'. get_kv_store ms' n = Some kv' \<and> (\<forall>k. kv_read H n kv' k = kv_read H n kv k)))"

lemma write_clean:
  fixes H :: "'db host"
  assumes "ms_ok ms" "write_then_clear_tx_caches ms = Some ms'"
  shows "clean ms'" "same_reads H ms ms'"
proof -
  obtain ms1 where m: "write_then_clear_tx_caches ms = Some ms1" "ms_ok ms1" "clear_tx_caches ms1 = ms1"
    "\<And>n kv. get_kv_store ms n = Some kv \<Longrightarrow> \<exists>kv'. get_kv_store ms1 n = Some kv' \<and>
       (\<forall>C (D :: 'db database_ops) s k. kv_get C D s kv' k = kv_get C D s kv k)"
    by (rule write_tx_caches_views [OF assms(1)]) blast
  then show "clean ms'" using assms(2) by (simp add: clean_def)
  show "same_reads H ms ms'"
    unfolding same_reads_def kv_read_def
  proof (intro allI impI)
    fix n kv
    assume "get_kv_store ms n = Some kv"
    from m(4) [OF this] obtain kv' where "get_kv_store ms1 n = Some kv'"
      "\<forall>C (D :: 'db database_ops) s k. kv_get C D s kv' k = kv_get C D s kv k" by blast
    then show "\<exists>kv'. get_kv_store ms' n = Some kv' \<and>
        (\<forall>k. kv_get (storage H) (module_db (host_db H) n) (host_state H) kv' k
          = kv_get (storage H) (module_db (host_db H) n) (host_state H) kv k)"
      using m(1) assms(2) by auto
  qed
qed

lemma tx_only_clean:
  assumes "clean (ctx_multi_store ctx)" "tx_only ctx ctx'"
  shows "ms_ok (ctx_multi_store ctx')" "clear_tx_caches (ctx_multi_store ctx') = ctx_multi_store ctx"
  using assms by (simp_all add: clean_def tx_only_def)

text \<open>What the last commit left: the version, its hash and the trees of the stores.\<close>

definition head_state :: "multistore \<Rightarrow> u64 \<times> bytes \<times> (bytes \<times> tree) list" where
  "head_state ms = (head_version ms, head_commit_hash ms,
     map (\<lambda>(n, kv). (n, persistent_store kv)) (stores ms))"

lemma clear_head: "head_state (clear_tx_caches ms) = head_state ms"
  by (simp add: head_state_def clear_tx_caches_def clear_tx_cache_def case_prod_beta o_def)

lemma write_head:
  assumes "write_then_clear_tx_caches ms = Some ms'"
  shows "head_state ms' = head_state ms"
proof -
  have "map (\<lambda>(n, kv). (n, persistent_store kv)) kvs' = map (\<lambda>(n, kv). (n, persistent_store kv)) kvs"
    if "write_all_tx_caches kvs = Some kvs'" for kvs kvs'
    using that
    by (induction kvs arbitrary: kvs')
      (auto simp: bind_eq_Some_conv write_then_clear_tx_cache_def)
  then show ?thesis
    using assms by (auto simp: write_then_clear_tx_caches_def head_state_def)
qed

lemma tx_only_head:
  assumes "clean (ctx_multi_store ctx)" "tx_only ctx ctx'"
  shows "head_state (ctx_multi_store ctx') = head_state (ctx_multi_store ctx)"
  using tx_only_clean(2) [OF assms] clear_head by metis

lemma new_tx_ctx_store [simp]: "new_tx_ctx nd ms raw = Some ctx \<Longrightarrow> ctx_multi_store ctx = ms"
  by (auto simp: new_tx_ctx_def tx_context_new_def)

section \<open>Blocks\<close>

text \<open>What happens to a node between two commits: blocks begin and transactions arrive.\<close>

inductive block_step ::
  "'db host \<Rightarrow> ('db, 'm, 'g) app \<Rightarrow> 'db app_node \<Rightarrow> 'db app_node \<Rightarrow> bool" for H app where
  begin_step: "begin_block nd header = Some nd' \<Longrightarrow> block_step H app nd nd'"
| deliver_step: "deliver_tx H app nd raw = Some (res, nd') \<Longrightarrow> block_step H app nd nd'"

lemma deliver_tx_run:
  assumes "deliver_tx H app nd raw = Some (res, nd')"
  obtains r where "run_tx H app nd raw = Some (r, nd')" "rtx_code res = 0 \<longleftrightarrow> (\<exists>es. r = Inr es)"
proof -
  from assms obtain r where "run_tx H app nd raw = Some (r, nd')"
    "res = (case r of
         Inr events \<Rightarrow> \<lparr> rtx_code = 0, rtx_log = [], rtx_gas_wanted = 0, rtx_events = events \<rparr>
       | Inl e \<Rightarrow> \<lparr> rtx_code = app_error_code e, rtx_log = app_error_text (app_tree_text app) e,
           rtx_gas_wanted = 0, rtx_events = [] \<rparr>)"
    by (auto simp: deliver_tx_def bind_eq_Some_conv)
  with that show thesis by (cases r) (auto simp: app_error_code_def)
qed

section \<open>The contract of an application\<close>

text \<open>The total of a denomination over all addresses, of which there are finitely many.\<close>

definition total_of :: "ledger \<Rightarrow> denom \<Rightarrow> nat" where
  "total_of bal d = holdings bal {a. addr_ok a} d"

lemma finite_addrs: "finite {a. addr_ok a}"
proof -
  have "{a. addr_ok a} \<subseteq> AccAddress ` {xs. set xs \<subseteq> UNIV \<and> length xs \<le> 255}"
    by (auto simp: addr_ok_def image_iff) (metis acc_address.exhaust addr_bytes.simps)
  then show ?thesis by (rule finite_subset) (intro finite_imageI finite_lists_length_le finite)
qed

lemma spec_send_total:
  assumes "addr_ok a" "addr_ok b" "spec_send bal a b cs = Some (r, bal')"
  shows "total_of bal' d = total_of bal d"
  unfolding total_of_def using spec_send_holdings [OF finite_addrs _ _ assms(3)] assms by simp

text \<open>
  The stores of a node hold a ledger and accounts: the relation of the keepers, in every context
  over its multi store.
\<close>

definition node_rel ::
  "(ctx \<Rightarrow> ledger \<Rightarrow> (acc_address \<Rightarrow> account option) \<Rightarrow> bool) \<Rightarrow> multistore \<Rightarrow>
     ledger \<Rightarrow> (acc_address \<Rightarrow> account option) \<Rightarrow> bool" where
  "node_rel R ms bal accs \<longleftrightarrow> clean ms \<and>
     (\<forall>h header raw. R (TxContext (tx_context_new ms h header raw)) bal accs)"

lemma node_rel_ctx:
  "node_rel R ms bal accs \<Longrightarrow> new_tx_ctx nd ms raw = Some ctx \<Longrightarrow> R ctx bal accs"
  by (auto simp: node_rel_def new_tx_ctx_def)

locale base_app = ante_keepers H "app_ops app" mok "app_ante app H" R fc
  for H :: "'db host" and app :: "('db, 'm, 'g) app" and mok R fc +
  assumes fc_ok: "R ctx bal accs \<Longrightarrow> addr_ok fc"
    and reads: "R ctx bal accs \<Longrightarrow> same_reads H (ctx_multi_store ctx) (ctx_multi_store ctx') \<Longrightarrow>
      R ctx' bal accs"
    and handler: "R ctx bal accs \<Longrightarrow> mok m \<Longrightarrow> app_handle_tx app H ctx m = Some (r, ctx') \<Longrightarrow>
      \<exists>bal' accs'. R ctx' bal' accs' \<and> tx_only ctx ctx' \<and> evolves accs accs' \<and>
        (\<forall>d. total_of bal' d = total_of bal d)"
begin

lemma node_rel_write:
  assumes "R c bal accs" "ms_ok (ctx_multi_store c)"
    and "write_then_clear_tx_caches (ctx_multi_store c) = Some ms"
  shows "node_rel R ms bal accs"
  unfolding node_rel_def
proof (intro conjI allI)
  show "clean ms" by (rule write_clean [OF assms(2,3)])
  show "R (TxContext (tx_context_new ms h header raw)) bal accs" for h header raw
    by (rule reads [OF assms(1)]) (simp add: write_clean [OF assms(2,3)] tx_context_new_def)
qed

lemma run_msgs_effect:
  assumes "R ctx bal accs" "\<forall>m \<in> set msgs. mok m" "run_msgs (app_handle_tx app H) ctx msgs = Some (r, ctx')"
  obtains bal' accs' where "R ctx' bal' accs'" "tx_only ctx ctx'" "evolves accs accs'"
    "\<And>d. total_of bal' d = total_of bal d"
proof -
  have "\<exists>bal' accs'. R ctx' bal' accs' \<and> tx_only ctx ctx' \<and> evolves accs accs' \<and>
      (\<forall>d. total_of bal' d = total_of bal d)"
    using assms
  proof (induction msgs arbitrary: ctx bal accs)
    case (Cons m msgs)
    obtain x c where c: "app_handle_tx app H ctx m = Some (x, c)"
      "c = ctx' \<or> run_msgs (app_handle_tx app H) c msgs = Some (r, ctx')"
      by (rule and_then_step [OF Cons.prems(3) [unfolded run_msgs.simps]]) blast
    from handler [OF Cons.prems(1) _ c(1)] Cons.prems(2) obtain bal1 accs1 where h:
      "R c bal1 accs1" "tx_only ctx c" "evolves accs accs1" "\<forall>d. total_of bal1 d = total_of bal d"
      by auto
    show ?case
    proof (cases "c = ctx'")
      case True
      then show ?thesis using h by blast
    next
      case False
      with c(2) Cons.IH [OF h(1)] Cons.prems(2) obtain bal2 accs2 where
        "R ctx' bal2 accs2" "tx_only c ctx'" "evolves accs1 accs2"
        "\<forall>d. total_of bal2 d = total_of bal1 d" by auto
      then show ?thesis using h(4) tx_only_trans [OF h(2)] evolves_trans [OF h(3)] by metis
    qed
  next
    case Nil
    then show ?case by (intro exI [of _ bal] exI [of _ accs]) simp
  qed
  then show thesis using that by blast
qed

lemma ante_total:
  assumes s: "R ctx bal accs" and ok: "tx_ok mok (twr_tx tx)"
    and run: "ante_run H (app_ops app) (app_ante app H) ctx tx = Some (r, ctx')"
  obtains bal' accs' where "R ctx' bal' accs'" "tx_only ctx ctx'" "evolves accs accs'"
    "\<And>d. total_of bal' d = total_of bal d"
proof -
  obtain bal' accs' where e: "R ctx' bal' accs'" "tx_only ctx ctx'" "evolves accs accs'"
    "bal' = bal \<or> (\<exists>payer fee b. get_fee_payer H (app_ops app) (twr_tx tx) = Some payer \<and>
       get_fee (twr_tx tx) = Some fee \<and>
       spec_send bal payer fc (coin_list fee) = Some (b, bal'))"
    by (rule ante_run_effect [OF s ok run])
  then have "total_of bal' d = total_of bal d" for d
    using spec_send_total fee_payer_ok [OF s ok] fc_ok [OF s] by blast
  with e(1-3) that show thesis by blast
qed

lemma decoded_ok:
  assumes "tx_with_raw_from_bytes H (app_ops app) raw = Some (Inr tx)"
  shows "tx_ok mok (twr_tx tx)" "m \<in> set (get_msgs (twr_tx tx)) \<Longrightarrow> mok m"
proof -
  from assms obtain t where "tx_try_from H (app_ops app) t = Some (Inr (twr_tx tx))"
    by (auto simp: tx_with_raw_from_bytes_def try_bind_Inr_conv proto_decode_def split: sum.splits)
  then show "tx_ok mok (twr_tx tx)" by (rule tx_from_ok)
  then show "m \<in> set (get_msgs (twr_tx tx)) \<Longrightarrow> mok m" by (simp add: tx_ok_def)
qed

text \<open>
  A transaction keeps the relation, the totals and the life of the accounts; a failed one leaves
  the node as it was or with the effects of its ante checks alone.
\<close>

lemma run_tx_effect:
  assumes s: "node_rel R (nd_multi_store nd) bal accs" and db: "nd_db nd = host_state H"
    and run: "run_tx H app nd raw = Some (r, nd')"
  obtains bal' accs' where "node_rel R (nd_multi_store nd') bal' accs'" "evolves accs accs'"
    "\<And>d. total_of bal' d = total_of bal d"
    "nd_db nd' = nd_db nd" "nd_height nd' = nd_height nd" "nd_block_header nd' = nd_block_header nd"
    "head_state (nd_multi_store nd') = head_state (nd_multi_store nd)"
proof -
  have H: "node_host H nd = H" using db by (simp add: node_host_def)
  have c: "clean (nd_multi_store nd)" using s by (simp add: node_rel_def)
  note result = that
  have step: thesis if "nd' = set_multi_store nd ms" "node_rel R ms b a" "evolves accs a"
    "\<And>d. total_of b d = total_of bal d" "head_state ms = head_state (nd_multi_store nd)" for ms b a
    using that result [of b a] by simp
  from run show thesis
  proof (cases rule: run_tx_cases)
    case (rejected e)
    then show thesis using step [of "nd_multi_store nd" bal accs] s by simp
  next
    case (ante tx ctx e c1)
    have "R ctx bal accs" by (rule node_rel_ctx [OF s ante(2)])
    from ante_run_effect [OF this decoded_ok(1) [OF ante(1)] ante(3) [unfolded H]]
    have "tx_only ctx c1" .
    with tx_only_clean(2) [of ctx c1] c ante(2) have
      "clear_tx_caches (ctx_multi_store c1) = nd_multi_store nd" by simp
    then show thesis using step [of "nd_multi_store nd" bal accs] s ante(5) by simp
  next
    case (msgs tx ctx c1 ms ctx2 e c2)
    have r: "R ctx bal accs" by (rule node_rel_ctx [OF s msgs(2)])
    obtain bal1 accs1 where e: "R c1 bal1 accs1" "tx_only ctx c1" "evolves accs accs1"
      "\<forall>d. total_of bal1 d = total_of bal d"
      using ante_total [OF r decoded_ok(1) [OF msgs(1)] msgs(3) [unfolded H]] by metis
    have "ms_ok (ctx_multi_store c1)" using tx_only_clean(1) [OF _ e(2)] c msgs(2) by simp
    from node_rel_write [OF e(1) this msgs(4)] have n: "node_rel R ms bal1 accs1" .
    obtain bal2 accs2 where "tx_only ctx2 c2"
      by (rule run_msgs_effect [OF node_rel_ctx [OF n msgs(5)] _ msgs(6) [unfolded H]])
        (use decoded_ok(2) [OF msgs(1)] in auto)
    with tx_only_clean(2) [of ctx2 c2] n msgs(5) have
      "clear_tx_caches (ctx_multi_store c2) = ms" by (simp add: node_rel_def)
    moreover have "head_state ms = head_state (nd_multi_store nd)"
      using write_head [OF msgs(4)] tx_only_head [OF _ e(2)] c msgs(2) by simp
    ultimately show thesis using step [of ms bal1 accs1] n e msgs(8) by simp
  next
    case (executed tx ctx c1 ms ctx2 c2 ms2)
    have r: "R ctx bal accs" by (rule node_rel_ctx [OF s executed(2)])
    obtain bal1 accs1 where e: "R c1 bal1 accs1" "tx_only ctx c1" "evolves accs accs1"
      "\<forall>d. total_of bal1 d = total_of bal d"
      using ante_total [OF r decoded_ok(1) [OF executed(1)] executed(3) [unfolded H]] by metis
    have "ms_ok (ctx_multi_store c1)" using tx_only_clean(1) [OF _ e(2)] c executed(2) by simp
    from node_rel_write [OF e(1) this executed(4)] have n: "node_rel R ms bal1 accs1" .
    have "\<forall>m \<in> set (get_msgs (twr_tx tx)). mok m" using decoded_ok(2) [OF executed(1)] by blast
    from run_msgs_effect [OF node_rel_ctx [OF n executed(5)] this executed(6) [unfolded H]]
    obtain bal2 accs2 where f: "R c2 bal2 accs2" "tx_only ctx2 c2" "evolves accs1 accs2"
      "\<forall>d. total_of bal2 d = total_of bal1 d" by metis
    have "ms_ok (ctx_multi_store c2)" using tx_only_clean(1) [OF _ f(2)] n executed(5)
      by (simp add: node_rel_def)
    note n2 = node_rel_write [OF f(1) this executed(7)]
    have "head_state ms = head_state (nd_multi_store nd)"
      using write_head [OF executed(4)] tx_only_head [OF _ e(2)] c executed(2) by simp
    moreover have "head_state ms2 = head_state ms"
      using write_head [OF executed(7)] tx_only_head [OF _ f(2)] n executed(5)
      by (simp add: node_rel_def)
    ultimately show thesis
      by (intro step [OF executed(9) n2 evolves_trans [OF e(3) f(3)]]) (simp_all add: e(4) f(4))
  qed
qed

lemma failed_tx_keeps:
  assumes s: "node_rel R (nd_multi_store nd) bal accs" and db: "nd_db nd = host_state H"
    and run: "run_tx H app nd raw = Some (Inl e, nd')"
  shows "nd' = nd \<or> (\<exists>tx ctx c1 ms. tx_with_raw_from_bytes H (app_ops app) raw = Some (Inr tx) \<and>
     new_tx_ctx nd (nd_multi_store nd) raw = Some ctx \<and>
     ante_run H (app_ops app) (app_ante app H) ctx tx = Some (Inr (), c1) \<and>
     write_then_clear_tx_caches (ctx_multi_store c1) = Some ms \<and> nd' = set_multi_store nd ms)"
proof -
  have H: "node_host H nd = H" using db by (simp add: node_host_def)
  have c: "clean (nd_multi_store nd)" using s by (simp add: node_rel_def)
  from run show ?thesis
  proof (cases rule: run_tx_cases)
    case (ante tx ctx e c1)
    have "R ctx bal accs" by (rule node_rel_ctx [OF s ante(2)])
    from ante_run_effect [OF this decoded_ok(1) [OF ante(1)] ante(3) [unfolded H]]
    have "tx_only ctx c1" .
    with tx_only_clean(2) [of ctx c1] c ante(2) have
      "clear_tx_caches (ctx_multi_store c1) = nd_multi_store nd" by simp
    then show ?thesis using ante(5) by simp
  next
    case (msgs tx ctx c1 ms ctx2 e c2)
    have r: "R ctx bal accs" by (rule node_rel_ctx [OF s msgs(2)])
    obtain bal1 accs1 where e: "R c1 bal1 accs1" "tx_only ctx c1"
      by (rule ante_total [OF r decoded_ok(1) [OF msgs(1)] msgs(3) [unfolded H]])
    have "ms_ok (ctx_multi_store c1)" using tx_only_clean(1) [OF _ e(2)] c msgs(2) by simp
    from node_rel_write [OF e(1) this msgs(4)] have n: "node_rel R ms bal1 accs1" .
    obtain bal2 accs2 where "tx_only ctx2 c2"
      by (rule run_msgs_effect [OF node_rel_ctx [OF n msgs(5)] _ msgs(6) [unfolded H]])
        (use decoded_ok(2) [OF msgs(1)] in auto)
    with tx_only_clean(2) [of ctx2 c2] n msgs(5) have
      "clear_tx_caches (ctx_multi_store c2) = ms" by (simp add: node_rel_def)
    then show ?thesis using msgs H by metis
  qed auto
qed

lemma block_step_effect:
  assumes s: "node_rel R (nd_multi_store nd) bal accs" and db: "nd_db nd = host_state H"
    and step: "block_step H app nd nd'"
  obtains bal' accs' where "node_rel R (nd_multi_store nd') bal' accs'" "evolves accs accs'"
    "\<forall>d. total_of bal' d = total_of bal d" "nd_db nd' = nd_db nd" "nd_height nd' = nd_height nd"
    "head_state (nd_multi_store nd') = head_state (nd_multi_store nd)"
  using step
proof (cases rule: block_step.cases)
  case (begin_step header)
  then show thesis
    using that [of bal accs] s by (auto simp: begin_block_def set_block_header_def)
next
  case (deliver_step raw res)
  then obtain r where run: "run_tx H app nd raw = Some (r, nd')" by (rule deliver_tx_run)
  from run_tx_effect [OF s db run] show thesis using that by metis
qed

lemma block_effect:
  assumes "node_rel R (nd_multi_store nd) bal accs" "nd_db nd = host_state H"
    and "(block_step H app)\<^sup>*\<^sup>* nd nd'"
  obtains bal' accs' where "node_rel R (nd_multi_store nd') bal' accs'" "evolves accs accs'"
    "\<forall>d. total_of bal' d = total_of bal d" "nd_db nd' = nd_db nd" "nd_height nd' = nd_height nd"
    "head_state (nd_multi_store nd') = head_state (nd_multi_store nd)"
proof -
  from assms(3,1,2) have "\<exists>bal' accs'. node_rel R (nd_multi_store nd') bal' accs' \<and>
      evolves accs accs' \<and> (\<forall>d. total_of bal' d = total_of bal d) \<and> nd_db nd' = nd_db nd \<and>
      nd_height nd' = nd_height nd \<and> head_state (nd_multi_store nd') = head_state (nd_multi_store nd)"
  proof (induction rule: rtranclp_induct)
    case base
    then show ?case by (intro exI [of _ bal] exI [of _ accs]) simp
  next
    case (step nd1 nd2)
    then obtain bal1 accs1 where i: "node_rel R (nd_multi_store nd1) bal1 accs1"
      "evolves accs accs1" "\<forall>d. total_of bal1 d = total_of bal d" "nd_db nd1 = nd_db nd"
      "nd_height nd1 = nd_height nd" "head_state (nd_multi_store nd1) = head_state (nd_multi_store nd)"
      by blast
    have "nd_db nd1 = host_state H" using i(4) step.prems by simp
    from block_step_effect [OF i(1) this step.hyps(2)] obtain bal2 accs2 where
      "node_rel R (nd_multi_store nd2) bal2 accs2" "evolves accs1 accs2"
      "\<forall>d. total_of bal2 d = total_of bal1 d" "nd_db nd2 = nd_db nd1" "nd_height nd2 = nd_height nd1"
      "head_state (nd_multi_store nd2) = head_state (nd_multi_store nd1)" by metis
    then show ?case using i evolves_trans [OF i(2)]
      by (intro exI [of _ bal2] exI [of _ accs2]) simp
  qed
  then show thesis using that by blast
qed

text \<open>An executed transaction is spent, and a spent one does not execute.\<close>

lemma executed_spent:
  assumes s: "node_rel R (nd_multi_store nd) bal accs" and db: "nd_db nd = host_state H"
    and run: "run_tx H app nd raw = Some (Inr es, nd1)"
  obtains tx bal1 accs1 where "tx_with_raw_from_bytes H (app_ops app) raw = Some (Inr tx)"
    "node_rel R (nd_multi_store nd1) bal1 accs1" "spent H (app_ops app) (twr_tx tx) accs1"
    "evolves accs accs1"
proof -
  have H: "node_host H nd = H" using db by (simp add: node_host_def)
  have c: "clean (nd_multi_store nd)" using s by (simp add: node_rel_def)
  from run obtain tx ctx c1 ms ctx2 c2 ms2 where x:
    "tx_with_raw_from_bytes H (app_ops app) raw = Some (Inr tx)"
    "new_tx_ctx nd (nd_multi_store nd) raw = Some ctx"
    "ante_run H (app_ops app) (app_ante app H) ctx tx = Some (Inr (), c1)"
    "write_then_clear_tx_caches (ctx_multi_store c1) = Some ms" "new_tx_ctx nd ms raw = Some ctx2"
    "run_msgs (app_handle_tx app H) ctx2 (get_msgs (twr_tx tx)) = Some (Inr (), c2)"
    "write_then_clear_tx_caches (ctx_multi_store c2) = Some ms2" "nd1 = set_multi_store nd ms2"
    by (cases rule: run_tx_cases) (auto simp: H)
  have r: "R ctx bal accs" by (rule node_rel_ctx [OF s x(2)])
  have ok: "tx_ok mok (twr_tx tx)" "\<forall>m \<in> set (get_msgs (twr_tx tx)). mok m"
    using decoded_ok [OF x(1)] by blast+
  obtain bal1 accs1 where n: "R c1 bal1 accs1" "tx_only ctx c1" "spent H (app_ops app) (twr_tx tx) accs1"
    "evolves accs accs1"
    by (rule success_spends [OF r ok(1) x(3)]) blast
  from tx_only_clean(1) [OF _ n(2)] have "ms_ok (ctx_multi_store c1)" using c x(2) by simp
  from node_rel_write [OF n(1) this x(4)] have w: "node_rel R ms bal1 accs1" .
  from run_msgs_effect [OF node_rel_ctx [OF w x(5)] ok(2) x(6)] obtain bal2 accs2 where
    f: "R c2 bal2 accs2" "tx_only ctx2 c2" "evolves accs1 accs2" by metis
  have "ms_ok (ctx_multi_store c2)" using tx_only_clean(1) [OF _ f(2)] w x(5)
    by (simp add: node_rel_def)
  from node_rel_write [OF f(1) this x(7)] have "node_rel R (nd_multi_store nd1) bal2 accs2"
    using x(8) by simp
  with that [OF x(1) _ spent_evolves [OF n(3) f(3)] evolves_trans [OF n(4) f(3)]] show thesis by blast
qed

lemma spent_not_executed:
  assumes s: "node_rel R (nd_multi_store nd) bal accs" and db: "nd_db nd = host_state H"
    and tx: "tx_with_raw_from_bytes H (app_ops app) raw = Some (Inr tx)"
      "spent H (app_ops app) (twr_tx tx) accs"
  shows "run_tx H app nd raw \<noteq> Some (Inr es, nd')"
proof
  assume run: "run_tx H app nd raw = Some (Inr es, nd')"
  have H: "node_host H nd = H" using db by (simp add: node_host_def)
  from run obtain tx' ctx c where y:
    "tx_with_raw_from_bytes H (app_ops app) raw = Some (Inr tx')"
    "new_tx_ctx nd (nd_multi_store nd) raw = Some ctx"
    "ante_run H (app_ops app) (app_ante app H) ctx tx' = Some (Inr (), c)"
    by (cases rule: run_tx_cases) (auto simp: H)
  have "tx' = tx" using tx(1) y(1) by simp
  with spent_fails [OF node_rel_ctx [OF s y(2)] decoded_ok(1) [OF tx(1)] tx(2)] y(3)
  show False by simp
qed

end

end
