(* ===== verification/Gaia.thy ===== *)
theory Gaia
  imports Base_App
begin

text \<open>
  The application of \<open>src/gaia-rs\<close>: store keys, message type, genesis and handler over the bank
  and auth modules, and the keepers as \<open>src/gaia-rs/src/main.rs\<close> puts them together. Here the
  interfaces of the lower layers are interpreted: \<open>message_interface\<close> on the message type and
  \<open>base_app\<close> (with \<open>ante_keepers\<close>) on the keepers and the handler.
\<close>

section \<open>Store keys\<close>

datatype gaia_store_key = BankKey | AuthKey | ParamsKey

fun store_key_name :: "gaia_store_key \<Rightarrow> bytes" where
  "store_key_name BankKey = lit ''bank''"
| "store_key_name AuthKey = lit ''acc''"
| "store_key_name ParamsKey = lit ''params''"

definition store_key_from_name :: "bytes \<Rightarrow> gaia_store_key option" where
  "store_key_from_name name =
     (if name = lit ''bank'' then Some BankKey
      else if name = lit ''acc'' then Some AuthKey
      else if name = lit ''params'' then Some ParamsKey
      else None)"

datatype gaia_params_key = BankParams | AuthParams | BaseAppParams

fun params_key_name :: "gaia_params_key \<Rightarrow> bytes" where
  "params_key_name BankParams = lit ''bank/''"
| "params_key_name AuthParams = lit ''auth/''"
| "params_key_name BaseAppParams = lit ''baseapp/''"

definition params_key_from_name :: "bytes \<Rightarrow> gaia_params_key option" where
  "params_key_from_name name =
     (if name = lit ''bank/'' then Some BankParams
      else if name = lit ''auth/'' then Some AuthParams
      else if name = lit ''baseapp/'' then Some BaseAppParams
      else None)"

text \<open>\<open>SK::iter()\<close>, in the order of the variants.\<close>

definition gaia_store_names :: "bytes list" where
  "gaia_store_names = map store_key_name [BankKey, AuthKey, ParamsKey]"

section \<open>Messages\<close>

datatype gaia_message = Bank bank_message

fun gaia_into_any :: "'a libs_scheme \<Rightarrow> gaia_message \<Rightarrow> any_message option" where
  "gaia_into_any L (Bank msg) = any_from_bank_message L msg"

definition gaia_try_from :: "'a libs_scheme \<Rightarrow> any_message \<Rightarrow> (proto_error + gaia_message) option" where
  "gaia_try_from L any =
     (if starts_with (lit ''/cosmos.bank'') (type_url any)
      then try_bind (bank_message_try_from L any) (\<lambda>msg. Some (Inr (Bank msg)))
      else Some (Inl (DecodeGeneral (lit ''message type not recognized''))))"

fun gaia_get_signers :: "gaia_message \<Rightarrow> acc_address list" where
  "gaia_get_signers (Bank msg) = bank_get_signers msg"

fun gaia_validate_basic :: "gaia_message \<Rightarrow> bytes + unit" where
  "gaia_validate_basic (Bank msg) = bank_validate_basic msg"

definition gaia_ops :: "'a libs_scheme \<Rightarrow> gaia_message message_ops" where
  "gaia_ops L = \<lparr> msg_signers = gaia_get_signers, msg_validate_basic = gaia_validate_basic,
     msg_into_any = gaia_into_any L, msg_try_from = gaia_try_from L \<rparr>"

section \<open>Keepers and handler\<close>

definition gaia_params_keeper :: params_keeper where
  "gaia_params_keeper = \<lparr> pk_store_key = store_key_name ParamsKey \<rparr>"

definition gaia_auth_keeper :: auth_keeper where
  "gaia_auth_keeper = \<lparr> ak_store_key = store_key_name AuthKey, ak_params_keeper =
     \<lparr> ap_params_keeper = gaia_params_keeper, ap_subspace_key = params_key_name AuthParams \<rparr> \<rparr>"

definition gaia_bank_keeper :: bank_keeper where
  "gaia_bank_keeper = \<lparr> bk_store_key = store_key_name BankKey, bk_params_keeper =
     \<lparr> bp_params_keeper = gaia_params_keeper, bp_subspace_key = params_key_name BankParams \<rparr>,
     bk_auth_keeper = gaia_auth_keeper \<rparr>"

definition gaia_baseapp_params_keeper :: baseapp_params_keeper where
  "gaia_baseapp_params_keeper = \<lparr> ba_params_keeper = gaia_params_keeper,
     ba_subspace_key = params_key_name BaseAppParams \<rparr>"

record gaia_genesis =
  gs_bank :: bank_genesis
  gs_auth :: auth_genesis

definition gaia_genesis_default :: "'a libs_scheme \<Rightarrow> gaia_genesis option" where
  "gaia_genesis_default L = do {
     address \<leftarrow> unwrap_result (Some (from_bech32 L (lit ''cosmos1syavy2npfyt9tcncdtsdzf7kny9lh777pahuux'')));
     d \<leftarrow> unwrap_result (Some (denom_try_from (lit ''uatom'')));
     Some \<lparr> gs_bank = \<lparr>
         bg_balances = [\<lparr> bb_address = address, bb_coins = [\<lparr> coin_denom = d, coin_amount = 34 \<rparr>] \<rparr>],
         bg_params = \<lparr> default_send_enabled = True \<rparr> \<rparr>,
       gs_auth = \<lparr>
         ag_accounts = [\<lparr> ba_address = address, ba_pub_key = None, ba_account_number = 0,
           ba_sequence = 0 \<rparr>],
         ag_params = \<lparr> max_memo_characters = 256, tx_sig_limit = 7, tx_size_cost_per_byte = 10,
           sig_verify_cost_ed25519 = 590, sig_verify_cost_secp256k1 = 1000 \<rparr> \<rparr> \<rparr> }"

fun gaia_handle_tx :: "'db host \<Rightarrow> ctx \<Rightarrow> gaia_message \<Rightarrow> (app_error, unit, ctx) outcome" where
  "gaia_handle_tx H ctx (Bank msg) = bank_handle H gaia_bank_keeper ctx msg"

definition gaia_handle_init_genesis :: "'db host \<Rightarrow> ctx \<Rightarrow> gaia_genesis \<Rightarrow> ctx option" where
  "gaia_handle_init_genesis H ctx genesis = do {
     ctx \<leftarrow> bank_init_genesis H gaia_bank_keeper ctx (gs_bank genesis);
     auth_init_genesis H gaia_auth_keeper ctx (gs_auth genesis) }"

definition gaia_handle_query ::
  "'db host \<Rightarrow> query_context \<Rightarrow> request_query \<Rightarrow> (app_error + bytes) option" where
  "gaia_handle_query H ctx query =
     (if starts_with (lit ''/cosmos.auth'') (query_path query)
      then auth_handle_query H gaia_auth_keeper ctx query
      else if starts_with (lit ''/cosmos.bank'') (query_path query)
      then bank_handle_query H gaia_bank_keeper ctx query
      else Some (Inl (InvalidRequest (lit ''query path not found''))))"

text \<open>The keepers as implementations of the traits of the ante handler.\<close>

definition gaia_ante :: "'db host \<Rightarrow> ante_handler" where
  "gaia_ante H = \<lparr>
     ante_bank_keeper = \<lparr> bt_send_coins_from_account_to_module =
       send_coins_from_account_to_module H gaia_bank_keeper \<rparr>,
     ante_auth_keeper = \<lparr> at_get_auth_params = auth_get_auth_params H gaia_auth_keeper,
       at_has_account = auth_has_account H gaia_auth_keeper,
       at_get_account = auth_get_account H gaia_auth_keeper,
       at_set_account = auth_set_account H gaia_auth_keeper \<rparr> \<rparr>"

text \<open>
  The application; what comes from serde, the environment of the build and the network is the
  record \<open>env\<close>.
\<close>

record gaia_env =
  env_json :: json
  env_parse_genesis :: "bytes \<Rightarrow> bytes + gaia_genesis"
  env_tree_text :: "trees_error \<Rightarrow> bytes"
  env_app_name :: bytes
  env_version :: bytes
  env_peer_id :: bytes

definition gaia_app :: "'db host \<Rightarrow> gaia_env \<Rightarrow> ('db, gaia_message, gaia_genesis) app" where
  "gaia_app H env = \<lparr> app_ops = gaia_ops H, app_ante = gaia_ante, app_handle_tx = gaia_handle_tx,
     app_handle_init_genesis = gaia_handle_init_genesis, app_handle_query = gaia_handle_query,
     app_params_keeper = gaia_baseapp_params_keeper, app_json = env_json env,
     app_parse_genesis = env_parse_genesis env, app_store_names = gaia_store_names,
     app_tree_text = env_tree_text env, app_name = env_app_name env, app_version = env_version env,
     app_peer_id = env_peer_id env \<rparr>"

section \<open>The message interface\<close>

fun gaia_message_ok :: "gaia_message \<Rightarrow> bool" where
  "gaia_message_ok (Bank (Send msg)) = msg_send_ok msg"

interpretation gm: message_interface L "gaia_ops L" gaia_message_ok for L :: "'a libs_scheme"
proof
  fix m
  assume L: "message_libs_ok L" and ok: "gaia_message_ok m"
  obtain msg where m: "m = Bank (Send msg)" by (cases m rule: gaia_message_ok.cases)
  note l = message_libs_okD [OF L]
  from ok m have "msg_send_ok msg" by simp
  then obtain raw where raw: "raw_from_msg_send L msg = Some raw" "msg_send_try_from L raw = Inr msg"
    by (rule msg_send_round_trip [OF l(1,2)])
  have "proto_decode L (pb_msg_send L) (\<lambda>raw. Some (msg_send_try_from L raw))
      (pb_encode (pb_msg_send L) raw) = Some (Inr msg)"
    by (rule proto_decode_encode [OF l(5)]) (simp add: raw)
  moreover have "starts_with (lit ''/cosmos.bank'') MSG_SEND_URL"
    by (simp add: starts_with_def MSG_SEND_URL_def)
  ultimately show "\<exists>any. msg_into_any (gaia_ops L) m = Some any \<and>
      msg_try_from (gaia_ops L) any = Some (Inr m)"
    using raw m by (simp add: gaia_ops_def gaia_try_from_def bank_message_try_from_def)
next
  fix any m
  assume "msg_try_from (gaia_ops L) any = Some (Inr m)"
  then obtain b where "bank_message_try_from L any = Some (Inr b)" "m = Bank b"
    by (auto simp: gaia_ops_def gaia_try_from_def try_bind_Inr_conv split: if_splits)
  then show "gaia_message_ok m" by (cases b) (auto dest: bank_message_try_from_ok)
next
  fix m a
  assume "gaia_message_ok m" "a \<in> set (msg_signers (gaia_ops L) m)"
  then show "addr_ok a"
    by (cases m rule: gaia_message_ok.cases) (simp add: gaia_ops_def msg_send_ok_def)
qed

section \<open>The application interface\<close>

text \<open>Running out of account numbers is a panic.\<close>

lemma next_account_number_overflow:
  assumes "auth_state H ak ctx accs n" "\<not> Suc (unat n) < 2 ^ 64" "account_codecs_ok H"
  shows "get_next_account_number H ak ctx = None"
proof -
  from assms(1) obtain f where f: "ctx_view H (ak_store_key ak) ctx f" "auth_rel H f accs n"
    by (auto simp: auth_state_def)
  have "n \<noteq> 0" using assms(2) by (intro notI) simp
  then show ?thesis
    using f(2) assms(2) view_read [OF f(1)]
    by (auto simp: get_next_account_number_def auth_rel_def checked_add_def bind_eq_None_conv
        split: option.splits)
qed

lemma create_account_bound:
  assumes "create_new_base_account H ak ctx a = Some ctx'" "auth_state H ak ctx accs n"
    "account_codecs_ok H"
  shows "Suc (unat n) < 2 ^ 64"
proof (rule ccontr)
  assume "\<not> ?thesis"
  from next_account_number_overflow [OF assms(2) this assms(3)] assms(1) show False
    by (simp add: create_new_base_account_def)
qed

lemma create_module_bound:
  assumes "check_create_new_module_account H ak ctx md = Some ctx'" "auth_state H ak ctx accs n"
    "account_codecs_ok H" "module_get_address H md = Some a" "accs a = None"
  shows "Suc (unat n) < 2 ^ 64"
proof (rule ccontr)
  assume "\<not> ?thesis"
  from next_account_number_overflow [OF assms(2) this assms(3)] assms(1,4,5)
    has_account_refines [OF assms(2), of a] show False
    by (simp add: check_create_new_module_account_def)
qed

lemma libs_ok_codecs: "libs_ok H \<Longrightarrow> account_codecs_ok H" "libs_ok H \<Longrightarrow> bech32_ok H"
  by (simp_all add: libs_ok_def auth_libs_ok_def)

text \<open>A payment that returns, with no condition on the account numbers.\<close>

lemma payment_effect:
  assumes L: "libs_ok H" and s: "app_state H bk ctx bal accs n" and m: "msg_send_ok msg"
    and inv: "auth_inv accs n"
    and run: "send_coins_from_account_to_account H bk ctx msg = Some (r, ctx')"
  obtains b bal' accs' n' where
    "spec_send bal (from_address msg) (to_address msg) (coin_list (msg_amount msg)) = Some (b, bal')"
    "tx_only ctx ctx'" "app_state H bk ctx' bal' accs' n'" "auth_inv accs' n'" "evolves accs accs'"
    "r = (if b then Inr () else Inl insufficient_funds)"
proof -
  let ?to = "to_address msg"
  let ?spec = "spec_send bal (from_address msg) ?to (coin_list (msg_amount msg))"
  note sent = send_coins_app [OF L s m]
  obtain b bal' where spec: "?spec = Some (b, bal')"
  proof (cases ?spec)
    case None
    with sent run show thesis by (simp add: send_coins_from_account_to_account_def)
  next
    case (Some p)
    with that show thesis by (cases p) simp
  qed
  from sent spec obtain c1 where c1: "bank_send_coins H bk ctx msg
      = Some (if b then Inr () else Inl insufficient_funds, c1)" "app_state H bk c1 bal' accs n" by auto
  have n: "Suc (unat n) < 2 ^ 64" if b: b and none: "accs ?to = None"
  proof -
    have a: "auth_state H (bk_auth_keeper bk) c1 accs n" using c1(2) by (simp add: app_state_def)
    obtain ctx2 where "create_new_base_account H (bk_auth_keeper bk) c1 ?to = Some ctx2"
      using run b none c1(1) has_account_refines [OF a, of ?to]
      by (auto simp: send_coins_from_account_to_account_def bind_eq_Some_conv)
    then show ?thesis by (rule create_account_bound [OF _ a libs_ok_codecs(1) [OF L]])
  qed
  show thesis
  proof (cases "b \<and> accs ?to = None")
    case True
    then have nb: "Suc (unat n) < 2 ^ 64" using n by blast
    have ok: "addr_ok ?to" using m by (simp add: msg_send_ok_def)
    have "auth_inv (accs(?to \<mapsto> new_base ?to n)) (n + 1)"
      by (rule auth_inv_new [OF inv nb _ ok]) (simp_all add: get_address_def get_account_number_def)
    moreover have "evolves accs (accs(?to \<mapsto> new_base ?to n))"
      using True by (intro evolves_map_le) (auto simp: map_le_def)
    ultimately show thesis
      using that [OF spec] send_to_account_app [OF L s m nb] spec True run by auto
  next
    case False
    have "\<exists>ctx2. send_coins_from_account_to_account H bk ctx msg
        = Some (if b then Inr () else Inl insufficient_funds, ctx2) \<and> tx_only ctx ctx2 \<and>
          app_state H bk ctx2 bal' accs n"
    proof (cases b)
      case True
      with False have "accs ?to \<noteq> None" by simp
      then show ?thesis using send_to_account_app [OF L s m] spec True by auto
    next
      case b: False
      with sent spec show ?thesis
        by (auto simp: send_coins_from_account_to_account_def)
    qed
    then show thesis using that [OF spec] run inv by auto
  qed
qed

lemma module_payment_effect:
  assumes L: "libs_ok H" and s: "app_state H bk ctx bal accs n" and inv: "auth_inv accs n"
    and m: "addr_ok a" "send_coins_ok (coin_list amt)" "\<forall>c \<in> set (coin_list amt). coin_ok c"
    and fc: "module_get_address H md = Some fc"
    and run: "send_coins_from_account_to_module H bk ctx a md amt = Some (r, ctx')"
  obtains b bal' accs' n' where "spec_send bal a fc (coin_list amt) = Some (b, bal')"
    "r = Inr () \<longleftrightarrow> b" "tx_only ctx ctx'" "app_state H bk ctx' bal' accs' n'" "auth_inv accs' n'"
    "accs \<subseteq>\<^sub>m accs'" "dom accs' \<subseteq> insert fc (dom accs)"
proof -
  have a: "auth_state H (bk_auth_keeper bk) ctx accs n" using s by (simp add: app_state_def)
  from run obtain c where c: "check_create_new_module_account H (bk_auth_keeper bk) ctx md = Some c"
    by (auto simp: send_coins_from_account_to_module_def bind_eq_Some_conv)
  have n: "Suc (unat n) < 2 ^ 64" if "accs fc = None"
    by (rule create_module_bound [OF c a libs_ok_codecs(1) [OF L] fc that])
  let ?accs = "if accs fc = None then accs(fc \<mapsto> new_module fc n) else accs"
  let ?n = "if accs fc = None then n + 1 else n"
  have ok: "addr_ok fc" using fc from_bech32_ok by (cases md) (auto simp: unwrap_result_Some)
  have "auth_inv ?accs ?n"
    using inv n ok by (auto intro!: auth_inv_new simp: get_address_def get_account_number_def)
  moreover have "accs \<subseteq>\<^sub>m ?accs" "dom ?accs \<subseteq> insert fc (dom accs)"
    by (auto simp: map_le_def)
  moreover from send_to_module_app [OF L s m fc n] run obtain b bal' where
    "spec_send bal a fc (coin_list amt) = Some (b, bal')" "r = Inr () \<longleftrightarrow> b" "tx_only ctx ctx'"
    "app_state H bk ctx' bal' ?accs ?n"
    by (cases "spec_send bal a fc (coin_list amt)") auto
  ultimately show thesis using that by blast
qed

definition gaia_fee_collector :: "'db host \<Rightarrow> acc_address" where
  "gaia_fee_collector H = the (module_get_address H FeeCollector)"

text \<open>
  The stores hold a ledger, and accounts with pairwise different numbers; the crates behave as
  documented and know the fee collector's address.
\<close>

definition gaia_rel ::
  "'db host \<Rightarrow> ctx \<Rightarrow> ledger \<Rightarrow> (acc_address \<Rightarrow> account option) \<Rightarrow> bool" where
  "gaia_rel H ctx bal accs \<longleftrightarrow> libs_ok H \<and> module_get_address H FeeCollector \<noteq> None \<and>
     (\<exists>n. app_state H gaia_bank_keeper ctx bal accs n \<and> auth_inv accs n)"

lemma gaia_relE:
  assumes "gaia_rel H ctx bal accs"
  obtains n where "libs_ok H" "module_get_address H FeeCollector = Some (gaia_fee_collector H)"
    "app_state H gaia_bank_keeper ctx bal accs n" "auth_state H gaia_auth_keeper ctx accs n"
    "auth_inv accs n"
  using assms that
  by (auto simp: gaia_rel_def gaia_fee_collector_def app_state_def gaia_bank_keeper_def)

lemma gaia_fields [simp]:
  "app_ops (gaia_app H env) = gaia_ops H" "app_ante (gaia_app H env) = gaia_ante"
  "app_handle_tx (gaia_app H env) = gaia_handle_tx" "bk_auth_keeper gaia_bank_keeper = gaia_auth_keeper"
  by (simp_all add: gaia_app_def gaia_bank_keeper_def)

lemma view_same_reads:
  assumes "ctx_view H sk ctx f" "same_reads H (ctx_multi_store ctx) (ctx_multi_store ctx')"
  shows "ctx_view H sk ctx' f"
proof -
  have "ctx_read H ctx' sk k = Some (f k)" for k
  proof -
    from view_read [OF assms(1), of k] obtain kv where "get_kv_store (ctx_multi_store ctx) sk = Some kv"
      "kv_read H sk kv k = Some (f k)"
      by (auto simp: ctx_read_def ctx_get_kv_store_def bind_eq_Some_conv)
    with assms(2) show ?thesis
      by (fastforce simp: same_reads_def ctx_read_def ctx_get_kv_store_def)
  qed
  then show ?thesis by (simp add: view_def)
qed

interpretation ga: base_app H "gaia_app H env" gaia_message_ok "gaia_rel H" "gaia_fee_collector H"
  for H :: "'db host" and env
proof
  show "message_libs_ok H \<Longrightarrow> gaia_message_ok m \<Longrightarrow>
      \<exists>any. msg_into_any (app_ops (gaia_app H env)) m = Some any \<and>
        msg_try_from (app_ops (gaia_app H env)) any = Some (Inr m)" for m
    using gm.into_any by simp
  show "msg_try_from (app_ops (gaia_app H env)) any = Some (Inr m) \<Longrightarrow> gaia_message_ok m" for any m
    using gm.from_any by simp
  show "gaia_message_ok m \<Longrightarrow> a \<in> set (msg_signers (app_ops (gaia_app H env)) m) \<Longrightarrow> addr_ok a" for m a
    using gm.signers_ok by simp
next
  fix ctx bal accs
  assume "gaia_rel H ctx bal accs"
  then obtain n where s: "libs_ok H" "module_get_address H FeeCollector = Some (gaia_fee_collector H)"
    "app_state H gaia_bank_keeper ctx bal accs n" "auth_state H gaia_auth_keeper ctx accs n"
    "auth_inv accs n" by (rule gaia_relE)
  show "bech32_ok H" by (rule libs_ok_codecs [OF s(1)])
  show "get_address x = a" if "accs a = Some x" for a x
    using s(5) that by (simp add: auth_inv_def)
  show "at_has_account (ante_auth_keeper (app_ante (gaia_app H env) H)) ctx a = Some (accs a \<noteq> None)" for a
    using has_account_refines [OF s(4)] by (simp add: gaia_ante_def)
  show "at_get_account (ante_auth_keeper (app_ante (gaia_app H env) H)) ctx a = Some (accs a)" for a
    using get_account_refines [OF s(4)] by (simp add: gaia_ante_def)
  show "addr_ok (gaia_fee_collector H)" using s(2) from_bech32_ok by (auto simp: unwrap_result_Some)
  show "\<exists>ctx'. at_set_account (ante_auth_keeper (app_ante (gaia_app H env) H)) ctx y = Some ctx' \<and>
        gaia_rel H ctx' bal (accs(a \<mapsto> y)) \<and> tx_only ctx ctx'"
    if y: "accs a = Some x" "get_address y = a" "get_account_number y = get_account_number x" for a x y
  proof -
    have "account_ok y" using s(5) y(1,2) by (auto simp: auth_inv_def account_ok_def)
    from set_account_refines [OF libs_okD(1) [OF s(1)] s(4) this] obtain c where c:
      "auth_set_account H gaia_auth_keeper ctx y = Some c"
      "auth_state H gaia_auth_keeper c (accs(a \<mapsto> y)) n"
      "touches H (ak_store_key gaia_auth_keeper) ctx c" using y(2) by blast
    have "app_state H gaia_bank_keeper c bal (accs(a \<mapsto> y)) n"
      by (rule app_state_touches [OF s(3)]) (use c in simp_all)
    moreover have "auth_inv (accs(a \<mapsto> y)) n" by (rule auth_inv_update [OF s(5) y])
    ultimately have "gaia_rel H c bal (accs(a \<mapsto> y))"
      using s(1,2) unfolding gaia_rel_def by auto
    then show ?thesis using c(1) touchesD(1) [OF c(3)] by (auto simp: gaia_ante_def)
  qed
  show "\<exists>b bal' accs'. spec_send bal a (gaia_fee_collector H) (coin_list amt) = Some (b, bal') \<and>
        (r = Inr () \<longleftrightarrow> b) \<and> gaia_rel H ctx' bal' accs' \<and> tx_only ctx ctx' \<and> accs \<subseteq>\<^sub>m accs' \<and>
        dom accs' \<subseteq> insert (gaia_fee_collector H) (dom accs)"
    if "addr_ok a" "send_coins_ok (coin_list amt)" "\<forall>c \<in> set (coin_list amt). coin_ok c"
      "bt_send_coins_from_account_to_module (ante_bank_keeper (app_ante (gaia_app H env) H)) ctx a
        FeeCollector amt = Some (r, ctx')" for a amt r ctx'
  proof -
    have "send_coins_from_account_to_module H gaia_bank_keeper ctx a FeeCollector amt = Some (r, ctx')"
      using that(4) by (simp add: gaia_ante_def)
    from module_payment_effect [OF s(1,3,5) that(1-3) s(2) this] obtain b bal' accs' n' where
      "spec_send bal a (gaia_fee_collector H) (coin_list amt) = Some (b, bal')" "r = Inr () \<longleftrightarrow> b"
      "tx_only ctx ctx'" "app_state H gaia_bank_keeper ctx' bal' accs' n'" "auth_inv accs' n'"
      "accs \<subseteq>\<^sub>m accs'" "dom accs' \<subseteq> insert (gaia_fee_collector H) (dom accs)" .
    moreover from this have "gaia_rel H ctx' bal' accs'" using s(1,2) unfolding gaia_rel_def by auto
    ultimately show ?thesis by blast
  qed
  show "gaia_rel H ctx' bal accs"
    if "same_reads H (ctx_multi_store ctx) (ctx_multi_store ctx')" for ctx'
  proof -
    have "app_state H gaia_bank_keeper ctx' bal accs n"
      using s(3) view_same_reads [OF _ that]
      unfolding app_state_def bank_state_def auth_state_def by blast
    then show ?thesis using s unfolding gaia_rel_def by auto
  qed
  show "\<exists>bal' accs'. gaia_rel H ctx' bal' accs' \<and> tx_only ctx ctx' \<and> evolves accs accs' \<and>
        (\<forall>d. total_of bal' d = total_of bal d)"
    if "gaia_message_ok m" "app_handle_tx (gaia_app H env) H ctx m = Some (r, ctx')" for m r ctx'
  proof -
    obtain msg where m: "m = Bank (Send msg)" by (cases m rule: gaia_message_ok.cases)
    then have ok: "msg_send_ok msg" using that(1) by simp
    have "send_coins_from_account_to_account H gaia_bank_keeper ctx msg = Some (r, ctx')"
      using that(2) m by simp
    from payment_effect [OF s(1,3) ok s(5) this] obtain b bal' accs' n' where e:
      "spec_send bal (from_address msg) (to_address msg) (coin_list (msg_amount msg)) = Some (b, bal')"
      "tx_only ctx ctx'" "app_state H gaia_bank_keeper ctx' bal' accs' n'" "auth_inv accs' n'"
      "evolves accs accs'" .
    have "total_of bal' d = total_of bal d" for d
      by (rule spec_send_total [OF _ _ e(1)]) (use ok in \<open>simp_all add: msg_send_ok_def\<close>)
    moreover have "gaia_rel H ctx' bal' accs'" using s(1,2) e(3,4) unfolding gaia_rel_def by auto
    ultimately show ?thesis using e by blast
  qed
qed

end
