(* ===== verification/Chain.thy ===== *)
theory Chain
  imports Gaia
begin

text \<open>
  Properties of the whole application, from the bytes of a transaction to the stores of a node:
  what a block keeps, what a delivered transaction guarantees, when a payment goes through.
\<close>

section \<open>A payment from end to end\<close>

lemma single_signer:
  assumes "bech32_ok H" "tx_ok gaia_message_ok tx" "get_msgs tx = [Bank (Send msg)]"
    and "fee_payer (ai_fee (tx_auth_info tx)) = None"
  shows "get_signers H (gaia_ops H) tx = Some [from_address msg]"
  using gm.signers_spec [OF assms(1,2)] assms(3,4) by (simp add: gaia_ops_def add_new_def)

lemma payment_executes:
  fixes env :: gaia_env
  assumes s: "node_rel (gaia_rel H) (nd_multi_store nd) bal accs" and db: "nd_db nd = host_state H"
    and ctx: "new_tx_ctx nd (nd_multi_store nd) raw = Some ctx"
    and dec: "tx_with_raw_from_bytes H (gaia_ops H) raw = Some (Inr tx)"
    and msgs: "get_msgs (twr_tx tx) = [Bank (Send msg)]"
    and fee: "get_fee (twr_tx tx) = None" "fee_payer (ai_fee (tx_auth_info (twr_tx tx))) = None"
    and n: "length (get_signatures (twr_tx tx)) = 1"
    and timeout: "get_timeout_height (twr_tx tx) = 0 \<or> nd_height nd \<le> get_timeout_height (twr_tx tx)"
    and memo: "auth_get_auth_params H gaia_auth_keeper ctx = Some p"
      "length (get_memo (twr_tx tx)) \<le> unat (max_memo_characters p)"
    and acct: "accs (from_address msg) = Some x"
      "get_sequence x = sg_sequence (get_signatures_data (twr_tx tx) ! 0)"
      "authorised H (ctx_get_chain_id ctx) (twr_raw tx) (get_signatures_data (twr_tx tx) ! 0)
        (with_key (get_public_keys (twr_tx tx) ! 0) x)"
      "increment_sequence x \<noteq> None"
      "\<forall>k. get_public_keys (twr_tx tx) ! 0 = Some k \<longrightarrow>
         public_key_get_address H k = Some (from_address msg)"
    and recipient: "accs (to_address msg) \<noteq> None"
    and cover: "\<forall>c \<in> set (coin_list (msg_amount msg)). amount c \<le> bal (from_address msg) (coin_denom c)"
    and bound: "\<forall>d. total_of bal d < 2 ^ 256"
  obtains es nd' bal' accs' where "run_tx H (gaia_app H env) nd raw = Some (Inr es, nd')"
    "node_rel (gaia_rel H) (nd_multi_store nd') bal' accs'"
    "spec_send bal (from_address msg) (to_address msg) (coin_list (msg_amount msg)) = Some (True, bal')"
proof -
  have H: "node_host H nd = H" using db by (simp add: node_host_def)
  have r: "gaia_rel H ctx bal accs" by (rule node_rel_ctx [OF s ctx])
  then have L: "libs_ok H" "bech32_ok H" by (auto elim: gaia_relE simp: libs_ok_codecs)
  have dec': "tx_with_raw_from_bytes H (app_ops (gaia_app H env)) raw = Some (Inr tx)"
    using dec by simp
  have ok: "tx_ok gaia_message_ok (twr_tx tx)" "gaia_message_ok (Bank (Send msg))"
    using ga.decoded_ok [OF dec'] msgs by auto
  have m: "msg_send_ok msg" using ok(2) by simp
  have sg: "get_signers H (gaia_ops H) (twr_tx tx) = Some [from_address msg]"
    by (rule single_signer [OF L(2) ok(1) msgs fee(2)])
  have payer: "get_fee_payer H (gaia_ops H) (twr_tx tx) = Some (from_address msg)"
    using sg fee(2) by (simp add: get_fee_payer_def)
  have h: "ctx_get_height ctx = nd_height nd"
    using ctx by (auto simp: new_tx_ctx_def tx_context_new_def)
  obtain c1 where c1: "ante_run H (gaia_ops H) (gaia_ante H) ctx tx = Some (Inr (), c1)"
    by (rule ga.ante_run_returns [of H ctx bal accs tx env "[from_address msg]" p "from_address msg"])
      (use r ok(1) sg n timeout memo fee payer acct h in \<open>auto simp: gaia_ante_def\<close>)
  obtain bal1 accs1 where e: "gaia_rel H c1 bal1 accs1" "tx_only ctx c1" "evolves accs accs1"
    "bal1 = bal"
    using ga.ante_run_effect [OF r ok(1), of env "Inr ()" c1] c1 fee(1) by auto
  have c: "clean (nd_multi_store nd)" using s by (simp add: node_rel_def)
  have ms1: "ms_ok (ctx_multi_store c1)"
    by (rule tx_only_clean(1) [OF _ e(2)]) (use c ctx in simp)
  obtain ms where ms: "write_then_clear_tx_caches (ctx_multi_store c1) = Some ms"
    by (rule write_tx_caches_views [OF ms1])
  have w: "node_rel (gaia_rel H) ms bal accs1"
    by (rule ga.node_rel_write [OF e(1) [unfolded e(4)] ms1 ms])
  obtain ctx2 where ctx2: "new_tx_ctx nd ms raw = Some ctx2"
    using ctx by (auto simp: new_tx_ctx_def)
  have r2: "gaia_rel H ctx2 bal accs1" by (rule node_rel_ctx [OF w ctx2])
  then obtain k where k: "app_state H gaia_bank_keeper ctx2 bal accs1 k" "auth_inv accs1 k"
    by (rule gaia_relE)
  have to1: "accs1 (to_address msg) \<noteq> None"
    using recipient e(3) by (auto simp: evolves_def)
  have adr: "addr_ok (from_address msg)" "addr_ok (to_address msg)"
    and cs: "send_coins_ok (coin_list (msg_amount msg))"
    using m by (auto simp: msg_send_ok_def)
  obtain b bal' where spec: "spec_send bal (from_address msg) (to_address msg)
      (coin_list (msg_amount msg)) = Some (b, bal')"
    by (rule spec_send_result [OF finite_addrs, of "from_address msg" "to_address msg" bal
        "coin_list (msg_amount msg)"]) (use adr bound in \<open>auto simp: total_of_def\<close>)
  have b: b using spec_send_insufficient [OF send_coins_ok_distinct [OF cs] spec] cover by simp
  from send_to_account_app [OF L(1) k(1) m] to1 spec b obtain c2 where
    c2: "send_coins_from_account_to_account H gaia_bank_keeper ctx2 msg = Some (Inr (), c2)"
    "tx_only ctx2 c2" "app_state H gaia_bank_keeper c2 bal' accs1 k" by auto
  have r3: "gaia_rel H c2 bal' accs1"
    using c2(3) r2 k(2) unfolding gaia_rel_def by blast
  have ms2: "ms_ok (ctx_multi_store c2)"
    by (rule tx_only_clean(1) [OF _ c2(2)]) (use w ctx2 in \<open>simp add: node_rel_def\<close>)
  obtain ms' where ms': "write_then_clear_tx_caches (ctx_multi_store c2) = Some ms'"
    by (rule write_tx_caches_views [OF ms2])
  have "node_rel (gaia_rel H) ms' bal' accs1" by (rule ga.node_rel_write [OF r3 ms2 ms'])
  moreover have "run_tx H (gaia_app H env) nd raw = Some (Inr (ctx_events c2), set_multi_store nd ms')"
    using dec' ctx c1 ms ctx2 c2(1) ms' msgs
    by (simp add: run_tx_def H reading_def validate_basic_tx_msgs_def gaia_ops_def)
  ultimately show thesis using that spec b by simp
qed

section \<open>A node with two accounts\<close>

definition demo_env :: gaia_env where
  "demo_env = \<lparr> env_json = \<lparr> block_json = (\<lambda>_. []), evidence_json = (\<lambda>_. []), validator_json = (\<lambda>_. []) \<rparr>,
     env_parse_genesis = Inl, env_tree_text = (\<lambda>_. []), env_app_name = [], env_version = [],
     env_peer_id = [] \<rparr>"

definition demo_payer :: account where
  "demo_payer = Base \<lparr> ba_address = AccAddress [3], ba_pub_key = Some (Secp256k1 (PubKey [9])),
     ba_account_number = 0, ba_sequence = 0 \<rparr>"

definition demo_accounts :: "acc_address \<Rightarrow> account option" where
  "demo_accounts = [AccAddress [3] \<mapsto> demo_payer, AccAddress [4] \<mapsto> new_base (AccAddress [4]) 1]"

definition demo_payment :: "gaia_message tx" where
  "demo_payment = \<lparr>
     tx_body = \<lparr> tb_messages = [Bank (Send demo_send)], tb_memo = [], tb_timeout_height = 0,
       tb_extension_options = [], tb_non_critical_extension_options = [] \<rparr>,
     tx_auth_info = \<lparr> signer_infos = [\<lparr> si_public_key = None, si_mode_info = None, si_sequence = 0 \<rparr>],
       ai_fee = \<lparr> fee_amount = None, fee_gas_limit = 0, fee_payer = None, fee_granter = [] \<rparr>,
       ai_tip = None \<rparr>,
     tx_signatures = [[9]],
     tx_signatures_data = [\<lparr> sg_signature = [9], sg_sequence = 0 \<rparr>] \<rparr>"

definition demo_bytes :: bytes where
  "demo_bytes = pb_encode (pb_tx demo_host)
     (the (raw_from_tx demo_host (gaia_ops demo_host) demo_payment))"

lemma demo_more_laws: "codec_ok (pb_tx demo_host)" "message_libs_ok demo_host"
  "pb_tx_raw demo_host = pb_tx_raw demo_libs" "pb_tx demo_host = pb_tx demo_libs"
  using demo_libs_tx demo_libs_msg_send demo_host_laws
  by (simp_all add: message_libs_ok_def codec_ok_def) (simp_all add: demo_host_def libs.defs)

lemma demo_payment_fields [simp]:
  "get_msgs demo_payment = [Bank (Send demo_send)]" "get_fee demo_payment = None"
  "fee_payer (ai_fee (tx_auth_info demo_payment)) = None" "get_signatures demo_payment = [[9]]"
  "get_timeout_height demo_payment = 0" "get_memo demo_payment = []"
  "get_signatures_data demo_payment = [\<lparr> sg_signature = [9], sg_sequence = 0 \<rparr>]"
  "get_public_keys demo_payment = [None]"
  by (simp_all add: demo_payment_def get_msgs_def get_fee_def get_signatures_def
      get_timeout_height_def get_memo_def get_signatures_data_def get_public_keys_def)

lemma demo_payment_ok: "tx_ok gaia_message_ok demo_payment"
  using demo_send_ok
  by (simp add: tx_ok_def) (simp add: demo_payment_def fee_ok_def extract_signatures_data_def
      MAX_GAS_WANTED_def)

lemma demo_decoded:
  obtains raw where "tx_with_raw_from_bytes demo_host (gaia_ops demo_host) demo_bytes
    = Some (Inr \<lparr> twr_tx = demo_payment, twr_raw = raw \<rparr>)"
proof -
  obtain t where t: "raw_from_tx demo_host (gaia_ops demo_host) demo_payment = Some t"
    "tx_try_from demo_host (gaia_ops demo_host) t = Some (Inr demo_payment)"
    by (rule gm.tx_raw_round_trip [OF demo_more_laws(2) demo_payment_ok])
  have "proto_decode demo_host (pb_tx demo_host) (tx_try_from demo_host (gaia_ops demo_host)) demo_bytes
      = Some (Inr demo_payment)"
    unfolding demo_bytes_def t(1) option.sel
    by (rule proto_decode_encode [OF demo_more_laws(1),
          of "tx_try_from demo_host (gaia_ops demo_host)", OF t(2)])
  moreover obtain body ai where "t = \<lparr> rtx_body = Some body, rtx_auth_info = Some ai,
      rtx_signatures = tx_signatures demo_payment \<rparr>"
    using t(1) by (auto simp: raw_from_tx_def bind_eq_Some_conv)
  then have "pb_decode (pb_tx_raw demo_libs) demo_bytes
      = Inr \<lparr> body_bytes = pb_encode (pb_tx_body demo_libs) body,
         auth_info_bytes = pb_encode (pb_auth_info demo_libs) ai,
         raw_signatures = tx_signatures demo_payment \<rparr>"
    using demo_libs_tx_raw(1)
    by (simp add: demo_bytes_def t(1) demo_more_laws(4) codec_ok_def flip: demo_libs_tx_raw(2))
  ultimately show thesis using that by (simp add: tx_with_raw_from_bytes_def demo_more_laws(3))
qed

lemma demo_keepers: "gaia_bank_keeper = demo_bank" "gaia_auth_keeper = demo_auth"
  by (simp_all add: gaia_bank_keeper_def demo_bank_def gaia_auth_keeper_def demo_auth_def
      gaia_params_keeper_def BANK_def ACC_def PARAMS_def)

lemma demo_payer_fields [simp]:
  "get_address demo_payer = AccAddress [3]" "get_account_number demo_payer = 0"
  "get_sequence demo_payer = 0" "get_public_key demo_payer = Some (Secp256k1 (PubKey [9]))"
  by (simp_all add: demo_payer_def get_address_def get_account_number_def get_sequence_def
      get_public_key_def)

lemma app_state_other:
  assumes "app_state H bk ctx bal accs n" "touches H sk ctx ctx'"
    and "sk \<noteq> bk_store_key bk" "sk \<noteq> ak_store_key (bk_auth_keeper bk)"
  shows "app_state H bk ctx' bal accs n"
  using assms(1,3,4) touchesD(3) [OF assms(2)]
  by (auto simp: app_state_def bank_state_def auth_state_def)

text \<open>A node whose payer is any address with any key, of any chain.\<close>

definition payer_of :: "acc_address \<Rightarrow> public_key option \<Rightarrow> account" where
  "payer_of a key = Base \<lparr> ba_address = a, ba_pub_key = key, ba_account_number = 0, ba_sequence = 0 \<rparr>"

definition accounts_of ::
  "acc_address \<Rightarrow> public_key option \<Rightarrow> acc_address \<Rightarrow> account option" where
  "accounts_of a key = [a \<mapsto> payer_of a key, AccAddress [4] \<mapsto> new_base (AccAddress [4]) 1]"

lemma demo_accounts_of: "demo_accounts = accounts_of (AccAddress [3]) (Some (Secp256k1 (PubKey [9])))"
  by (simp add: demo_accounts_def accounts_of_def demo_payer_def payer_of_def)

lemma payer_fields [simp]:
  "get_address (payer_of a key) = a" "get_account_number (payer_of a key) = 0"
  "get_sequence (payer_of a key) = 0" "get_public_key (payer_of a key) = key"
  by (simp_all add: payer_of_def get_address_def get_account_number_def get_sequence_def
      get_public_key_def)

lemma payer_increment: "increment_sequence (payer_of a key) \<noteq> None"
  by (simp add: increment_sequence_def checked_add_def payer_of_def)

lemma node_of:
  assumes a: "addr_ok a" "a \<noteq> AccAddress [4]"
  obtains nd :: "memdb app_node" where
    "node_rel (gaia_rel demo_host) (nd_multi_store nd) (funded a) (accounts_of a key)"
    "nd_db nd = host_state demo_host" "nd_block_header nd = Some \<lparr> header_chain_id = chain \<rparr>"
    "\<And>h hd raw. auth_get_auth_params demo_host demo_auth
       (TxContext (tx_context_new (nd_multi_store nd) h hd raw)) = Some DEFAULT_PARAMS"
    "head_state (nd_multi_store nd) = head_state demo_stores" "nd_height nd = 0"
proof -
  let ?H = demo_host and ?apk = "ak_params_keeper demo_auth"
  obtain c0 where c0: "app_state ?H demo_bank c0 (funded a) Map.empty 0"
    "ctx_view ?H PARAMS c0 Map.empty" "tx_only demo_tx c0" by (rule demo_funded_params [OF a(1)])
  from c0(2) have "ctx_view ?H (pk_store_key (ap_params_keeper ?apk)) c0 Map.empty" by simp
  then obtain c1 f1 where c1: "touches ?H (pk_store_key (ap_params_keeper ?apk)) c0 c1"
    "ctx_view ?H (pk_store_key (ap_params_keeper ?apk)) c1 f1"
    "auth_params_get ?H ?apk c1 = Some DEFAULT_PARAMS" by (rule auth_params_set_view)
  have s1: "app_state ?H demo_bank c1 (funded a) Map.empty 0"
    by (rule app_state_other [OF c0(1) c1(1)]) simp_all
  note L = demo_host_laws(1)
  have a1: "auth_state ?H demo_auth c1 Map.empty 0" using s1 by (simp add: app_state_def)
  obtain c2 where c2: "auth_state ?H demo_auth c2 [a \<mapsto> new_base a 0] (0 + 1)"
    "touches ?H (ak_store_key demo_auth) c1 c2"
    by (rule create_new_base_account_refines [OF L a1, of a])
      (simp_all add: a)
  obtain c3 where c3: "auth_state ?H demo_auth c3 [a \<mapsto> new_base a 0,
      AccAddress [4] \<mapsto> new_base (AccAddress [4]) (0 + 1)] (0 + 1 + 1)"
    "touches ?H (ak_store_key demo_auth) c2 c3"
    by (rule create_new_base_account_refines [OF L c2(1), of "AccAddress [4]"])
      (simp_all add: addr_ok_def)
  have "account_ok (payer_of a key)" using a by (simp add: account_ok_def)
  from set_account_refines [OF L c3(1) this] obtain c4 where
    c4: "auth_state ?H demo_auth c4 ([a \<mapsto> new_base a 0,
      AccAddress [4] \<mapsto> new_base (AccAddress [4]) (0 + 1)](get_address (payer_of a key) \<mapsto> (payer_of a key))) (0 + 1 + 1)"
    "touches ?H (ak_store_key demo_auth) c3 c4" .
  have t: "touches ?H (ak_store_key demo_auth) c1 c4"
    by (rule touches_trans [OF c2(2) touches_trans [OF c3(2) c4(2)]])
  have acc: "[a \<mapsto> new_base a 0,
      AccAddress [4] \<mapsto> new_base (AccAddress [4]) (0 + 1)](get_address (payer_of a key) \<mapsto> (payer_of a key))
      = (accounts_of a key)" using a(2) by (auto simp: accounts_of_def fun_eq_iff)
  have s4: "app_state ?H demo_bank c4 (funded a) (accounts_of a key) 2"
    using app_state_touches [OF s1, of c4] t c4(1) unfolding acc by simp
  have "auth_inv (accounts_of a key) 2"
    using a by (auto simp: auth_inv_def accounts_of_def addr_ok_def get_address_def
        get_account_number_def payer_of_def split: if_splits)
  then have r: "gaia_rel ?H c4 (funded a) (accounts_of a key)"
    using s4 demo_libs_ok(1) demo_fee_collector unfolding gaia_rel_def demo_keepers by auto
  have pv: "ctx_view ?H PARAMS c4 f1" using c1(2) touchesD(3) [OF t, of PARAMS] by simp
  have t4: "tx_only demo_tx c4"
    using tx_only_trans [OF c0(3) tx_only_trans [OF touchesD(1) [OF c1(1)] touchesD(1) [OF t]]] .
  then have ok: "ms_ok (ctx_multi_store c4)" using demo_stores_ok by (simp add: tx_only_def)
  have hs4: "head_state (ctx_multi_store c4) = head_state demo_stores"
    using tx_only_head [OF _ t4] demo_stores_ok by (simp add: clean_def)
  obtain ms where ms: "write_then_clear_tx_caches (ctx_multi_store c4) = Some ms"
    by (rule write_tx_caches_views [OF ok])
  have n: "node_rel (gaia_rel ?H) ms (funded a) (accounts_of a key)"
    by (rule ga.node_rel_write [OF r ok ms])
  have p: "auth_get_auth_params ?H demo_auth (TxContext (tx_context_new ms h hd raw))
      = Some DEFAULT_PARAMS" for h hd raw
  proof -
    have "ctx_view ?H PARAMS (TxContext (tx_context_new ms h hd raw)) f1"
      by (rule view_same_reads [OF pv]) (simp add: tx_context_new_def write_clean [OF ok ms])
    then show ?thesis
      using auth_params_get_cong [of ?H ?apk c1 f1] c1(2,3)
      by (simp add: auth_get_auth_params_def)
  qed
  show thesis
    by (rule that [of "\<lparr> nd_multi_store = ms, nd_height = 0,
        nd_block_header = Some \<lparr> header_chain_id = chain \<rparr>, nd_db = memdb_new \<rparr>"])
      (simp_all add: n p write_head [OF ms] hs4)
qed


lemma demo_node:
  obtains nd :: "memdb app_node" where "node_rel (gaia_rel demo_host) (nd_multi_store nd) demo_ledger demo_accounts"
    "nd_db nd = host_state demo_host" "nd_block_header nd = Some \<lparr> header_chain_id = lit ''demo'' \<rparr>"
    "\<And>h hd raw. auth_get_auth_params demo_host demo_auth
       (TxContext (tx_context_new (nd_multi_store nd) h hd raw)) = Some DEFAULT_PARAMS"
    "head_state (nd_multi_store nd) = head_state demo_stores" "nd_height nd = 0"
  unfolding demo_accounts_of demo_ledger_funded
  by (rule node_of [of "AccAddress [3]" "Some (Secp256k1 (PubKey [9]))" "lit ''demo''"])
    (simp add: addr_ok_def, simp, blast)

lemma demo_ctx:
  "nd_block_header nd = Some hdr \<Longrightarrow> new_tx_ctx nd ms raw
    = Some (TxContext (tx_context_new ms (nd_height nd) hdr raw))"
  by (simp add: new_tx_ctx_def)

lemma demo_authorised: "authorised demo_host chain raw \<lparr> sg_signature = [9], sg_sequence = 0 \<rparr> demo_payer"
  by (simp add: authorised_def) (simp add: demo_libs_def)

lemma demo_increment: "increment_sequence demo_payer \<noteq> None"
  by (simp add: increment_sequence_def checked_add_def demo_payer_def)

lemma demo_account: "demo_accounts (AccAddress [3]) = Some demo_payer" "demo_accounts (AccAddress [4]) \<noteq> None"
  by (simp_all add: demo_accounts_def)

lemma demo_total: "total_of demo_ledger d = (if d = DOGE then 10 else 0)"
proof -
  have "AccAddress [3] \<in> {a. addr_ok a}" by (simp add: addr_ok_def)
  moreover have "demo_ledger a d = (if a = AccAddress [3] then if d = DOGE then 10 else 0 else 0)" for a
    by (simp add: demo_ledger_def)
  ultimately show ?thesis
    unfolding total_of_def holdings_def by (simp add: sum.delta [OF finite_addrs])
qed

text \<open>On that node the payment of \<open>demo_bytes\<close> has a context and executes.\<close>

lemma demo_executes:
  obtains nd es nd' where "node_rel (gaia_rel demo_host) (nd_multi_store nd) demo_ledger demo_accounts"
    "nd_db nd = host_state demo_host" "nd_block_header nd \<noteq> None"
    "run_tx demo_host (gaia_app demo_host demo_env) nd demo_bytes = Some (Inr es, nd')"
    "head_state (nd_multi_store nd) = head_state demo_stores" "nd_height nd = 0"
proof -
  obtain nd :: "memdb app_node" where nd:
    "node_rel (gaia_rel demo_host) (nd_multi_store nd) demo_ledger demo_accounts"
    "nd_db nd = host_state demo_host" "nd_block_header nd = Some \<lparr> header_chain_id = lit ''demo'' \<rparr>"
    "\<And>h hd raw. auth_get_auth_params demo_host demo_auth
       (TxContext (tx_context_new (nd_multi_store nd) h hd raw)) = Some DEFAULT_PARAMS"
    "head_state (nd_multi_store nd) = head_state demo_stores" "nd_height nd = 0"
    by (rule demo_node) blast
  obtain raw where dec: "tx_with_raw_from_bytes demo_host (gaia_ops demo_host) demo_bytes
    = Some (Inr \<lparr> twr_tx = demo_payment, twr_raw = raw \<rparr>)" by (rule demo_decoded)
  obtain es nd' bal' accs' where "run_tx demo_host (gaia_app demo_host demo_env) nd demo_bytes
      = Some (Inr es, nd')"
    by (rule payment_executes [OF nd(1,2) demo_ctx [OF nd(3)] dec, of demo_send DEFAULT_PARAMS demo_payer demo_env])
      (simp_all add: nd(4) demo_keepers demo_account demo_authorised demo_increment
        demo_total del: not_None_eq, simp_all add: demo_ledger_def)
  with that nd(1-3,5,6) show thesis by simp
qed

section \<open>Properties\<close>

text \<open>
  (C2) Within a block, whatever transactions arrive, a node keeps its invariant (empty transaction
  caches, a ledger, accounts with pairwise different numbers), no coin appears or disappears in
  any denomination, and no account loses its number or has its sequence fall.
\<close>

theorem block_keeps_supply:
  assumes "node_rel (gaia_rel H) (nd_multi_store nd) bal accs" "nd_db nd = host_state H"
    and "(block_step H (gaia_app H env))\<^sup>*\<^sup>* nd nd'"
  shows "\<exists>bal' accs'. node_rel (gaia_rel H) (nd_multi_store nd') bal' accs' \<and>
     (\<forall>d. total_of bal' d = total_of bal d) \<and> evolves accs accs'"
  using ga.block_effect [OF assms] by metis

theorem block_keeps_supply_witness:
  "\<exists>nd nd' bal' accs'. nd_db nd = host_state demo_host \<and>
     (block_step demo_host (gaia_app demo_host demo_env))\<^sup>*\<^sup>* nd nd' \<and>
     node_rel (gaia_rel demo_host) (nd_multi_store nd') bal' accs' \<and> total_of bal' DOGE = 10 \<and>
     evolves demo_accounts accs'"
proof -
  obtain nd es nd' where nd: "node_rel (gaia_rel demo_host) (nd_multi_store nd) demo_ledger demo_accounts"
    "nd_db nd = host_state demo_host"
    "run_tx demo_host (gaia_app demo_host demo_env) nd demo_bytes = Some (Inr es, nd')"
    by (rule demo_executes) blast
  obtain res where "deliver_tx demo_host (gaia_app demo_host demo_env) nd demo_bytes = Some (res, nd')"
    using nd(3) by (simp add: deliver_tx_def)
  then have step: "(block_step demo_host (gaia_app demo_host demo_env))\<^sup>*\<^sup>* nd nd'"
    by (blast intro: block_step.deliver_step)
  from block_keeps_supply [OF nd(1,2) step] step nd(2) show ?thesis
    by (fastforce simp: demo_total)
qed

text \<open>
  (C16) A transaction that fails leaves the node as it was, or, when its ante checks had passed and
  a message failed, with exactly the effects of those checks: nothing of any message remains.
\<close>

theorem failed_tx_leaves_no_message:
  assumes "node_rel (gaia_rel H) (nd_multi_store nd) bal accs" "nd_db nd = host_state H"
    and "run_tx H (gaia_app H env) nd raw = Some (Inl e, nd')"
  shows "nd' = nd \<or> (\<exists>tx ctx c1 ms. tx_with_raw_from_bytes H (gaia_ops H) raw = Some (Inr tx) \<and>
     new_tx_ctx nd (nd_multi_store nd) raw = Some ctx \<and>
     ante_run H (gaia_ops H) (gaia_ante H) ctx tx = Some (Inr (), c1) \<and>
     write_then_clear_tx_caches (ctx_multi_store c1) = Some ms \<and> nd' = set_multi_store nd ms)"
  using ga.failed_tx_keeps [OF assms] by simp

theorem failed_tx_leaves_no_message_witness:
  "\<exists>nd e nd'. run_tx demo_host (gaia_app demo_host demo_env) nd [] = Some (Inl e, nd') \<and> nd' = nd"
proof -
  obtain nd :: "memdb app_node" where
    nd: "node_rel (gaia_rel demo_host) (nd_multi_store nd) demo_ledger demo_accounts"
      "nd_db nd = host_state demo_host" by (rule demo_node) blast
  have bad: "pb_decode (pb_tx demo_host) [] = Inl (lit ''truncated'')"
    by (simp add: demo_host_def libs.defs)
      (simp add: demo_libs_def demo_codec_def dec_pair_def dec_nested_def dec_str_def dec_len_def leb_dec.simps)
  then have dec: "tx_with_raw_from_bytes demo_host (gaia_ops demo_host) [] \<noteq> Some (Inr tx)" for tx
    by (simp add: tx_with_raw_from_bytes_def proto_decode_def)
  from bad obtain e nd' where "run_tx demo_host (gaia_app demo_host demo_env) nd [] = Some (Inl e, nd')"
    by (simp add: run_tx_def reading_def tx_with_raw_from_bytes_def proto_decode_def)
  with failed_tx_leaves_no_message [OF nd this] dec show ?thesis by blast
qed

text \<open>
  (C12) What the ante checks guarantee of a transaction they let through: one signature and one signer
  info per distinct signer, every public key that is sent along belongs to the signer at its place,
  the timeout and the memo limit, an account of the fee payer and the fee paid from it to the fee
  collector, and for every signer the sequence of its account, a signature that the account's key,
  or the key sent along when it has none yet, verifies over the raw transaction, the chain and the
  account's number, this key stored and the sequence incremented. No other account changes.
\<close>

theorem ante_guarantees:
  assumes "gaia_rel H ctx bal accs" "tx_ok gaia_message_ok (twr_tx tx)"
    and "ante_run H (gaia_ops H) (gaia_ante H) ctx tx = Some (Inr (), ctx')"
  shows "\<exists>signers bal' accs1 accs'. get_signers H (gaia_ops H) (twr_tx tx) = Some signers \<and>
     distinct signers \<and> signers \<noteq> [] \<and> length (get_signatures (twr_tx tx)) = length signers \<and>
     (get_timeout_height (twr_tx tx) = 0 \<or> ctx_get_height ctx \<le> get_timeout_height (twr_tx tx)) \<and>
     (\<exists>p. auth_get_auth_params H gaia_auth_keeper ctx = Some p \<and>
        length (get_memo (twr_tx tx)) \<le> unat (max_memo_characters p)) \<and>
     gaia_rel H ctx' bal' accs' \<and> tx_only ctx ctx' \<and>
     (case get_fee (twr_tx tx) of None \<Rightarrow> bal' = bal
      | Some fee \<Rightarrow> \<exists>payer. get_fee_payer H (gaia_ops H) (twr_tx tx) = Some payer \<and>
          spec_send bal payer (gaia_fee_collector H) (coin_list fee) = Some (True, bal')) \<and>
     accs \<subseteq>\<^sub>m accs1 \<and> dom accs1 \<subseteq> insert (gaia_fee_collector H) (dom accs) \<and>
     (\<forall>i < length signers. \<exists>x z. accs1 (signers ! i) = Some x \<and>
        signer_step H (ctx_get_chain_id ctx) (twr_raw tx) (get_signatures_data (twr_tx tx) ! i)
          (get_public_keys (twr_tx tx) ! i) x z \<and>
        accs' (signers ! i) = Some z) \<and>
     (\<forall>a. a \<notin> set signers \<longrightarrow> accs' a = accs1 a) \<and>
     length (get_public_keys (twr_tx tx)) = length signers \<and>
     (\<forall>i < length signers. \<forall>k. get_public_keys (twr_tx tx) ! i = Some k \<longrightarrow>
        public_key_get_address H k = Some (signers ! i)) \<and>
     (\<exists>payer. get_fee_payer H (gaia_ops H) (twr_tx tx) = Some payer \<and> accs payer \<noteq> None)"
proof -
  have run: "ante_run H (app_ops (gaia_app H demo_env)) (app_ante (gaia_app H demo_env) H) ctx tx
      = Some (Inr (), ctx')" using assms(3) by simp
  have p: "at_get_auth_params (ante_auth_keeper (gaia_ante H)) = auth_get_auth_params H gaia_auth_keeper"
    by (simp add: gaia_ante_def)
  show ?thesis
  proof (rule ga.ante_run_success [OF assms(1,2) run, unfolded gaia_fields p], goal_cases)
    case (1 signers bal' accs1 accs')
    show ?case
      by (rule exI [of _ signers], rule exI [of _ bal'], rule exI [of _ accs1], rule exI [of _ accs'])
        (intro conjI allI impI 1)
  qed
qed

theorem ante_guarantees_witness:
  "\<exists>(nd :: memdb app_node) tx ctx ctx' z accs'. new_tx_ctx nd (nd_multi_store nd) demo_bytes = Some ctx \<and>
     ante_run demo_host (gaia_ops demo_host) (gaia_ante demo_host) ctx tx = Some (Inr (), ctx') \<and>
     gaia_rel demo_host ctx' demo_ledger accs' \<and> accs' (AccAddress [3]) = Some z \<and>
     get_sequence z = 1"
proof -
  obtain nd :: "memdb app_node" and es nd' where nd: "node_rel (gaia_rel demo_host) (nd_multi_store nd) demo_ledger demo_accounts"
    "nd_db nd = host_state demo_host"
    "run_tx demo_host (gaia_app demo_host demo_env) nd demo_bytes = Some (Inr es, nd')"
    by (rule demo_executes) blast
  obtain raw where dec: "tx_with_raw_from_bytes demo_host (gaia_ops demo_host) demo_bytes
    = Some (Inr \<lparr> twr_tx = demo_payment, twr_raw = raw \<rparr>)" by (rule demo_decoded)
  have H: "node_host demo_host nd = demo_host" using nd(2) by (simp add: node_host_def)
  let ?tx = "\<lparr> twr_tx = demo_payment, twr_raw = raw \<rparr>"
  from nd(3) obtain ctx c1 where c: "new_tx_ctx nd (nd_multi_store nd) demo_bytes = Some ctx"
    "ante_run demo_host (gaia_ops demo_host) (gaia_ante demo_host) ctx ?tx = Some (Inr (), c1)"
    using dec by (cases rule: run_tx_cases) (auto simp: H)
  have r: "gaia_rel demo_host ctx demo_ledger demo_accounts" by (rule node_rel_ctx [OF nd(1) c(1)])
  have L: "bech32_ok demo_host" by (rule demo_host_laws)
  have sg: "get_signers demo_host (gaia_ops demo_host) demo_payment = Some [AccAddress [3]]"
    using single_signer [OF L demo_payment_ok] by simp
  from ante_guarantees [OF r _ c(2)] demo_payment_ok sg obtain bal' accs1 accs' x z where
    g: "gaia_rel demo_host c1 bal' accs'" "bal' = demo_ledger" "demo_accounts \<subseteq>\<^sub>m accs1"
    "accs1 (AccAddress [3]) = Some x" "accs' (AccAddress [3]) = Some z"
    "signer_step demo_host (ctx_get_chain_id ctx) raw \<lparr> sg_signature = [9], sg_sequence = 0 \<rparr>
       (get_public_keys demo_payment ! 0) x z"
    by fastforce
  have "x = demo_payer" using g(3,4) by (force simp: map_le_def demo_accounts_def)
  with g(6) have "increment_sequence demo_payer = Some z" by (simp add: signer_step_def)
  then have "unat (get_sequence z) = 1" using increment_sequence_Some(4) by simp
  then have "get_sequence z = 1" by (metis unat_1 word_unat_eq_iff)
  with c g(1) [unfolded g(2)] g(5) show ?thesis by blast
qed

text \<open>
  (C13) A signed payment that the sender can cover, with the right sequence and number of
  signatures and no fee, executes, also as the first transaction of an account that has no public
  key yet: the transaction succeeds, and the ledger afterwards is that of
  the transfer of exactly its coins.
\<close>

theorem signed_payment_executes:
  fixes env :: gaia_env
  assumes "node_rel (gaia_rel H) (nd_multi_store nd) bal accs" "nd_db nd = host_state H"
    and "new_tx_ctx nd (nd_multi_store nd) raw = Some ctx"
    and "tx_with_raw_from_bytes H (gaia_ops H) raw = Some (Inr tx)"
    and "get_msgs (twr_tx tx) = [Bank (Send msg)]"
    and "get_fee (twr_tx tx) = None" "fee_payer (ai_fee (tx_auth_info (twr_tx tx))) = None"
    and "length (get_signatures (twr_tx tx)) = 1"
    and "get_timeout_height (twr_tx tx) = 0 \<or> nd_height nd \<le> get_timeout_height (twr_tx tx)"
    and "auth_get_auth_params H gaia_auth_keeper ctx = Some p"
      "length (get_memo (twr_tx tx)) \<le> unat (max_memo_characters p)"
    and "accs (from_address msg) = Some x"
      "get_sequence x = sg_sequence (get_signatures_data (twr_tx tx) ! 0)"
      "authorised H (ctx_get_chain_id ctx) (twr_raw tx) (get_signatures_data (twr_tx tx) ! 0)
        (with_key (get_public_keys (twr_tx tx) ! 0) x)"
      "increment_sequence x \<noteq> None"
      "\<forall>k. get_public_keys (twr_tx tx) ! 0 = Some k \<longrightarrow>
         public_key_get_address H k = Some (from_address msg)"
    and "accs (to_address msg) \<noteq> None"
    and "\<forall>c \<in> set (coin_list (msg_amount msg)). amount c \<le> bal (from_address msg) (coin_denom c)"
    and "\<forall>d. total_of bal d < 2 ^ 256" "from_address msg \<noteq> to_address msg"
  shows "\<exists>es nd' bal' accs'. run_tx H (gaia_app H env) nd raw = Some (Inr es, nd') \<and>
     node_rel (gaia_rel H) (nd_multi_store nd') bal' accs' \<and>
     (\<forall>d. bal' (from_address msg) d
        = bal (from_address msg) d - amount_of (coin_list (msg_amount msg)) d \<and>
       bal' (to_address msg) d = bal (to_address msg) d + amount_of (coin_list (msg_amount msg)) d) \<and>
     (\<forall>a. a \<noteq> from_address msg \<and> a \<noteq> to_address msg \<longrightarrow> bal' a = bal a)"
proof (rule payment_executes [OF assms(1-19), of env], goal_cases)
  case (1 es nd' bal' accs')
  then show ?case
    using spec_send_moves [OF assms(20) 1(3)] spec_send_others [OF 1(3)] by blast
qed

theorem signed_payment_executes_witness:
  "\<exists>nd es nd' bal' accs'. run_tx demo_host (gaia_app demo_host demo_env) nd demo_bytes = Some (Inr es, nd') \<and>
     node_rel (gaia_rel demo_host) (nd_multi_store nd') bal' accs' \<and>
     bal' (AccAddress [3]) DOGE = 3 \<and> bal' (AccAddress [4]) DOGE = 7"
proof -
  obtain nd :: "memdb app_node" where nd:
    "node_rel (gaia_rel demo_host) (nd_multi_store nd) demo_ledger demo_accounts"
    "nd_db nd = host_state demo_host" "nd_block_header nd = Some \<lparr> header_chain_id = lit ''demo'' \<rparr>"
    "\<And>h hd raw. auth_get_auth_params demo_host demo_auth
       (TxContext (tx_context_new (nd_multi_store nd) h hd raw)) = Some DEFAULT_PARAMS"
    by (rule demo_node) blast
  obtain raw where dec: "tx_with_raw_from_bytes demo_host (gaia_ops demo_host) demo_bytes
    = Some (Inr \<lparr> twr_tx = demo_payment, twr_raw = raw \<rparr>)" by (rule demo_decoded)
  have "\<exists>es nd' bal' accs'. run_tx demo_host (gaia_app demo_host demo_env) nd demo_bytes = Some (Inr es, nd') \<and>
     node_rel (gaia_rel demo_host) (nd_multi_store nd') bal' accs' \<and>
     (\<forall>d. bal' (from_address demo_send) d
        = demo_ledger (from_address demo_send) d - amount_of (coin_list (msg_amount demo_send)) d \<and>
       bal' (to_address demo_send) d
        = demo_ledger (to_address demo_send) d + amount_of (coin_list (msg_amount demo_send)) d) \<and>
     (\<forall>a. a \<noteq> from_address demo_send \<and> a \<noteq> to_address demo_send \<longrightarrow> bal' a = demo_ledger a)"
    by (rule signed_payment_executes [OF nd(1,2) demo_ctx [OF nd(3)] dec, of demo_send DEFAULT_PARAMS demo_payer demo_env])
      (simp_all add: nd(4) demo_keepers demo_account demo_authorised demo_increment
        demo_total del: not_None_eq, simp_all add: demo_ledger_def)
  then obtain es nd' bal' accs' where
    "run_tx demo_host (gaia_app demo_host demo_env) nd demo_bytes = Some (Inr es, nd')"
    "node_rel (gaia_rel demo_host) (nd_multi_store nd') bal' accs'"
    "bal' (AccAddress [3]) DOGE = demo_ledger (AccAddress [3]) DOGE
      - amount_of [\<lparr> coin_denom = DOGE, coin_amount = 7 \<rparr>] DOGE"
    "bal' (AccAddress [4]) DOGE = demo_ledger (AccAddress [4]) DOGE
      + amount_of [\<lparr> coin_denom = DOGE, coin_amount = 7 \<rparr>] DOGE"
    unfolding demo_send_fields by blast
  then show ?thesis by (fastforce simp: amount_of_def demo_ledger_def)
qed

text \<open>
  (C22) A transaction survives the wire: every well-formed transaction converts to its protobuf form
  and back without loss, messages, signers, fee and tip included.
\<close>

theorem tx_round_trip:
  assumes "message_libs_ok L" "tx_ok gaia_message_ok tx"
  shows "\<exists>raw. raw_from_tx L (gaia_ops L) tx = Some raw \<and>
     tx_try_from L (gaia_ops L) raw = Some (Inr tx)"
  by (rule gm.tx_raw_round_trip [OF assms]) blast

theorem tx_round_trip_witness:
  "\<exists>raw. raw_from_tx demo_host (gaia_ops demo_host) demo_payment = Some raw \<and>
     tx_try_from demo_host (gaia_ops demo_host) raw = Some (Inr demo_payment)"
  by (rule tx_round_trip [OF demo_more_laws(2) demo_payment_ok])

text \<open>
  (C23) Decoding yields well-formed transactions only: a fee within the gas limit with sorted,
  positive coins or none, as many signatures as signer infos, each with its signer's sequence, no
  unknown extension options, and messages with valid addresses and coins.
\<close>

theorem decoded_tx_ok:
  fixes H :: "'db host"
  assumes "tx_with_raw_from_bytes H (gaia_ops H) bs = Some (Inr tx)"
  shows "tx_ok gaia_message_ok (twr_tx tx)"
  using ga.decoded_ok(1) [of H demo_env bs tx] assms by simp

theorem decoded_tx_ok_witness:
  "\<exists>raw. tx_with_raw_from_bytes demo_host (gaia_ops demo_host) demo_bytes
     = Some (Inr \<lparr> twr_tx = demo_payment, twr_raw = raw \<rparr>) \<and> tx_ok gaia_message_ok demo_payment"
proof -
  obtain raw where dec: "tx_with_raw_from_bytes demo_host (gaia_ops demo_host) demo_bytes
    = Some (Inr \<lparr> twr_tx = demo_payment, twr_raw = raw \<rparr>)" by (rule demo_decoded)
  from decoded_tx_ok [OF this] dec show ?thesis by auto
qed

text \<open>
  The signers of a transaction: the signers of its messages and the fee payer, each once; the
  search returns, and an empty list is only possible without messages' signers and payer.
\<close>

theorem signers_exact:
  assumes "bech32_ok H" "tx_ok gaia_message_ok tx"
  shows "\<exists>as. get_signers H (gaia_ops H) tx = Some as \<and> distinct as \<and>
     set as = (\<Union>m \<in> set (get_msgs tx). set (gaia_get_signers m)) \<union>
       set_option (fee_payer (ai_fee (tx_auth_info tx)))"
proof -
  obtain as where "get_signers H (gaia_ops H) tx = Some as" "distinct as"
    "set as = (\<Union>m \<in> set (get_msgs tx). set (msg_signers (gaia_ops H) m)) \<union>
       set_option (fee_payer (ai_fee (tx_auth_info tx)))"
    by (rule gm.get_signers_returns [OF assms])
  then show ?thesis by (simp add: gaia_ops_def)
qed

theorem signers_exact_witness:
  "\<exists>as. get_signers demo_host (gaia_ops demo_host) demo_payment = Some as \<and> set as = {AccAddress [3]}"
  using signers_exact [OF demo_host_laws(4) demo_payment_ok] by auto

text \<open>
  (C40) The timeout of a transaction is compared with the height of the last committed block, not
  with that of the block being executed, which the next commit makes the height: a transaction
  is still let through in the block right after its timeout height.
\<close>

theorem timeout_one_block_late:
  assumes "new_tx_ctx nd ms raw = Some ctx" "increment_block_height nd = Some (height, nd')"
    and "get_timeout_height tx \<noteq> 0"
  shows "(tx_timeout_height_ante_handler ctx tx = Inr ()) \<longleftrightarrow>
     unat height \<le> Suc (unat (get_timeout_height tx))"
proof -
  have "ctx_get_height ctx = nd_height nd"
    using assms(1) by (auto simp: new_tx_ctx_def tx_context_new_def)
  moreover have "unat height = Suc (unat (nd_height nd))"
    using assms(2) by (auto simp: increment_block_height_def bind_eq_Some_conv checked_add_SomeD)
  ultimately show ?thesis
    using assms(3)
    by (auto simp: tx_timeout_height_ante_handler_def Let_def not_less word_le_nat_alt word_less_nat_alt)
qed

theorem timeout_one_block_late_witness:
  "\<exists>ctx. ctx_get_height ctx = 6 \<and> tx_timeout_height_ante_handler ctx
     (demo_payment\<lparr> tx_body := (tx_body demo_payment)\<lparr> tb_timeout_height := 6 \<rparr> \<rparr>) = Inr () \<and>
     tx_timeout_height_ante_handler ctx
     (demo_payment\<lparr> tx_body := (tx_body demo_payment)\<lparr> tb_timeout_height := 5 \<rparr> \<rparr>) \<noteq> Inr ()"
proof -
  let ?nd = "\<lparr> nd_multi_store = demo_stores, nd_height = 6,
    nd_block_header = Some \<lparr> header_chain_id = [] \<rparr>, nd_db = memdb_new \<rparr>"
  let ?ctx = "TxContext (tx_context_new demo_stores 6 \<lparr> header_chain_id = [] \<rparr> [])"
  have c: "new_tx_ctx ?nd demo_stores [] = Some ?ctx" by (simp add: new_tx_ctx_def)
  have h: "increment_block_height ?nd = Some (7, ?nd\<lparr> nd_height := 7 \<rparr>)"
    by (simp add: increment_block_height_def checked_add_def)
  show ?thesis
    using timeout_one_block_late [OF c h, of "demo_payment\<lparr> tx_body := (tx_body demo_payment)\<lparr> tb_timeout_height := 6 \<rparr> \<rparr>"]
      timeout_one_block_late [OF c h, of "demo_payment\<lparr> tx_body := (tx_body demo_payment)\<lparr> tb_timeout_height := 5 \<rparr> \<rparr>"]
    by (intro exI [of _ ?ctx]) (simp add: get_timeout_height_def tx_context_new_def)
qed

end
