(* ===== verification/Genesis.thy ===== *)
theory Genesis
  imports Chain
begin

text \<open>
  The first state of the chain: what \<open>init_genesis\<close> of the bank (\<open>src/x/bank/src/keeper.rs\<close>)
  and of accounts write, and that \<open>init_chain\<close> on the stores of a fresh database establishes
  the relation between a node and its ledger that blocks keep.
\<close>

section \<open>The ledger and the supply of a genesis\<close>

definition genesis_ledger :: "bank_balance list \<Rightarrow> ledger" where
  "genesis_ledger bs a d =
     (\<Sum>b \<leftarrow> bs. if bb_address b = a then amount_of (bb_coins b) d else 0)"

definition genesis_supply :: "bank_balance list \<Rightarrow> denom \<Rightarrow> nat" where
  "genesis_supply bs d = (\<Sum>b \<leftarrow> bs. amount_of (bb_coins b) d)"

definition balances_ok :: "bank_balance list \<Rightarrow> bool" where
  "balances_ok bs \<longleftrightarrow> distinct (map bb_address bs) \<and> (\<forall>d. genesis_supply bs d < 2 ^ 256) \<and>
     (\<forall>b \<in> set bs. addr_ok (bb_address b) \<and> distinct (map coin_denom (bb_coins b)) \<and>
        (\<forall>c \<in> set (bb_coins b). coin_ok c))"

definition supply_of :: "(denom \<times> u256) list \<Rightarrow> denom \<Rightarrow> nat" where
  "supply_of ts d = (case map_of ts d of None \<Rightarrow> 0 | Some a \<Rightarrow> unat a)"

lemma map_of_supply_insert: "map_of (supply_insert d a ts) = (map_of ts)(d \<mapsto> a)"
  by (induction d a ts rule: supply_insert.induct) auto

lemma supply_insert_keys:
  "fst ` set (supply_insert d a ts) = insert d (fst ` set ts)"
  "distinct (map fst ts) \<Longrightarrow> distinct (map fst (supply_insert d a ts))"
  by (induction d a ts rule: supply_insert.induct) auto

lemma supply_of_insert: "supply_of (supply_insert d a ts) e = (if e = d then unat a else supply_of ts e)"
  by (simp add: supply_of_def map_of_supply_insert)

definition supply_store_key :: "denom \<Rightarrow> bytes" where
  "supply_store_key d = SUPPLY_KEY @ denom_to_string d"

lemma supply_keys [simp]:
  "supply_store_key d \<noteq> balance_key a e" "balance_key a e \<noteq> supply_store_key d"
  "supply_store_key d \<noteq> []" "supply_store_key d = supply_store_key e \<longleftrightarrow> d = e"
  by (cases d; cases e; auto simp: supply_store_key_def SUPPLY_KEY_def balance_key_def
      ADDRESS_BALANCES_STORE_PREFIX_def)+

lemma total_of_upd:
  assumes "addr_ok a"
  shows "total_of (bal(a := g)) d + bal a d = total_of bal d + g d"
proof -
  have "(\<Sum>x \<in> {a. addr_ok a}. (bal(a := g)) x d) = (\<Sum>x \<in> {a. addr_ok a}. ((\<lambda>x. bal x d)(a := g d)) x)"
    by (intro sum.cong) auto
  then show ?thesis
    using sum_upd_nat [OF finite_addrs, of a "\<lambda>x. bal x d" "g d"] assms
    by (simp add: total_of_def holdings_def)
qed

lemma genesis_ledger_total:
  assumes "\<forall>b \<in> set bs. addr_ok (bb_address b)"
  shows "total_of (genesis_ledger bs) d = genesis_supply bs d"
  using assms
proof (induction bs)
  case Nil
  then show ?case by (simp add: genesis_ledger_def genesis_supply_def total_of_def holdings_def)
next
  case (Cons b bs)
  let ?g = "\<lambda>d. genesis_ledger bs (bb_address b) d + amount_of (bb_coins b) d"
  have "genesis_ledger (b # bs) = (genesis_ledger bs)(bb_address b := ?g)"
    by (auto simp: genesis_ledger_def fun_eq_iff)
  moreover have "total_of ((genesis_ledger bs)(bb_address b := ?g)) d + genesis_ledger bs (bb_address b) d
      = total_of (genesis_ledger bs) d + ?g d"
    by (rule total_of_upd) (use Cons.prems in simp)
  ultimately show ?case using Cons by (simp add: genesis_supply_def del: fun_upd_apply)
qed

section \<open>The bank's genesis\<close>

lemma init_coins_refines:
  assumes L: "bank_libs_ok H" and a: "addr_ok a" and p: "\<And>d. p @ denom_to_string d = balance_key a d"
    and "kv_view H sk kv f" "bank_rel H f bal" "\<forall>c \<in> set cs. coin_ok c"
    and "distinct (map coin_denom cs)" "\<forall>c \<in> set cs. bal a (coin_denom c) = 0"
    and "\<forall>d. supply_of ts d + amount_of cs d < 2 ^ 256"
  shows "\<exists>ts' kv' f'. init_coins H p cs ts kv = Some (ts', kv') \<and> kv_only kv kv' \<and>
    kv_view H sk kv' f' \<and> bank_rel H f' (bal(a := \<lambda>d. bal a d + amount_of cs d)) \<and>
    (\<forall>d. f' (supply_store_key d) = f (supply_store_key d)) \<and>
    (\<forall>d. supply_of ts' d = supply_of ts d + amount_of cs d) \<and>
    (distinct (map fst ts) \<longrightarrow> distinct (map fst ts'))"
  using assms(4-)
proof (induction cs arbitrary: kv f bal ts)
  case Nil
  then show ?case
    by (intro exI [of _ ts] exI [of _ kv] exI [of _ f]) (simp add: amount_of_def)
next
  case (Cons c cs)
  let ?d = "coin_denom c" and ?e = "coin_encode_vec H c"
  have c: "coin_ok c" using Cons.prems(3) by simp
  then have d: "denom_ok ?d" by (simp add: coin_ok_def)
  obtain kv1 where w: "kv_set kv (balance_key a ?d) ?e = Some kv1"
    "kv_view H sk kv1 (f(balance_key a ?d \<mapsto> ?e))" "kv_only kv kv1"
    "bank_rel H (f(balance_key a ?d \<mapsto> ?e)) (bal(a := (bal a)(?d := amount c)))"
    by (rule kv_put_balance [OF L Cons.prems(1,2) a d c refl])
  have bound: "amount c + supply_of ts ?d < 2 ^ 256"
    using Cons.prems(6) [rule_format, of ?d] by (simp add: amount_of_Cons)
  define t where "t = coin_amount c + (case map_of ts ?d of None \<Rightarrow> 0 | Some a \<Rightarrow> a)"
  have t: "unat t = amount c + supply_of ts ?d" and
    add: "uint_add H (coin_amount c) (case map_of ts ?d of None \<Rightarrow> 0 | Some a \<Rightarrow> a) = Some t"
  proof -
    have s: "unat (case map_of ts ?d of None \<Rightarrow> 0 | Some a \<Rightarrow> a) = supply_of ts ?d"
      by (simp add: supply_of_def split: option.split)
    with bound L show "uint_add H (coin_amount c) (case map_of ts ?d of None \<Rightarrow> 0 | Some a \<Rightarrow> a) = Some t"
      by (simp add: bank_libs_ok_def uint256_okD t_def checked_add_Some)
    with s show "unat t = amount c + supply_of ts ?d"
      using L by (auto simp: bank_libs_ok_def uint256_okD dest: checked_add_SomeD)
  qed
  let ?ts = "supply_insert ?d t ts" and ?bal = "bal(a := (bal a)(?d := amount c))"
  have sum: "supply_of ?ts e + amount_of cs e = supply_of ts e + amount_of (c # cs) e" for e
    using t by (simp add: supply_of_insert amount_of_Cons)
  have "\<exists>ts' kv' f'. init_coins H p cs ?ts kv1 = Some (ts', kv') \<and> kv_only kv1 kv' \<and>
      kv_view H sk kv' f' \<and> bank_rel H f' (?bal(a := \<lambda>d. ?bal a d + amount_of cs d)) \<and>
      (\<forall>d. f' (supply_store_key d) = (f(balance_key a ?d \<mapsto> ?e)) (supply_store_key d)) \<and>
      (\<forall>d. supply_of ts' d = supply_of ?ts d + amount_of cs d) \<and>
      (distinct (map fst ?ts) \<longrightarrow> distinct (map fst ts'))"
    by (rule Cons.IH [OF w(2,4)]) (use Cons.prems(3-6) sum in \<open>auto simp: image_iff\<close>)
  then obtain ts' kv' f' where i: "init_coins H p cs ?ts kv1 = Some (ts', kv')" "kv_only kv1 kv'"
    "kv_view H sk kv' f'" "bank_rel H f' (?bal(a := \<lambda>d. ?bal a d + amount_of cs d))"
    "\<forall>d. f' (supply_store_key d) = f (supply_store_key d)"
    "\<forall>d. supply_of ts' d = supply_of ?ts d + amount_of cs d"
    "distinct (map fst ?ts) \<longrightarrow> distinct (map fst ts')" by auto
  have "?bal(a := \<lambda>d. ?bal a d + amount_of cs d) = bal(a := \<lambda>d. bal a d + amount_of (c # cs) d)"
    using Cons.prems(5) by (auto simp: fun_eq_iff amount_of_Cons)
  then show ?case
    using i w(1,3) add sum supply_insert_keys(2) [of ts ?d t] kv_only_trans [OF w(3) i(2)]
    by (intro exI [of _ ts'] exI [of _ kv'] exI [of _ f'])
      (simp add: prefix_set_def p Let_def del: fun_upd_apply)
qed

lemma init_balances_refines:
  assumes L: "bank_libs_ok H"
    and "kv_view H sk kv f" "bank_rel H f bal"
    and "\<forall>b \<in> set bs. addr_ok (bb_address b) \<and> distinct (map coin_denom (bb_coins b)) \<and>
      (\<forall>c \<in> set (bb_coins b). coin_ok c)"
    and "distinct (map bb_address bs)" "\<forall>b \<in> set bs. \<forall>d. bal (bb_address b) d = 0"
    and "\<forall>d. supply_of ts d + genesis_supply bs d < 2 ^ 256" "distinct (map fst ts)"
  shows "\<exists>ts' kv' f'. init_balances H bs ts kv = Some (ts', kv') \<and> kv_only kv kv' \<and>
    kv_view H sk kv' f' \<and> bank_rel H f' (\<lambda>a d. bal a d + genesis_ledger bs a d) \<and>
    (\<forall>d. f' (supply_store_key d) = f (supply_store_key d)) \<and>
    (\<forall>d. supply_of ts' d = supply_of ts d + genesis_supply bs d) \<and> distinct (map fst ts')"
  using assms(2-)
proof (induction bs arbitrary: kv f bal ts)
  case Nil
  then show ?case
    by (intro exI [of _ ts] exI [of _ kv] exI [of _ f])
      (simp add: genesis_ledger_def genesis_supply_def)
next
  case (Cons b bs)
  let ?a = "bb_address b" and ?cs = "bb_coins b"
  have a: "addr_ok ?a" using Cons.prems(3) by simp
  obtain p where p: "create_denom_balance_prefix ?a = Some p"
    "\<And>d. p @ denom_to_string d = balance_key ?a d" by (rule balance_prefix [OF a], rule that) assumption+
  have sum: "supply_of ts d + genesis_supply (b # bs) d
      = supply_of ts d + amount_of ?cs d + genesis_supply bs d" for d
    by (simp add: genesis_supply_def)
  have "supply_of ts d + amount_of ?cs d < 2 ^ 256" for d
    using Cons.prems(6) [rule_format, of d] unfolding sum by (rule le_less_trans [OF le_add1])
  with init_coins_refines [OF L a p(2) Cons.prems(1,2), of ?cs ts] Cons.prems(3,5,7)
  obtain ts1 kv1 f1 where i: "init_coins H p ?cs ts kv = Some (ts1, kv1)" "kv_only kv kv1"
    "kv_view H sk kv1 f1" "bank_rel H f1 (bal(?a := \<lambda>d. bal ?a d + amount_of ?cs d))"
    "\<forall>d. f1 (supply_store_key d) = f (supply_store_key d)"
    "\<forall>d. supply_of ts1 d = supply_of ts d + amount_of ?cs d" "distinct (map fst ts1)" by auto
  let ?bal = "bal(?a := \<lambda>d. bal ?a d + amount_of ?cs d)"
  have "\<exists>ts' kv' f'. init_balances H bs ts1 kv1 = Some (ts', kv') \<and> kv_only kv1 kv' \<and>
      kv_view H sk kv' f' \<and> bank_rel H f' (\<lambda>a d. ?bal a d + genesis_ledger bs a d) \<and>
      (\<forall>d. f' (supply_store_key d) = f1 (supply_store_key d)) \<and>
      (\<forall>d. supply_of ts' d = supply_of ts1 d + genesis_supply bs d) \<and> distinct (map fst ts')"
    by (rule Cons.IH [OF i(3,4)])
      (use Cons.prems(3-6) sum i(6,7) in \<open>auto simp: image_iff add.assoc\<close>)
  then obtain ts' kv' f' where j: "init_balances H bs ts1 kv1 = Some (ts', kv')" "kv_only kv1 kv'"
    "kv_view H sk kv' f'" "bank_rel H f' (\<lambda>a d. ?bal a d + genesis_ledger bs a d)"
    "\<forall>d. f' (supply_store_key d) = f (supply_store_key d)"
    "\<forall>d. supply_of ts' d = supply_of ts1 d + genesis_supply bs d" "distinct (map fst ts')"
    using i(5) by auto
  have "(\<lambda>a d. ?bal a d + genesis_ledger bs a d) = (\<lambda>a d. bal a d + genesis_ledger (b # bs) a d)"
    by (auto simp: fun_eq_iff genesis_ledger_def)
  then show ?case
    using i(1,6) j sum p(1) kv_only_trans [OF i(2) j(2)]
    by (intro exI [of _ ts'] exI [of _ kv'] exI [of _ f']) simp
qed

text \<open>The recorded supply.\<close>

definition recorded_supply :: "'db host \<Rightarrow> bytes \<Rightarrow> ctx \<Rightarrow> denom \<Rightarrow> nat option" where
  "recorded_supply H sk ctx d = do {
     r \<leftarrow> ctx_read H ctx sk (supply_store_key d);
     (case r of None \<Rightarrow> Some 0 | Some bs \<Rightarrow> map_option unat (uint_parse H bs)) }"

lemma set_supply_write:
  "set_supply H bk ctx \<lparr> coin_denom = d, coin_amount = a \<rparr>
     = ctx_write ctx (bk_store_key bk) (supply_store_key d) (uint_show H a)"
proof -
  have "set_supply H bk ctx \<lparr> coin_denom = d, coin_amount = a \<rparr> = Some c \<longleftrightarrow>
      ctx_write ctx (bk_store_key bk) (supply_store_key d) (uint_show H a) = Some c" for c
    by (auto simp: set_supply_def ctx_write_Some prefix_set_def supply_store_key_def bind_eq_Some_conv)
  then show ?thesis by (rule Some_ext)
qed

lemma set_supplies_refines:
  assumes "ctx_view H (bk_store_key bk) ctx f" "bank_rel H f bal" "distinct (map fst ts)"
  shows "\<exists>ctx' f'. set_supplies H bk ts ctx = Some ctx' \<and> touches H (bk_store_key bk) ctx ctx' \<and>
    ctx_view H (bk_store_key bk) ctx' f' \<and> bank_rel H f' bal \<and>
    (\<forall>d. f' (supply_store_key d) = (case map_of ts d of None \<Rightarrow> f (supply_store_key d)
       | Some a \<Rightarrow> Some (uint_show H a)))"
  using assms
proof (induction ts arbitrary: ctx f)
  case Nil
  then show ?case by (intro exI [of _ ctx] exI [of _ f]) simp
next
  case (Cons t ts)
  obtain d a where t: "t = (d, a)" by (cases t)
  obtain c where c: "ctx_write ctx (bk_store_key bk) (supply_store_key d) (uint_show H a) = Some c"
    "ctx_view H (bk_store_key bk) c (f(supply_store_key d \<mapsto> uint_show H a))"
    "touches H (bk_store_key bk) ctx c"
    by (rule view_put [OF Cons.prems(1) supply_keys(3)])
  have "bank_rel H (f(supply_store_key d \<mapsto> uint_show H a)) bal"
    using Cons.prems(2) by (simp add: bank_rel_def)
  from Cons.IH [OF c(2) this] Cons.prems(3) obtain ctx' f' where i:
    "set_supplies H bk ts c = Some ctx'" "touches H (bk_store_key bk) c ctx'"
    "ctx_view H (bk_store_key bk) ctx' f'" "bank_rel H f' bal"
    "\<forall>e. f' (supply_store_key e) = (case map_of ts e of
       None \<Rightarrow> (f(supply_store_key d \<mapsto> uint_show H a)) (supply_store_key e)
     | Some a \<Rightarrow> Some (uint_show H a))" by auto
  have "map_of ts d = None" using Cons.prems(3) t by (simp add: map_of_eq_None_iff)
  then have "f' (supply_store_key e) = (case map_of (t # ts) e of None \<Rightarrow> f (supply_store_key e)
      | Some a \<Rightarrow> Some (uint_show H a))" for e
    using i(5) [rule_format, of e] t by (auto split: option.splits)
  then show ?case
    using i(1,3,4) c(1) t touches_trans [OF c(3) i(2)]
    by (intro exI [of _ ctx'] exI [of _ f']) (simp add: set_supply_write)
qed

lemma ctx_view_store:
  assumes "ctx_view H sk ctx f"
  obtains kv where "ctx_get_kv_store ctx sk = Some kv" "kv_view H sk kv f"
proof -
  from view_read [OF assms, of "[]"] obtain kv where kv: "ctx_get_kv_store ctx sk = Some kv"
    by (auto simp: ctx_read_def bind_eq_Some_conv)
  with assms have "kv_view H sk kv f" by (simp add: view_def ctx_read_def)
  with kv that show thesis by blast
qed

lemma bank_init_genesis_refines:
  assumes L: "bank_libs_ok H" and v: "ctx_view H (bk_store_key bk) ctx Map.empty"
    and p: "ctx_view H (pk_store_key (bp_params_keeper (bk_params_keeper bk))) ctx g"
    and ne: "pk_store_key (bp_params_keeper (bk_params_keeper bk)) \<noteq> bk_store_key bk"
    and ok: "balances_ok (bg_balances genesis)"
  obtains ctx' g' where "bank_init_genesis H bk ctx genesis = Some ctx'"
    "bank_state H bk ctx' (genesis_ledger (bg_balances genesis))"
    "\<And>d. recorded_supply H (bk_store_key bk) ctx' d = Some (genesis_supply (bg_balances genesis) d)"
    "ctx_view H (pk_store_key (bp_params_keeper (bk_params_keeper bk))) ctx' g'"
    "bank_params_get H (bk_params_keeper bk) ctx' = Some (bg_params genesis)"
    "tx_only ctx ctx'"
    "\<And>n h. n \<noteq> bk_store_key bk \<Longrightarrow> n \<noteq> pk_store_key (bp_params_keeper (bk_params_keeper bk)) \<Longrightarrow>
       ctx_view H n ctx' h = ctx_view H n ctx h"
proof -
  let ?sk = "bk_store_key bk" and ?ps = "pk_store_key (bp_params_keeper (bk_params_keeper bk))"
  let ?bs = "bg_balances genesis"
  obtain c1 g1 where c1: "bank_params_set (bk_params_keeper bk) ctx (bg_params genesis) = Some c1"
    "touches H ?ps ctx c1" "ctx_view H ?ps c1 g1"
    "bank_params_get H (bk_params_keeper bk) c1 = Some (bg_params genesis)"
    by (rule bank_params_set_view [OF p])
  have v1: "ctx_view H ?sk c1 Map.empty" using v touchesD(3) [OF c1(2), of ?sk] ne by simp
  then obtain kv where kv: "ctx_get_kv_store c1 ?sk = Some kv" "kv_view H ?sk kv Map.empty"
    by (rule ctx_view_store)
  have "bank_rel H Map.empty (\<lambda>_ _. 0)" by (simp add: bank_rel_def)
  from init_balances_refines [OF L kv(2) this, of ?bs "[]"] ok obtain ts kv' f where i:
    "init_balances H ?bs [] kv = Some (ts, kv')" "kv_only kv kv'" "kv_view H ?sk kv' f"
    "bank_rel H f (genesis_ledger ?bs)" "\<forall>d. f (supply_store_key d) = None"
    "\<forall>d. supply_of ts d = genesis_supply ?bs d" "distinct (map fst ts)"
    by (auto simp: balances_ok_def supply_of_def)
  define c2 where "c2 = ctx_set_multi_store c1 (set_kv_store (ctx_multi_store c1) ?sk kv')"
  have ws: "with_store c1 ?sk (\<lambda>_. Some (Inr () :: unit + unit, kv')) = Some (Inr (), c2)"
    using kv(1) by (simp add: with_store_def c2_def)
  note get = with_store_get [OF ws kv(1)]
  have "ctx_view H ?sk c2 f" using i(3) get [of kv' ?sk] by (simp add: view_def ctx_read_def)
  from set_supplies_refines [OF this i(4,7)] obtain c3 f' where c3:
    "set_supplies H bk ts c2 = Some c3" "touches H ?sk c2 c3" "ctx_view H ?sk c3 f'"
    "bank_rel H f' (genesis_ledger ?bs)"
    "\<forall>d. f' (supply_store_key d) = (case map_of ts d of None \<Rightarrow> f (supply_store_key d)
       | Some a \<Rightarrow> Some (uint_show H a))" by blast
  have t2: "touches H ?sk c1 c2"
  proof -
    have "tx_only c1 c2"
      using set_kv_store_only [of "ctx_multi_store c1" ?sk kv kv'] kv(1) i(2)
      by (simp add: tx_only_def c2_def ctx_get_kv_store_def)
    moreover have "ctx_events c2 = ctx_events c1" by (simp add: c2_def)
    moreover have "ctx_view H n c2 h = ctx_view H n c1 h" if "n \<noteq> ?sk" for n h
      using get [of kv' n] that by (simp add: view_def ctx_read_def)
    ultimately show ?thesis by (simp add: touches_def)
  qed
  have t3: "touches H ?sk c1 c3" by (rule touches_trans [OF t2 c3(2)])
  show thesis
  proof (rule that)
    show "bank_init_genesis H bk ctx genesis = Some c3"
      using c1(1) kv(1) i(1) c3(1) by (simp add: bank_init_genesis_def c2_def)
    show "bank_state H bk c3 (genesis_ledger ?bs)" using c3(3,4) by (auto simp: bank_state_def)
    show "recorded_supply H ?sk c3 d = Some (genesis_supply ?bs d)" for d
    proof -
      have "uint_parse H (uint_show H a) = Some a" for a
        using L by (simp add: bank_libs_ok_def uint256_okD)
      then show ?thesis
        using c3(5) i(5) i(6) [rule_format, of d]
        by (auto simp: recorded_supply_def view_read [OF c3(3)] supply_of_def split: option.splits)
    qed
    have "ctx_view H ?ps c3 g1" using c1(3) touchesD(3) [OF t3 ne] by simp
    then show "ctx_view H ?ps c3 g1" .
    then show "bank_params_get H (bk_params_keeper bk) c3 = Some (bg_params genesis)"
      using bank_params_get_cong [OF c1(3)] c1(4) by simp
    show "tx_only ctx c3" using tx_only_trans [OF touchesD(1) [OF c1(2)] touchesD(1) [OF t3]] .
    show "ctx_view H n c3 h = ctx_view H n ctx h" if "n \<noteq> ?sk" "n \<noteq> ?ps" for n h
      using touchesD(3) [OF t3] touchesD(3) [OF c1(2)] that by simp
  qed
qed

section \<open>The chain's genesis\<close>

lemma set_consensus_params_view:
  assumes v: "ctx_view H (pk_store_key (ba_params_keeper bak)) ctx f"
    and d: "\<forall>e dur. cp_evidence params = Some e \<longrightarrow> rep_max_age_duration e = Some dur \<longrightarrow>
      duration_nanos dur \<noteq> None"
  obtains ctx' f' where "set_consensus_params J bak ctx params = Some ctx'"
    "touches H (pk_store_key (ba_params_keeper bak)) ctx ctx'"
    "ctx_view H (pk_store_key (ba_params_keeper bak)) ctx' f'"
proof -
  let ?b = "map_option (\<lambda>p. block_json J (block_params_from p)) (cp_block params)"
  let ?v = "map_option (\<lambda>p. validator_json J (validator_params_from p)) (cp_validator params)"
  have keys: "KEY_BLOCK_PARAMS \<noteq> []" "KEY_EVIDENCE_PARAMS \<noteq> []" "KEY_VALIDATOR_PARAMS \<noteq> []"
    by (simp_all add: KEY_BLOCK_PARAMS_def KEY_EVIDENCE_PARAMS_def KEY_VALIDATOR_PARAMS_def)
  obtain e where e: "(case cp_evidence params of None \<Rightarrow> Some None
      | Some p \<Rightarrow> map_option (\<lambda>e. Some (evidence_json J e)) (evidence_params_from p)) = Some e"
    using d by (fastforce simp: evidence_params_from_def bind_eq_Some_conv split: option.splits)
  from set_optional_view [OF v keys(1), of "Some ?b" ?b] obtain c1 f1 where c1:
    "set_optional bak ctx KEY_BLOCK_PARAMS (Some ?b) = Some c1"
    "touches H (pk_store_key (ba_params_keeper bak)) ctx c1"
    "ctx_view H (pk_store_key (ba_params_keeper bak)) c1 f1" by blast
  from set_optional_view [OF c1(3) keys(2) e] obtain c2 f2 where c2:
    "set_optional bak c1 KEY_EVIDENCE_PARAMS (case cp_evidence params of None \<Rightarrow> Some None
      | Some p \<Rightarrow> map_option (\<lambda>e. Some (evidence_json J e)) (evidence_params_from p)) = Some c2"
    "touches H (pk_store_key (ba_params_keeper bak)) c1 c2"
    "ctx_view H (pk_store_key (ba_params_keeper bak)) c2 f2" by blast
  from set_optional_view [OF c2(3) keys(3), of "Some ?v" ?v] obtain c3 f3 where c3:
    "set_optional bak c2 KEY_VALIDATOR_PARAMS (Some ?v) = Some c3"
    "touches H (pk_store_key (ba_params_keeper bak)) c2 c3"
    "ctx_view H (pk_store_key (ba_params_keeper bak)) c3 f3" by blast
  show thesis
    by (rule that [OF _ touches_trans [OF touches_trans [OF c1(2) c2(2)] c3(2)] c3(3)])
      (simp add: set_consensus_params_def c1(1) c2(1) c3(1))
qed

definition genesis_ok :: "'a libs_scheme \<Rightarrow> gaia_genesis \<Rightarrow> bool" where
  "genesis_ok L genesis \<longleftrightarrow> balances_ok (bg_balances (gs_bank genesis)) \<and>
     Suc (length (ag_accounts (gs_auth genesis))) < 2 ^ 64 \<and>
     (\<forall>acct \<in> set (ag_accounts (gs_auth genesis)). addr_ok (ba_address acct) \<and>
        module_get_address L FeeCollector \<noteq> Some (ba_address acct))"

text \<open>The store keys and the parameter store are different stores.\<close>

lemma gaia_keys:
  "bk_store_key gaia_bank_keeper = store_key_name BankKey"
  "ak_store_key gaia_auth_keeper = store_key_name AuthKey"
  "pk_store_key (bp_params_keeper (bk_params_keeper gaia_bank_keeper)) = store_key_name ParamsKey"
  "pk_store_key (ap_params_keeper (ak_params_keeper gaia_auth_keeper)) = store_key_name ParamsKey"
  "pk_store_key (ba_params_keeper gaia_baseapp_params_keeper) = store_key_name ParamsKey"
  by (simp_all add: gaia_bank_keeper_def gaia_auth_keeper_def gaia_params_keeper_def
      gaia_baseapp_params_keeper_def)

lemma store_key_names_differ:
  "store_key_name BankKey \<noteq> store_key_name AuthKey" "store_key_name BankKey \<noteq> store_key_name ParamsKey"
  "store_key_name ParamsKey \<noteq> store_key_name AuthKey"
  by simp_all

lemma gaia_genesis_refines:
  assumes L: "libs_ok H" and fc: "module_get_address H FeeCollector = Some fc"
    and b: "ctx_view H (store_key_name BankKey) ctx Map.empty"
    and a: "ctx_view H (store_key_name AuthKey) ctx Map.empty"
    and p: "ctx_view H (store_key_name ParamsKey) ctx g" and ok: "genesis_ok H genesis"
  obtains ctx' accs where "gaia_handle_init_genesis H ctx genesis = Some ctx'"
    "gaia_rel H ctx' (genesis_ledger (bg_balances (gs_bank genesis))) accs"
    "\<And>d. recorded_supply H (store_key_name BankKey) ctx' d
       = Some (genesis_supply (bg_balances (gs_bank genesis)) d)"
    "tx_only ctx ctx'"
proof -
  let ?bal = "genesis_ledger (bg_balances (gs_bank genesis))"
  let ?accts = "ag_accounts (gs_auth genesis)"
  note differ = store_key_names_differ
  have bg: "balances_ok (bg_balances (gs_bank genesis))" "Suc (length ?accts) < 2 ^ 64"
    "\<forall>acct \<in> set ?accts. addr_ok (ba_address acct)" "fc \<notin> ba_address ` set ?accts"
    using ok fc by (auto simp: genesis_ok_def)
  obtain c1 g1 where c1: "bank_init_genesis H gaia_bank_keeper ctx (gs_bank genesis) = Some c1"
    "bank_state H gaia_bank_keeper c1 ?bal"
    "\<And>d. recorded_supply H (store_key_name BankKey) c1 d
       = Some (genesis_supply (bg_balances (gs_bank genesis)) d)"
    "ctx_view H (store_key_name ParamsKey) c1 g1"
    "bank_params_get H (bk_params_keeper gaia_bank_keeper) c1 = Some (bg_params (gs_bank genesis))"
    "tx_only ctx c1" "\<And>n h. n \<noteq> store_key_name BankKey \<Longrightarrow> n \<noteq> store_key_name ParamsKey \<Longrightarrow>
       ctx_view H n c1 h = ctx_view H n ctx h"
    by (rule bank_init_genesis_refines [OF libs_okD(2) [OF L], of gaia_bank_keeper ctx g "gs_bank genesis",
        unfolded gaia_keys, OF b p differ(2) [symmetric] bg(1)], rule that) assumption+
  have "auth_state H gaia_auth_keeper c1 Map.empty 0"
    by (rule auth_state_empty) (use a c1(7) [OF differ(1) [symmetric] differ(3) [symmetric]] in \<open>simp only: gaia_keys\<close>)
  from auth_init_genesis_refines [OF libs_okD(1) [OF L] this, unfolded gaia_keys,
      OF c1(4) differ(3) bg(2,3) fc bg(4)]
  obtain c2 where c2: "auth_init_genesis H gaia_auth_keeper c1 (gs_auth genesis) = Some c2"
    "auth_state H gaia_auth_keeper c2
       ((number_accounts Map.empty 0 ?accts)(fc \<mapsto> new_module fc (of_nat (length ?accts))))
       (of_nat (Suc (length ?accts)))" "tx_only c1 c2"
    "\<And>h. ctx_view H (store_key_name BankKey) c2 h = ctx_view H (store_key_name BankKey) c1 h"
    using differ by blast
  let ?accs = "(number_accounts Map.empty 0 ?accts)(fc \<mapsto> new_module fc (of_nat (length ?accts)))"
  have bs: "bank_state H gaia_bank_keeper c2 ?bal"
    using c1(2) c2(4) by (simp add: bank_state_def gaia_keys)
  have len: "unat (of_nat (length ?accts) :: u64) = length ?accts"
    by (rule unat_of_nat_bounded) (use bg(2) in simp)
  have inv: "auth_inv (number_accounts Map.empty 0 ?accts) (0 + of_nat (length ?accts))"
    by (rule auth_inv_number [OF auth_inv_empty]) (use bg in simp_all)
  have "addr_ok fc" using fc from_bech32_ok by (auto simp: unwrap_result_Some)
  with auth_inv_new [OF inv, of "new_module fc (of_nat (length ?accts))" fc] len bg(2)
  have "auth_inv ?accs (of_nat (Suc (length ?accts)))"
    by (simp add: get_address_def get_account_number_def add.commute del: fun_upd_apply)
  with bs c2(2) L fc have r: "gaia_rel H c2 ?bal ?accs"
    unfolding gaia_rel_def app_state_def by (auto simp: gaia_keys)
  have rec: "recorded_supply H (store_key_name BankKey) c2 d
      = Some (genesis_supply (bg_balances (gs_bank genesis)) d)" for d
  proof -
    obtain f where f: "ctx_view H (store_key_name BankKey) c1 f"
      using c1(2) by (auto simp: bank_state_def gaia_keys)
    then have g: "ctx_view H (store_key_name BankKey) c2 f" unfolding c2(4) .
    show ?thesis using c1(3) [of d] unfolding recorded_supply_def view_read [OF f] view_read [OF g] .
  qed
  show thesis
    by (rule that [of c2 ?accs])
      (use c1(1) c2(1) r rec tx_only_trans [OF c1(6) c2(3)] in
        \<open>simp_all add: gaia_handle_init_genesis_def del: fun_upd_apply\<close>)
qed

section \<open>A fresh node\<close>

lemma open_fresh_stores:
  assumes "\<forall>n \<in> set names. get_versions C (module_db D n) s = Some []"
  shows "\<exists>infos. open_stores C D s names head
    = Some (if names = [] then head else 0, infos, map (\<lambda>n. (n, empty_store)) names) \<and>
      length infos = length names"
  using assms
proof (induction names arbitrary: head)
  case (Cons n names)
  have v: "kv_last_committed_version empty_store = 0"
    by (simp add: kv_last_committed_version_def empty_store_def)
  have "\<forall>n \<in> set names. get_versions C (module_db D n) s = Some []" using Cons.prems by simp
  from Cons.IH [OF this, of 0] obtain infos where
    "open_stores C D s names 0 = Some (0, infos, map (\<lambda>n. (n, empty_store)) names)"
    "length infos = length names" by auto
  moreover have "kv_new C (module_db D n) s None = Some (Inr empty_store)"
    using Cons.prems by (simp add: kv_new_def tree_new_def btset_last_def empty_store_def)
  ultimately show ?case by (simp add: v)
qed simp

text \<open>The state of the last commit before there is one: version 0 and empty trees.\<close>

definition genesis_state :: "bytes list \<Rightarrow> u64 \<times> bytes \<times> (bytes \<times> tree) list \<Rightarrow> bool" where
  "genesis_state names hs \<longleftrightarrow>
     (\<exists>hash. hs = (0, hash, map (\<lambda>n. (n, persistent_store empty_store)) names))"

lemma fresh_multi_store:
  assumes "\<forall>n \<in> set names. get_versions C (module_db D n) s = Some []" "names \<noteq> []" "distinct names"
  obtains ms where "multi_new C D s names = Some ms" "clean ms" "genesis_state names (head_state ms)"
    "head_version ms = 0"
    "\<And>n. n \<in> set names \<Longrightarrow> get_kv_store ms n = Some empty_store"
proof -
  from open_fresh_stores [OF assms(1), of 0] assms(2) obtain infos where o: "open_stores C D s names 0
    = Some (0, infos, map (\<lambda>n. (n, empty_store)) names)" "length infos = length names" by auto
  with assms(2) have "infos \<noteq> []" by auto
  from hash_store_infos_total [OF this] obtain x where x: "hash_store_infos C infos = Some x" by blast
  let ?ms = "\<lparr> head_version = 0, head_commit_hash = x, stores = map (\<lambda>n. (n, empty_store)) names \<rparr>"
  have "multi_new C D s names = Some ?ms" using o(1) x by (simp add: multi_new_def)
  moreover have "clean ?ms"
    using assms(3) by (auto simp: clean_def ms_ok_def kv_ok_def empty_store_def clear_tx_caches_def
        clear_tx_cache_def o_def)
  moreover have "get_kv_store ?ms n = Some empty_store" if "n \<in> set names" for n
    using that by (simp add: get_kv_store_def map_of_map_restrict)
  moreover have "genesis_state names (head_state ?ms)"
    by (simp add: genesis_state_def head_state_def o_def)
  moreover have "head_version ?ms = 0" by simp
  ultimately show thesis using that by blast
qed

lemma empty_store_view:
  "ctx_get_kv_store ctx sk = Some empty_store \<Longrightarrow> ctx_view H sk ctx Map.empty"
  by (simp add: view_def ctx_read_def kv_read_def kv_get_def empty_store_def tree_get_def)

lemma gaia_store_names:
  "set gaia_store_names = {store_key_name BankKey, store_key_name AuthKey, store_key_name ParamsKey}"
  "distinct gaia_store_names" "gaia_store_names \<noteq> []"
  by (auto simp: gaia_store_names_def)

definition fresh_database :: "'db host \<Rightarrow> bool" where
  "fresh_database H \<longleftrightarrow> (\<forall>n \<in> set gaia_store_names.
     get_versions (storage H) (module_db (host_db H) n) (host_state H) = Some [])"

definition consensus_ok :: "request_init_chain \<Rightarrow> bool" where
  "consensus_ok request \<longleftrightarrow> (\<forall>p e dur. rqi_consensus_params request = Some p \<longrightarrow>
     cp_evidence p = Some e \<longrightarrow> rep_max_age_duration e = Some dur \<longrightarrow> duration_nanos dur \<noteq> None)"

lemma init_fields:
  "app_json (gaia_app H env) = env_json env"
  "app_params_keeper (gaia_app H env) = gaia_baseapp_params_keeper"
  "app_parse_genesis (gaia_app H env) = env_parse_genesis env"
  "app_handle_init_genesis (gaia_app H env) = gaia_handle_init_genesis"
  by (simp_all add: gaia_app_def)

lemma init_chain_effect:
  fixes H :: "'db host" and env :: gaia_env
  assumes L: "libs_ok H" and fc: "module_get_address H FeeCollector = Some fc"
    and fresh: "fresh_database H"
    and parse: "env_parse_genesis env (rqi_app_state_bytes request) = Inr genesis"
    and ok: "genesis_ok H genesis" "consensus_ok request"
  obtains nd0 res nd accs where "base_app_new H (gaia_app H env) (host_state H) = Some nd0"
    "init_chain H (gaia_app H env) nd0 request = Some (res, nd)" "nd_db nd = host_state H"
    "node_rel (gaia_rel H) (nd_multi_store nd) (genesis_ledger (bg_balances (gs_bank genesis))) accs"
    "\<And>ctx d. ctx_multi_store ctx = nd_multi_store nd \<Longrightarrow>
       recorded_supply H (store_key_name BankKey) ctx d
         = Some (genesis_supply (bg_balances (gs_bank genesis)) d)"
    "nd_height nd = 0" "genesis_state gaia_store_names (head_state (nd_multi_store nd))"
proof -
  obtain ms where ms: "multi_new (storage H) (host_db H) (host_state H) gaia_store_names = Some ms"
    "clean ms" "genesis_state gaia_store_names (head_state ms)" "head_version ms = 0"
    "\<And>n. n \<in> set gaia_store_names \<Longrightarrow> get_kv_store ms n = Some empty_store"
    by (rule fresh_multi_store [OF fresh [unfolded fresh_database_def] gaia_store_names(3,2)], rule that)
      assumption+
  define nd0 where "nd0 = \<lparr> nd_multi_store = ms, nd_height = head_version ms,
    nd_block_header = None, nd_db = host_state H \<rparr>"
  have new: "base_app_new H (gaia_app H env) (host_state H) = Some nd0"
    using ms(1) by (simp add: base_app_new_def nd0_def gaia_app_def)
  have H: "node_host H nd0 = H" and ms0: "nd_multi_store nd0 = ms"
    by (simp_all add: node_host_def nd0_def)
  define c0 where "c0 = InitContext (init_context_new ms (nd_height nd0) (rqi_chain_id request))"
  have view0: "ctx_view H n c0 Map.empty" if "n \<in> set gaia_store_names" for n
    by (rule empty_store_view)
      (use ms(5) [OF that] in \<open>simp add: c0_def init_context_new_def ctx_get_kv_store_def\<close>)
  note v0 = view0 [unfolded gaia_store_names(1)]
  obtain c1 g where c1: "(case rqi_consensus_params request of
      Some params \<Rightarrow> set_consensus_params (env_json env) gaia_baseapp_params_keeper c0 params
    | None \<Rightarrow> Some c0) = Some c1" "touches H (store_key_name ParamsKey) c0 c1"
    "ctx_view H (store_key_name ParamsKey) c1 g"
  proof (cases "rqi_consensus_params request")
    case None
    then show thesis using that [of c0 Map.empty] v0 by simp
  next
    case (Some params)
    from ok(2) Some have dur: "\<forall>e dur. cp_evidence params = Some e \<longrightarrow>
        rep_max_age_duration e = Some dur \<longrightarrow> duration_nanos dur \<noteq> None"
      by (simp add: consensus_ok_def)
    have v: "ctx_view H (store_key_name ParamsKey) c0 Map.empty" using v0 by blast
    obtain c1 g where
      "set_consensus_params (env_json env) gaia_baseapp_params_keeper c0 params = Some c1"
      "touches H (store_key_name ParamsKey) c0 c1" "ctx_view H (store_key_name ParamsKey) c1 g"
      by (rule set_consensus_params_view [where H = H and bak = gaia_baseapp_params_keeper
            and params = params and ctx = c0 and J = "env_json env", unfolded gaia_keys, OF v dur],
          rule that) assumption+
    with Some show thesis using that by simp
  qed
  have b1: "ctx_view H (store_key_name BankKey) c1 Map.empty"
    using touchesD(3) [OF c1(2) store_key_names_differ(2)] v0 by blast
  have a1: "ctx_view H (store_key_name AuthKey) c1 Map.empty"
    using touchesD(3) [OF c1(2) store_key_names_differ(3) [symmetric]] v0 by blast
  obtain c2 accs where c2: "gaia_handle_init_genesis H c1 genesis = Some c2"
    "gaia_rel H c2 (genesis_ledger (bg_balances (gs_bank genesis))) accs"
    "\<And>d. recorded_supply H (store_key_name BankKey) c2 d
       = Some (genesis_supply (bg_balances (gs_bank genesis)) d)" "tx_only c1 c2"
    by (rule gaia_genesis_refines [OF L fc b1 a1 c1(3) ok(1)], rule that) assumption+
  have t02: "tx_only c0 c2" by (rule tx_only_trans [OF touchesD(1) [OF c1(2)] c2(4)])
  have "ms_ok (ctx_multi_store c0)" using ms(2) by (simp add: c0_def init_context_new_def clean_def)
  then have ms2: "ms_ok (ctx_multi_store c2)" using t02 by (simp add: tx_only_def)
  obtain ms' where ms': "write_then_clear_tx_caches (ctx_multi_store c2) = Some ms'"
    by (rule write_tx_caches_views [OF ms2])
  have hs: "head_state ms' = head_state ms"
    using write_head [OF ms'] tx_only_head [OF _ t02] ms(2) by (simp add: c0_def init_context_new_def)
  have n: "node_rel (gaia_rel H) ms' (genesis_ledger (bg_balances (gs_bank genesis))) accs"
    by (rule ga.node_rel_write [OF c2(2) ms2 ms'])
  have rec: "recorded_supply H (store_key_name BankKey) ctx d
      = Some (genesis_supply (bg_balances (gs_bank genesis)) d)" if "ctx_multi_store ctx = ms'" for ctx d
  proof -
    obtain f where f: "ctx_view H (store_key_name BankKey) c2 f"
      using c2(2) by (auto simp: gaia_rel_def app_state_def bank_state_def gaia_keys)
    then have g: "ctx_view H (store_key_name BankKey) ctx f"
      by (rule view_same_reads) (simp add: that write_clean [OF ms2 ms'])
    show ?thesis using c2(3) [of d] unfolding recorded_supply_def view_read [OF f] view_read [OF g] .
  qed
  have "\<exists>res. init_chain H (gaia_app H env) nd0 request = Some (res, set_multi_store nd0 ms')"
  proof -
    have "init_chain H (gaia_app H env) nd0 request = Some
        (\<lparr> ric_consensus_params = rqi_consensus_params request,
           ric_validators = rqi_validators request, ric_app_hash = lit ''hash_goes_here'' \<rparr>,
         set_multi_store nd0 ms')"
      using c1(1) c2(1) ms' parse unfolding init_chain_def H Let_def init_fields ms0 c0_def
      by simp
    then show ?thesis by blast
  qed
  then obtain res where res: "init_chain H (gaia_app H env) nd0 request = Some (res, set_multi_store nd0 ms')" ..
  show thesis
    by (rule that [OF new res]) (use n rec hs ms(3,4) in \<open>simp_all add: nd0_def\<close>)
qed

section \<open>A genesis for the examples\<close>

text \<open>The genesis the repository ships, on an empty in-memory database.\<close>

definition demo_genesis_env :: gaia_env where
  "demo_genesis_env = demo_env\<lparr> env_parse_genesis :=
     (\<lambda>_. case gaia_genesis_default demo_host of None \<Rightarrow> Inl [] | Some g \<Rightarrow> Inr g) \<rparr>"

definition demo_request :: request_init_chain where
  "demo_request = \<lparr> rqi_chain_id = lit ''demo'', rqi_consensus_params = None, rqi_validators = [],
     rqi_app_state_bytes = [] \<rparr>"

lemma demo_fresh: "fresh_database demo_host"
proof -
  have "get_versions C (module_db memdb_ops n) memdb_new = Some []" for C n
    by (simp add: get_versions_def prefixdb_prefix_iterator_def prefixdb_new_def Let_def)
      (simp add: memdb_ops_def memdb_scan_eq memdb_new_def)
  then show ?thesis by (simp add: fresh_database_def)
qed

lemma demo_genesis:
  obtains g a where "gaia_genesis_default demo_host = Some g" "genesis_ok demo_host g"
    "bg_balances (gs_bank g) = [\<lparr> bb_address = a, bb_coins = [\<lparr> coin_denom = Denom (lit ''uatom''),
       coin_amount = 34 \<rparr>] \<rparr>]" "addr_ok a"
proof -
  let ?a = "AccAddress (lit ''syavy2npfyt9tcncdtsdzf7kny9lh777pahuux'')"
  have a: "from_bech32 demo_host (lit ''cosmos1syavy2npfyt9tcncdtsdzf7kny9lh777pahuux'') = Inr ?a"
    by (simp add: from_bech32_def demo_libs_def BECH32_PREFIX_ACC_ADDR_def BECH32_MAIN_PREFIX_def)
  have d: "denom_try_from (lit ''uatom'') = Inr (Denom (lit ''uatom''))" "denom_ok (Denom (lit ''uatom''))"
    by (simp_all add: denom_try_from_def denom_match_def denom_ok_def is_letter_def is_denom_char_def)
  have ok: "addr_ok ?a" by (simp add: addr_ok_def)
  obtain g where g: "gaia_genesis_default demo_host = Some g"
    "bg_balances (gs_bank g) = [\<lparr> bb_address = ?a, bb_coins = [\<lparr> coin_denom = Denom (lit ''uatom''),
       coin_amount = 34 \<rparr>] \<rparr>]"
    "ag_accounts (gs_auth g) = [\<lparr> ba_address = ?a, ba_pub_key = None, ba_account_number = 0, ba_sequence = 0 \<rparr>]"
    unfolding gaia_genesis_default_def a d(1) by simp
  have "genesis_ok demo_host g"
    using ok d(2) demo_fee_collector
    by (simp add: genesis_ok_def balances_ok_def g genesis_supply_def amount_of_def coin_ok_def)
      (simp add: demo_fee_collector_def)
  then show thesis using that g ok by blast
qed

end
