(* ===== verification/Store_Commit.thy ===== *)
theory Store_Commit
  imports Contexts
begin

text \<open>
  Commits that return: what a block wrote goes into the trees of the module stores, the trees go
  into the database, and every store reads as before. \<open>agrow\<close> is the insertion of a block's
  entries on abstract trees; it is undefined where a rotation would need a subtree that is only
  in the database, or where a height or a size leaves its integer type. \<open>committed\<close> is the state
  of a store between commits: exactly what loading it from the database gives.
\<close>

section \<open>Writing the entries of a block into a tree\<close>

fun agrow :: "u64 \<Rightarrow> atree option \<Rightarrow> (bytes \<times> bytes) list \<Rightarrow> atree option option" where
  "agrow ver ta [] = Some ta"
| "agrow ver ta ((k, v) # es) =
     Option.bind (case ta of None \<Rightarrow> Some (ALf k v ver) | Some a \<Rightarrow> ains a k v ver)
       (\<lambda>a. agrow ver (Some a) es)"

lemma agrow_Some: "agrow ver (Some a) es \<noteq> Some None"
  by (induction es arbitrary: a) (auto simp: bind_eq_Some_conv)

lemma agrow_None:
  assumes "agrow ver ta es = Some None"
  shows "ta = None" "es = []"
proof -
  show "es = []"
  proof (rule ccontr)
    assume "es \<noteq> []"
    then obtain k v es' where "es = (k, v) # es'" by (cases es) auto
    with assms obtain a where "agrow ver (Some a) es' = Some None"
      by (auto simp: bind_eq_Some_conv)
    with agrow_Some show False by blast
  qed
  with assms show "ta = None" by simp
qed

definition entries_of :: "atree option \<Rightarrow> (bytes \<times> bytes) list" where
  "entries_of ta = (case ta of None \<Rightarrow> [] | Some a \<Rightarrow> entries a)"

lemma entries_of_simps [simp]: "entries_of None = []" "entries_of (Some a) = entries a"
  by (simp_all add: entries_of_def)

definition root_ok :: "crates \<Rightarrow> 'db database_ops \<Rightarrow> 'db \<Rightarrow> atree option \<Rightarrow> bool" where
  "root_ok C D s ta \<longleftrightarrow> (\<forall>a \<in> set_option ta. backed C D s a \<and> bst a \<and> fits a)"

lemma root_ok_simps [simp]:
  "root_ok C D s None" "root_ok C D s (Some a) \<longleftrightarrow> backed C D s a \<and> bst a \<and> fits a"
  by (simp_all add: root_ok_def)

lemma put_all_agrow:
  assumes "tree_root t = map_option (conc C) ta" "root_ok C D s ta"
    and "checked_add (tree_loaded_version t) 1 = Some ver" "agrow ver ta es = Some ta'"
  shows "put_all (tree_set C D s) es t = Some (t\<lparr> tree_root := map_option (conc C) ta' \<rparr>) \<and>
     root_ok C D s ta' \<and> entries_of ta' = fold (\<lambda>(k, v). btree_insert k v) es (entries_of ta)"
  using assms
proof (induction es arbitrary: t ta)
  case Nil
  then have "t = t\<lparr> tree_root := map_option (conc C) ta' \<rparr>" by simp
  with Nil show ?case by simp
next
  case (Cons e es)
  obtain k v where e: "e = (k, v)" by (cases e)
  from Cons.prems(4) e obtain a where a: "(case ta of None \<Rightarrow> Some (ALf k v ver) | Some a \<Rightarrow> ains a k v ver) = Some a"
    "agrow ver (Some a) es = Some ta'" by (auto simp: bind_eq_Some_conv)
  let ?t1 = "t\<lparr> tree_root := Some (conc C a) \<rparr>"
  have "tree_set C D s t k v = Some ?t1 \<and> root_ok C D s (Some a) \<and>
      entries a = btree_insert k v (entries_of ta)"
  proof (cases ta)
    case None
    with Cons.prems a(1) show ?thesis by (auto simp: tree_set_def fits_def)
  next
    case (Some b)
    with a(1) have i: "ains b k v ver = Some a" by simp
    from Cons.prems(2) Some have b: "backed C D s b" "bst b" "fits b" by simp_all
    show ?thesis
      using recursive_set_conc [OF i b(1,3)] ains_content [OF i b(2)] ains_fits [OF i b(3)]
        Cons.prems(1,3) Some by (simp add: tree_set_def)
  qed
  then show ?case
    using Cons.IH [of ?t1 "Some a"] Cons.prems(3) a(2) e by simp
qed

section \<open>A store between commits\<close>

text \<open>
  What can be stored: bounds of the format, and no collision among the strings that are hashed for
  the tree.
\<close>

definition storable_tree :: "crates \<Rightarrow> atree \<Rightarrow> bool" where
  "storable_tree C a \<longleftrightarrow>
     persistable a \<and> inj_on (sha256 C) (hash_inputs C a) \<and> ahash C a \<noteq> EMPTY_HASH"

lemma hash_inputs_cold [simp]: "hash_inputs C (cold a) = hash_inputs C a"
proof (induction a)
  case (ANd fl l k w r fr)
  have "hash_serialize C (conc C (cold (ANd fl l k w r fr))) = hash_serialize C (conc C (ANd fl l k w r fr))"
    unfolding conc_cold by simp
  with ANd show ?case by simp
qed simp

lemma persistable_cold [simp]: "persistable (cold a) = persistable a"
  by (induction a) (auto simp: fits_def)

lemma storable_tree_cold [simp]: "storable_tree C (cold a) = storable_tree C a"
  by (simp add: storable_tree_def)

lemma persistable_fits: "persistable a \<Longrightarrow> fits a"
  by (cases a) (simp_all add: fits_def)

text \<open>
  The tree of the last commit is what the database gives back: its nodes are stored, and its hash
  is recorded under its version.
\<close>

definition committed ::
  "crates \<Rightarrow> 'db database_ops \<Rightarrow> 'db \<Rightarrow> tree \<Rightarrow> atree option \<Rightarrow> bool" where
  "committed C D s t ta \<longleftrightarrow> tree_new C D s None = Some (Inr t) \<and>
     tree_root t = map_option (conc C) ta \<and>
     (\<forall>v \<in> set (tree_versions t). v \<le> tree_loaded_version t) \<and>
     (\<forall>a \<in> set_option ta. cold a = a \<and> stored C D s a \<and> bst a \<and> storable_tree C a \<and>
        get_root_hash C D s (tree_loaded_version t) = Some (Inr (ahash C a)))"

text \<open>
  What a commit needs of it: all but the record of the version, which state sync does not write.
\<close>

definition loaded ::
  "crates \<Rightarrow> 'db database_ops \<Rightarrow> 'db \<Rightarrow> tree \<Rightarrow> atree option \<Rightarrow> bool" where
  "loaded C D s t ta \<longleftrightarrow> get_versions C D s = Some (tree_versions t) \<and>
     tree_root t = map_option (conc C) ta \<and>
     (\<forall>v \<in> set (tree_versions t). v \<le> tree_loaded_version t) \<and>
     (\<forall>a \<in> set_option ta. cold a = a \<and> stored C D s a \<and> bst a \<and> storable_tree C a)"

lemma committed_versions:
  assumes "committed C D s t ta"
  shows "get_versions C D s = Some (tree_versions t)"
  using assms
  by (auto simp: committed_def tree_new_def bind_eq_Some_conv split: option.splits)

lemma committed_loaded: "committed C D s t ta \<Longrightarrow> loaded C D s t ta"
  by (frule committed_versions) (auto simp: committed_def loaded_def)

lemma loaded_root: "loaded C D s t ta \<Longrightarrow> root_ok C D s ta"
  using stored_backed persistable_fits by (fastforce simp: loaded_def root_ok_def storable_tree_def)

lemma loaded_tree_get:
  assumes "loaded C D s t ta"
  shows "tree_get C D s t key = Some (map_of (entries_of ta) key)"
proof (cases ta)
  case (Some a)
  with loaded_root [OF assms] have "backed C D s a" "bst a" by simp_all
  with recursive_get_conc [OF this] assms Some show ?thesis
    by (simp add: loaded_def tree_get_def)
qed (use assms in \<open>simp add: loaded_def tree_get_def\<close>)

lemmas committed_tree_get = loaded_tree_get [OF committed_loaded]

text \<open>
  What a commit needs: the entries of the caches can be inserted, and the tree they give can be
  stored.
\<close>

definition clean_writes :: "crates \<Rightarrow> kvstore \<Rightarrow> atree option \<Rightarrow> bool" where
  "clean_writes C kv ta \<longleftrightarrow> (\<exists>ver ta'. checked_add (tree_loaded_version (persistent_store kv)) 1 = Some ver \<and>
     agrow ver ta (merged kv) = Some ta' \<and> (\<forall>a \<in> set_option ta'. storable_tree C a))"

lemma checked_add_1_less: "checked_add (n :: u64) 1 = Some m \<Longrightarrow> x \<le> n \<Longrightarrow> x < m"
  by (auto dest!: checked_add_SomeD simp: word_less_nat_alt word_le_nat_alt)

context prefix_stripping
begin

text \<open>Saving an empty tree records the version with the hash of the empty tree.\<close>

lemma save_empty_reload:
  assumes "varint_ok C" "inv s" "get_versions C D s = Some vs" "tree_versions t = vs"
    and "tree_root t = None" "checked_add (tree_loaded_version t) 1 = Some v" "\<forall>x \<in> set vs. x < v"
  shows "tree_save_version C D s t = Some (Inr ((EMPTY_HASH, v), t\<lparr> tree_loaded_version := v,
      tree_versions := btset_insert v vs \<rparr>, node_db_save_version C D s v EMPTY_HASH))"
    and "tree_new C D (node_db_save_version C D s v EMPTY_HASH) None
      = Some (Inr (t\<lparr> tree_loaded_version := v, tree_versions := btset_insert v vs \<rparr>))"
proof -
  let ?s = "node_db_save_version C D s v EMPTY_HASH"
  have "v \<notin> set vs" using assms(7) by auto
  then show "tree_save_version C D s t = Some (Inr ((EMPTY_HASH, v), t\<lparr> tree_loaded_version := v,
      tree_versions := btset_insert v vs \<rparr>, ?s))"
    using assms(4-6) by (simp add: tree_save_version_def Let_def)
  have "inv ?s" using assms(2) by (simp add: node_db_save_version_def inv_put)
  then have "get_versions C D ?s = Some (btset_insert v vs)"
    by (rule get_versions_put [OF assms(1,2) _ assms(3)])
      (simp add: node_db_save_version_def get_root_key_def ROOTS_PREFIX_def get_put)
  moreover have "get_root_node C D ?s v = Some (Inr None)"
    by (simp add: get_root_node_def get_root_hash_def node_db_save_version_def get_put
        EMPTY_HASH_def array32_Some)
  ultimately show "tree_new C D ?s None
      = Some (Inr (t\<lparr> tree_loaded_version := v, tree_versions := btset_insert v vs \<rparr>))"
    using btset_last_new [OF assms(7)] assms(5) by (simp add: tree_new_def)
qed

lemma clean_commit:
  assumes C: "varint_ok C" "sha256_ok C" and s: "inv s" and ok: "kv_ok kv"
    and com: "loaded C D s (persistent_store kv) ta" and clean: "clean_writes C kv ta"
  obtains kv' s' ta' where
    "kv_commit C D s kv = Some (kv_head_commit_hash C kv', kv', s')" "inv s'"
    "committed C D s' (persistent_store kv') ta'" "block_cache kv' = []" "tx_cache kv' = []"
    "checked_add (kv_last_committed_version kv) 1 = Some (kv_last_committed_version kv')"
    "\<And>key. kv_get C D s' kv' key = kv_get C D s kv key"
proof -
  let ?t = "persistent_store kv"
  from clean obtain ver ta' where v: "checked_add (tree_loaded_version ?t) 1 = Some ver"
    and grow: "agrow ver ta (merged kv) = Some ta'"
    and st: "\<forall>a \<in> set_option ta'. storable_tree C a" by (auto simp: clean_writes_def)
  have root: "tree_root ?t = map_option (conc C) ta"
    and less: "\<forall>x \<in> set (tree_versions ?t). x < ver"
    and vs: "get_versions C D s = Some (tree_versions ?t)"
    using com checked_add_1_less [OF v] by (simp_all add: loaded_def)
  note p = put_all_agrow [OF root loaded_root [OF com] v grow]
  have reads: "kv_get C D s kv key = Some (map_of (entries_of ta') key)" for key
    using p merged_ok [OF ok, THEN btree_ok_distinct]
    by (simp add: kv_get_merged [OF ok] loaded_tree_get [OF com] fold_btree_get map_add_def
        split: option.splits)
  show thesis
  proof (cases ta')
    case None
    with grow agrow_None have m: "ta = None" "merged kv = []" by simp_all
    with root have rn: "tree_root ?t = None" by simp
    let ?t' = "?t\<lparr> tree_loaded_version := ver, tree_versions := btset_insert ver (tree_versions ?t) \<rparr>"
    let ?s' = "node_db_save_version C D s ver EMPTY_HASH"
    let ?kv' = "\<lparr> persistent_store = ?t', block_cache = [], tx_cache = [] \<rparr>"
    note e = save_empty_reload [OF C(1) s vs refl rn v less]
    have "kv_commit C D s kv = Some (EMPTY_HASH, ?kv', ?s')"
      using e(1) m by (simp add: kv_commit_def write_tx_cache_eq [OF ok] write_then_clear_block_cache_def)
    moreover have "kv_head_commit_hash C ?kv' = EMPTY_HASH"
      using rn by (simp add: kv_head_commit_hash_def tree_root_hash_def)
    moreover have "committed C D ?s' ?t' None"
      using e(2) rn less by (auto simp: committed_def intro: less_imp_le)
    ultimately show thesis
      using that [of ?kv' ?s' None] s v reads None
      by (simp add: node_db_save_version_def inv_put kv_last_committed_version_def kv_get_def
          tree_get_def rn)
  next
    case (Some a)
    let ?s' = "node_db_save_version C D (recursive_tree_save C D s (conc C a) (ahash C a)) ver (ahash C a)"
    let ?t' = "?t\<lparr> tree_root := Some (conc C (cold a)), tree_loaded_version := ver,
      tree_versions := btset_insert ver (tree_versions ?t) \<rparr>"
    let ?kv' = "\<lparr> persistent_store = ?t', block_cache = [], tx_cache = [] \<rparr>"
    have a: "backed C D s a" "bst a" "storable_tree C a"
      using p st Some by simp_all
    then have sv: "savable C D s a" by (simp add: savable_def storable_tree_def)
    have vn: "ver \<notin> set (tree_versions ?t)" using less by blast
    let ?u = "?t\<lparr> tree_root := Some (conc C a) \<rparr>"
    have u: "tree_root ?u = Some (conc C a)" "tree_versions ?u = tree_versions ?t"
      "checked_add (tree_loaded_version ?u) 1 = Some ver" using v by simp_all
    from save_version_reload [OF C s vs u(1,2,3) less sv] obtain t' s' where
      r: "tree_save_version C D s ?u = Some (Inr ((ahash C a, ver), t', s'))"
      "tree_new C D s' None = Some (Inr t')" "inv s'" "stored C D s' a" by blast
    have eq: "t' = ?t'" "s' = ?s'"
      using save_new_version [OF u(1,3), of C D s] vn r(1) by (simp_all add: conc_cold)
    have "put_all (tree_set C D s) (merged kv) ?t = Some ?u" using p Some by simp
    from kv_commit_eq [OF ok this u(1) u(3)] vn have
      k: "kv_commit C D s kv = Some (ahash C a, ?kv', ?s')" by (simp add: conc_cold)
    have h: "kv_head_commit_hash C ?kv' = ahash C a"
      by (simp add: kv_head_commit_hash_def tree_root_hash_def)
    have "length (ahash C a) = 32" using C(2) by (simp add: node_hash_def)
    then have "get_root_hash C D ?s' ver = Some (Inr (ahash C a))"
      by (simp add: get_root_hash_def node_db_save_version_def get_put)
    then have c: "committed C D ?s' ?t' (Some (cold a))"
      using r(2,4) eq a(2,3) less by (auto simp: committed_def intro: less_imp_le)
    have g: "kv_get C D ?s' ?kv' key = kv_get C D s kv key" for key
      using committed_tree_get [OF c, of key] reads [of key] Some by (simp add: kv_get_def)
    show thesis
    proof (rule that [of ?kv' ?s' "Some (cold a)"])
      show "kv_commit C D s kv = Some (kv_head_commit_hash C ?kv', ?kv', ?s')" using k h by simp
      show "checked_add (kv_last_committed_version kv) 1 = Some (kv_last_committed_version ?kv')"
        using v by (simp add: kv_last_committed_version_def)
    qed (use r(3) eq(2) c g in simp_all)
  qed
qed

text \<open>What loading a store gives depends on what the database returns only.\<close>

lemma get_versions_view:
  assumes "inv s" "inv t" "\<And>k. db_get D t (ROOTS_PREFIX @ k) = db_get D s (ROOTS_PREFIX @ k)"
    and "get_versions C D s = Some vs"
  shows "get_versions C D t = Some vs"
proof -
  obtain es where es: "db_prefix_iterator D s ROOTS_PREFIX = Some es"
    "\<forall>k v. (k, v) \<in> set es \<longleftrightarrow> db_get D s (ROOTS_PREFIX @ k) = Some v"
    using scan [OF assms(1)] by blast
  obtain fs where fs: "db_prefix_iterator D t ROOTS_PREFIX = Some fs"
    "\<forall>k v. (k, v) \<in> set fs \<longleftrightarrow> db_get D t (ROOTS_PREFIX @ k) = Some v"
    using scan [OF assms(2)] by blast
  have "set fs = set es" using es(2) fs(2) assms(3) by auto
  moreover have vs: "decode_versions C es = Some vs" using assms(4) es(1) by (simp add: get_versions_def)
  ultimately have "\<forall>e \<in> set fs. dec_u64 C (fst e) \<noteq> None" using decode_versions_Some by blast
  then obtain ws where ws: "decode_versions C fs = Some ws" using decode_versions_total by blast
  have "ws = vs"
    using decode_versions_Some [OF vs] decode_versions_Some [OF ws] \<open>set fs = set es\<close>
    by (intro sorted_distinct_set_unique) auto
  with ws fs(1) show ?thesis by (simp add: get_versions_def)
qed

lemma stored_view:
  assumes "db_get D t = db_get D s"
  shows "stored C D t a = stored C D s a"
proof -
  note g = get_node_cong [OF assms, of C]
  show ?thesis by (induction a) (simp_all add: g)
qed

lemma committed_view:
  assumes "inv s" "inv t" "db_get D t = db_get D s" "committed C D s tr ta"
  shows "committed C D t tr ta"
proof -
  have "get_root_node C D t v = get_root_node C D s v" for v
    unfolding get_root_node_def get_root_hash_def get_node_cong [OF assms(3)] assms(3) by (rule refl)
  then have "tree_new C D t None = tree_new C D s None"
    using get_versions_view [OF assms(1,2) fun_cong [OF assms(3)] committed_versions [OF assms(4)]]
      committed_versions [OF assms(4)] by (simp add: tree_new_def split: option.splits)
  moreover have "get_root_hash C D t v = get_root_hash C D s v" for v
    unfolding get_root_hash_def assms(3) by (rule refl)
  ultimately show ?thesis
    using assms(4) stored_view [OF assms(3)] by (simp add: committed_def)
qed

end

section \<open>All stores\<close>

context prefixed_database
begin

lemma stripping: "prefix_stripping (prefixdb_ops (prefixdb_new D p)) inv"
  by unfold_locales

end

text \<open>
  All stores are between commits and at the same version, that of the multi store; the caches
  can be committed.
\<close>

definition stores_committed ::
  "crates \<Rightarrow> 'db database_ops \<Rightarrow> 'db \<Rightarrow> multistore \<Rightarrow> bool" where
  "stores_committed C D s ms \<longleftrightarrow> incomparable (map fst (stores ms)) \<and> stores ms \<noteq> [] \<and>
     (\<forall>(n, kv) \<in> set (stores ms). kv_last_committed_version kv = head_version ms \<and>
        (\<exists>ta. committed C (module_db D n) s (persistent_store kv) ta))"

definition clean_stores ::
  "crates \<Rightarrow> 'db database_ops \<Rightarrow> 'db \<Rightarrow> multistore \<Rightarrow> bool" where
  "clean_stores C D s ms \<longleftrightarrow> (\<forall>(n, kv) \<in> set (stores ms). \<forall>ta.
     committed C (module_db D n) s (persistent_store kv) ta \<longrightarrow> clean_writes C kv ta)"

text \<open>
  Stores that can be committed: loaded, with clean writes. After commits this is the case when the
  pending writes are clean.
\<close>

definition stores_ready ::
  "crates \<Rightarrow> 'db database_ops \<Rightarrow> 'db \<Rightarrow> multistore \<Rightarrow> bool" where
  "stores_ready C D s ms \<longleftrightarrow> incomparable (map fst (stores ms)) \<and> stores ms \<noteq> [] \<and>
     (\<forall>(n, kv) \<in> set (stores ms). kv_last_committed_version kv = head_version ms \<and>
        (\<exists>ta. loaded C (module_db D n) s (persistent_store kv) ta \<and> clean_writes C kv ta))"

lemma committed_ready:
  "stores_committed C D s ms \<Longrightarrow> clean_stores C D s ms \<Longrightarrow> stores_ready C D s ms"
  using committed_loaded by (fastforce simp: stores_committed_def clean_stores_def stores_ready_def)

text \<open>No writes are pending, and the hash is that of the stores.\<close>

definition just_committed :: "crates \<Rightarrow> multistore \<Rightarrow> bool" where
  "just_committed C ms \<longleftrightarrow>
     (\<forall>(n, kv) \<in> set (stores ms). block_cache kv = [] \<and> tx_cache kv = []) \<and>
     hash_store_infos C (map (\<lambda>(n, kv). \<lparr> info_name = n, info_hash = kv_head_commit_hash C kv \<rparr>)
       (stores ms)) = Some (head_commit_hash ms)"

context full_key_scan
begin

lemma module_stripping: "prefix_stripping (module_db D p) inv"
  by (rule prefixed_database.stripping) unfold_locales

lemma commit_stores_keeps:
  "commit_stores C D s kvs = Some (infos, kvs', s') \<Longrightarrow> inv s \<Longrightarrow> inv s'"
proof (induction kvs arbitrary: s infos kvs')
  case (Cons e kvs)
  obtain n kv where e: "e = (n, kv)" by (cases e)
  from Cons.prems(1) e obtain h kv1 s1 infos1 kvs1 where
    1: "kv_commit C (module_db D n) s kv = Some (h, kv1, s1)"
    "commit_stores C D s1 kvs = Some (infos1, kvs1, s')"
    by (auto simp: bind_eq_Some_conv)
  have "inv s1"
    by (rule database.kv_commit_keeps [where P = inv, OF module_database _ 1(1) Cons.prems(2)])
      (simp add: prefixdb_put_def prefixdb_new_def inv_put)
  with Cons.IH 1(2) show ?case by blast
qed simp

text \<open>
  The commit of a multi store returns when the caches of all its stores are clean; afterwards it
  is at the next version, nothing is pending, and every store reads as before.
\<close>

lemma clean_multi_commit:
  assumes C: "varint_ok C" "sha256_ok C" and s: "inv s" and ok: "ms_ok ms"
    and com: "stores_ready C D s ms" and v: "checked_add (head_version ms) 1 = Some v"
  obtains ms' s' where "multi_commit C D s ms = Some (head_commit_hash ms', ms', s')" "inv s'"
    "stores_committed C D s' ms'" "just_committed C ms'" "head_version ms' = v"
    "map fst (stores ms') = map fst (stores ms)"
    "\<And>n kv. get_kv_store ms n = Some kv \<Longrightarrow> \<exists>kv'. get_kv_store ms' n = Some kv' \<and>
       (\<forall>key. kv_get C (module_db D n) s' kv' key = kv_get C (module_db D n) s kv key)"
proof -
  let ?N = "\<lambda>n. module_db D n"
  define good where "good n kv r \<longleftrightarrow> (\<exists>kv' s' ta. r = (kv_head_commit_hash C kv', kv', s') \<and>
    kv_commit C (?N n) s kv = Some r \<and> inv s' \<and> committed C (?N n) s' (persistent_store kv') ta \<and>
    block_cache kv' = [] \<and> tx_cache kv' = [] \<and> kv_last_committed_version kv' = v \<and>
    (\<forall>key. kv_get C (?N n) s' kv' key = kv_get C (?N n) s kv key))" for n kv r
  have inc: "incomparable (map fst (stores ms))" and ne: "stores ms \<noteq> []"
    using com by (simp_all add: stores_ready_def)
  then have d: "distinct (map fst (stores ms))" by (simp add: incomparable_def)
  have "\<exists>r. good n kv r" if m: "(n, kv) \<in> set (stores ms)" for n kv
  proof -
    from com m obtain ta where ta: "loaded C (?N n) s (persistent_store kv) ta"
      "kv_last_committed_version kv = head_version ms" and w: "clean_writes C kv ta"
      by (fastforce simp: stores_ready_def)
    have k: "kv_ok kv" using ok m by (auto simp: ms_ok_def)
    obtain kv' s' ta' where
      "kv_commit C (?N n) s kv = Some (kv_head_commit_hash C kv', kv', s')" "inv s'"
      "committed C (?N n) s' (persistent_store kv') ta'" "block_cache kv' = []" "tx_cache kv' = []"
      "checked_add (kv_last_committed_version kv) 1 = Some (kv_last_committed_version kv')"
      "\<And>key. kv_get C (?N n) s' kv' key = kv_get C (?N n) s kv key"
      by (rule prefix_stripping.clean_commit [OF module_stripping C s k ta(1) w]) blast
    then show ?thesis using ta(2) v by (auto simp: good_def)
  qed
  then have "\<forall>e \<in> set (stores ms). \<exists>r. good (fst e) (snd e) r" by auto
  then obtain f where f: "\<forall>e \<in> set (stores ms). good (fst e) (snd e) (f e)"
    by (rule bchoice [THEN exE])
  define r where "r n = f (n, the (map_of (stores ms) n))" for n
  have r: "good n kv (r n)" if "(n, kv) \<in> set (stores ms)" for n kv
    using f that d by (fastforce simp: r_def)
  have sc: "single_commits C D s (stores ms) r"
    using r by (auto simp: single_commits_def good_def)
  from commit_stores_single [OF inc sc ballI [OF refl]] obtain t where t: "commit_stores C D s (stores ms)
      = Some (map (\<lambda>(n, _). \<lparr> info_name = n, info_hash = fst (r n) \<rparr>) (stores ms),
          map (\<lambda>(n, _). (n, fst (snd (r n)))) (stores ms), t)"
    "\<forall>n \<in> fst ` set (stores ms). db_get (?N n) t = db_get (?N n) (snd (snd (r n)))" by blast
  have it: "inv t" by (rule commit_stores_keeps [OF t(1) s])
  let ?infos = "map (\<lambda>(n, _). \<lparr> info_name = n, info_hash = fst (r n) \<rparr>) (stores ms)"
  obtain hash where hash: "hash_store_infos C ?infos = Some hash"
    using hash_store_infos_total [of ?infos C] ne by auto
  define ms' where "ms' = ms\<lparr> head_commit_hash := hash, head_version := v,
    stores := map (\<lambda>(n, _). (n, fst (snd (r n)))) (stores ms) \<rparr>"
  show thesis
  proof (rule that [of ms' t])
    show "multi_commit C D s ms = Some (head_commit_hash ms', ms', t)"
      using t(1) hash v by (simp add: multi_commit_def ms'_def)
    show "inv t" by (rule it)
    show names: "map fst (stores ms') = map fst (stores ms)" by (auto simp: ms'_def)
    show v': "head_version ms' = v" by (simp add: ms'_def)
    have mem: "\<exists>kv. (n, kv) \<in> set (stores ms) \<and> good n kv (r n) \<and> kv' = fst (snd (r n)) \<and>
        db_get (?N n) t = db_get (?N n) (snd (snd (r n)))" if "(n, kv') \<in> set (stores ms')" for n kv'
      using that r t(2) by (force simp: ms'_def)
    have "\<exists>ta. committed C (?N n) t (persistent_store kv') ta \<and> kv_last_committed_version kv' = v"
      if "(n, kv') \<in> set (stores ms')" for n kv'
    proof -
      from mem [OF that] obtain s1 ta where "inv s1" "db_get (?N n) t = db_get (?N n) s1"
        "committed C (?N n) s1 (persistent_store kv') ta" "kv_last_committed_version kv' = v"
        by (auto simp: good_def)
      with prefix_stripping.committed_view [OF module_stripping _ it] show ?thesis by blast
    qed
    then have "\<forall>(n, kv') \<in> set (stores ms'). kv_last_committed_version kv' = head_version ms' \<and>
        (\<exists>ta. committed C (?N n) t (persistent_store kv') ta)"
      unfolding v' by blast
    moreover have "incomparable (map fst (stores ms'))" "stores ms' \<noteq> []"
      using inc ne unfolding names by (simp_all add: ms'_def)
    ultimately show "stores_committed C D t ms'" unfolding stores_committed_def by blast
    have "fst (r (fst e)) = kv_head_commit_hash C (fst (snd (r (fst e))))" if "e \<in> set (stores ms)" for e
      using r [of "fst e" "snd e"] that by (auto simp: good_def)
    then have infos: "?infos = map (\<lambda>(n, kv). \<lparr> info_name = n, info_hash = kv_head_commit_hash C kv \<rparr>) (stores ms')"
      by (simp add: ms'_def case_prod_beta o_def cong: map_cong)
    have "block_cache kv' = [] \<and> tx_cache kv' = []" if "(n, kv') \<in> set (stores ms')" for n kv'
      using mem [OF that] by (auto simp: good_def)
    moreover have "head_commit_hash ms' = hash" by (simp add: ms'_def)
    ultimately show "just_committed C ms'" using hash unfolding just_committed_def infos by auto
    fix n kv
    assume g: "get_kv_store ms n = Some kv"
    then have m: "(n, kv) \<in> set (stores ms)" by (simp add: get_kv_store_def map_of_SomeD)
    have "get_kv_store ms' n = Some (fst (snd (r n)))"
      using map_of_pairs [OF d m, of "\<lambda>n. fst (snd (r n))"] by (simp add: get_kv_store_def ms'_def)
    moreover have "db_get (?N n) t = db_get (?N n) (snd (snd (r n)))"
      by (rule t(2) [rule_format]) (rule image_eqI [OF _ m], simp)
    from database.kv_get_view [OF module_database this]
    have "kv_get C (?N n) t (fst (snd (r n))) key = kv_get C (?N n) s kv key" for key
      using r [OF m] unfolding good_def by (elim exE conjE) simp
    ultimately show "\<exists>kv'. get_kv_store ms' n = Some kv' \<and>
        (\<forall>key. kv_get C (?N n) t kv' key = kv_get C (?N n) s kv key)" by blast
  qed
qed

end

text \<open>Opening the stores of a database again gives the stores that were committed to it.\<close>

lemma open_stores_committed:
  assumes "\<forall>(n, kv) \<in> set kvs. kv_last_committed_version kv = v \<and> block_cache kv = [] \<and>
      tx_cache kv = [] \<and> tree_new C (module_db D n) s None = Some (Inr (persistent_store kv))"
  shows "open_stores C D s (map fst kvs) h = Some (if kvs = [] then h else v,
     map (\<lambda>(n, kv). \<lparr> info_name = n, info_hash = kv_head_commit_hash C kv \<rparr>) kvs, kvs)"
  using assms
proof (induction kvs arbitrary: h)
  case (Cons e kvs)
  obtain n kv where e: "e = (n, kv)" by (cases e)
  have "kv_new C (module_db D n) s None = Some (Inr kv)"
    using Cons.prems e by (simp add: kv_new_def)
  with Cons e show ?case by (simp add: kv_last_committed_version_def)
qed simp

lemma multi_new_committed:
  assumes "stores_committed C D s ms" "just_committed C ms"
  shows "multi_new C D s (map fst (stores ms)) = Some ms"
proof -
  have "\<forall>(n, kv) \<in> set (stores ms). kv_last_committed_version kv = head_version ms \<and>
      block_cache kv = [] \<and> tx_cache kv = [] \<and>
      tree_new C (module_db D n) s None = Some (Inr (persistent_store kv))"
    using assms by (fastforce simp: stores_committed_def just_committed_def committed_def)
  from open_stores_committed [OF this] show ?thesis
    using assms by (simp add: multi_new_def stores_committed_def just_committed_def)
qed

end
