(* ===== verification/Host_State.thy ===== *)
theory Host_State
  imports Gaia Store_Commit
begin

text \<open>
  A commit changes the database below a node and nothing else of its surroundings. The lemmas
  say that the crates, and with them every conversion and every relation that does not read the
  database, are the same over another state of the database (\<open>H\<lparr> host_state := s \<rparr>\<close>), so that
  what a node holds depends on what its stores return only.
\<close>

section \<open>What does not depend on the state of the database\<close>

lemma host_address [simp]:
  "from_bech32 (H\<lparr> host_state := s \<rparr>) = from_bech32 H"
  "addr_to_string (H\<lparr> host_state := s \<rparr>) = addr_to_string H"
  "proto_decode (H\<lparr> host_state := s \<rparr>) = proto_decode H"
  "address_error_text (H\<lparr> host_state := s \<rparr>) = address_error_text H"
  by (simp_all add: fun_eq_iff from_bech32_def addr_to_string_def proto_decode_def
      address_error_text_def cong del: if_weak_cong sum.case_cong_weak address_error.case_cong_weak)

lemma host_decode_address [simp]: "decode_address (H\<lparr> host_state := s \<rparr>) = decode_address H"
  by (simp add: fun_eq_iff decode_address_def)

lemma host_coin [simp]:
  "coin_try_from (H\<lparr> host_state := s \<rparr>) = coin_try_from H"
  "raw_from_coin (H\<lparr> host_state := s \<rparr>) = raw_from_coin H"
  by (simp_all add: fun_eq_iff coin_try_from_def raw_from_coin_def cong del: if_weak_cong option.case_cong_weak sum.case_cong_weak)

lemma host_coins [simp]:
  "coin_decode (H\<lparr> host_state := s \<rparr>) = coin_decode H"
  "coins_try_from (H\<lparr> host_state := s \<rparr>) = coins_try_from H"
  by (simp_all add: fun_eq_iff coin_decode_def coins_try_from_def cong del: if_weak_cong option.case_cong_weak sum.case_cong_weak)

lemma host_key [simp]:
  "pub_key_try_from_raw (H\<lparr> host_state := s \<rparr>) = pub_key_try_from_raw H"
  "pub_key_bytes (H\<lparr> host_state := s \<rparr>) = pub_key_bytes H"
proof -
  show "pub_key_try_from_raw (H\<lparr> host_state := s \<rparr>) = pub_key_try_from_raw H"
    by (simp add: fun_eq_iff pub_key_try_from_raw_def pub_key_try_from_def cong del: if_weak_cong option.case_cong_weak sum.case_cong_weak)
  have "pub_key_bytes (H\<lparr> host_state := s \<rparr>) k = pub_key_bytes H k" for k by (cases k) simp
  then show "pub_key_bytes (H\<lparr> host_state := s \<rparr>) = pub_key_bytes H" by (rule ext)
qed

lemma host_public_key [simp]:
  "public_key_try_from (H\<lparr> host_state := s \<rparr>) = public_key_try_from H"
  by (simp add: fun_eq_iff public_key_try_from_def cong del: if_weak_cong option.case_cong_weak sum.case_cong_weak)

lemma host_account [simp]:
  "base_account_try_from (H\<lparr> host_state := s \<rparr>) = base_account_try_from H"
  by (simp add: fun_eq_iff base_account_try_from_def cong del: if_weak_cong option.case_cong_weak sum.case_cong_weak)

lemma host_module_account [simp]:
  "module_account_try_from (H\<lparr> host_state := s \<rparr>) = module_account_try_from H"
  by (simp add: fun_eq_iff module_account_try_from_def cong del: if_weak_cong option.case_cong_weak sum.case_cong_weak)

lemma host_account_decode [simp]:
  "account_decode (H\<lparr> host_state := s \<rparr>) = account_decode H"
proof -
  have "account_try_from (H\<lparr> host_state := s \<rparr>) = account_try_from H"
    by (simp add: fun_eq_iff account_try_from_def cong del: if_weak_cong option.case_cong_weak sum.case_cong_weak)
  then show ?thesis by (intro ext) (simp add: account_decode_def)
qed

lemma host_messages [simp]:
  "msg_send_try_from (H\<lparr> host_state := s \<rparr>) = msg_send_try_from H"
  "raw_from_msg_send (H\<lparr> host_state := s \<rparr>) = raw_from_msg_send H"
  by (simp_all add: fun_eq_iff msg_send_try_from_def raw_from_msg_send_def cong del: if_weak_cong option.case_cong_weak sum.case_cong_weak)

lemma host_gaia_ops [simp]: "gaia_ops (H\<lparr> host_state := s \<rparr>) = gaia_ops H"
proof -
  have a: "any_from_bank_message (H\<lparr> host_state := s \<rparr>) m = any_from_bank_message H m" for m
    by (cases m) simp
  have b: "bank_message_try_from (H\<lparr> host_state := s \<rparr>) = bank_message_try_from H"
    by (simp add: fun_eq_iff bank_message_try_from_def cong del: if_weak_cong option.case_cong_weak sum.case_cong_weak)
  have "gaia_into_any (H\<lparr> host_state := s \<rparr>) m = gaia_into_any H m" for m
    by (cases m) (simp add: a)
  moreover have "gaia_try_from (H\<lparr> host_state := s \<rparr>) = gaia_try_from H"
    by (simp add: fun_eq_iff gaia_try_from_def b cong del: if_weak_cong option.case_cong_weak sum.case_cong_weak)
  ultimately show ?thesis by (simp add: gaia_ops_def fun_eq_iff)
qed

lemma host_infos [simp]: "collect_infos (H\<lparr> host_state := s \<rparr>) = collect_infos H"
proof
  have "signer_info_try_from (H\<lparr> host_state := s \<rparr>) = signer_info_try_from H"
    by (simp add: fun_eq_iff signer_info_try_from_def cong del: if_weak_cong option.case_cong_weak sum.case_cong_weak)
  then show "collect_infos (H\<lparr> host_state := s \<rparr>) raws = collect_infos H raws" for raws
    by (induction raws) simp_all
qed

lemma host_fee [simp]: "fee_try_from (H\<lparr> host_state := s \<rparr>) = fee_try_from H"
proof
  have "fee_all_zero (H\<lparr> host_state := s \<rparr>) cs = fee_all_zero H cs" for cs
    by (induction cs) (auto split: option.splits)
  then show "fee_try_from (H\<lparr> host_state := s \<rparr>) raw = fee_try_from H raw" for raw
    by (simp add: fee_try_from_def payer_try_from_def cong del: if_weak_cong option.case_cong_weak sum.case_cong_weak)
qed

lemma host_tx [simp]:
  fixes ops :: "'m message_ops"
  shows "tx_with_raw_from_bytes (H\<lparr> host_state := s \<rparr>) ops bs = tx_with_raw_from_bytes H ops bs"
proof -
  have "auth_info_try_from (H\<lparr> host_state := s \<rparr>) = auth_info_try_from H"
    by (simp add: fun_eq_iff auth_info_try_from_def tip_try_from_def cong del: if_weak_cong option.case_cong_weak sum.case_cong_weak)
  then have "tx_try_from (H\<lparr> host_state := s \<rparr>) ops = tx_try_from H ops"
    by (intro ext) (simp add: tx_try_from_def cong del: if_weak_cong option.case_cong_weak sum.case_cong_weak)
  then show ?thesis by (simp add: tx_with_raw_from_bytes_def)
qed

lemma host_signers [simp]:
  "get_signers (H\<lparr> host_state := s \<rparr>) ops tx = get_signers H ops tx"
proof -
  have a: "see_signer (H\<lparr> host_state := s \<rparr>) st = see_signer H st" for st
    by (intro ext) (simp add: see_signer_def)
  have "see_signers (H\<lparr> host_state := s \<rparr>) st as = see_signers H st as" for st as
    by (induction as arbitrary: st) (simp_all add: a)
  then show ?thesis
    by (simp add: get_signers_def a cong del: option.case_cong_weak)
qed

lemma host_laws [simp]:
  "libs_ok (H\<lparr> host_state := s \<rparr>) = libs_ok H"
  "module_get_address (H\<lparr> host_state := s \<rparr>) m = module_get_address H m"
  "gaia_fee_collector (H\<lparr> host_state := s \<rparr>) = gaia_fee_collector H"
  by (simp_all add: libs_ok_def auth_libs_ok_def uint256_ok_def bech32_ok_def keys_ok_def
      account_codecs_ok_def cong del: if_weak_cong option.case_cong_weak sum.case_cong_weak) (cases m; simp add: gaia_fee_collector_def)+

lemma host_relations [simp]:
  "bank_rel (H\<lparr> host_state := s \<rparr>) = bank_rel H" "auth_rel (H\<lparr> host_state := s \<rparr>) = auth_rel H"
  by (simp_all add: fun_eq_iff bank_rel_def auth_rel_def cong del: if_weak_cong option.case_cong_weak sum.case_cong_weak)

end
