(* ===== verification/Commit_Cases.thy ===== *)
theory Commit_Cases
  imports Store_Commit Iavl_Balance
begin

text \<open>
  Two kinds of writes that a commit is sure to take: the writes of a block into a store that was
  never committed to, which are inserted in ascending order, and writes to keys that a balanced
  tree already holds. Neither needs a rotation around a subtree that is only in the database.
\<close>

section \<open>Trees that can be written out\<close>

lemma mk_persistable:
  "mk fl l k w r fr = Some t \<Longrightarrow> persistable l \<Longrightarrow> persistable r \<Longrightarrow> length k < 2 ^ 64 \<Longrightarrow>
     unat w < 2 ^ 32 \<Longrightarrow> persistable t"
  by (auto simp: mk_def split: if_splits)

text \<open>A tree whose children and key can be written out, whatever its own height and size.\<close>

fun parts_persistable :: "atree \<Rightarrow> bool" where
  "parts_persistable (ALf k v w) \<longleftrightarrow> persistable (ALf k v w)"
| "parts_persistable (ANd fl l k w r fr) \<longleftrightarrow> length k < 2 ^ 64 \<and> persistable l \<and> persistable r"

lemma persistable_parts: "persistable t \<Longrightarrow> parts_persistable t"
  by (cases t) simp_all

lemma rot_persistable:
  assumes "parts_persistable t" "unat ver < 2 ^ 32"
  shows "aright_rot t ver = Some t' \<Longrightarrow> persistable t'" "aleft_rot t ver = Some t' \<Longrightarrow> persistable t'"
proof -
  show "aright_rot t ver = Some t' \<Longrightarrow> persistable t'"
    using assms
    by (cases "(t, ver)" rule: aright_rot.cases)
      (auto simp: bind_eq_Some_conv simp del: fits_ANd split: if_splits elim!: mk_persistable)
  show "aleft_rot t ver = Some t' \<Longrightarrow> persistable t'"
    using assms
    by (cases "(t, ver)" rule: aleft_rot.cases)
      (auto simp: bind_eq_Some_conv simp del: fits_ANd split: if_splits elim!: mk_persistable)
qed

lemma rebalance_persistable:
  assumes "arebalance fl l k ver r fr key = Some t" "fits (ANd fl l k ver r fr)"
    and p: "persistable l" "persistable r" "length k < 2 ^ 64" "unat ver < 2 ^ 32"
  shows "persistable t"
proof -
  note rot = rot_persistable [OF _ p(4)]
  have self: "parts_persistable (ANd fl' l k ver r fr')" for fl' fr' using p by simp
  consider "t = ANd fl l k ver r fr" | "aright_rot (ANd True l k ver r fr) ver = Some t"
    | "aleft_rot (ANd fl l k ver r True) ver = Some t"
    | n where "aleft_rot (ANd True l k ver r fr) ver = Some n" "aright_rot n ver = Some t"
    | r' where "aright_rot r ver = Some r'" "aleft_rot (ANd fl l k ver r' True) ver = Some t"
  proof -
    note a = assms(1) [unfolded arebalance_def]
    show thesis
    proof (cases "ht l > ht r + 1")
      case True
      show thesis
      proof (cases "key < akey l")
        case False
        with a True obtain n where "aleft_rot (ANd True l k ver r fr) ver = Some n"
          "aright_rot n ver = Some t" by (auto simp only: if_True if_False bind_eq_Some_conv)
        then show thesis by (rule that(4))
      qed (use a True that(2) in \<open>simp only: if_True\<close>)
    next
      case l: False
      show thesis
      proof (cases "ht r > ht l + 1")
        case True
        show thesis
        proof (cases "akey r < key")
          case False
          with a l True obtain r' where "aright_rot r ver = Some r'"
            "aleft_rot (ANd fl l k ver r' True) ver = Some t"
            by (auto simp only: if_True if_False bind_eq_Some_conv)
          then show thesis by (rule that(5))
        qed (use a l True that(3) in \<open>simp only: if_True if_False\<close>)
      qed (use a l that(1) in \<open>simp only: if_False option.inject\<close>)
    qed
  qed
  then show ?thesis
  proof cases
    case 1
    then show ?thesis using assms(2-6) by simp
  next
    case (4 n)
    show ?thesis by (rule rot(1) [OF persistable_parts [OF rot(2) [OF self 4(1)]] 4(2)])
  next
    case (5 r')
    have "persistable r'" by (rule rot(1) [OF persistable_parts [OF p(2)] 5(1)])
    then show ?thesis using rot(2) [OF _ 5(2)] p by simp
  qed (use rot self in blast)+
qed

lemma ains_persistable:
  assumes "ains t key val ver = Some t'" "persistable t" "length key < 2 ^ 64" "length val < 2 ^ 64"
    "unat ver < 2 ^ 32"
  shows "persistable t'"
  using assms
proof (induction t arbitrary: t')
  case (ANd fl l k w r fr)
  show ?case
  proof (cases "key < k")
    case True
    with ANd.prems(1) obtain l' u where l': "ains l key val ver = Some l'" "mk True l' k ver r fr = Some u"
      "arebalance True l' k ver r fr key = Some t'" by (auto simp: bind_eq_Some_conv)
    have "persistable l'" using ANd.IH(1) [OF l'(1)] ANd.prems by simp
    with rebalance_persistable [OF l'(3)] l'(2) ANd.prems show ?thesis by (simp add: mk_def split: if_splits)
  next
    case False
    with ANd.prems(1) obtain r' u where r': "ains r key val ver = Some r'" "mk fl l k ver r' True = Some u"
      "arebalance fl l k ver r' True key = Some t'" by (auto simp: bind_eq_Some_conv)
    have "persistable r'" using ANd.IH(2) [OF r'(1)] ANd.prems by simp
    with rebalance_persistable [OF r'(3)] r'(2) ANd.prems show ?thesis by (simp add: mk_def split: if_splits)
  qed
qed (auto simp: fits_def)

text \<open>The bounds of what is written in one commit.\<close>

definition small_entries :: "u64 \<Rightarrow> (bytes \<times> bytes) list \<Rightarrow> bool" where
  "small_entries ver es \<longleftrightarrow> unat ver < 2 ^ 32 \<and>
     (\<forall>(k, v) \<in> set es. length k < 2 ^ 64 \<and> length v < 2 ^ 64)"

lemma agrow_persistable:
  assumes "agrow ver ta es = Some ta'" "\<forall>a \<in> set_option ta. persistable a" "small_entries ver es"
  shows "\<forall>a \<in> set_option ta'. persistable a"
  using assms
proof (induction es arbitrary: ta)
  case (Cons e es)
  obtain k v where e: "e = (k, v)" by (cases e)
  from Cons.prems(1) e obtain a where a: "(case ta of None \<Rightarrow> Some (ALf k v ver) | Some a \<Rightarrow> ains a k v ver) = Some a"
    "agrow ver (Some a) es = Some ta'" by (auto simp: bind_eq_Some_conv)
  have "persistable a"
    using a(1) Cons.prems(2,3) ains_persistable [of _ k v ver a] e
    by (auto simp: small_entries_def split: option.splits)
  with Cons.IH [OF a(2)] Cons.prems(3) show ?case by (simp add: small_entries_def)
qed simp

section \<open>Writes into a fresh store\<close>

lemma agrow_ascending:
  assumes "btree_ok es" "\<forall>e \<in> set es. \<forall>x \<in> keys t. x < fst e" "bst t" "balanced t" "hot t"
    and "sz t + length es < 2 ^ 32"
  shows "\<exists>t'. agrow ver (Some t) es = Some (Some t') \<and> balanced t'"
  using assms
proof (induction es arbitrary: t)
  case (Cons e es)
  obtain k v where e: "e = (k, v)" by (cases e)
  have "\<forall>x \<in> keys t. x < k" "sz t + 1 < 2 ^ 32" using Cons.prems e by auto
  from ains_ascending [OF Cons.prems(3-5) this] obtain a where a: "ains t k v ver = Some a"
    "balanced a" "sz a = sz t + 1" by blast
  note c = ains_content [OF a(1) Cons.prems(3)]
  have h: "hot a" by (rule hot_ains [OF a(1) Cons.prems(5)])
  have "\<forall>e \<in> set es. \<forall>x \<in> keys a. x < fst e"
    using Cons.prems(1,2) c e by (auto simp: btree_ok_def)
  moreover have "btree_ok es" using Cons.prems(1) by (simp add: btree_ok_def)
  ultimately show ?case using Cons.IH [of a] c a(2,3) h Cons.prems(6) a(1) e by simp
qed simp

lemma agrow_fresh:
  assumes "btree_ok es" "length es < 2 ^ 32"
  shows "\<exists>ta. agrow ver None es = Some ta \<and> (\<forall>a \<in> set_option ta. balanced a)"
proof (cases es)
  case (Cons e es')
  obtain k v where e: "e = (k, v)" by (cases e)
  have "\<exists>t'. agrow ver (Some (ALf k v ver)) es' = Some (Some t') \<and> balanced t'"
    by (rule agrow_ascending) (use assms Cons e in \<open>auto simp: btree_ok_def\<close>)
  with Cons e show ?thesis by auto
qed simp

section \<open>Writes to existing keys\<close>

lemma agrow_overwrites:
  assumes "bst t" "balanced t" "fits t" "fst ` set es \<subseteq> keys t"
  shows "\<exists>t'. agrow ver (Some t) es = Some (Some t') \<and> balanced t' \<and> ht t' = ht t"
  using assms
proof (induction es arbitrary: t)
  case (Cons e es)
  obtain k v where e: "e = (k, v)" by (cases e)
  with Cons.prems have "k \<in> keys t" by auto
  from ains_overwrite [OF Cons.prems(1-3) this] obtain a where a: "ains t k v ver = Some a"
    "ht a = ht t" "sz a = sz t" "balanced a" by blast
  note c = ains_content [OF a(1) Cons.prems(1)]
  have "fst ` set es \<subseteq> keys a" using Cons.prems(4) c by auto
  with Cons.IH [of a] c a Cons.prems(3) e show ?case by (simp add: fits_def)
qed simp

section \<open>Clean writes\<close>

text \<open>
  No two different strings that are hashed for the new tree have the same hash, and its root
  hash is not the one that stands for the empty tree.
\<close>

definition no_collision :: "crates \<Rightarrow> kvstore \<Rightarrow> atree option \<Rightarrow> bool" where
  "no_collision C kv ta \<longleftrightarrow> (\<forall>ver a.
     checked_add (tree_loaded_version (persistent_store kv)) 1 = Some ver \<longrightarrow>
     agrow ver ta (merged kv) = Some (Some a) \<longrightarrow>
     inj_on (sha256 C) (hash_inputs C a) \<and> ahash C a \<noteq> EMPTY_HASH)"

text \<open>Writes that need no rotation of a stored subtree, within the bounds of the format.\<close>

definition plain_writes :: "kvstore \<Rightarrow> atree option \<Rightarrow> bool" where
  "plain_writes kv ta \<longleftrightarrow> length (merged kv) < 2 ^ 32 \<and>
     (\<exists>ver. checked_add (tree_loaded_version (persistent_store kv)) 1 = Some ver \<and>
        small_entries ver (merged kv)) \<and>
     (case ta of None \<Rightarrow> True
      | Some a \<Rightarrow> balanced a \<and> persistable a \<and> fst ` set (merged kv) \<subseteq> keys a)"

lemma plain_writes_clean:
  assumes ok: "kv_ok kv" and com: "committed C D s (persistent_store kv) ta"
    and w: "plain_writes kv ta" "no_collision C kv ta"
  shows "clean_writes C kv ta"
proof -
  from w(1) obtain ver where v: "checked_add (tree_loaded_version (persistent_store kv)) 1 = Some ver"
    "small_entries ver (merged kv)" by (auto simp: plain_writes_def)
  have "\<exists>ta'. agrow ver ta (merged kv) = Some ta'"
  proof (cases ta)
    case None
    with agrow_fresh [OF merged_ok [OF ok]] w(1) show ?thesis by (auto simp: plain_writes_def)
  next
    case (Some a)
    with com have "bst a" "fits a" by (auto simp: committed_def storable_tree_def persistable_fits)
    with agrow_overwrites [of a "merged kv" ver] w(1) Some show ?thesis by (auto simp: plain_writes_def)
  qed
  then obtain ta' where g: "agrow ver ta (merged kv) = Some ta'" ..
  have "\<forall>a \<in> set_option ta. persistable a" using w(1) by (auto simp: plain_writes_def)
  from agrow_persistable [OF g this v(2)] have "storable_tree C a" if "a \<in> set_option ta'" for a
    using that w(2) v(1) g by (auto simp: no_collision_def storable_tree_def)
  with v(1) g show ?thesis by (auto simp: clean_writes_def)
qed

end
