(* ===== verification/Blockchain.thy ===== *)
theory Blockchain
  imports Genesis Host_State Commit_Cases
begin

text \<open>
  The life of a node: blocks, the commits that end them and restarts. \<open>node_inv\<close> ties the layers
  together: the stores hold a ledger and accounts, the trees below the caches are those of the
  last commit, and they are what the database gives back. The properties here speak of any
  database with the laws of \<open>full_key_scan\<close>.
\<close>

section \<open>The trees of the last commit\<close>

definition committed_head ::
  "crates \<Rightarrow> 'db database_ops \<Rightarrow> 'db \<Rightarrow> u64 \<times> bytes \<times> (bytes \<times> tree) list \<Rightarrow> bool" where
  "committed_head C D s hs \<longleftrightarrow> (case hs of (v, _, ts) \<Rightarrow> incomparable (map fst ts) \<and> ts \<noteq> [] \<and>
     (\<forall>(n, t) \<in> set ts. tree_loaded_version t = v \<and> (\<exists>ta. committed C (module_db D n) s t ta)))"

lemma stores_committed_head:
  "stores_committed C D s ms \<longleftrightarrow> committed_head C D s (head_state ms)"
  by (auto simp: stores_committed_def committed_head_def head_state_def kv_last_committed_version_def
      case_prod_beta o_def)

lemma head_state_fields:
  assumes "head_state ms' = head_state ms"
  shows "head_version ms' = head_version ms" "head_commit_hash ms' = head_commit_hash ms"
    "map fst (stores ms') = map fst (stores ms)"
proof -
  show "head_version ms' = head_version ms" "head_commit_hash ms' = head_commit_hash ms"
    using assms by (simp_all add: head_state_def)
  have "map fst (stores ms) = map fst (snd (snd (head_state ms)))" for ms
    by (simp add: head_state_def case_prod_beta o_def)
  then show "map fst (stores ms') = map fst (stores ms)" using assms by metis
qed

lemma genesis_committed:
  assumes "genesis_state names (head_state ms)" "names \<noteq> []" "incomparable names"
    and "\<forall>n \<in> set names. get_versions C (module_db D n) s = Some []"
  shows "stores_committed C D s ms"
proof -
  have "committed C (module_db D n) s (persistent_store empty_store) None" if "n \<in> set names" for n
    using assms(4) that by (simp add: committed_def tree_new_def btset_last_def empty_store_def)
  with assms(1-3) show ?thesis
    unfolding stores_committed_head committed_head_def genesis_state_def
    by (fastforce simp: o_def empty_store_def)
qed

section \<open>The same application over another state of the database\<close>

lemma node_host_twice [simp]: "node_host (node_host H nd) nd' = node_host H nd'"
  by (simp add: node_host_def)

lemma gaia_app_host [simp]: "gaia_app (node_host H nd) env = gaia_app H env"
  by (simp add: gaia_app_def node_host_def)

lemma run_tx_host [simp]: "run_tx (node_host H nd0) app nd raw = run_tx H app nd raw"
proof -
  have "tx_with_raw_from_bytes (node_host H nd0) (app_ops app) raw
      = tx_with_raw_from_bytes H (app_ops app) raw" by (simp add: node_host_def)
  then show ?thesis unfolding run_tx_def node_host_twice by simp
qed

lemma block_step_host [simp]: "block_step (node_host H nd0) app = block_step H app"
  by (simp add: fun_eq_iff block_step.simps deliver_tx_def)

lemma moved_view:
  assumes "ctx_view H sk ctx f"
    and "\<And>kv. get_kv_store (ctx_multi_store ctx) sk = Some kv \<Longrightarrow>
      \<exists>kv'. get_kv_store (ctx_multi_store ctx') sk = Some kv' \<and>
        (\<forall>k. kv_read (H\<lparr> host_state := s \<rparr>) sk kv' k = kv_read H sk kv k)"
  shows "ctx_view (H\<lparr> host_state := s \<rparr>) sk ctx' f"
proof -
  have "ctx_read (H\<lparr> host_state := s \<rparr>) ctx' sk k = Some (f k)" for k
  proof -
    from view_read [OF assms(1), of k] obtain kv where kv: "get_kv_store (ctx_multi_store ctx) sk = Some kv"
      "kv_read H sk kv k = Some (f k)"
      by (auto simp: ctx_read_def ctx_get_kv_store_def bind_eq_Some_conv)
    with assms(2) [OF kv(1)] show ?thesis by (auto simp: ctx_read_def ctx_get_kv_store_def)
  qed
  then show ?thesis by (simp add: view_def)
qed

lemma gaia_rel_moved:
  assumes "gaia_rel H ctx bal accs"
    and "\<And>n kv. get_kv_store (ctx_multi_store ctx) n = Some kv \<Longrightarrow>
      \<exists>kv'. get_kv_store (ctx_multi_store ctx') n = Some kv' \<and>
        (\<forall>k. kv_read (H\<lparr> host_state := s \<rparr>) n kv' k = kv_read H n kv k)"
  shows "gaia_rel (H\<lparr> host_state := s \<rparr>) ctx' bal accs"
proof -
  have v: "ctx_view H sk ctx f \<Longrightarrow> ctx_view (H\<lparr> host_state := s \<rparr>) sk ctx' f" for sk f
    by (rule moved_view [OF _ assms(2)])
  have "app_state (H\<lparr> host_state := s \<rparr>) gaia_bank_keeper ctx' bal accs n"
    if "app_state H gaia_bank_keeper ctx bal accs n" for n
    using that v unfolding app_state_def bank_state_def auth_state_def host_relations by blast
  then show ?thesis using assms(1) unfolding gaia_rel_def by auto
qed

section \<open>The invariant of a node\<close>

definition node_inv ::
  "'db host \<Rightarrow> ('db \<Rightarrow> bool) \<Rightarrow> 'db app_node \<Rightarrow> ledger \<Rightarrow> (acc_address \<Rightarrow> account option) \<Rightarrow> bool" where
  "node_inv H P nd bal accs \<longleftrightarrow> node_rel (gaia_rel (node_host H nd)) (nd_multi_store nd) bal accs \<and>
     P (nd_db nd) \<and> stores_committed (storage H) (host_db H) (nd_db nd) (nd_multi_store nd) \<and>
     map fst (stores (nd_multi_store nd)) = gaia_store_names \<and>
     head_version (nd_multi_store nd) = nd_height nd"

lemma node_inv_head:
  assumes "node_inv H P nd bal accs" "nd_db nd' = nd_db nd" "nd_height nd' = nd_height nd"
    and "head_state (nd_multi_store nd') = head_state (nd_multi_store nd)"
    and "node_rel (gaia_rel (node_host H nd)) (nd_multi_store nd') bal' accs'"
  shows "node_inv H P nd' bal' accs'"
proof -
  have "node_host H nd' = node_host H nd" using assms(2) by (simp add: node_host_def)
  then show ?thesis
    using assms head_state_fields [OF assms(4)] unfolding node_inv_def stores_committed_head by simp
qed

lemma node_inv_header [simp]:
  "node_inv H P (nd\<lparr> nd_block_header := h \<rparr>) bal accs = node_inv H P nd bal accs"
proof -
  have "node_host H (nd\<lparr> nd_block_header := h \<rparr>) = node_host H nd" by (simp add: node_host_def)
  then show ?thesis by (simp add: node_inv_def)
qed

lemma chain_block:
  assumes i: "node_inv H P nd bal accs" and step: "block_step H (gaia_app H env) nd nd'"
  obtains bal' accs' where "node_inv H P nd' bal' accs'" "evolves accs accs'"
    "\<forall>d. total_of bal' d = total_of bal d"
proof -
  have n: "node_rel (gaia_rel (node_host H nd)) (nd_multi_store nd) bal accs"
    using i by (simp add: node_inv_def)
  have "block_step (node_host H nd) (gaia_app (node_host H nd) env) nd nd'" using step by simp
  from ga.block_step_effect [OF n _ this] obtain bal' accs' where b:
    "node_rel (gaia_rel (node_host H nd)) (nd_multi_store nd') bal' accs'" "evolves accs accs'"
    "\<forall>d. total_of bal' d = total_of bal d" "nd_db nd' = nd_db nd" "nd_height nd' = nd_height nd"
    "head_state (nd_multi_store nd') = head_state (nd_multi_store nd)" by auto
  from node_inv_head [OF i b(4-6,1)] that b(2,3) show thesis by blast
qed

lemma empty_caches_clean:
  assumes "\<forall>(n, kv) \<in> set (stores ms). block_cache kv = [] \<and> tx_cache kv = []"
    and "distinct (map fst (stores ms))"
  shows "clean ms"
proof -
  have "map (\<lambda>(n, kv). (n, clear_tx_cache kv)) kvs = kvs"
    if "\<forall>(n, kv) \<in> set kvs. block_cache kv = [] \<and> tx_cache kv = []" for kvs
    using that by (induction kvs) (auto simp: clear_tx_cache_def)
  from this [OF assms(1)] have "clear_tx_caches ms = ms" unfolding clear_tx_caches_def by simp
  then show ?thesis using assms by (auto simp: clean_def ms_ok_def kv_ok_def)
qed

lemma just_committed_clean:
  "just_committed C ms \<Longrightarrow> distinct (map fst (stores ms)) \<Longrightarrow> clean ms"
  by (rule empty_caches_clean) (simp_all add: just_committed_def)

section \<open>Commits\<close>

text \<open>What a commit does to a node whose pending writes are clean.\<close>

lemma ready_commit:
  assumes D: "full_key_scan (host_db H) P" and C: "varint_ok (storage H)" "sha256_ok (storage H)"
    and n: "node_rel (gaia_rel (node_host H nd)) (nd_multi_store nd) bal accs"
    and s: "P (nd_db nd)" "stores_ready (storage H) (host_db H) (nd_db nd) (nd_multi_store nd)"
      "head_version (nd_multi_store nd) = nd_height nd"
      "map fst (stores (nd_multi_store nd)) = gaia_store_names"
    and v: "checked_add (nd_height nd) 1 = Some v" "uint (nd_height nd) < 2 ^ 63"
  obtains res nd' where "abci_commit H nd = Some (res, nd')" "node_inv H P nd' bal accs"
    "nd_height nd' = v" "just_committed (storage H) (nd_multi_store nd')"
    "rco_data res = get_last_commit_hash nd'" "rco_retain_height res = uint (nd_height nd)"
    "nd_block_header nd' = nd_block_header nd"
    "\<forall>n kv. get_kv_store (nd_multi_store nd) n = Some kv \<longrightarrow>
      (\<exists>kv'. get_kv_store (nd_multi_store nd') n = Some kv' \<and>
        (\<forall>k. kv_read (node_host H nd') n kv' k = kv_read (node_host H nd) n kv k))"
proof -
  let ?C = "storage H" and ?D = "host_db H" and ?ms = "nd_multi_store nd"
  have ok: "ms_ok ?ms" using n by (simp add: node_rel_def clean_def)
  have hv: "checked_add (head_version ?ms) 1 = Some v" using s(3) v(1) by simp
  obtain ms' s' where m: "multi_commit ?C ?D (nd_db nd) ?ms = Some (head_commit_hash ms', ms', s')"
    "P s'" "stores_committed ?C ?D s' ms'" "just_committed ?C ms'" "head_version ms' = v"
    "map fst (stores ms') = map fst (stores ?ms)"
    "\<And>n kv. get_kv_store ?ms n = Some kv \<Longrightarrow> \<exists>kv'. get_kv_store ms' n = Some kv' \<and>
       (\<forall>key. kv_get ?C (module_db ?D n) s' kv' key = kv_get ?C (module_db ?D n) (nd_db nd) kv key)"
    by (rule full_key_scan.clean_multi_commit [OF D C s(1) ok s(2) hv]) blast
  let ?nd = "nd\<lparr> nd_height := v, nd_multi_store := ms', nd_db := s' \<rparr>"
  let ?res = "\<lparr> rco_data = head_commit_hash ms', rco_retain_height = uint (nd_height nd) \<rparr>"
  have vm: "v - 1 = nd_height nd" using v(1) by (auto simp: checked_add_def split: if_splits)
  note v(2)
  moreover have "- (2 ^ 63) \<le> uint (nd_height nd)" by (rule order.trans [of _ 0]) simp_all
  ultimately have e: "expect_i64 (v - 1) = Some (uint (nd_height nd))"
    unfolding vm by (simp add: expect_i64_def i64_value_def)
  have "abci_commit H nd = Some (?res, ?nd)"
    using m(1) v(1) e by (simp add: abci_commit_def increment_block_height_def)
  moreover have "node_inv H P ?nd bal accs"
    unfolding node_inv_def node_rel_def
  proof (intro conjI allI)
    show "clean (nd_multi_store ?nd)"
      using just_committed_clean [OF m(4)] m(6) s(4) gaia_store_names(2) by simp
    have H': "node_host H ?nd = (node_host H nd)\<lparr> host_state := s' \<rparr>" by (simp add: node_host_def)
    show "gaia_rel (node_host H ?nd)
        (TxContext (tx_context_new (nd_multi_store ?nd) h header raw)) bal accs" for h header raw
      unfolding H'
    proof (rule gaia_rel_moved)
      show "gaia_rel (node_host H nd) (TxContext (tx_context_new ?ms h header raw)) bal accs"
        using n by (simp add: node_rel_def)
      fix n kv
      assume "get_kv_store (ctx_multi_store (TxContext (tx_context_new ?ms h header raw))) n = Some kv"
      then have "get_kv_store ?ms n = Some kv" by (simp add: tx_context_new_def)
      from m(7) [OF this] obtain kv' where kv: "get_kv_store ms' n = Some kv'"
        "\<And>k. kv_get ?C (module_db ?D n) s' kv' k = kv_get ?C (module_db ?D n) (nd_db nd) kv k" by blast
      have "get_kv_store (ctx_multi_store (TxContext (tx_context_new (nd_multi_store ?nd) h header raw))) n
          = Some kv'" by (simp add: tx_context_new_def kv(1))
      moreover have "kv_read ((node_host H nd)\<lparr> host_state := s' \<rparr>) n kv' k = kv_read (node_host H nd) n kv k"
        for k unfolding kv_read_def by (simp add: node_host_def kv(2) del: prefixdb_ops_simps)
      ultimately show "\<exists>kv'. get_kv_store
          (ctx_multi_store (TxContext (tx_context_new (nd_multi_store ?nd) h header raw))) n = Some kv' \<and>
        (\<forall>k. kv_read ((node_host H nd)\<lparr> host_state := s' \<rparr>) n kv' k = kv_read (node_host H nd) n kv k)"
        by blast
    qed
  qed (use m s(4) in simp_all)
  moreover have "\<forall>n kv. get_kv_store ?ms n = Some kv \<longrightarrow>
      (\<exists>kv'. get_kv_store (nd_multi_store ?nd) n = Some kv' \<and>
        (\<forall>k. kv_read (node_host H ?nd) n kv' k = kv_read (node_host H nd) n kv k))"
    using m(7) by (simp add: kv_read_def del: prefixdb_ops_simps)
  ultimately show thesis
    using that [of ?res ?nd] m(4) by (simp add: get_last_commit_hash_def)
qed

lemma chain_commit:
  assumes D: "full_key_scan (host_db H) P" and C: "varint_ok (storage H)" "sha256_ok (storage H)"
    and i: "node_inv H P nd bal accs"
    and clean: "clean_stores (storage H) (host_db H) (nd_db nd) (nd_multi_store nd)"
    and v: "checked_add (nd_height nd) 1 = Some v" "uint (nd_height nd) < 2 ^ 63"
  obtains res nd' where "abci_commit H nd = Some (res, nd')" "node_inv H P nd' bal accs"
    "nd_height nd' = v" "just_committed (storage H) (nd_multi_store nd')"
    "rco_data res = get_last_commit_hash nd'" "rco_retain_height res = uint (nd_height nd)"
    "nd_block_header nd' = nd_block_header nd"
    "\<forall>n kv. get_kv_store (nd_multi_store nd) n = Some kv \<longrightarrow>
      (\<exists>kv'. get_kv_store (nd_multi_store nd') n = Some kv' \<and>
        (\<forall>k. kv_read (node_host H nd') n kv' k = kv_read (node_host H nd) n kv k))"
proof -
  have s: "P (nd_db nd)" "stores_ready (storage H) (host_db H) (nd_db nd) (nd_multi_store nd)"
    "head_version (nd_multi_store nd) = nd_height nd" "map fst (stores (nd_multi_store nd)) = gaia_store_names"
    and n: "node_rel (gaia_rel (node_host H nd)) (nd_multi_store nd) bal accs"
    using i committed_ready [OF _ clean] by (simp_all add: node_inv_def)
  show thesis by (rule ready_commit [OF D C n s v]) (rule that, assumption+)
qed

text \<open>Restarting between blocks.\<close>

lemma chain_restart:
  assumes "node_inv H P nd bal accs" "just_committed (storage H) (nd_multi_store nd)"
  shows "base_app_new H (gaia_app H env) (nd_db nd) = Some (nd\<lparr> nd_block_header := None \<rparr>)"
proof -
  have "multi_new (storage H) (host_db H) (nd_db nd) gaia_store_names = Some (nd_multi_store nd)"
    using multi_new_committed [OF _ assms(2)] assms(1) unfolding node_inv_def by metis
  then show ?thesis
    using assms(1) by (simp add: base_app_new_def gaia_app_def node_inv_def)
qed

section \<open>The life of a node\<close>

inductive chain_step ::
  "'db host \<Rightarrow> ('db, 'm, 'g) app \<Rightarrow> 'db app_node \<Rightarrow> 'db app_node \<Rightarrow> bool" for H app where
  in_block: "block_step H app nd nd' \<Longrightarrow> chain_step H app nd nd'"
| commit_block: "abci_commit H nd = Some (res, nd') \<Longrightarrow>
    clean_stores (storage H) (host_db H) (nd_db nd) (nd_multi_store nd) \<Longrightarrow> chain_step H app nd nd'"
| restart: "just_committed (storage H) (nd_multi_store nd) \<Longrightarrow>
    base_app_new H app (nd_db nd) = Some nd' \<Longrightarrow> chain_step H app nd nd'"

text \<open>Commits that return are below the largest height that fits the response.\<close>

lemma abci_commit_height:
  assumes "abci_commit H nd = Some (res, nd')"
  obtains v where "checked_add (nd_height nd) 1 = Some v" "uint (nd_height nd) < 2 ^ 63"
proof -
  from assms obtain v r where v: "checked_add (nd_height nd) 1 = Some v" "expect_i64 (v - 1) = Some r"
    by (auto simp: abci_commit_def increment_block_height_def bind_eq_Some_conv)
  then have "v - 1 = nd_height nd" by (auto simp: checked_add_def split: if_splits)
  with v(2) have "uint (nd_height nd) < 2 ^ 63"
    by (simp add: expect_i64_def i64_value_def split: if_splits)
  with that v(1) show thesis by blast
qed

lemma chain_effect:
  assumes D: "full_key_scan (host_db H) P" and C: "varint_ok (storage H)" "sha256_ok (storage H)"
    and "(chain_step H (gaia_app H env))\<^sup>*\<^sup>* nd nd'" "node_inv H P nd bal accs"
  obtains bal' accs' where "node_inv H P nd' bal' accs'" "evolves accs accs'"
    "\<forall>d. total_of bal' d = total_of bal d"
proof -
  from assms(4,5) have "\<exists>bal' accs'. node_inv H P nd' bal' accs' \<and> evolves accs accs' \<and>
      (\<forall>d. total_of bal' d = total_of bal d)"
  proof (induction rule: rtranclp_induct)
    case base
    then show ?case by (intro exI [of _ bal] exI [of _ accs]) simp
  next
    case (step nd1 nd2)
    then obtain bal1 accs1 where i: "node_inv H P nd1 bal1 accs1" "evolves accs accs1"
      "\<forall>d. total_of bal1 d = total_of bal d" by blast
    have "\<exists>bal2 accs2. node_inv H P nd2 bal2 accs2 \<and> evolves accs1 accs2 \<and>
        (\<forall>d. total_of bal2 d = total_of bal1 d)"
      using step.hyps(2)
    proof (cases rule: chain_step.cases)
      case in_block
      from chain_block [OF i(1) this] show ?thesis by metis
    next
      case (commit_block res)
      obtain v where v: "checked_add (nd_height nd1) 1 = Some v" "uint (nd_height nd1) < 2 ^ 63"
        by (rule abci_commit_height [OF commit_block(1)])
      obtain res' nd' where "abci_commit H nd1 = Some (res', nd')" "node_inv H P nd' bal1 accs1"
        by (rule chain_commit [OF D C i(1) commit_block(2) v])
      with commit_block(1) have "node_inv H P nd2 bal1 accs1" by simp
      then show ?thesis using evolves_refl by blast
    next
      case restart
      from restart(2) [unfolded chain_restart [OF i(1) restart(1)]]
      have "nd2 = nd1\<lparr> nd_block_header := None \<rparr>" by simp
      then have "node_inv H P nd2 bal1 accs1" using i(1) by (simp only: node_inv_header)
      then show ?thesis using evolves_refl by blast
    qed
    then obtain bal2 accs2 where "node_inv H P nd2 bal2 accs2" "evolves accs1 accs2"
      "\<forall>d. total_of bal2 d = total_of bal1 d" by blast
    with i evolves_trans [OF i(2)] show ?case
      by (intro exI [of _ bal2] exI [of _ accs2]) simp
  qed
  then show thesis using that by blast
qed

section \<open>Plain blocks\<close>

definition plain_stores ::
  "crates \<Rightarrow> 'db database_ops \<Rightarrow> 'db \<Rightarrow> multistore \<Rightarrow> bool" where
  "plain_stores C D s ms \<longleftrightarrow> (\<forall>(n, kv) \<in> set (stores ms). \<forall>ta.
     committed C (module_db D n) s (persistent_store kv) ta \<longrightarrow>
     plain_writes kv ta \<and> no_collision C kv ta)"

lemma plain_stores_clean:
  assumes "ms_ok ms" "plain_stores C D s ms"
  shows "clean_stores C D s ms"
  using assms plain_writes_clean by (fastforce simp: clean_stores_def plain_stores_def ms_ok_def)

text \<open>In a store that was never committed to, every write within the bounds is plain.\<close>

lemma first_writes_plain:
  assumes "genesis_state names (head_state ms)"
    and "\<forall>(n, kv) \<in> set (stores ms). length (merged kv) < 2 ^ 32 \<and> small_entries 1 (merged kv) \<and>
      no_collision C kv None"
  shows "plain_stores C D s ms"
  unfolding plain_stores_def
proof (clarify)
  fix n kv ta
  assume m: "(n, kv) \<in> set (stores ms)" and com: "committed C (module_db D n) s (persistent_store kv) ta"
  have "(n, persistent_store kv) \<in> set (snd (snd (head_state ms)))"
    using m by (auto simp: head_state_def)
  then have t: "persistent_store kv = persistent_store empty_store"
    using assms(1) by (auto simp: genesis_state_def)
  then have "ta = None" "checked_add (tree_loaded_version (persistent_store kv)) 1 = Some 1"
    using com by (simp_all add: committed_def empty_store_def checked_add_def)
  with assms(2) m show "plain_writes kv ta \<and> no_collision C kv ta"
    by (auto simp: plain_writes_def)
qed

section \<open>Properties\<close>

lemma gaia_names_incomparable: "incomparable gaia_store_names"
  by (simp add: incomparable_def gaia_store_names_def)

lemma genesis_node_inv:
  assumes "fresh_database H" "P (host_state H)" "nd_db nd = host_state H"
    and "node_rel (gaia_rel H) (nd_multi_store nd) bal accs" "nd_height nd = 0"
    and "genesis_state gaia_store_names (head_state (nd_multi_store nd))"
  shows "node_inv H P nd bal accs"
proof -
  have H: "node_host H nd = H" using assms(3) by (simp add: node_host_def)
  have "map fst (stores (nd_multi_store nd)) = map fst (snd (snd (head_state (nd_multi_store nd))))"
    "head_version (nd_multi_store nd) = fst (head_state (nd_multi_store nd))"
    by (simp_all add: head_state_def case_prod_beta o_def)
  then have "map fst (stores (nd_multi_store nd)) = gaia_store_names" "head_version (nd_multi_store nd) = 0"
    using assms(6) by (auto simp: genesis_state_def o_def)
  moreover have "stores_committed (storage H) (host_db H) (nd_db nd) (nd_multi_store nd)"
    by (rule genesis_committed [OF assms(6) gaia_store_names(3) gaia_names_incomparable])
      (use assms(1,3) in \<open>simp add: fresh_database_def\<close>)
  ultimately show ?thesis using assms unfolding node_inv_def H by simp
qed

subsection \<open>The example node\<close>

lemma demo_database: "full_key_scan (host_db demo_host) memdb_ok" "memdb_ok (host_state demo_host)"
  using mem.full_key_scan_axioms by simp_all

lemma demo_storage_laws: "varint_ok (storage demo_host)" "sha256_ok (storage demo_host)"
  by (simp_all add: demo_libs_def demo_crates_varint demo_crates_sha256)

lemma demo_genesis_state: "genesis_state gaia_store_names (head_state demo_stores)"
  by (simp add: genesis_state_def head_state_def demo_stores_def gaia_store_names_def
      BANK_def ACC_def PARAMS_def)

lemma demo_executes_inv:
  obtains nd es nd1 where "node_inv demo_host memdb_ok nd demo_ledger demo_accounts"
    "run_tx demo_host (gaia_app demo_host demo_env) nd demo_bytes = Some (Inr es, nd1)"
proof -
  obtain nd es nd1 where nd: "node_rel (gaia_rel demo_host) (nd_multi_store nd) demo_ledger demo_accounts"
    "nd_db nd = host_state demo_host"
    "run_tx demo_host (gaia_app demo_host demo_env) nd demo_bytes = Some (Inr es, nd1)"
    "head_state (nd_multi_store nd) = head_state demo_stores" "nd_height nd = 0"
    by (rule demo_executes) blast
  have "genesis_state gaia_store_names (head_state (nd_multi_store nd))"
    using demo_genesis_state nd(4) by simp
  from that [OF genesis_node_inv [where P = memdb_ok, OF demo_fresh demo_database(2) nd(2,1,5) this] nd(3)] show thesis .
qed

text \<open>A node in which every store has an entry that waits for the first commit, that of the bank a balance.\<close>

definition demo_entry :: "bytes \<times> bytes" where
  "demo_entry = (balance_key (AccAddress [3]) DOGE,
     coin_encode_vec demo_host \<lparr> coin_denom = DOGE, coin_amount = 10 \<rparr>)"

definition demo_other :: "bytes \<times> bytes" where
  "demo_other = ([7], [1])"

definition demo_pending :: "memdb app_node" where
  "demo_pending = \<lparr> nd_multi_store = demo_stores\<lparr> stores :=
       [(BANK, empty_store\<lparr> block_cache := [demo_entry] \<rparr>),
        (ACC, empty_store\<lparr> block_cache := [demo_other] \<rparr>),
        (PARAMS, empty_store\<lparr> block_cache := [demo_other] \<rparr>)] \<rparr>,
     nd_height = 0, nd_block_header = None, nd_db = memdb_new \<rparr>"

lemma demo_entry_bytes:
  "demo_entry = ([2, 1, 3, 100, 111, 103, 101], [4, 100, 111, 103, 101, 2, 49, 48])"
  by (simp add: demo_entry_def balance_key_def coin_encode_vec_def raw_from_coin_def
      ADDRESS_BALANCES_STORE_PREFIX_def demo_libs_def DOGE_def demo_codec_def enc_pair_def
      enc_str_def enc_len_def coin_fields_def leb_enc.simps show_nat.simps)

lemma demo_pending_fields [simp]:
  "nd_height demo_pending = 0" "nd_db demo_pending = memdb_new" "nd_block_header demo_pending = None"
  "stores (nd_multi_store demo_pending) =
     [(BANK, empty_store\<lparr> block_cache := [demo_entry] \<rparr>),
        (ACC, empty_store\<lparr> block_cache := [demo_other] \<rparr>),
        (PARAMS, empty_store\<lparr> block_cache := [demo_other] \<rparr>)]"
  by (simp_all add: demo_pending_def)

lemma demo_pending_genesis: "genesis_state gaia_store_names (head_state (nd_multi_store demo_pending))"
  using demo_genesis_state
  by (simp add: demo_pending_def head_state_def genesis_state_def demo_stores_def empty_store_def)

lemma demo_pending_inv: "node_inv demo_host memdb_ok demo_pending demo_ledger Map.empty"
proof (rule genesis_node_inv [where P = memdb_ok, OF demo_fresh demo_database(2) _ _ _ demo_pending_genesis])
  let ?ms = "nd_multi_store demo_pending" and ?c = "\<lparr> coin_denom = DOGE, coin_amount = 10 \<rparr>"
  show "nd_db demo_pending = host_state demo_host" "nd_height demo_pending = 0" by simp_all
  have "coin_decode demo_host (coin_encode_vec demo_host ?c) = Some (Inr ?c)"
    using demo_host_laws demo_denom_ok by (simp add: coin_decode_encode coin_ok_def)
  then have b: "bank_rel demo_host (Map.empty(fst demo_entry \<mapsto> snd demo_entry)) demo_ledger"
    using bank_rel_upd [of demo_host Map.empty "\<lambda>_ _. 0" "AccAddress [3]" DOGE _ ?c] demo_denom_ok
    by (simp add: bank_rel_def addr_ok_def demo_ledger_def demo_entry_def)
  have v: "ctx_view demo_host BANK ctx (Map.empty(fst demo_entry \<mapsto> snd demo_entry))"
    "ctx_view demo_host ACC ctx (Map.empty(fst demo_other \<mapsto> snd demo_other))" if "ctx_multi_store ctx = ?ms" for ctx
    using that
    by (auto simp: view_def ctx_read_def ctx_get_kv_store_def get_kv_store_def kv_read_def kv_get_def
        empty_store_def tree_get_def)
  have "auth_rel demo_host (Map.empty(fst demo_other \<mapsto> snd demo_other)) Map.empty 0"
    by (auto simp: auth_rel_def demo_other_def create_auth_store_key_def ACCOUNT_STORE_PREFIX_def
        GLOBAL_ACCOUNT_NUMBER_KEY_def)
  then have a: "auth_state demo_host demo_auth ctx Map.empty 0" if "ctx_multi_store ctx = ?ms" for ctx
    using v(2) [OF that] by (auto simp: auth_state_def)
  have "app_state demo_host demo_bank ctx demo_ledger Map.empty 0" if "ctx_multi_store ctx = ?ms" for ctx
    using v(1) [OF that] b a [OF that] by (auto simp: app_state_def bank_state_def)
  then have "gaia_rel demo_host ctx demo_ledger Map.empty" if "ctx_multi_store ctx = ?ms" for ctx
    using that demo_libs_ok(1) demo_fee_collector auth_inv_empty
    unfolding gaia_rel_def demo_keepers by auto
  moreover have "clean ?ms"
    by (simp add: clean_def ms_ok_def kv_ok_def clear_tx_caches_def clear_tx_cache_def btree_ok_def)
      (simp add: demo_pending_def empty_store_def)
  ultimately show "node_rel (gaia_rel demo_host) ?ms demo_ledger Map.empty"
    by (simp add: node_rel_def tx_context_new_def)
qed

lemma demo_pending_writes:
  "\<forall>(n, kv) \<in> set (stores (nd_multi_store demo_pending)). length (merged kv) < 2 ^ 32 \<and>
     small_entries 1 (merged kv) \<and> no_collision (storage demo_host) kv None"
proof -
  have h: "inj_on (sha256 demo_crates) (hash_inputs demo_crates (ALf (fst demo_entry) (snd demo_entry) 1))"
    "ahash demo_crates (ALf (fst demo_entry) (snd demo_entry) 1) \<noteq> EMPTY_HASH"
    by (simp_all add: demo_entry_bytes demo_eval inj_on_insert EMPTY_HASH_def)
  moreover have "inj_on (sha256 demo_crates) (hash_inputs demo_crates (ALf [7] [1] 1))"
    "ahash demo_crates (ALf [7] [1] 1) \<noteq> EMPTY_HASH"
    by (simp_all add: demo_eval inj_on_insert EMPTY_HASH_def)
  moreover have "merged (empty_store\<lparr> block_cache := [e] \<rparr>) = [e]" for e
    by (simp add: merged_def empty_store_def)
  ultimately show ?thesis
    by (auto simp: small_entries_def no_collision_def empty_store_def checked_add_def
        demo_libs_def demo_entry_bytes demo_other_def)
qed

lemma demo_pending_clean:
  "clean_stores (storage demo_host) (host_db demo_host) (nd_db demo_pending) (nd_multi_store demo_pending)"
proof -
  have "ms_ok (nd_multi_store demo_pending)"
    using demo_pending_inv by (simp add: node_inv_def node_rel_def clean_def)
  from plain_stores_clean [OF this first_writes_plain [OF demo_pending_genesis demo_pending_writes]]
  show ?thesis .
qed

text \<open>
  (C1) From an empty database, starting the application and initializing the chain with a
  well-formed genesis returns, and the node then holds exactly the ledger of the genesis, whose
  total in every denomination is the supply the bank records; whatever follows, blocks and
  transactions, commits that need no rotation of a stored subtree, and restarts between blocks,
  the node keeps its invariant, accounts keep their numbers and never lose sequence, and the
  total of every denomination stays that supply.
\<close>

theorem genesis_then_chain:
  fixes H :: "'db host" and env :: gaia_env
  assumes "libs_ok H" "module_get_address H FeeCollector = Some fc" "fresh_database H"
    and "env_parse_genesis env (rqi_app_state_bytes request) = Inr genesis"
    and "genesis_ok H genesis" "consensus_ok request"
    and "full_key_scan (host_db H) P" "P (host_state H)" "varint_ok (storage H)" "sha256_ok (storage H)"
  shows "\<exists>nd0 res nd accs. base_app_new H (gaia_app H env) (host_state H) = Some nd0 \<and>
    init_chain H (gaia_app H env) nd0 request = Some (res, nd) \<and>
    node_inv H P nd (genesis_ledger (bg_balances (gs_bank genesis))) accs \<and>
    (\<forall>h hd raw d. recorded_supply H (store_key_name BankKey)
         (TxContext (tx_context_new (nd_multi_store nd) h hd raw)) d
       = Some (total_of (genesis_ledger (bg_balances (gs_bank genesis))) d)) \<and>
    (\<forall>nd'. (chain_step H (gaia_app H env))\<^sup>*\<^sup>* nd nd' \<longrightarrow>
       (\<exists>bal' accs'. node_inv H P nd' bal' accs' \<and> evolves accs accs' \<and>
          (\<forall>d. total_of bal' d = genesis_supply (bg_balances (gs_bank genesis)) d)))"
proof -
  let ?bs = "bg_balances (gs_bank genesis)"
  obtain nd0 res nd accs where i: "base_app_new H (gaia_app H env) (host_state H) = Some nd0"
    "init_chain H (gaia_app H env) nd0 request = Some (res, nd)" "nd_db nd = host_state H"
    "node_rel (gaia_rel H) (nd_multi_store nd) (genesis_ledger ?bs) accs"
    "\<And>ctx d. ctx_multi_store ctx = nd_multi_store nd \<Longrightarrow>
       recorded_supply H (store_key_name BankKey) ctx d = Some (genesis_supply ?bs d)"
    "nd_height nd = 0" "genesis_state gaia_store_names (head_state (nd_multi_store nd))"
    by (rule init_chain_effect [OF assms(1-6)], rule that) assumption+
  have total: "total_of (genesis_ledger ?bs) d = genesis_supply ?bs d" for d
    by (rule genesis_ledger_total) (use assms(5) in \<open>simp add: genesis_ok_def balances_ok_def\<close>)
  have inv0: "node_inv H P nd (genesis_ledger ?bs) accs"
    by (rule genesis_node_inv [where P = P, OF assms(3,8) i(3,4,6,7)])
  have "\<exists>bal' accs'. node_inv H P nd' bal' accs' \<and> evolves accs accs' \<and>
      (\<forall>d. total_of bal' d = genesis_supply ?bs d)"
    if "(chain_step H (gaia_app H env))\<^sup>*\<^sup>* nd nd'" for nd'
    by (rule chain_effect [OF assms(7,9,10) that inv0]) (use total in auto)
  moreover have "recorded_supply H (store_key_name BankKey)
      (TxContext (tx_context_new (nd_multi_store nd) h hd raw)) d
    = Some (total_of (genesis_ledger ?bs) d)" for h hd raw d
    by (simp add: i(5) total tx_context_new_def del: store_key_name.simps)
  ultimately show ?thesis using i inv0 by blast
qed

theorem genesis_then_chain_witness:
  "\<exists>nd0 res nd a. base_app_new demo_host (gaia_app demo_host demo_genesis_env) memdb_new = Some nd0 \<and>
    init_chain demo_host (gaia_app demo_host demo_genesis_env) nd0 demo_request = Some (res, nd) \<and>
    (\<exists>accs. node_inv demo_host memdb_ok nd
       (genesis_ledger [\<lparr> bb_address = a, bb_coins = [\<lparr> coin_denom = Denom (lit ''uatom''),
          coin_amount = 34 \<rparr>] \<rparr>]) accs)"
proof -
  obtain g a where g: "gaia_genesis_default demo_host = Some g" "genesis_ok demo_host g"
    "bg_balances (gs_bank g) = [\<lparr> bb_address = a, bb_coins = [\<lparr> coin_denom = Denom (lit ''uatom''),
       coin_amount = 34 \<rparr>] \<rparr>]" by (rule demo_genesis)
  have p: "env_parse_genesis demo_genesis_env (rqi_app_state_bytes demo_request) = Inr g"
    by (simp add: demo_genesis_env_def g(1))
  have "consensus_ok demo_request" by (simp add: consensus_ok_def demo_request_def)
  from genesis_then_chain [OF demo_libs_ok(1) demo_fee_collector demo_fresh p g(2) this
      demo_database demo_storage_laws, unfolded g(3)]
  show ?thesis by fastforce
qed

text \<open>
  (C3) Replay protection: a transaction that was executed is never executed again, whatever is
  delivered in between and however often the node commits or restarts; the same bytes give an
  error code.
\<close>

theorem delivered_once:
  fixes H :: "'db host" and env :: gaia_env
  assumes "full_key_scan (host_db H) P" "varint_ok (storage H)" "sha256_ok (storage H)"
    and "node_inv H P nd bal accs"
    and "deliver_tx H (gaia_app H env) nd raw = Some (res, nd1)" "rtx_code res = 0"
    and "(chain_step H (gaia_app H env))\<^sup>*\<^sup>* nd1 nd2"
    and "deliver_tx H (gaia_app H env) nd2 raw = Some (res', nd3)"
  shows "rtx_code res' \<noteq> 0"
proof
  let ?H1 = "node_host H nd"
  assume "rtx_code res' = 0"
  with assms(8) obtain es' where again: "run_tx H (gaia_app H env) nd2 raw = Some (Inr es', nd3)"
    by (metis deliver_tx_run)
  from assms(5,6) obtain es where run: "run_tx H (gaia_app H env) nd raw = Some (Inr es, nd1)"
    by (metis deliver_tx_run)
  have n: "node_rel (gaia_rel ?H1) (nd_multi_store nd) bal accs"
    using assms(4) by (simp add: node_inv_def)
  have run1: "run_tx ?H1 (gaia_app ?H1 env) nd raw = Some (Inr es, nd1)" using run by simp
  obtain tx b1 a1 where x: "tx_with_raw_from_bytes ?H1 (app_ops (gaia_app ?H1 env)) raw = Some (Inr tx)"
    "node_rel (gaia_rel ?H1) (nd_multi_store nd1) b1 a1" "spent ?H1 (app_ops (gaia_app ?H1 env)) (twr_tx tx) a1"
    by (rule ga.executed_spent [OF n _ run1]) auto
  have eff: "nd_db nd1 = nd_db nd" "nd_height nd1 = nd_height nd"
    "head_state (nd_multi_store nd1) = head_state (nd_multi_store nd)"
    by (rule ga.run_tx_effect [OF n _ run1], simp, assumption+)+
  have i1: "node_inv H P nd1 b1 a1" by (rule node_inv_head [OF assms(4) eff x(2)])
  obtain b2 a2 where i2: "node_inv H P nd2 b2 a2" "evolves a1 a2"
    by (rule chain_effect [OF assms(1-3,7) i1])
  let ?H2 = "node_host H nd2"
  have n2: "node_rel (gaia_rel ?H2) (nd_multi_store nd2) b2 a2" using i2(1) by (simp add: node_inv_def)
  have t2: "tx_with_raw_from_bytes ?H2 (app_ops (gaia_app ?H2 env)) raw = Some (Inr tx)"
    using x(1) by (simp add: node_host_def)
  have "spent ?H2 (app_ops (gaia_app ?H2 env)) (twr_tx tx) a1"
    using x(3) by (simp add: spent_def node_host_def)
  note ga.spent_not_executed [OF n2 _ t2 spent_evolves [OF this i2(2)]]
  moreover have "run_tx ?H2 (gaia_app ?H2 env) nd2 raw = Some (Inr es', nd3)" using again by simp
  moreover have "nd_db nd2 = host_state ?H2" by simp
  ultimately show False by blast
qed

theorem delivered_once_witness:
  "\<exists>nd res nd1. deliver_tx demo_host (gaia_app demo_host demo_env) nd demo_bytes = Some (res, nd1) \<and>
     rtx_code res = 0 \<and>
     (\<forall>res' nd2 nd3. (chain_step demo_host (gaia_app demo_host demo_env))\<^sup>*\<^sup>* nd1 nd2 \<longrightarrow>
        deliver_tx demo_host (gaia_app demo_host demo_env) nd2 demo_bytes = Some (res', nd3) \<longrightarrow>
        rtx_code res' \<noteq> 0)"
proof -
  obtain nd es nd1 where nd: "node_inv demo_host memdb_ok nd demo_ledger demo_accounts"
    "run_tx demo_host (gaia_app demo_host demo_env) nd demo_bytes = Some (Inr es, nd1)"
    by (rule demo_executes_inv)
  obtain res where r: "deliver_tx demo_host (gaia_app demo_host demo_env) nd demo_bytes = Some (res, nd1)"
    "rtx_code res = 0"
    using nd(2) by (simp add: deliver_tx_def)
  then show ?thesis
    using delivered_once [OF demo_database(1) demo_storage_laws nd(1) r] by blast
qed

text \<open>
  (C5) A commit of a node whose pending writes are clean returns and loses nothing: the new version
  is the next height, its hash is the one the response carries and the node reports, nothing is
  pending any more, and the ledger and the accounts the stores hold are those from before.
\<close>

theorem commit_keeps_ledger:
  assumes "full_key_scan (host_db H) P" "varint_ok (storage H)" "sha256_ok (storage H)"
    and "node_inv H P nd bal accs"
    and "clean_stores (storage H) (host_db H) (nd_db nd) (nd_multi_store nd)"
    and "checked_add (nd_height nd) 1 = Some v" "uint (nd_height nd) < 2 ^ 63"
  shows "\<exists>res nd'. abci_commit H nd = Some (res, nd') \<and> node_inv H P nd' bal accs \<and>
     nd_height nd' = v \<and> head_version (nd_multi_store nd') = v \<and>
     just_committed (storage H) (nd_multi_store nd') \<and> rco_data res = get_last_commit_hash nd' \<and>
     rco_retain_height res = uint (nd_height nd)"
proof -
  obtain res nd' where c: "abci_commit H nd = Some (res, nd')" "node_inv H P nd' bal accs"
    "nd_height nd' = v" "just_committed (storage H) (nd_multi_store nd')"
    "rco_data res = get_last_commit_hash nd'" "rco_retain_height res = uint (nd_height nd)"
    by (rule chain_commit [OF assms])
  then show ?thesis by (auto simp: node_inv_def)
qed

theorem commit_keeps_ledger_witness:
  "\<exists>res nd'. abci_commit demo_host demo_pending = Some (res, nd') \<and>
     node_inv demo_host memdb_ok nd' demo_ledger Map.empty \<and> nd_height nd' = 1"
proof -
  have c: "clean_stores (storage demo_host) (host_db demo_host) (nd_db demo_pending) (nd_multi_store demo_pending)"
    by (rule demo_pending_clean)
  have v: "checked_add (nd_height demo_pending) 1 = Some 1" "uint (nd_height demo_pending) < 2 ^ 63"
    by (simp_all add: checked_add_def)
  from commit_keeps_ledger [OF demo_database(1) demo_storage_laws demo_pending_inv c v]
  show ?thesis by blast
qed

text \<open>
  (C11) The first commit after the genesis returns, whatever the blocks before it wrote, if the
  writes are within the bounds of the stored format and no hashes of the new trees collide: the
  entries go in in ascending order, which is the case the rebalancing gets right.
\<close>

theorem first_commit_returns:
  assumes "full_key_scan (host_db H) P" "varint_ok (storage H)" "sha256_ok (storage H)"
    and "node_inv H P nd bal accs"
    and "genesis_state gaia_store_names (head_state (nd_multi_store nd))"
    and "\<forall>(n, kv) \<in> set (stores (nd_multi_store nd)). length (merged kv) < 2 ^ 32 \<and>
      small_entries 1 (merged kv) \<and> no_collision (storage H) kv None"
  shows "\<exists>res nd'. abci_commit H nd = Some (res, nd') \<and> node_inv H P nd' bal accs \<and>
     nd_height nd' = 1 \<and> chain_step H app nd nd'"
proof -
  have ok: "ms_ok (nd_multi_store nd)" and h: "nd_height nd = 0"
    using assms(4,5) by (auto simp: node_inv_def node_rel_def clean_def genesis_state_def head_state_def)
  have c: "clean_stores (storage H) (host_db H) (nd_db nd) (nd_multi_store nd)"
    by (rule plain_stores_clean [OF ok first_writes_plain [OF assms(5,6)]])
  have v: "checked_add (nd_height nd) 1 = Some 1" "uint (nd_height nd) < 2 ^ 63"
    using h by (simp_all add: checked_add_def)
  obtain res nd' where n: "abci_commit H nd = Some (res, nd')" "node_inv H P nd' bal accs"
    "nd_height nd' = 1"
    by (rule chain_commit [OF assms(1-4) c v])
  with commit_block [OF n(1) c] show ?thesis by blast
qed

theorem first_commit_returns_witness:
  "\<exists>res nd'. abci_commit demo_host demo_pending = Some (res, nd') \<and>
     chain_step demo_host (gaia_app demo_host demo_env) demo_pending nd'"
  using first_commit_returns [OF demo_database(1) demo_storage_laws demo_pending_inv demo_pending_genesis]
    demo_pending_writes by blast

text \<open>
  (C6) Durability: after a commit, a node that is started again on the database comes back with
  the same stores, height and hash; only the header of the block is gone.
\<close>

theorem restart_after_commit:
  fixes H :: "'db host" and env :: gaia_env
  assumes "full_key_scan (host_db H) P" "varint_ok (storage H)" "sha256_ok (storage H)"
    and "node_inv H P nd bal accs"
    and "clean_stores (storage H) (host_db H) (nd_db nd) (nd_multi_store nd)"
    and "abci_commit H nd = Some (res, nd')"
  shows "base_app_new H (gaia_app H env) (nd_db nd') = Some (nd'\<lparr> nd_block_header := None \<rparr>)"
proof -
  obtain v where v: "checked_add (nd_height nd) 1 = Some v" "uint (nd_height nd) < 2 ^ 63"
    by (rule abci_commit_height [OF assms(6)])
  obtain res1 nd1 where c: "abci_commit H nd = Some (res1, nd1)" "node_inv H P nd1 bal accs"
    "just_committed (storage H) (nd_multi_store nd1)"
    by (rule chain_commit [OF assms(1-5) v])
  with assms(6) chain_restart [OF c(2,3)] show ?thesis by simp
qed

theorem restart_after_commit_witness:
  "\<exists>res nd'. abci_commit demo_host demo_pending = Some (res, nd') \<and>
     base_app_new demo_host (gaia_app demo_host demo_env) (nd_db nd') = Some (nd'\<lparr> nd_block_header := None \<rparr>)"
proof -
  have v: "checked_add (nd_height demo_pending) 1 = Some 1" "uint (nd_height demo_pending) < 2 ^ 63"
    by (simp_all add: checked_add_def)
  obtain res nd' where "abci_commit demo_host demo_pending = Some (res, nd')"
    by (rule chain_commit [OF demo_database(1) demo_storage_laws demo_pending_inv demo_pending_clean v])
  with restart_after_commit [OF demo_database(1) demo_storage_laws demo_pending_inv demo_pending_clean]
  show ?thesis by blast
qed

end
