(* ===== verification/Queries.thy ===== *)
theory Queries
  imports Blockchain
begin

text \<open>
  What a node answers to the queries of the bank and auth modules over \<open>abci_query\<close>: the balance
  and the account its stores hold, through the encodings of request and response.
\<close>

section \<open>The stores behind a query\<close>

text \<open>A query reads the stores of the node itself, not a copy for a transaction.\<close>

lemma node_store:
  assumes "\<And>header. ctx_view H sk (TxContext (tx_context_new ms 0 header [])) f"
  obtains kv where "get_kv_store ms sk = Some kv" "\<forall>k. kv_read H sk kv k = Some (f k)"
proof -
  let ?ctx = "TxContext (tx_context_new ms 0 \<lparr> header_chain_id = [] \<rparr> [])"
  have "ctx_read H ?ctx sk k = Some (f k)" for k by (rule view_read [OF assms])
  then have "\<exists>kv. get_kv_store ms sk = Some kv \<and> kv_read H sk kv k = Some (f k)" for k
    by (auto simp: ctx_read_def ctx_get_kv_store_def tx_context_new_def bind_eq_Some_conv)
  with that show thesis by (metis option.inject)
qed

lemma node_rel_stores:
  assumes "node_rel (gaia_rel H) ms bal accs"
  obtains bank f acc g n where "libs_ok H"
    "get_kv_store ms (bk_store_key gaia_bank_keeper) = Some bank"
    "\<forall>k. kv_read H (bk_store_key gaia_bank_keeper) bank k = Some (f k)" "bank_rel H f bal"
    "get_kv_store ms (ak_store_key gaia_auth_keeper) = Some acc"
    "\<forall>k. kv_read H (ak_store_key gaia_auth_keeper) acc k = Some (g k)" "auth_rel H g accs n"
    "auth_inv accs n"
proof -
  have rel: "gaia_rel H (TxContext (tx_context_new ms 0 header [])) bal accs" for header
    using assms by (simp add: node_rel_def)
  let ?ctx = "TxContext (tx_context_new ms 0 \<lparr> header_chain_id = [] \<rparr> [])"
  from rel [of "\<lparr> header_chain_id = [] \<rparr>"] obtain n where s: "libs_ok H"
    "app_state H gaia_bank_keeper ?ctx bal accs n" "auth_inv accs n" by (rule gaia_relE)
  have any_ctx: "ctx_view H sk (TxContext (tx_context_new ms 0 header [])) e"
    if "ctx_view H sk ?ctx e" for sk e header
    using that by (simp add: view_def ctx_read_def ctx_get_kv_store_def tx_context_new_def)
  obtain f where f: "ctx_view H (bk_store_key gaia_bank_keeper) ?ctx f" "bank_rel H f bal"
    using s(2) by (auto simp: app_state_def bank_state_def)
  obtain g where g: "ctx_view H (ak_store_key gaia_auth_keeper) ?ctx g" "auth_rel H g accs n"
    using s(2) by (auto simp: app_state_def auth_state_def)
  obtain bank where bank: "get_kv_store ms (bk_store_key gaia_bank_keeper) = Some bank"
    "\<forall>k. kv_read H (bk_store_key gaia_bank_keeper) bank k = Some (f k)"
    by (rule node_store [OF any_ctx [OF f(1)]])
  obtain acc where acc: "get_kv_store ms (ak_store_key gaia_auth_keeper) = Some acc"
    "\<forall>k. kv_read H (ak_store_key gaia_auth_keeper) acc k = Some (g k)"
    by (rule node_store [OF any_ctx [OF g(1)]])
  show thesis by (rule that [OF s(1) bank f(2) acc g(2) s(3)])
qed

section \<open>The answers of the keepers\<close>

definition balance_answer ::
  "'db host \<Rightarrow> multistore \<Rightarrow> ledger \<Rightarrow> acc_address \<Rightarrow> denom \<Rightarrow> coin option \<Rightarrow> bool" where
  "balance_answer H ms bal a d r \<longleftrightarrow> (\<exists>kv v. get_kv_store ms (store_key_name BankKey) = Some kv \<and>
     kv_read H (store_key_name BankKey) kv (balance_key a d) = Some v \<and> (r = None \<longleftrightarrow> v = None)) \<and>
     (case r of None \<Rightarrow> bal a d = 0 | Some c \<Rightarrow> coin_denom c = d \<and> amount c = bal a d)"

lemma query_balance_answer:
  assumes "node_rel (gaia_rel H) ms bal accs" "addr_ok a" "denom_ok d"
  obtains r where "query_balance H gaia_bank_keeper (query_context_new ms h)
      \<lparr> qbr_address = a, qbr_denom = d \<rparr> = Some (QueryBalanceResponse r)"
    "balance_answer H ms bal a d r" "\<forall>c. r = Some c \<longrightarrow> coin_ok c"
proof -
  obtain bank f where b: "get_kv_store ms (bk_store_key gaia_bank_keeper) = Some bank"
    "\<forall>k. kv_read H (bk_store_key gaia_bank_keeper) bank k = Some (f k)" "bank_rel H f bal"
    by (rule node_rel_stores [OF assms(1)]) blast
  obtain p where p: "create_denom_balance_prefix a = Some p" "\<And>d. p @ denom_to_string d = balance_key a d"
    by (rule balance_prefix [OF assms(2)]) blast
  have B: "bk_store_key gaia_bank_keeper = store_key_name BankKey" by (simp add: gaia_bank_keeper_def)
  note Q = query_balance_def query_get_kv_store_def query_context_new_def
    bank_prefix_get_read b(1) spec [OF b(2)] p
  have A: "balance_answer H ms bal a d r \<longleftrightarrow> (r = None \<longleftrightarrow> f (balance_key a d) = None) \<and>
      (case r of None \<Rightarrow> bal a d = 0 | Some c \<Rightarrow> coin_denom c = d \<and> amount c = bal a d)" for r
    unfolding balance_answer_def B [symmetric] by (simp add: b(1) spec [OF b(2)])
  show thesis
  proof (cases "f (balance_key a d)")
    case None
    show thesis
      by (rule that [of None])
        (use None bank_rel_None [OF b(3) assms(2,3) None] in \<open>simp_all add: Q A\<close>)
  next
    case (Some bs)
    obtain c where c: "coin_decode H bs = Some (Inr c)" "coin_denom c = d" "amount c = bal a d"
      by (rule bank_rel_Some [OF b(3) assms(2,3) Some])
    show thesis
      by (rule that [of "Some c"])
        (use Some c coin_decode_ok [OF c(1)] in \<open>simp_all add: Q A\<close>)
  qed
qed

lemma query_account_answer:
  assumes "node_rel (gaia_rel H) ms bal accs"
  shows "query_account H gaia_auth_keeper (query_context_new ms h) (QueryAccountRequest a)
    = Some (case accs a of None \<Rightarrow> Inl AccountNotFound | Some x \<Rightarrow> Inr (QueryAccountResponse x))"
proof -
  obtain acc g n where b: "get_kv_store ms (ak_store_key gaia_auth_keeper) = Some acc"
    "\<forall>k. kv_read H (ak_store_key gaia_auth_keeper) acc k = Some (g k)" "auth_rel H g accs n"
    by (rule node_rel_stores [OF assms]) blast
  show ?thesis
    using auth_rel_None [OF b(3), of a] auth_rel_account [OF b(3), of a]
    by (cases "g (create_auth_store_key a)"; cases "accs a")
      (auto simp: query_account_def query_read_def query_get_kv_store_def query_context_new_def b(1) spec [OF b(2)])
qed

section \<open>The answers on the wire\<close>

lemma query_codecs_okD:
  assumes "query_codecs_ok L"
  shows "codec_ok (pb_balance_request L)" "codec_ok (pb_balance_response L)"
    "codec_ok (pb_account_request L)" "codec_ok (pb_account_response L)"
  using assms by (simp_all add: query_codecs_ok_def)

lemma balance_request_round_trip:
  assumes "query_codecs_ok L" "bech32_ok L" "addr_ok a" "denom_ok d"
  obtains raw where "raw_from_query_balance_request L \<lparr> qbr_address = a, qbr_denom = d \<rparr> = Some raw"
    "proto_decode L (pb_balance_request L) (\<lambda>raw. Some (query_balance_request_try_from L raw))
      (pb_encode (pb_balance_request L) raw) = Some (Inr \<lparr> qbr_address = a, qbr_denom = d \<rparr>)"
proof -
  obtain t where t: "addr_to_string L a = Some t" "from_bech32 L t = Inr a"
    using addr_string [OF assms(2), of a] assms(3) by blast
  show thesis
  proof (rule that)
    show "raw_from_query_balance_request L \<lparr> qbr_address = a, qbr_denom = d \<rparr>
        = Some \<lparr> rbr_address = t, rbr_denom = denom_to_string d \<rparr>"
      by (simp add: raw_from_query_balance_request_def t)
    have "query_balance_request_try_from L \<lparr> rbr_address = t, rbr_denom = denom_to_string d \<rparr>
        = Inr \<lparr> qbr_address = a, qbr_denom = d \<rparr>"
      by (simp add: query_balance_request_try_from_def decode_address_def t
          iffD2 [OF denom_try_from_Inr, OF conjI [OF assms(4) refl]])
    then show "proto_decode L (pb_balance_request L) (\<lambda>raw. Some (query_balance_request_try_from L raw))
        (pb_encode (pb_balance_request L) \<lparr> rbr_address = t, rbr_denom = denom_to_string d \<rparr>)
        = Some (Inr \<lparr> qbr_address = a, qbr_denom = d \<rparr>)"
      by (intro proto_decode_encode [OF query_codecs_okD(1) [OF assms(1)]]) simp
  qed
qed

lemma balance_response_round_trip:
  assumes "query_codecs_ok L" "uint256_ok L" "\<forall>c. r = Some c \<longrightarrow> coin_ok c"
  shows "proto_decode L (pb_balance_response L) (\<lambda>raw. Some (query_balance_response_try_from L raw))
      (pb_encode (pb_balance_response L) (raw_from_query_balance_response L (QueryBalanceResponse r)))
    = Some (Inr (QueryBalanceResponse r))"
proof -
  have "query_balance_response_try_from L (raw_from_query_balance_response L (QueryBalanceResponse r))
      = Inr (QueryBalanceResponse r)"
    using assms(3) coin_raw_round_trip [OF assms(2)]
    by (cases r) (simp_all add: query_balance_response_try_from_def raw_from_query_balance_response_def)
  then show ?thesis by (intro proto_decode_encode [OF query_codecs_okD(2) [OF assms(1)]]) simp
qed

lemma account_request_round_trip:
  assumes "query_codecs_ok L" "bech32_ok L" "addr_ok a"
  obtains raw where "raw_from_query_account_request L (QueryAccountRequest a) = Some raw"
    "proto_decode L (pb_account_request L) (\<lambda>raw. Some (query_account_request_try_from L raw))
      (pb_encode (pb_account_request L) raw) = Some (Inr (QueryAccountRequest a))"
proof -
  obtain t where t: "addr_to_string L a = Some t" "from_bech32 L t = Inr a"
    using addr_string [OF assms(2), of a] assms(3) by blast
  have "query_account_request_try_from L \<lparr> rar_address = t \<rparr> = Inr (QueryAccountRequest a)"
    by (simp add: query_account_request_try_from_def t)
  then have "proto_decode L (pb_account_request L) (\<lambda>raw. Some (query_account_request_try_from L raw))
      (pb_encode (pb_account_request L) \<lparr> rar_address = t \<rparr>) = Some (Inr (QueryAccountRequest a))"
    by (intro proto_decode_encode [OF query_codecs_okD(3) [OF assms(1)]]) simp
  with that t(1) show thesis by simp
qed

lemma account_response_round_trip:
  assumes "query_codecs_ok L" "auth_libs_ok L" "account_ok x"
  obtains raw where "raw_from_query_account_response L (QueryAccountResponse x) = Some raw"
    "proto_decode L (pb_account_response L) (query_account_response_try_from L)
      (pb_encode (pb_account_response L) raw) = Some (Inr (QueryAccountResponse x))"
proof -
  obtain any where any: "any_from_account L x = Some any" "account_try_from L any = Some (Inr x)"
    by (rule any_account_round_trip [OF assms(2,3)])
  have "query_account_response_try_from L \<lparr> rar_account = Some any \<rparr>
      = Some (Inr (QueryAccountResponse x))"
    by (simp add: query_account_response_try_from_def any)
  then have "proto_decode L (pb_account_response L) (query_account_response_try_from L)
      (pb_encode (pb_account_response L) \<lparr> rar_account = Some any \<rparr>)
      = Some (Inr (QueryAccountResponse x))"
    by (intro proto_decode_encode [OF query_codecs_okD(4) [OF assms(1)]])
  with that any(1) show thesis by simp
qed

section \<open>The answers of the node\<close>

lemma expect_i64_returns: "uint n < 2 ^ 63 \<Longrightarrow> expect_i64 n = Some (uint n)"
  by (auto simp: expect_i64_def i64_value_def intro: order_trans [OF _ uint_ge_0])

lemma node_host_same: "nd_db nd = host_state H \<Longrightarrow> node_host H nd = H"
  by (simp add: node_host_def)

lemma abci_balance_answer:
  assumes "node_rel (gaia_rel H) (nd_multi_store nd) bal accs" "nd_db nd = host_state H"
    and "query_codecs_ok H" "uint (nd_height nd) < 2 ^ 63" "addr_ok a" "denom_ok d"
  obtains raw res r where
    "raw_from_query_balance_request H \<lparr> qbr_address = a, qbr_denom = d \<rparr> = Some raw"
    "abci_query H (gaia_app H env) nd
      \<lparr> query_path = lit ''/cosmos.bank.v1beta1.Query/Balance'',
         query_data = pb_encode (pb_balance_request H) raw \<rparr> = Some res" "rqu_code res = 0"
    "proto_decode H (pb_balance_response H) (\<lambda>raw. Some (query_balance_response_try_from H raw))
      (rqu_value res) = Some (Inr (QueryBalanceResponse r))"
    "balance_answer H (nd_multi_store nd) bal a d r"
proof -
  have "libs_ok H" by (rule node_rel_stores [OF assms(1)])
  then have L: "uint256_ok H" "bech32_ok H" by (simp_all add: libs_ok_def auth_libs_ok_def)
  obtain raw where raw: "raw_from_query_balance_request H \<lparr> qbr_address = a, qbr_denom = d \<rparr> = Some raw"
    "proto_decode H (pb_balance_request H) (\<lambda>raw. Some (query_balance_request_try_from H raw))
      (pb_encode (pb_balance_request H) raw) = Some (Inr \<lparr> qbr_address = a, qbr_denom = d \<rparr>)"
    by (rule balance_request_round_trip [OF assms(3) L(2) assms(5,6)])
  obtain r where r: "query_balance H gaia_bank_keeper (query_context_new (nd_multi_store nd) (nd_height nd))
      \<lparr> qbr_address = a, qbr_denom = d \<rparr> = Some (QueryBalanceResponse r)"
    "balance_answer H (nd_multi_store nd) bal a d r" "\<forall>c. r = Some c \<longrightarrow> coin_ok c"
    by (rule query_balance_answer [OF assms(1,5,6)])
  let ?val = "pb_encode (pb_balance_response H) (raw_from_query_balance_response H (QueryBalanceResponse r))"
  have "gaia_handle_query H (query_context_new (nd_multi_store nd) (nd_height nd))
      \<lparr> query_path = lit ''/cosmos.bank.v1beta1.Query/Balance'',
         query_data = pb_encode (pb_balance_request H) raw \<rparr> = Some (Inr ?val)"
    by (simp add: gaia_handle_query_def starts_with_def bank_handle_query_def raw(2) r(1))
  then have "abci_query H (gaia_app H env) nd
      \<lparr> query_path = lit ''/cosmos.bank.v1beta1.Query/Balance'',
         query_data = pb_encode (pb_balance_request H) raw \<rparr>
    = Some \<lparr> rqu_code = 0, rqu_log = lit ''exists'', rqu_key = pb_encode (pb_balance_request H) raw,
        rqu_value = ?val, rqu_height = uint (nd_height nd) \<rparr>"
    by (simp add: abci_query_def node_host_same [OF assms(2)] expect_i64_returns [OF assms(4)])
      (simp add: gaia_app_def)
  then show thesis
    by (rule that [OF raw(1)]) (simp_all add: balance_response_round_trip [OF assms(3) L(1) r(3)], rule r(2))
qed

lemma abci_account_answer:
  assumes "node_rel (gaia_rel H) (nd_multi_store nd) bal accs" "nd_db nd = host_state H"
    and "query_codecs_ok H" "uint (nd_height nd) < 2 ^ 63" "addr_ok a"
  obtains raw res where
    "raw_from_query_account_request H (QueryAccountRequest a) = Some raw"
    "abci_query H (gaia_app H env) nd
      \<lparr> query_path = lit ''/cosmos.auth.v1beta1.Query/Account'',
         query_data = pb_encode (pb_account_request H) raw \<rparr> = Some res"
    "accs a = None \<longrightarrow> rqu_code res = 1 \<and> rqu_log res = app_error_text (env_tree_text env) AccountNotFound"
    "\<forall>x. accs a = Some x \<longrightarrow> rqu_code res = 0 \<and>
      proto_decode H (pb_account_response H) (query_account_response_try_from H) (rqu_value res)
        = Some (Inr (QueryAccountResponse x))"
proof -
  obtain n where "libs_ok H" and inv: "auth_inv accs n"
    by (rule node_rel_stores [OF assms(1)]) blast
  then have L: "auth_libs_ok H" "bech32_ok H" by (simp_all add: libs_ok_def auth_libs_ok_def)
  obtain raw where raw: "raw_from_query_account_request H (QueryAccountRequest a) = Some raw"
    "proto_decode H (pb_account_request H) (\<lambda>raw. Some (query_account_request_try_from H raw))
      (pb_encode (pb_account_request H) raw) = Some (Inr (QueryAccountRequest a))"
    by (rule account_request_round_trip [OF assms(3) L(2) assms(5)])
  note Q = gaia_handle_query_def starts_with_def auth_handle_query_def raw(2)
    query_account_answer [OF assms(1)]
  note N = abci_query_def node_host_same [OF assms(2)] expect_i64_returns [OF assms(4)] gaia_app_def
  show thesis
  proof (cases "accs a")
    case None
    show thesis
      by (rule that [OF raw(1)]) (use None in \<open>simp add: N Q\<close>)+
  next
    case (Some x)
    then have "account_ok x" using inv by (auto simp: auth_inv_def account_ok_def)
    then obtain out where out: "raw_from_query_account_response H (QueryAccountResponse x) = Some out"
      "proto_decode H (pb_account_response H) (query_account_response_try_from H)
        (pb_encode (pb_account_response H) out) = Some (Inr (QueryAccountResponse x))"
      by (rule account_response_round_trip [OF assms(3) L(1)])
    have "abci_query H (gaia_app H env) nd
        \<lparr> query_path = lit ''/cosmos.auth.v1beta1.Query/Account'',
           query_data = pb_encode (pb_account_request H) raw \<rparr>
      = Some \<lparr> rqu_code = 0, rqu_log = lit ''exists'', rqu_key = pb_encode (pb_account_request H) raw,
          rqu_value = pb_encode (pb_account_response H) out, rqu_height = uint (nd_height nd) \<rparr>"
      by (simp add: N Q Some out(1) del: raw_from_query_account_response.simps)
    then show thesis by (rule that [OF raw(1)]) (simp_all add: Some out(2))
  qed
qed

end
