(* ===== verification/Paths.thy ===== *)
theory Paths
  imports Rust_Std
begin

text \<open>
  Paths and files. Paths are the strings of \<open>std::path\<close> on Unix, where a slash separates components;
  \<open>PathBuf::push\<close> (and \<open>Path::join\<close>), \<open>file_name\<close>, \<open>file_stem\<close> and \<open>set_extension\<close> are those of the
  standard library. Which file a path leads to, and which calls fail, is up to the operating system
  (\<open>os\<close>).
\<close>

section \<open>Paths\<close>

definition path_push :: "bytes \<Rightarrow> bytes \<Rightarrow> bytes" where
  "path_push path name =
     (if name \<noteq> [] \<and> hd name = 47 then name
      else if path = [] \<or> last path = 47 then path @ name
      else path @ 47 # name)"

text \<open>
  A path backwards without its trailing separators and \<open>.\<close> components, which \<open>Path::components\<close>
  skips: a \<open>.\<close> counts as a component at the start of a path only.
\<close>

fun path_trim :: "bytes \<Rightarrow> bytes" where
  "path_trim [] = []"
| "path_trim [c] = (if c = 47 then [] else [c])"
| "path_trim (c # d # p) = (if c = 47 \<or> c = 46 \<and> d = 47 then path_trim (d # p) else c # d # p)"

definition last_component :: "bytes \<Rightarrow> bytes" where
  "last_component path = rev (takeWhile (\<lambda>b. b \<noteq> 47) (path_trim (rev path)))"

text \<open>What comes before the last component, with the separator.\<close>

definition path_parent :: "bytes \<Rightarrow> bytes" where
  "path_parent path = rev (dropWhile (\<lambda>b. b \<noteq> 47) (path_trim (rev path)))"

definition file_name :: "bytes \<Rightarrow> bytes option" where
  "file_name path =
     (let c = last_component path in if c = [] \<or> c = [46] \<or> c = [46, 46] then None else Some c)"

text \<open>The part of a file name before its last dot, unless the dot is its first character.\<close>

definition file_stem :: "bytes \<Rightarrow> bytes" where
  "file_stem name =
     (let stem = rev (tl (dropWhile (\<lambda>b. b \<noteq> 46) (rev name)))
      in if 46 \<in> set name \<and> stem \<noteq> [] then stem else name)"

definition set_extension :: "bytes \<Rightarrow> bytes \<Rightarrow> bytes" where
  "set_extension path ext =
     (case file_name path of
        None \<Rightarrow> path
      | Some c \<Rightarrow> path_parent path @ file_stem c @ (if ext = [] then [] else 46 # ext))"

text \<open>A name that is a single component keeps its place in the directory.\<close>

definition plain_name :: "bytes \<Rightarrow> bool" where
  "plain_name name \<longleftrightarrow> name \<notin> {[], [46], [46, 46]} \<and> 47 \<notin> set name"

lemma path_trim_plain:
  assumes "47 \<notin> set r" "r \<noteq> []" "r \<noteq> [46]"
  shows "path_trim (r @ p) = r @ p"
proof (cases r)
  case (Cons c q)
  with assms show ?thesis by (cases q; cases p) auto
qed (use assms in simp)

lemma file_stem_subset: "set (file_stem name) \<subseteq> set name"
proof -
  have "set (tl xs) \<subseteq> set xs" for xs :: bytes by (cases xs) auto
  from subset_trans [OF this] have "set (tl (dropWhile (\<lambda>b. b \<noteq> 46) (rev name))) \<subseteq> set (rev name)"
    using set_dropWhileD by (metis subsetI)
  then show ?thesis by (simp add: file_stem_def Let_def)
qed

lemma set_extension_plain:
  assumes "plain_name name"
  shows "set_extension (path_push path name) ext
    = path_push path (file_stem name @ (if ext = [] then [] else 46 # ext))"
proof -
  have n: "name \<noteq> []" "name \<noteq> [46]" "name \<noteq> [46, 46]" "47 \<notin> set name" using assms by (simp_all add: plain_name_def)
  then have h: "hd name \<noteq> 47" by (metis hd_in_set)
  define p where "p = (if path = [] \<or> last path = 47 then path else path @ [47])"
  have p: "path_push path q = p @ q" if "hd q \<noteq> 47" for q
    using that by (simp add: path_push_def p_def)
  have l: "p = [] \<or> last p = 47" by (simp add: p_def)
  have "path_trim (rev name @ rev p) = rev name @ rev p"
    by (rule path_trim_plain) (use n in \<open>auto simp: rev_swap\<close>)
  moreover have "takeWhile (\<lambda>b. b \<noteq> 47) (rev name @ rev p) = rev name @ takeWhile (\<lambda>b. b \<noteq> 47) (rev p)"
    "dropWhile (\<lambda>b. b \<noteq> 47) (rev name @ rev p) = dropWhile (\<lambda>b. b \<noteq> 47) (rev p)"
    by (rule takeWhile_append2 dropWhile_append2, use n(4) in auto)+
  moreover have "takeWhile (\<lambda>b. b \<noteq> 47) (rev p) = []" "dropWhile (\<lambda>b. b \<noteq> 47) (rev p) = rev p"
    using l by (cases p rule: rev_cases; simp)+
  ultimately have "set_extension (p @ name) ext = p @ file_stem name @ (if ext = [] then [] else 46 # ext)"
    using n by (simp add: set_extension_def file_name_def last_component_def path_parent_def Let_def)
  moreover have s: "file_stem name \<noteq> []" using n(1) by (simp add: file_stem_def Let_def)
  moreover have "hd (file_stem name) \<in> set name"
    by (rule subsetD [OF file_stem_subset hd_in_set [OF s]])
  with n(4) have "hd (file_stem name) \<noteq> 47" by metis
  ultimately show ?thesis using p [OF h] p [of "file_stem name @ (if ext = [] then [] else 46 # ext)"] by simp
qed

section \<open>Files\<close>

text \<open>
  \<open>os_resolve\<close> says which file a path leads to, through \<open>.\<close> and \<open>..\<close> and links; the other calls give
  their error, if they fail. A directory counts as a file that cannot be read.
\<close>

record os =
  os_home_dir :: "bytes option"
  os_resolve :: "bytes \<Rightarrow> bytes"
  os_create_dir_all :: "bytes \<Rightarrow> bytes option"
  os_create :: "bytes \<Rightarrow> bytes option"
  os_open :: "bytes \<Rightarrow> bytes option"
  os_write :: "bytes \<Rightarrow> bytes option"
  os_remove :: "bytes \<Rightarrow> bytes option"

type_synonym files = "bytes \<rightharpoonup> bytes"

end
