(* ===== verification/Client.thy ===== *)
theory Client
  imports Queries Paths
begin

text \<open>
  The other side of the node: the command line of the bank and auth modules
  (\<open>src/x/bank/src/client\<close>, \<open>src/x/auth/src/client\<close>), the REST handlers over a running node and
  what they share (\<open>src/gears/src/client\<close>). The RPC client of Tendermint is a parameter, a
  function from the path and the data of an \<open>abci_query\<close> to the node's response or the text of an
  error; a result of the command line is \<open>None\<close> for a panic, else the text of the error or the
  value. Sending a payment is followed from the words of the command line to the stores of the
  node.
\<close>

section \<open>Arguments\<close>

text \<open>
  \<open>Coin::from_str\<close>: the amount is what precedes the first character that is not numeric. Numeric
  characters outside ASCII are neither in an amount nor in a denomination, so a text with one is
  an error either way. \<open>amount_text\<close> is the error of the parser of \<open>Uint256\<close>.
\<close>

definition is_numeric :: "u8 \<Rightarrow> bool" where
  "is_numeric b \<longleftrightarrow> 48 \<le> b \<and> b \<le> 57"

definition coin_from_str ::
  "'a libs_scheme \<Rightarrow> (bytes \<Rightarrow> bytes) \<Rightarrow> bytes \<Rightarrow> proto_error + coin" where
  "coin_from_str L amount_text input =
     (case uint_parse L (takeWhile is_numeric input) of
        None \<Rightarrow> Inl (CoinError (lit ''coin error: '' @ amount_text (takeWhile is_numeric input)))
      | Some a \<Rightarrow>
          then_try (map_err (\<lambda>_. CoinError (lit ''coin error: invalid denom''))
            (denom_from_str (dropWhile is_numeric input))) (\<lambda>d.
          Inr \<lparr> coin_denom = d, coin_amount = a \<rparr>))"

section \<open>Queries of the command line\<close>

record rpc_response =
  rr_code :: u32
  rr_log :: bytes
  rr_value :: bytes

type_synonym rpc = "bytes \<Rightarrow> bytes \<Rightarrow> bytes + rpc_response"

definition get_account ::
  "'a libs_scheme \<Rightarrow> rpc \<Rightarrow> acc_address \<Rightarrow> (bytes + query_account_response) option" where
  "get_account L client address = do {
     query \<leftarrow> raw_from_query_account_request L (QueryAccountRequest address);
     (case client (lit ''/cosmos.auth.v1beta1.Query/Account'') (pb_encode (pb_account_request L) query) of
        Inl err \<Rightarrow> Some (Inl err)
      | Inr res \<Rightarrow>
          if rr_code res \<noteq> 0 then Some (Inl (lit ''node returned an error: '' @ rr_log res))
          else proto_decode L (pb_account_response L) (query_account_response_try_from L) (rr_value res)) }"

text \<open>An RPC error of this query is printed and answered with a fixed text.\<close>

definition cli_get_balances ::
  "'a libs_scheme \<Rightarrow> (query_all_balances_response \<Rightarrow> bytes + bytes) \<Rightarrow> rpc \<Rightarrow> acc_address \<Rightarrow>
     (bytes + bytes) option" where
  "cli_get_balances L to_string_pretty client address = do {
     query \<leftarrow> raw_from_query_all_balances_request L
       \<lparr> qabr_address = address, qabr_pagination = None \<rparr>;
     (case client (lit ''/cosmos.bank.v1beta1.Query/AllBalances'')
         (pb_encode (pb_all_balances_request L) query) of
        Inl err \<Rightarrow> Some (Inr (lit ''nnnnnn''))
      | Inr res \<Rightarrow>
          if rr_code res \<noteq> 0 then Some (Inl (lit ''node returned an error: '' @ rr_log res))
          else try_bind (proto_decode L (pb_all_balances_response L)
              (\<lambda>raw. Some (query_all_balances_response_try_from L raw)) (rr_value res)) (\<lambda>res.
            Some (to_string_pretty res))) }"

text \<open>The subcommands; \<open>client\<close> is what \<open>HttpClient::new\<close> returned, \<open>to_string_pretty\<close> is of \<open>serde_json\<close>.\<close>

definition run_auth_query_account ::
  "'a libs_scheme \<Rightarrow> (query_account_response \<Rightarrow> bytes + bytes) \<Rightarrow> bytes + rpc \<Rightarrow> acc_address \<Rightarrow>
     (bytes + bytes) option" where
  "run_auth_query_account L to_string_pretty client address =
     try_bind (Some client) (\<lambda>client.
     try_bind (get_account L client address) (\<lambda>res.
     Some (to_string_pretty res)))"

definition run_bank_query_balances ::
  "'a libs_scheme \<Rightarrow> (query_all_balances_response \<Rightarrow> bytes + bytes) \<Rightarrow> bytes + rpc \<Rightarrow> acc_address \<Rightarrow>
     (bytes + bytes) option" where
  "run_bank_query_balances L to_string_pretty client address =
     try_bind (Some client) (\<lambda>client.
     map_option (map_err (\<lambda>err. lit ''Error: '' @ err))
       (cli_get_balances L to_string_pretty client address))"

section \<open>Sending coins\<close>

text \<open>
  The key pair of \<open>ibc_relayer\<close>: its public key, the text of its address and its signing function,
  which can fail.
\<close>

record key_pair =
  kp_public_key :: secp_key
  kp_account :: bytes
  kp_sign :: "bytes \<Rightarrow> bytes + bytes"

text \<open>\<open>ModeInfo\<close> with the single mode 1 (\<open>SIGN_MODE_DIRECT\<close>), in its protobuf form.\<close>

definition MODE_DIRECT :: bytes where
  "MODE_DIRECT = [10, 2, 8, 1]"

definition TEST_CHAIN :: bytes where
  "TEST_CHAIN = lit ''test-chain''"

definition send_auth_info :: "public_key \<Rightarrow> u64 \<Rightarrow> send_coins option \<Rightarrow> auth_info" where
  "send_auth_info key sequence fee_amt =
     \<lparr> signer_infos = [\<lparr> si_public_key = Some key, si_mode_info = Some MODE_DIRECT,
         si_sequence = sequence \<rparr>],
       ai_fee = \<lparr> fee_amount = fee_amt, fee_gas_limit = 100000000, fee_payer = None,
         fee_granter = [] \<rparr>,
       ai_tip = None \<rparr>"

definition create_signed_send_tx ::
  "'a libs_scheme \<Rightarrow> acc_address \<Rightarrow> acc_address \<Rightarrow> coin \<Rightarrow> coin option \<Rightarrow> u64 \<Rightarrow> u64 \<Rightarrow>
     key_pair \<Rightarrow> (bytes + tx_raw) option" where
  "create_signed_send_tx L from_addr to_addr amt fee_amt sequence account_number key =
     try_bind (Some (map_err proto_error_text (send_coins_new [amt]))) (\<lambda>amt. do {
       message \<leftarrow> any_from_msg_send L
         \<lparr> from_address = from_addr, to_address = to_addr, msg_amount = amt \<rparr>;
       let tx_body = \<lparr> rtb_messages = [message], rtb_memo = [], rtb_timeout_height = 0,
         rtb_extension_options = [], rtb_non_critical_extension_options = [] \<rparr>;
       public_key \<leftarrow> unwrap_result (Some (pub_key_try_from_raw L
         \<lparr> rpk_key = key_serialize L (kp_public_key key) \<rparr>));
       try_bind (Some (case fee_amt of
           None \<Rightarrow> Inr None
         | Some f \<Rightarrow> map_err proto_error_text
             (then_try (send_coins_new [f]) (\<lambda>cs. Inr (Some cs))))) (\<lambda>fee_amt. do {
         auth_info \<leftarrow> raw_from_auth_info L
           (send_auth_info (Secp256k1 public_key) sequence fee_amt);
         let sign_doc = \<lparr> sd_body_bytes = pb_encode (pb_tx_body L) tx_body,
           sd_auth_info_bytes = pb_encode (pb_auth_info L) auth_info, sd_chain_id = TEST_CHAIN,
           sd_account_number = account_number \<rparr>;
         signature \<leftarrow> unwrap_result (Some (kp_sign key (pb_encode (pb_sign_doc L) sign_doc)));
         Some (Inr \<lparr> body_bytes = sd_body_bytes sign_doc,
           auth_info_bytes = sd_auth_info_bytes sign_doc, raw_signatures = [signature] \<rparr>) }) })"

text \<open>
  The subcommand \<open>send\<close>, up to the bytes it hands to \<open>broadcast_tx_commit\<close>. \<open>key\<close> is what the key
  store returned for the sender's name, \<open>client\<close> the connection to the node.
\<close>

definition run_bank_send ::
  "'a libs_scheme \<Rightarrow> rpc \<Rightarrow> bytes + key_pair \<Rightarrow> acc_address \<Rightarrow> coin \<Rightarrow> coin option \<Rightarrow>
     (bytes + bytes) option" where
  "run_bank_send L client key to_addr amt fee =
     try_bind (Some key) (\<lambda>key.
     try_bind (Some (map_err (address_error_text L) (from_bech32 L (kp_account key)))) (\<lambda>address.
     try_bind (get_account L client address) (\<lambda>res.
     case res of QueryAccountResponse account \<Rightarrow>
     try_bind (Some (map_err (address_error_text L) (from_bech32 L (kp_account key)))) (\<lambda>from_addr.
     try_bind (create_signed_send_tx L from_addr to_addr amt fee (get_sequence account)
         (get_account_number account) key) (\<lambda>tx_raw.
     Some (Inr (pb_encode (pb_tx_raw L) tx_raw)))))))"

section \<open>The key store\<close>

text \<open>
  A key is a file: its name is joined to the directory of the key store, as a path, and the extension
  of the last component of the result is set, which need not be below the directory. The file system
  maps the files that paths lead to to contents; \<open>serde_json\<close> and the text of a path are parameters.
\<close>

definition KEYSTORE_FILE_EXTENSION :: bytes where
  "KEYSTORE_FILE_EXTENSION = lit ''json''"

definition key_file :: "bytes \<Rightarrow> bytes \<Rightarrow> bytes" where
  "key_file path key_name = set_extension (path_push path key_name) KEYSTORE_FILE_EXTENSION"

definition disk_get_key ::
  "os \<Rightarrow> (bytes \<Rightarrow> bytes + key_pair) \<Rightarrow> (bytes \<Rightarrow> bytes) \<Rightarrow> files \<Rightarrow> bytes \<Rightarrow> bytes \<Rightarrow> bytes + key_pair" where
  "disk_get_key OS from_reader path_text fs path key_name =
     (let key_file = key_file path key_name in
      case fs (os_resolve OS key_file) of
        None \<Rightarrow> Inl (path_text key_file @ lit '' key file not found'')
      | Some file \<Rightarrow>
          (case os_open OS key_file of Some e \<Rightarrow> Inl e | None \<Rightarrow> from_reader file))"

definition disk_add_key ::
  "os \<Rightarrow> (key_pair \<Rightarrow> bytes) \<Rightarrow> files \<Rightarrow> bytes \<Rightarrow> bytes \<Rightarrow> key_pair \<Rightarrow> (bytes, unit, files) outcome" where
  "disk_add_key OS to_writer fs path key_name key =
     (let filename = key_file path key_name in
      case os_create OS filename of
        Some e \<Rightarrow> Some (Inl e, fs)
      | None \<Rightarrow>
          (case os_write OS filename of
             Some e \<Rightarrow> Some (Inl e, fs(os_resolve OS filename \<mapsto> []))
           | None \<Rightarrow> Some (Inr (), fs(os_resolve OS filename \<mapsto> to_writer key))))"

definition check_key_exists ::
  "os \<Rightarrow> (bytes \<Rightarrow> bytes + key_pair) \<Rightarrow> (bytes \<Rightarrow> bytes) \<Rightarrow> files \<Rightarrow> bytes \<Rightarrow> bytes \<Rightarrow> bool \<Rightarrow>
     bytes + unit" where
  "check_key_exists OS from_reader path_text fs path key_name overwrite =
     (case disk_get_key OS from_reader path_text fs path key_name of
        Inr _ \<Rightarrow> if overwrite then Inr ()
          else Inl (lit ''A key with name '' @ [39] @ key_name @ [39] @ lit '' already exists'')
      | Inl _ \<Rightarrow> Inr ())"

definition disk_remove_key :: "os \<Rightarrow> files \<Rightarrow> bytes \<Rightarrow> bytes \<Rightarrow> bytes + files" where
  "disk_remove_key OS fs path key_name =
     (let filename = key_file path key_name in
      case os_remove OS filename of
        Some e \<Rightarrow> Inl e
      | None \<Rightarrow> Inr (fs(os_resolve OS filename := None)))"

text \<open>The command \<open>keys add\<close>; the key pair comes from a mnemonic that is read after the check.\<close>

definition run_keys_add ::
  "os \<Rightarrow> (bytes \<Rightarrow> bytes + key_pair) \<Rightarrow> (bytes \<Rightarrow> bytes) \<Rightarrow> (key_pair \<Rightarrow> bytes) \<Rightarrow>
     (bytes \<Rightarrow> bytes + key_pair) \<Rightarrow> files \<Rightarrow> bytes \<Rightarrow> bytes \<Rightarrow> bool \<Rightarrow> bytes \<Rightarrow>
     (bytes, unit, files) outcome" where
  "run_keys_add OS from_reader path_text to_writer from_mnemonic fs path name overwrite mnemonic =
     and_then (reading (Some (check_key_exists OS from_reader path_text fs path name overwrite)) fs) (\<lambda>_ fs.
     and_then (reading (Some (from_mnemonic mnemonic)) fs) (\<lambda>key_pair fs.
     disk_add_key OS to_writer fs path name key_pair))"

section \<open>The REST handlers\<close>

record rest_error =
  re_status :: nat
  re_description :: bytes

definition bad_request :: "bytes \<Rightarrow> rest_error" where
  "bad_request description = \<lparr> re_status = 400, re_description = description \<rparr>"

definition gateway_timeout :: rest_error where
  "gateway_timeout = \<lparr> re_status = 504, re_description =
     lit ''The server did not receive a timely response from an upstream server.'' \<rparr>"

definition bad_gateway :: rest_error where
  "bad_gateway = \<lparr> re_status = 502, re_description =
     lit ''The server received an invalid response from an upstream server'' \<rparr>"

record print_error =
  pe_code :: nat
  pe_reason :: bytes
  pe_description :: bytes

text \<open>The reasons are those of the crate \<open>http\<close>.\<close>

definition to_serializable :: "(nat \<Rightarrow> bytes option) \<Rightarrow> rest_error \<Rightarrow> print_error" where
  "to_serializable canonical_reason e = \<lparr> pe_code = re_status e,
     pe_reason = (case canonical_reason (re_status e) of None \<Rightarrow> [] | Some r \<Rightarrow> r),
     pe_description = re_description e \<rparr>"

definition QUERY_DEFAULT_LIMIT :: u8 where "QUERY_DEFAULT_LIMIT = 100"

record pagination =
  pg_offset :: "u32 option"
  pg_limit :: "u8 option"

definition parse_pagination :: "pagination \<Rightarrow> (u32 \<times> u8) option" where
  "parse_pagination p = do {
     let offset = (case pg_offset p of None \<Rightarrow> 0 | Some n \<Rightarrow> n);
     let limit = (case pg_limit p of None \<Rightarrow> QUERY_DEFAULT_LIMIT | Some n \<Rightarrow> n);
     let limit = (if limit = 0 then QUERY_DEFAULT_LIMIT else limit);
     page \<leftarrow> checked_add (offset div ucast limit) 1;
     Some (page, limit) }"

text \<open>The handlers of the bank over the node's \<open>query\<close>; the response's code is not looked at.\<close>

definition rest_query ::
  "'db host \<Rightarrow> ('db, 'm, 'g) app \<Rightarrow> 'db app_node \<Rightarrow> bytes \<Rightarrow> bytes \<Rightarrow> bytes option" where
  "rest_query H app nd path data =
     map_option rqu_value (abci_query H app nd \<lparr> query_path = path, query_data = data \<rparr>)"

definition rest_supply ::
  "'db host \<Rightarrow> ('db, 'm, 'g) app \<Rightarrow> 'db app_node \<Rightarrow>
     (rest_error + query_total_supply_response) option" where
  "rest_supply H app nd = do {
     val \<leftarrow> rest_query H app nd (lit ''/cosmos.bank.v1beta1.Query/TotalSupply'') [];
     res \<leftarrow> unwrap_result (proto_decode H (pb_total_supply_response H)
       (\<lambda>raw. Some (query_total_supply_response_try_from H raw)) val);
     Some (Inr res) }"

definition rest_get_balances ::
  "'db host \<Rightarrow> ('db, 'm, 'g) app \<Rightarrow> 'db app_node \<Rightarrow> acc_address \<Rightarrow>
     (rest_error + query_all_balances_response) option" where
  "rest_get_balances H app nd address = do {
     query \<leftarrow> raw_from_query_all_balances_request H
       \<lparr> qabr_address = address, qabr_pagination = None \<rparr>;
     val \<leftarrow> rest_query H app nd (lit ''/cosmos.bank.v1beta1.Query/AllBalances'')
       (pb_encode (pb_all_balances_request H) query);
     res \<leftarrow> unwrap_result (proto_decode H (pb_all_balances_response H)
       (\<lambda>raw. Some (query_all_balances_response_try_from H raw)) val);
     Some (Inr res) }"

definition rest_get_balances_by_denom ::
  "'db host \<Rightarrow> ('db, 'm, 'g) app \<Rightarrow> 'db app_node \<Rightarrow> acc_address \<Rightarrow> bytes \<Rightarrow>
     (rest_error + query_balance_response) option" where
  "rest_get_balances_by_denom H app nd address d =
     (case denom_try_from d of
        Inl e \<Rightarrow> Some (Inl (bad_request (lit ''invalid denom'')))
      | Inr d \<Rightarrow> do {
          query \<leftarrow> raw_from_query_balance_request H \<lparr> qbr_address = address, qbr_denom = d \<rparr>;
          val \<leftarrow> rest_query H app nd (lit ''/cosmos.bank.v1beta1.Query/Balance'')
            (pb_encode (pb_balance_request H) query);
          res \<leftarrow> unwrap_result (proto_decode H (pb_balance_response H)
            (\<lambda>raw. Some (query_balance_response_try_from H raw)) val);
          Some (Inr res) })"

text \<open>
  A transaction found by Tendermint, and the answer built from the search; hashes are texts
  already and \<open>hex_encode\<close> is the crate \<open>hex\<close>.
\<close>

record 'e found_tx =
  ft_height :: int
  ft_hash :: bytes
  ft_tx :: bytes
  ft_codespace :: bytes
  ft_code :: u32
  ft_data :: bytes
  ft_log :: bytes
  ft_info :: bytes
  ft_gas_wanted :: int
  ft_gas_used :: int
  ft_events :: "'e list"

record ('m, 'e) tx_response =
  tr_height :: int
  tr_txhash :: bytes
  tr_codespace :: bytes
  tr_code :: u32
  tr_data :: bytes
  tr_raw_log :: bytes
  tr_logs :: bytes
  tr_info :: bytes
  tr_gas_wanted :: int
  tr_gas_used :: int
  tr_tx :: "'m tx"
  tr_timestamp :: bytes
  tr_events :: "'e list"

record page_response =
  pr_next_key :: bytes
  pr_total :: nat

record ('m, 'e) get_txs_event_response =
  gt_txs :: "'m tx list"
  gt_tx_responses :: "('m, 'e) tx_response list"
  gt_pagination :: "page_response option"
  gt_total :: nat

fun map_responses_loop ::
  "'a libs_scheme \<Rightarrow> 'm message_ops \<Rightarrow> (bytes \<Rightarrow> bytes) \<Rightarrow> 'e found_tx list \<Rightarrow>
     (rest_error + 'm tx list \<times> ('m, 'e) tx_response list) option" where
  "map_responses_loop L ops hex_encode [] = Some (Inr ([], []))"
| "map_responses_loop L ops hex_encode (tx # res_tx) =
     try_bind (map_option (map_err (\<lambda>_. bad_gateway))
         (proto_decode L (pb_tx L) (tx_try_from L ops) (ft_tx tx))) (\<lambda>cosmos_tx.
     try_bind (map_responses_loop L ops hex_encode res_tx) (\<lambda>(txs, tx_responses).
     Some (Inr (cosmos_tx # txs,
       \<lparr> tr_height = ft_height tx, tr_txhash = ft_hash tx, tr_codespace = ft_codespace tx,
         tr_code = ft_code tx, tr_data = hex_encode (ft_data tx), tr_raw_log = ft_log tx,
         tr_logs = ft_log tx, tr_info = ft_info tx, tr_gas_wanted = ft_gas_wanted tx,
         tr_gas_used = ft_gas_used tx, tr_tx = cosmos_tx, tr_timestamp = [],
         tr_events = ft_events tx \<rparr> # tx_responses))))"

definition map_responses ::
  "'a libs_scheme \<Rightarrow> 'm message_ops \<Rightarrow> (bytes \<Rightarrow> bytes) \<Rightarrow> 'e found_tx list \<Rightarrow>
     (rest_error + ('m, 'e) get_txs_event_response) option" where
  "map_responses L ops hex_encode res_tx =
     try_bind (map_responses_loop L ops hex_encode res_tx) (\<lambda>(txs, tx_responses).
     Some (Inr \<lparr> gt_txs = txs, gt_tx_responses = tx_responses,
       gt_pagination = Some \<lparr> pr_next_key = [], pr_total = length txs \<rparr>, gt_total = length txs \<rparr>))"

text \<open>The search itself and the status of the node are calls to Tendermint.\<close>

definition rest_txs ::
  "'a libs_scheme \<Rightarrow> 'm message_ops \<Rightarrow> (bytes \<Rightarrow> bytes) \<Rightarrow> (bytes \<Rightarrow> bytes + 'q) \<Rightarrow>
     ('q \<Rightarrow> u32 \<Rightarrow> u8 \<Rightarrow> bytes + 'e found_tx list) \<Rightarrow> bytes \<Rightarrow> pagination \<Rightarrow>
     (rest_error + ('m, 'e) get_txs_event_response) option" where
  "rest_txs L ops hex_encode parse_query tx_search events p =
     try_bind (Some (map_err bad_request (parse_query events))) (\<lambda>query. do {
       (page, limit) \<leftarrow> parse_pagination p;
       try_bind (Some (map_err (\<lambda>_. gateway_timeout) (tx_search query page limit))) (\<lambda>res_tx.
         map_responses L ops hex_encode res_tx) })"

definition rest_node_info :: "bytes + 'i \<Rightarrow> rest_error + 'i" where
  "rest_node_info status = map_err (\<lambda>_. gateway_timeout) status"

section \<open>A client of the node\<close>

text \<open>The RPC client of a connection that works: it passes the query on and returns the answer.\<close>

definition node_rpc :: "'db host \<Rightarrow> ('db, 'm, 'g) app \<Rightarrow> 'db app_node \<Rightarrow> rpc" where
  "node_rpc H app nd path data =
     (case abci_query H app nd \<lparr> query_path = path, query_data = data \<rparr> of
        None \<Rightarrow> Inl []
      | Some res \<Rightarrow> Inr \<lparr> rr_code = rqu_code res, rr_log = rqu_log res, rr_value = rqu_value res \<rparr>)"

text \<open>Asking a node for an account gives the one its stores hold, or the node's error.\<close>

lemma get_account_node:
  assumes "node_rel (gaia_rel H) (nd_multi_store nd) bal accs" "nd_db nd = host_state H"
    and "query_codecs_ok H" "uint (nd_height nd) < 2 ^ 63" "addr_ok a"
  shows "get_account H (node_rpc H (gaia_app H env) nd) a
    = Some (case accs a of
        None \<Rightarrow> Inl (lit ''node returned an error: '' @ app_error_text (env_tree_text env) AccountNotFound)
      | Some x \<Rightarrow> Inr (QueryAccountResponse x))"
proof -
  obtain raw res where r: "raw_from_query_account_request H (QueryAccountRequest a) = Some raw"
    "abci_query H (gaia_app H env) nd
      \<lparr> query_path = lit ''/cosmos.auth.v1beta1.Query/Account'',
         query_data = pb_encode (pb_account_request H) raw \<rparr> = Some res"
    "accs a = None \<longrightarrow> rqu_code res = 1 \<and> rqu_log res = app_error_text (env_tree_text env) AccountNotFound"
    "\<forall>x. accs a = Some x \<longrightarrow> rqu_code res = 0 \<and>
      proto_decode H (pb_account_response H) (query_account_response_try_from H) (rqu_value res)
        = Some (Inr (QueryAccountResponse x))"
    by (rule abci_account_answer [OF assms, of env]) (rule that)
  have "node_rpc H (gaia_app H env) nd (lit ''/cosmos.auth.v1beta1.Query/Account'')
      (pb_encode (pb_account_request H) raw)
    = Inr \<lparr> rr_code = rqu_code res, rr_log = rqu_log res, rr_value = rqu_value res \<rparr>"
    unfolding node_rpc_def r(2) by simp
  then show ?thesis
    using r(3,4) unfolding get_account_def r(1)
    by (cases "accs a") (simp_all del: raw_from_query_account_request.simps)
qed

subsection \<open>The transaction of a payment\<close>

text \<open>What the bytes of the command stand for.\<close>

definition send_tx :: "public_key \<Rightarrow> msg_send \<Rightarrow> u64 \<Rightarrow> bytes \<Rightarrow> gaia_message tx" where
  "send_tx key msg sequence signature = \<lparr>
     tx_body = \<lparr> tb_messages = [Bank (Send msg)], tb_memo = [], tb_timeout_height = 0,
       tb_extension_options = [], tb_non_critical_extension_options = [] \<rparr>,
     tx_auth_info = send_auth_info key sequence None,
     tx_signatures = [signature],
     tx_signatures_data = [\<lparr> sg_signature = signature, sg_sequence = sequence \<rparr>] \<rparr>"

lemma send_tx_fields [simp]:
  "get_msgs (send_tx key msg n s) = [Bank (Send msg)]" "get_fee (send_tx key msg n s) = None"
  "fee_payer (ai_fee (tx_auth_info (send_tx key msg n s))) = None"
  "get_signatures (send_tx key msg n s) = [s]" "get_timeout_height (send_tx key msg n s) = 0"
  "get_memo (send_tx key msg n s) = []"
  "get_signatures_data (send_tx key msg n s) = [\<lparr> sg_signature = s, sg_sequence = n \<rparr>]"
  "get_public_keys (send_tx key msg n s) = [Some key]"
  by (simp_all add: send_tx_def send_auth_info_def get_msgs_def get_fee_def get_signatures_def
      get_timeout_height_def get_memo_def get_signatures_data_def get_public_keys_def)

lemma send_tx_ok: "msg_send_ok msg \<Longrightarrow> tx_ok gaia_message_ok (send_tx key msg n s)"
  by (simp add: tx_ok_def)
    (simp add: send_tx_def send_auth_info_def fee_ok_def extract_signatures_data_def MAX_GAS_WANTED_def)

lemma send_auth_info_raw:
  obtains ai where "raw_from_auth_info L (send_auth_info key n None) = Some ai"
  by (simp add: raw_from_auth_info_def send_auth_info_def raw_from_fee_def)

lemma send_tx_decoded:
  fixes s :: bytes
  assumes "message_libs_ok L" "tx_wire_ok L" "msg_send_ok msg"
    and "any_from_msg_send L msg = Some any" "raw_from_auth_info L (send_auth_info key n None) = Some ai"
  defines "raw \<equiv> \<lparr> body_bytes = pb_encode (pb_tx_body L) \<lparr> rtb_messages = [any], rtb_memo = [],
       rtb_timeout_height = 0, rtb_extension_options = [], rtb_non_critical_extension_options = [] \<rparr>,
     auth_info_bytes = pb_encode (pb_auth_info L) ai, raw_signatures = [s] \<rparr>"
  shows "tx_with_raw_from_bytes L (gaia_ops L) (pb_encode (pb_tx_raw L) raw)
    = Some (Inr \<lparr> twr_tx = send_tx key msg n s, twr_raw = raw \<rparr>)"
proof -
  let ?tx = "send_tx key msg n s"
  obtain t where t: "raw_from_tx L (gaia_ops L) ?tx = Some t"
    "tx_try_from L (gaia_ops L) t = Some (Inr ?tx)"
    by (rule gm.tx_raw_round_trip [OF assms(1) send_tx_ok [OF assms(3)]])
  have "gaia_into_any L (Bank (Send msg)) = Some any"
    using assms(4) by (simp add: any_from_msg_send_def)
  then have "t = \<lparr> rtx_body = Some \<lparr> rtb_messages = [any], rtb_memo = [], rtb_timeout_height = 0,
      rtb_extension_options = [], rtb_non_critical_extension_options = [] \<rparr>,
      rtx_auth_info = Some ai, rtx_signatures = [s] \<rparr>"
    using t(1) assms(5)
    by (simp add: raw_from_tx_def raw_from_tx_body_def send_tx_def gaia_ops_def
        del: gaia_into_any.simps)
  then have "pb_decode (pb_tx L) (pb_encode (pb_tx_raw L) raw) = Inr t"
    using assms(2) by (simp add: tx_wire_ok_def raw_def)
  moreover have "pb_decode (pb_tx_raw L) (pb_encode (pb_tx_raw L) raw) = Inr raw"
    using assms(2) by (simp add: tx_wire_ok_def codec_ok_def)
  ultimately show ?thesis
    using t(2) by (simp add: tx_with_raw_from_bytes_def proto_decode_def)
qed

text \<open>
  A key pair that belongs to an address: the text of its account is the address, which is also
  that of its public key, and what it signs verifies.
\<close>

definition key_pair_ok :: "'a libs_scheme \<Rightarrow> key_pair \<Rightarrow> acc_address \<Rightarrow> bool" where
  "key_pair_ok L key a \<longleftrightarrow> from_bech32 L (kp_account key) = Inr a \<and>
     public_key_get_address L (Secp256k1 (PubKey (kp_public_key key))) = Some a \<and>
     (\<forall>m. \<exists>s signature. kp_sign key m = Inr s \<and> sig_from_compact L s = Some signature \<and>
        verify_ecdsa L (sha256 (storage L) m) signature (kp_public_key key))"

lemma signed_send_tx:
  assumes "message_libs_ok L" "tx_wire_ok L" "msg_send_ok msg" "key_pair_ok L key a"
    and "msg = \<lparr> from_address = a, to_address = b, msg_amount = SendCoins [c] \<rparr>"
  obtains raw s signature where
    "create_signed_send_tx L a b c None n m key = Some (Inr raw)"
    "tx_with_raw_from_bytes L (gaia_ops L) (pb_encode (pb_tx_raw L) raw)
      = Some (Inr \<lparr> twr_tx = send_tx (Secp256k1 (PubKey (kp_public_key key))) msg n s, twr_raw = raw \<rparr>)"
    "sig_from_compact L s = Some signature"
    "verify_ecdsa L (sha256 (storage L) (pb_encode (pb_sign_doc L)
       \<lparr> sd_body_bytes = body_bytes raw, sd_auth_info_bytes = auth_info_bytes raw,
          sd_chain_id = TEST_CHAIN, sd_account_number = m \<rparr>)) signature (kp_public_key key)"
proof -
  let ?pk = "PubKey (kp_public_key key)"
  note L = message_libs_okD [OF assms(1)]
  obtain ai where ai: "raw_from_auth_info L (send_auth_info (Secp256k1 ?pk) n None) = Some ai"
    by (rule send_auth_info_raw)
  obtain r where "raw_from_msg_send L msg = Some r" by (rule msg_send_round_trip [OF L(1,2) assms(3)])
  then obtain any where any: "any_from_msg_send L msg = Some any" by (simp add: any_from_msg_send_def)
  let ?body = "pb_encode (pb_tx_body L) \<lparr> rtb_messages = [any], rtb_memo = [], rtb_timeout_height = 0,
       rtb_extension_options = [], rtb_non_critical_extension_options = [] \<rparr>"
  let ?ai = "pb_encode (pb_auth_info L) ai"
  let ?doc = "pb_encode (pb_sign_doc L) \<lparr> sd_body_bytes = ?body, sd_auth_info_bytes = ?ai,
    sd_chain_id = TEST_CHAIN, sd_account_number = m \<rparr>"
  obtain s signature where s: "kp_sign key ?doc = Inr s" "sig_from_compact L s = Some signature"
    "verify_ecdsa L (sha256 (storage L) ?doc) signature (kp_public_key key)"
    using assms(4) unfolding key_pair_ok_def by blast
  let ?raw = "\<lparr> body_bytes = ?body, auth_info_bytes = ?ai, raw_signatures = [s] \<rparr>"
  have "send_coins_new [c] = Inr (SendCoins [c])"
    using assms(3,5) by (simp add: send_coins_new_valid msg_send_ok_def)
  moreover have "pub_key_try_from_raw L \<lparr> rpk_key = key_serialize L (kp_public_key key) \<rparr> = Inr ?pk"
    using pub_key_round_trip [OF L(3), of ?pk] by (simp add: raw_from_pub_key_def)
  ultimately have "create_signed_send_tx L a b c None n m key = Some (Inr ?raw)"
    using any [unfolded assms(5)] ai s(1)
    by (simp add: create_signed_send_tx_def Let_def)
  then show thesis
    by (rule that) (use send_tx_decoded [OF assms(1-3) any ai] s(2,3) in \<open>simp_all\<close>)
qed

section \<open>Numbers and denominations in one word\<close>

lemma letter_not_numeric: "is_letter b \<Longrightarrow> \<not> is_numeric b"
  by (auto simp: is_letter_def is_numeric_def word_le_nat_alt)

lemma denom_split:
  assumes "denom_ok d" "\<forall>b \<in> set ds. is_numeric b"
  shows "takeWhile is_numeric (ds @ denom_to_string d) = ds"
    "dropWhile is_numeric (ds @ denom_to_string d) = denom_to_string d"
proof -
  obtain b bs where b: "denom_to_string d = b # bs" "\<not> is_numeric b"
    using assms(1) letter_not_numeric
    by (auto simp: denom_ok_def denom_match_def split: list.splits)
  then show "takeWhile is_numeric (ds @ denom_to_string d) = ds"
    "dropWhile is_numeric (ds @ denom_to_string d) = denom_to_string d"
    using assms(2) by (simp_all add: takeWhile_append dropWhile_append)
qed

section \<open>A wallet of the demonstration\<close>

definition demo_key :: key_pair where
  "demo_key = \<lparr> kp_public_key = [9],
     kp_account = the (addr_to_string demo_host
       (the (public_key_get_address demo_host (Secp256k1 (PubKey [9]))))),
     kp_sign = (\<lambda>_. Inr [9]) \<rparr>"

lemma demo_key_ok:
  obtains a where "key_pair_ok demo_host demo_key a" "addr_ok a" "a \<noteq> AccAddress [4]"
proof -
  have k: "keys_ok demo_host" "bech32_ok demo_host" by (rule demo_host_laws)+
  obtain a where a: "public_key_get_address demo_host (Secp256k1 (PubKey [9])) = Some a" "addr_ok a"
    "addr_bytes a = ripemd160 demo_host (sha256 (storage demo_host)
      (case Secp256k1 (PubKey [9]) of Secp256k1 k \<Rightarrow> pub_key_bytes demo_host k))"
    by (rule public_key_address_ok [OF k(1)])
  then have "length (addr_bytes a) = 20" using k(1) by (simp add: keys_ok_def)
  then have "a \<noteq> AccAddress [4]" by auto
  moreover obtain t where "addr_to_string demo_host a = Some t" "from_bech32 demo_host t = Inr a"
    using addr_string [OF k(2), of a] a(2) by blast
  moreover have "sig_from_compact demo_host [9] = Some [9]" "verify_ecdsa demo_host m [9] [9]" for m
    by (simp_all add: demo_libs_def)
  ultimately show thesis
    using that a(1,2) by (simp add: key_pair_ok_def demo_key_def del: public_key_get_address.simps)
qed

lemma demo_host_wire: "tx_wire_ok demo_host" "query_codecs_ok demo_host"
  using demo_libs_wire demo_libs_queries
  by (simp_all add: demo_host_def libs.defs tx_wire_ok_def query_codecs_ok_def)

section \<open>Properties\<close>

text \<open>
  (C15) The REST endpoint for a balance answers with the balance of the ledger: no coin exactly when
  the bank's store has no entry for the address and the denomination, which is then a balance of
  zero, else a coin of the denomination asked for with exactly the amount, also when it is zero.
\<close>

theorem rest_balance_exact:
  assumes "node_rel (gaia_rel H) (nd_multi_store nd) bal accs" "nd_db nd = host_state H"
    and "query_codecs_ok H" "uint (nd_height nd) < 2 ^ 63" "addr_ok a" "denom_ok d"
  shows "\<exists>r. rest_get_balances_by_denom H (gaia_app H env) nd a (denom_to_string d)
      = Some (Inr (QueryBalanceResponse r)) \<and>
     (\<exists>kv v. get_kv_store (nd_multi_store nd) (store_key_name BankKey) = Some kv \<and>
        kv_read H (store_key_name BankKey) kv (balance_key a d) = Some v \<and> (r = None \<longleftrightarrow> v = None)) \<and>
     (case r of None \<Rightarrow> bal a d = 0 | Some c \<Rightarrow> coin_denom c = d \<and> amount c = bal a d)"
proof -
  obtain raw res r where q:
    "raw_from_query_balance_request H \<lparr> qbr_address = a, qbr_denom = d \<rparr> = Some raw"
    "abci_query H (gaia_app H env) nd
      \<lparr> query_path = lit ''/cosmos.bank.v1beta1.Query/Balance'',
         query_data = pb_encode (pb_balance_request H) raw \<rparr> = Some res"
    "proto_decode H (pb_balance_response H) (\<lambda>raw. Some (query_balance_response_try_from H raw))
      (rqu_value res) = Some (Inr (QueryBalanceResponse r))"
    "balance_answer H (nd_multi_store nd) bal a d r"
    by (rule abci_balance_answer [OF assms, of env]) (rule that)
  have d: "denom_try_from (denom_to_string d) = Inr d" using assms(6) by simp
  have "rest_get_balances_by_denom H (gaia_app H env) nd a (denom_to_string d)
      = Some (Inr (QueryBalanceResponse r))"
    unfolding rest_get_balances_by_denom_def d rest_query_def
    by (simp add: q(1,3) q(2) [simplified])
  with q(4) show ?thesis by (simp add: balance_answer_def)
qed

theorem rest_balance_exact_witness:
  "\<exists>nd r. rest_get_balances_by_denom demo_host (gaia_app demo_host demo_env) nd (AccAddress [3])
       (lit ''doge'') = Some (Inr (QueryBalanceResponse (Some r))) \<and> amount r = 10"
proof -
  obtain nd :: "memdb app_node" where nd: "node_rel (gaia_rel demo_host) (nd_multi_store nd) demo_ledger demo_accounts"
    "nd_db nd = host_state demo_host" "nd_height nd = 0" by (rule demo_node) blast
  have h: "uint (nd_height nd) < 2 ^ 63" "addr_ok (AccAddress [3])" by (simp_all add: nd(3) addr_ok_def)
  have "denom_to_string DOGE = lit ''doge''" by (simp add: DOGE_def)
  then show ?thesis
    using rest_balance_exact [OF nd(1,2) demo_host_wire(2) h demo_denom_ok, of demo_env]
    by (fastforce simp: demo_ledger_def split: option.splits)
qed

text \<open>
  (C4) From the command line to the ledger: on a node of the chain \<open>test-chain\<close> the command
  \<open>send\<close> of a wallet that holds the amount, to an account that exists, queries its sequence and
  number, signs and encodes a transaction, and the node that gets these bytes executes it: the
  response has code 0 and exactly the amount has moved. The account may be new, without a key.
\<close>

theorem cli_payment_executes:
  fixes env :: gaia_env
  assumes "node_rel (gaia_rel H) (nd_multi_store nd) bal accs" "nd_db nd = host_state H"
    and "message_libs_ok H" "tx_wire_ok H" "query_codecs_ok H"
    and "key_pair_ok H key a" "accs a = Some x"
    and "get_public_key x \<in> {None, Some (Secp256k1 (PubKey (kp_public_key key)))}"
    and "increment_sequence x \<noteq> None"
    and "nd_block_header nd = Some header" "header_chain_id header = TEST_CHAIN"
    and "uint (nd_height nd) < 2 ^ 63"
    and "\<forall>bs. auth_get_auth_params H gaia_auth_keeper
      (TxContext (tx_context_new (nd_multi_store nd) (nd_height nd) header bs)) \<noteq> None"
    and "addr_ok b" "accs b \<noteq> None" "a \<noteq> b" "coin_ok c" "0 < coin_amount c"
    and "amount c \<le> bal a (coin_denom c)" "\<forall>d. total_of bal d < 2 ^ 256"
  shows "\<exists>raw res nd' bal' accs'.
     run_bank_send H (node_rpc H (gaia_app H env) nd) (Inr key) b c None = Some (Inr raw) \<and>
     deliver_tx H (gaia_app H env) nd raw = Some (res, nd') \<and> rtx_code res = 0 \<and>
     node_rel (gaia_rel H) (nd_multi_store nd') bal' accs' \<and>
     (\<forall>d. bal' a d = bal a d - (if d = coin_denom c then amount c else 0) \<and>
        bal' b d = bal b d + (if d = coin_denom c then amount c else 0)) \<and>
     (\<forall>other. other \<noteq> a \<and> other \<noteq> b \<longrightarrow> bal' other = bal other)"
proof -
  let ?key = "Secp256k1 (PubKey (kp_public_key key))"
  let ?msg = "\<lparr> from_address = a, to_address = b, msg_amount = SendCoins [c] \<rparr>"
  have a: "from_bech32 H (kp_account key) = Inr a" "addr_ok a"
    using assms(6) from_bech32_ok by (auto simp: key_pair_ok_def)
  have pk: "public_key_get_address H ?key = Some a" using assms(6) by (simp only: key_pair_ok_def)
  have m: "msg_send_ok ?msg"
    using a(2) assms(14,17,18) by (simp add: msg_send_ok_def send_coins_ok_def)
  obtain raw s signature where w:
    "create_signed_send_tx H a b c None (get_sequence x) (get_account_number x) key = Some (Inr raw)"
    "tx_with_raw_from_bytes H (gaia_ops H) (pb_encode (pb_tx_raw H) raw)
      = Some (Inr \<lparr> twr_tx = send_tx ?key ?msg (get_sequence x) s, twr_raw = raw \<rparr>)"
    "sig_from_compact H s = Some signature"
    "verify_ecdsa H (sha256 (storage H) (pb_encode (pb_sign_doc H)
       \<lparr> sd_body_bytes = body_bytes raw, sd_auth_info_bytes = auth_info_bytes raw,
          sd_chain_id = TEST_CHAIN, sd_account_number = get_account_number x \<rparr>))
       signature (kp_public_key key)"
    by (rule signed_send_tx [OF assms(3,4) m assms(6) refl])
  let ?bs = "pb_encode (pb_tx_raw H) raw"
  have sent: "run_bank_send H (node_rpc H (gaia_app H env) nd) (Inr key) b c None = Some (Inr ?bs)"
    using a(1) w(1) get_account_node [OF assms(1,2,5,12) a(2), of env] assms(7)
    by (simp add: run_bank_send_def)
  have ctx: "new_tx_ctx nd (nd_multi_store nd) ?bs
      = Some (TxContext (tx_context_new (nd_multi_store nd) (nd_height nd) header ?bs))"
    using assms(10) by (simp add: new_tx_ctx_def)
  obtain p where p: "auth_get_auth_params H gaia_auth_keeper
      (TxContext (tx_context_new (nd_multi_store nd) (nd_height nd) header ?bs)) = Some p"
    using assms(13) by blast
  have "key_from_slice H (key_serialize H k) = Inr k" for k
    using message_libs_okD(3) [OF assms(3)] by (simp add: keys_ok_def)
  moreover have "get_public_key (with_key (Some ?key) x) = Some ?key"
    using assms(8) by (auto simp: with_key_def)
  ultimately have auth: "authorised H TEST_CHAIN raw \<lparr> sg_signature = s, sg_sequence = get_sequence x \<rparr>
      (with_key (Some ?key) x)"
    using w(3,4) by (simp add: authorised_def)
  obtain es nd' bal' accs' where run: "run_tx H (gaia_app H env) nd ?bs = Some (Inr es, nd')"
    "node_rel (gaia_rel H) (nd_multi_store nd') bal' accs'"
    "spec_send bal a b [c] = Some (True, bal')"
    by (rule payment_executes [OF assms(1,2) ctx w(2), of ?msg p x env])
      (use assms(7,9,11,15,19,20) p pk auth in
        \<open>simp_all add: tx_context_new_def del: not_None_eq public_key_get_address.simps\<close>)
  obtain res where "deliver_tx H (gaia_app H env) nd ?bs = Some (res, nd')" "rtx_code res = 0"
    using run(1) by (simp add: deliver_tx_def)
  then show ?thesis
    using sent run(2) spec_send_moves [OF assms(16) run(3)] spec_send_others [OF run(3)]
    by (fastforce simp: amount_of_def)
qed

theorem cli_payment_executes_witness:
  "\<exists>nd a raw res nd' bal' accs'. nd_block_header nd = Some \<lparr> header_chain_id = TEST_CHAIN \<rparr> \<and>
     run_bank_send demo_host (node_rpc demo_host (gaia_app demo_host demo_env) nd) (Inr demo_key)
       (AccAddress [4]) \<lparr> coin_denom = DOGE, coin_amount = 7 \<rparr> None = Some (Inr raw) \<and>
     deliver_tx demo_host (gaia_app demo_host demo_env) nd raw = Some (res, nd') \<and> rtx_code res = 0 \<and>
     node_rel (gaia_rel demo_host) (nd_multi_store nd') bal' accs' \<and>
     bal' a DOGE = 3 \<and> bal' (AccAddress [4]) DOGE = 7"
proof -
  obtain a where a: "key_pair_ok demo_host demo_key a" "addr_ok a" "a \<noteq> AccAddress [4]"
    by (rule demo_key_ok)
  obtain nd :: "memdb app_node" where nd:
    "node_rel (gaia_rel demo_host) (nd_multi_store nd) (funded a) (accounts_of a None)"
    "nd_db nd = host_state demo_host" "nd_block_header nd = Some \<lparr> header_chain_id = TEST_CHAIN \<rparr>"
    "\<And>h hd raw. auth_get_auth_params demo_host demo_auth
       (TxContext (tx_context_new (nd_multi_store nd) h hd raw)) = Some DEFAULT_PARAMS"
    "nd_height nd = 0"
    by (rule node_of [OF a(2,3), of None TEST_CHAIN]) blast
  have total: "total_of (funded a) d < 2 ^ 256" for d
  proof -
    have "funded a b d = (if b = a then if d = DOGE then 10 else 0 else 0)" for b
      by (simp add: funded_def)
    then show ?thesis
      unfolding total_of_def holdings_def by (simp add: sum.delta [OF finite_addrs])
  qed
  have acc: "accounts_of a None a = Some (payer_of a None)" "accounts_of a None (AccAddress [4]) \<noteq> None"
    using a(3) by (simp_all add: accounts_of_def)
  have k: "get_public_key (payer_of a None) \<in> {None, Some (Secp256k1 (PubKey (kp_public_key demo_key)))}"
    by simp
  have h: "header_chain_id \<lparr> header_chain_id = TEST_CHAIN \<rparr> = TEST_CHAIN"
    "uint (nd_height nd) < 2 ^ 63" "addr_ok (AccAddress [4])"
    by (simp_all add: nd(5) addr_ok_def)
  have p: "\<forall>bs. auth_get_auth_params demo_host gaia_auth_keeper (TxContext (tx_context_new
      (nd_multi_store nd) (nd_height nd) \<lparr> header_chain_id = TEST_CHAIN \<rparr> bs)) \<noteq> None"
    by (simp add: demo_keepers nd(4))
  let ?c = "\<lparr> coin_denom = DOGE, coin_amount = 7 \<rparr> :: coin"
  have c: "coin_ok ?c" "0 < coin_amount ?c" "amount ?c \<le> funded a a (coin_denom ?c)"
    by (simp_all add: coin_ok_def demo_denom_ok) (simp add: funded_def)
  have "\<forall>d. total_of (funded a) d < 2 ^ 256" using total by blast
  from cli_payment_executes [OF nd(1,2) demo_more_laws(2) demo_host_wire a(1) acc(1) k payer_increment
      nd(3) h(1,2) p h(3) acc(2) a(3) c this, of demo_env]
  obtain raw res nd' bal' accs' where
    "run_bank_send demo_host (node_rpc demo_host (gaia_app demo_host demo_env) nd) (Inr demo_key)
       (AccAddress [4]) ?c None = Some (Inr raw)"
    "deliver_tx demo_host (gaia_app demo_host demo_env) nd raw = Some (res, nd')" "rtx_code res = 0"
    "node_rel (gaia_rel demo_host) (nd_multi_store nd') bal' accs'"
    "bal' a DOGE = funded a a DOGE - 7" "bal' (AccAddress [4]) DOGE = funded a (AccAddress [4]) DOGE + 7"
    by fastforce
  with nd(3) a(3) show ?thesis by (fastforce simp: funded_def)
qed

text \<open>A file system without links: \<open>.\<close> components do not change where a path leads.\<close>

fun skip_dots :: "bytes \<Rightarrow> bytes" where
  "skip_dots (a # b # c # p) =
     (if a = 47 \<and> b = 46 \<and> c = 47 then skip_dots (c # p) else a # skip_dots (b # c # p))"
| "skip_dots p = p"

definition demo_key_os :: os where
  "demo_key_os = \<lparr> os_home_dir = Some [47], os_resolve = skip_dots, os_create_dir_all = (\<lambda>_. None),
     os_create = (\<lambda>_. None), os_open = (\<lambda>_. None), os_write = (\<lambda>_. None), os_remove = (\<lambda>_. None) \<rparr>"

lemma demo_key_files:
  "key_file (lit ''k'') (lit ''./a.x'') = lit ''k/./a.json''" "key_file (lit ''k'') (lit ''a.y'') = lit ''k/a.json''"
  "key_file (lit ''k'') (lit ''a.b/c'') = lit ''k/a.b/c.json''" "key_file (lit ''k'') (lit ''/etc/c'') = lit ''/etc/c.json''"
  "key_file (lit ''h/k'') (lit ''.'') = lit ''h/k.json''" "key_file (lit ''h/k'') (lit ''..'') = lit ''h/k/..''"
  by (simp_all add: key_file_def set_extension_def path_push_def file_name_def last_component_def path_parent_def
      file_stem_def KEYSTORE_FILE_EXTENSION_def Let_def)

text \<open>
  (C24) The command \<open>keys add\<close>: after it succeeded the key store returns the key of the mnemonic under
  the name, if its file can be opened, every file but the one the path of the name leads to is as
  before, so what is stored for names that lead to other files is as before, and unless overwriting
  was asked for there was no readable key under the name. The path is that of the key store with the
  name, its extension replaced, when the name is a single component; names that differ only in it
  share a file.
\<close>

theorem key_added_is_found:
  assumes "\<forall>key. from_mnemonic mnemonic = Inr key \<longrightarrow> from_reader (to_writer key) = Inr key"
    and "run_keys_add OS from_reader path_text to_writer from_mnemonic fs path name overwrite mnemonic = Some (Inr (), fs')"
    and "os_open OS (key_file path name) = None"
  shows "(\<exists>key. from_mnemonic mnemonic = Inr key \<and>
        disk_get_key OS from_reader path_text fs' path name = Inr key) \<and>
     (\<forall>file. file \<noteq> os_resolve OS (key_file path name) \<longrightarrow> fs' file = fs file) \<and>
     (\<forall>path' other. os_resolve OS (key_file path' other) \<noteq> os_resolve OS (key_file path name) \<longrightarrow>
        disk_get_key OS from_reader path_text fs' path' other = disk_get_key OS from_reader path_text fs path' other) \<and>
     (\<not> overwrite \<longrightarrow> (\<exists>e. disk_get_key OS from_reader path_text fs path name = Inl e)) \<and>
     (plain_name name \<longrightarrow> key_file path name = path_push path (file_stem name @ lit ''.json''))"
proof -
  from assms(2) obtain key where k: "from_mnemonic mnemonic = Inr key"
    "check_key_exists OS from_reader path_text fs path name overwrite = Inr ()"
    "fs' = fs(os_resolve OS (key_file path name) \<mapsto> to_writer key)"
    by (auto simp: run_keys_add_def and_then_Inr reading_Inr disk_add_key_def Let_def split: option.splits)
  have "\<not> overwrite \<longrightarrow> (\<exists>e. disk_get_key OS from_reader path_text fs path name = Inl e)"
    using k(2) by (auto simp: check_key_exists_def split: sum.splits if_splits)
  moreover have "disk_get_key OS from_reader path_text fs' path name = Inr key"
    using k(1,3) assms(1,3) by (simp add: disk_get_key_def)
  moreover have "plain_name name \<longrightarrow> key_file path name = path_push path (file_stem name @ lit ''.json'')"
    by (simp add: key_file_def set_extension_plain KEYSTORE_FILE_EXTENSION_def)
  ultimately show ?thesis using k(1,3) by (simp add: disk_get_key_def)
qed

theorem key_added_is_found_witness:
  "\<exists>fs'. run_keys_add demo_key_os (\<lambda>_. Inr demo_key) (\<lambda>p. p) (\<lambda>_. []) (\<lambda>_. Inr demo_key) Map.empty (lit ''k'')
       (lit ''./a.x'') False [] = Some (Inr (), fs') \<and>
     disk_get_key demo_key_os (\<lambda>_. Inr demo_key) (\<lambda>p. p) fs' (lit ''k'') (lit ''a.y'') = Inr demo_key \<and>
     disk_get_key demo_key_os (\<lambda>_. Inr demo_key) (\<lambda>p. p) fs' (lit ''k'') (lit ''a.b/c'')
       = Inl (lit ''k/a.b/c.json key file not found'')"
proof -
  let ?get = "disk_get_key demo_key_os (\<lambda>_. Inr demo_key) (\<lambda>p. p)"
  obtain fs' where d: "run_keys_add demo_key_os (\<lambda>_. Inr demo_key) (\<lambda>p. p) (\<lambda>_. []) (\<lambda>_. Inr demo_key) Map.empty
      (lit ''k'') (lit ''./a.x'') False [] = Some (Inr (), fs')"
    by (simp add: run_keys_add_def check_key_exists_def disk_get_key_def reading_def disk_add_key_def demo_key_os_def)
  have r: "os_resolve demo_key_os (key_file (lit ''k'') (lit ''./a.x'')) = lit ''k/a.json''"
    "os_resolve demo_key_os (key_file (lit ''k'') (lit ''a.y'')) = lit ''k/a.json''"
    "os_resolve demo_key_os (key_file (lit ''k'') (lit ''a.b/c'')) = lit ''k/a.b/c.json''"
    unfolding demo_key_files by (simp_all add: demo_key_os_def)
  have op: "os_open demo_key_os p = None" for p by (simp add: demo_key_os_def)
  from key_added_is_found [OF _ d op] have "?get fs' (lit ''k'') (lit ''./a.x'') = Inr demo_key"
    "?get fs' (lit ''k'') (lit ''a.b/c'') = ?get Map.empty (lit ''k'') (lit ''a.b/c'')"
    using r by fastforce+
  moreover from this(1) have "?get fs' (lit ''k'') (lit ''a.y'') = Inr demo_key"
    unfolding disk_get_key_def Let_def r by (simp add: op split: option.splits)
  moreover have "?get Map.empty (lit ''k'') (lit ''a.b/c'') = Inl (lit ''k/a.b/c.json key file not found'')"
    unfolding disk_get_key_def Let_def demo_key_files by simp
  ultimately show ?thesis using d by metis
qed

text \<open>
  (C25) An amount with its denomination is read from one word exactly when it is a text of digits that
  is a number of 256 bits, followed by a well-formed denomination: \<open>10doge\<close> is ten \<open>doge\<close>.
\<close>

theorem coin_from_str_exact:
  "coin_from_str L amount_text input = Inr c \<longleftrightarrow>
     (\<exists>ds. input = ds @ denom_to_string (coin_denom c) \<and> denom_ok (coin_denom c) \<and>
        (\<forall>b \<in> set ds. is_numeric b) \<and> uint_parse L ds = Some (coin_amount c))"
proof
  assume "coin_from_str L amount_text input = Inr c"
  then have c: "uint_parse L (takeWhile is_numeric input) = Some (coin_amount c)"
    "denom_ok (coin_denom c)" "dropWhile is_numeric input = denom_to_string (coin_denom c)"
    by (auto simp: coin_from_str_def then_try_Inr denom_from_str_def split: option.splits)
  have "input = takeWhile is_numeric input @ denom_to_string (coin_denom c)"
    unfolding c(3) [symmetric] by (rule takeWhile_dropWhile_id [symmetric])
  moreover have "\<forall>b \<in> set (takeWhile is_numeric input). is_numeric b" by (blast dest: set_takeWhileD)
  ultimately show "\<exists>ds. input = ds @ denom_to_string (coin_denom c) \<and> denom_ok (coin_denom c) \<and>
      (\<forall>b \<in> set ds. is_numeric b) \<and> uint_parse L ds = Some (coin_amount c)"
    using c(1,2) by blast
next
  assume "\<exists>ds. input = ds @ denom_to_string (coin_denom c) \<and> denom_ok (coin_denom c) \<and>
      (\<forall>b \<in> set ds. is_numeric b) \<and> uint_parse L ds = Some (coin_amount c)"
  then obtain ds where ds: "input = ds @ denom_to_string (coin_denom c)" "denom_ok (coin_denom c)"
    "\<forall>b \<in> set ds. is_numeric b" "uint_parse L ds = Some (coin_amount c)" by blast
  have "denom_from_str (denom_to_string (coin_denom c)) = Inr (coin_denom c)"
    using ds(2) by (simp add: denom_from_str_def)
  then show "coin_from_str L amount_text input = Inr c"
    unfolding coin_from_str_def ds(1) denom_split [OF ds(2,3)] ds(4) by simp
qed

theorem coin_from_str_exact_witness:
  "coin_from_str demo_libs (\<lambda>_. []) (lit ''10doge'') = Inr \<lparr> coin_denom = DOGE, coin_amount = 10 \<rparr>"
proof -
  have "lit ''10doge'' = lit ''10'' @ denom_to_string DOGE" by (simp add: DOGE_def)
  moreover have "\<forall>b \<in> set (lit ''10''). is_numeric b" by (simp add: is_numeric_def)
  moreover have "uint_parse demo_libs (lit ''10'') = Some 10"
    by (simp add: demo_libs_def digit_def)
  ultimately show ?thesis
    unfolding coin_from_str_exact using demo_denom_ok by (intro exI [of _ "lit ''10''"]) simp
qed

end
