(* ===== verification/Rest_Routes.thy ===== *)
theory Rest_Routes
  imports Client
begin

text \<open>
  The REST interface as a whole: which path reaches which handler
  (\<open>src/gears/src/client/rest/rest.rs\<close>, \<open>src/gaia-rs/src/rest.rs\<close>, the router of the bank module) and
  the constant answer of \<open>staking_params\<close>. The handlers are in \<open>Client\<close>; the HTTP server of \<open>axum\<close>
  with its CORS layer is not modelled, its rule for matching a path is.
\<close>

section \<open>Routes\<close>

datatype endpoint = NodeInfo | StakingParams | Txs | Supply | GetBalances | GetBalancesByDenom

type_synonym router = "(bytes \<times> endpoint) list"

definition nest :: "bytes \<Rightarrow> router \<Rightarrow> router" where
  "nest path routes = map (\<lambda>(p, e). (path @ p, e)) routes"

definition bank_router :: router where
  "bank_router =
     [(lit ''/v1beta1/supply'', Supply),
      (lit ''/v1beta1/balances/:address'', GetBalances),
      (lit ''/v1beta1/balances/:address/by_denom'', GetBalancesByDenom)]"

definition gaia_router :: router where
  "gaia_router = nest (lit ''/bank'') bank_router"

definition rest_router :: "router \<Rightarrow> router" where
  "rest_router router =
     [(lit ''/cosmos/base/tendermint/v1beta1/node_info'', NodeInfo),
      (lit ''/cosmos/staking/v1beta1/params'', StakingParams),
      (lit ''/cosmos/tx/v1beta1/txs'', Txs)] @ nest (lit ''/cosmos'') router"

text \<open>
  A path is matched by segments; a parameter, which starts with a colon, takes any non-empty one.
\<close>

fun split_slashes :: "bytes \<Rightarrow> bytes list" where
  "split_slashes [] = [[]]"
| "split_slashes (b # bs) =
     (case split_slashes bs of
        [] \<Rightarrow> [[b]]
      | part # parts \<Rightarrow> if b = 47 then [] # part # parts else (b # part) # parts)"

fun match_segments :: "bytes list \<Rightarrow> bytes list \<Rightarrow> bytes list option" where
  "match_segments [] [] = Some []"
| "match_segments (p # ps) (s # ss) =
     (case p of
        [] \<Rightarrow> if s = [] then match_segments ps ss else None
      | c # _ \<Rightarrow>
          if c = 58 then (if s \<noteq> [] then map_option (Cons s) (match_segments ps ss) else None)
          else if p = s then match_segments ps ss else None)"
| "match_segments _ _ = None"

definition matching :: "router \<Rightarrow> bytes \<Rightarrow> (endpoint \<times> bytes list) list" where
  "matching routes path =
     List.map_filter (\<lambda>(p, e). map_option (\<lambda>ps. (e, ps)) (match_segments (split_slashes p) (split_slashes path))) routes"

section \<open>The constant answer\<close>

definition line_break :: bytes where "line_break = [10]"

definition staking_params :: bytes where
  "staking_params = line_break @
     lit ''    {'' @ line_break @
     lit ''        \"params\": {'' @ line_break @
     lit ''          \"unbonding_time\": \"0\",'' @ line_break @
     lit ''          \"max_validators\": 0,'' @ line_break @
     lit ''          \"max_entries\": 0,'' @ line_break @
     lit ''          \"historical_entries\": 0,'' @ line_break @
     lit ''          \"bond_denom\": \"uatom\",'' @ line_break @
     lit ''          \"min_commission_rate\": \"0\"'' @ line_break @
     lit ''        }'' @ line_break @
     lit ''      }'' @ line_break @
     lit ''    ''"

section \<open>Every path reaches one handler at most\<close>

lemma split_slashes_not_Nil [simp]: "split_slashes s \<noteq> []"
  by (induction s) (auto split: list.splits)

lemma split_slashes_plain: "47 \<notin> set s \<Longrightarrow> split_slashes s = [s]"
  by (induction s) auto

lemma split_slashes_append: "47 \<notin> set s \<Longrightarrow> split_slashes (s @ 47 # t) = s # split_slashes t"
  by (induction s) (auto split: list.splits)

lemma match_Nil: "match_segments [] ss = (if ss = [] then Some [] else None)"
  by (cases ss) simp_all

lemma match_Cons: "match_segments (p # ps) ss = (case ss of [] \<Rightarrow> None | s # ss \<Rightarrow>
    (case p of
        [] \<Rightarrow> if s = [] then match_segments ps ss else None
      | c # _ \<Rightarrow>
          if c = 58 then (if s \<noteq> [] then map_option (Cons s) (match_segments ps ss) else None)
          else if p = s then match_segments ps ss else None))"
  by (cases ss) simp_all

lemmas route_defs = matching_def rest_router_def gaia_router_def bank_router_def nest_def map_filter_simps

text \<open>Two patterns can match the same path only when they agree up to their parameters.\<close>

fun compatible :: "bytes list \<Rightarrow> bytes list \<Rightarrow> bool" where
  "compatible [] [] \<longleftrightarrow> True"
| "compatible (p # ps) (q # qs) \<longleftrightarrow>
     (p = q \<or> take 1 p = [58] \<or> take 1 q = [58]) \<and> compatible ps qs"
| "compatible _ _ \<longleftrightarrow> False"

lemma match_ConsE:
  assumes "match_segments (p # ps) ss = Some xs"
  obtains s ss' ys where "ss = s # ss'" "take 1 p = [58] \<or> p = s" "match_segments ps ss' = Some ys"
  using assms by (cases ss; cases p) (auto split: if_splits)

lemma match_compatible:
  "match_segments ps ss = Some xs \<Longrightarrow> match_segments qs ss = Some ys \<Longrightarrow> compatible ps qs"
proof (induction ps arbitrary: qs ss xs ys)
  case Nil
  then show ?case by (cases qs) (auto simp: match_Nil split: if_splits)
next
  case (Cons p ps)
  obtain s ss' zs where s: "ss = s # ss'" "take 1 p = [58] \<or> p = s" "match_segments ps ss' = Some zs"
    by (rule match_ConsE [OF Cons.prems(1)])
  have "qs \<noteq> []" using s(1) Cons.prems(2) by auto
  then obtain q qs' where q: "qs = q # qs'" by (cases qs) auto
  obtain s2 ss2 ws where "ss = s2 # ss2" "take 1 q = [58] \<or> q = s2" "match_segments qs' ss2 = Some ws"
    by (rule match_ConsE [OF Cons.prems(2) [unfolded q]])
  with s Cons.IH [OF s(3)] q show ?case by auto
qed

lemma matching_unique:
  assumes "sorted_wrt (\<lambda>p q. \<not> compatible p q) (map (split_slashes \<circ> fst) routes)"
  shows "length (matching routes path) \<le> 1"
  using assms
proof (induction routes)
  case (Cons r routes)
  obtain p e where r: "r = (p, e)" by (cases r)
  show ?case
  proof (cases "match_segments (split_slashes p) (split_slashes path)")
    case None
    with Cons r show ?thesis by (simp add: matching_def map_filter_simps)
  next
    case (Some ps)
    have "match_segments (split_slashes q) (split_slashes path) = None" if "(q, e') \<in> set routes" for q e'
      using that Cons.prems r match_compatible [OF Some] by (cases "match_segments (split_slashes q) (split_slashes path)") fastforce+
    then have "matching routes path = []" by (auto simp: matching_def List.map_filter_def filter_empty_conv)
    with Some r show ?thesis by (simp add: matching_def map_filter_simps)
  qed
qed (simp add: matching_def map_filter_simps)

lemma routes_unambiguous: "length (matching (rest_router gaia_router) path) \<le> 1"
  by (rule matching_unique) (simp add: route_defs)

lemma balance_route:
  assumes "address \<noteq> []" "47 \<notin> set address"
  shows "matching (rest_router gaia_router) (lit ''/cosmos/bank/v1beta1/balances/'' @ address @ lit ''/by_denom'')
     = [(GetBalancesByDenom, [address])]"
proof -
  have "split_slashes (lit ''/cosmos/bank/v1beta1/balances/'' @ address @ lit ''/by_denom'')
      = [[], lit ''cosmos'', lit ''bank'', lit ''v1beta1'', lit ''balances'', address, lit ''by_denom'']"
    using assms(2) by (simp add: split_slashes_append)
  then show ?thesis
    using assms(1) by (simp add: route_defs match_Nil match_Cons)
qed

end
