(* ===== verification/Node_Sync.thy ===== *)
theory Node_Sync
  imports Blockchain State_Sync
begin

text \<open>
  State sync between two nodes (\<open>process_version_msg\<close> and \<open>process_state_msg\<close> of
  \<open>src/gears/src/baseapp/baseapp.rs\<close>): a node that is behind announces its height, a node that is
  ahead answers with the nodes of all its trees, and the first node takes them over. Hash maps
  travel in any order.
\<close>

section \<open>Messages up to the order of their hash maps\<close>

type_synonym module_states = "(bytes \<times> bytes \<times> (bytes \<times> bytes) list) list"

definition reordered :: "module_states \<Rightarrow> module_states \<Rightarrow> bool" where
  "reordered states states' \<longleftrightarrow> (\<exists>us. mset us = mset states \<and>
     list_all2 (\<lambda>(n, h, ns) (n', h', ns'). n' = n \<and> h' = h \<and> mset ns' = mset ns) us states')"

lemma reordered_refl [simp]: "reordered states states"
  unfolding reordered_def by (intro exI [of _ states] conjI refl) (auto intro!: list.rel_refl)

lemma reorderedE:
  assumes "reordered states states'"
  shows "mset (map fst states') = mset (map fst states)"
    and "(n, h, ns') \<in> set states' \<Longrightarrow> \<exists>ns. (n, h, ns) \<in> set states \<and> set ns' = set ns"
proof -
  from assms obtain us where us: "mset us = mset states"
    "list_all2 (\<lambda>(n, h, ns) (n', h', ns'). n' = n \<and> h' = h \<and> mset ns' = mset ns) us states'"
    by (auto simp: reordered_def)
  have "map fst us = map fst states'"
    using us(2) by (induction rule: list_all2_induct) auto
  moreover have "mset (map fst us) = mset (map fst states)" using us(1) by simp
  ultimately show "mset (map fst states') = mset (map fst states)" by simp
  have "\<forall>(n, h, ns') \<in> set states'. \<exists>ns. (n, h, ns) \<in> set us \<and> set ns' = set ns"
    using us(2) by (induction rule: list_all2_induct) (auto dest!: mset_eq_setD)
  then show "(n, h, ns') \<in> set states' \<Longrightarrow> \<exists>ns. (n, h, ns) \<in> set states \<and> set ns' = set ns"
    using arg_cong [OF us(1), of set_mset] by auto
qed

section \<open>The node that is ahead\<close>

definition module_state :: "crates \<Rightarrow> bytes \<Rightarrow> atree \<Rightarrow> bytes \<times> bytes \<times> (bytes \<times> bytes) list" where
  "module_state C n a = (n, u8_array_to_hex_string (ahash C a),
     insert_all (map (node_entry C) (exported a)) [])"

lemma committed_export:
  assumes "committed C D s t (Some a)"
  shows "savable C D s a"
    and "kv_load_all_nodes C D s (tree_loaded_version t)
      = Some (u8_array_to_hex_string (ahash C a), insert_all (map (node_entry C) (exported a)) [])"
proof -
  from assms have a: "cold a = a" "stored C D s a" "bst a" "storable_tree C a"
    "get_root_hash C D s (tree_loaded_version t) = Some (Inr (ahash C a))"
    by (simp_all add: committed_def)
  show sv: "savable C D s a"
    using a(3,4) stored_backed [OF a(2)] a(1) by (simp add: savable_def storable_tree_def)
  show "kv_load_all_nodes C D s (tree_loaded_version t)
      = Some (u8_array_to_hex_string (ahash C a), insert_all (map (node_entry C) (exported a)) [])"
    unfolding kv_load_all_nodes_def
    by (rule get_all_nodes_stored [OF a(2,5)]) (use sv in \<open>simp add: savable_def\<close>)
qed

lemma export_all:
  assumes "\<forall>n \<in> set names. \<exists>kv. get_kv_store (nd_multi_store nd) n = Some kv \<and>
      tree_loaded_version (persistent_store kv) = nd_height nd \<and>
      committed (storage H) (module_db (host_db H) n) (nd_db nd) (persistent_store kv) (Some (f n))"
  shows "export_states H nd names = Some (map (\<lambda>n. module_state (storage H) n (f n)) names)"
  using assms
proof (induction names)
  case (Cons n names)
  then obtain kv where kv: "get_kv_store (nd_multi_store nd) n = Some kv"
    "tree_loaded_version (persistent_store kv) = nd_height nd"
    "committed (storage H) (module_db (host_db H) n) (nd_db nd) (persistent_store kv) (Some (f n))"
    by auto
  from committed_export(2) [OF kv(3)] Cons kv(1,2) show ?case
    by (simp add: module_state_def del: prefixdb_ops_simps)
qed simp

section \<open>The node that is behind\<close>

lemma import_nodes_keeps:
  assumes "\<And>s k v. Q s \<Longrightarrow> Q (db_put D s k v)"
  shows "import_nodes C D h ns root s = Some (root', t) \<Longrightarrow> Q s \<Longrightarrow> Q t"
proof (induction ns arbitrary: root s)
  case (Cons e ns)
  obtain hash bz where e: "e = (hash, bz)" by (cases e)
  from Cons.prems e obtain root1 n hb where
    "import_nodes C D h ns root1 (save_node C D s n hb) = Some (root', t)"
    by (auto simp: bind_eq_Some_conv)
  then show ?case using Cons.IH assms [OF Cons.prems(2)] by (simp add: save_node_def)
qed simp

text \<open>A store that reads as the exported tree.\<close>

definition synced :: "crates \<Rightarrow> 'db database_ops \<Rightarrow> 'db \<Rightarrow> atree \<Rightarrow> kvstore \<Rightarrow> bool" where
  "synced C D s a kv \<longleftrightarrow> tree_root (persistent_store kv) = Some (conc C a) \<and> cold a = a \<and>
     stored C D s a \<and> bst a \<and> block_cache kv = [] \<and> tx_cache kv = []"

lemma synced_reads:
  assumes "synced C D s a kv"
  shows "kv_get C D s kv key = Some (map_of (entries a) key)"
proof -
  from assms have a: "cold a = a" "stored C D s a" "bst a" by (simp_all add: synced_def)
  have "backed C D s a" using stored_backed [OF a(2)] a(1) by simp
  from recursive_get_conc [OF this a(3)] assms show ?thesis
    by (simp add: synced_def kv_get_def tree_get_def)
qed

context full_key_scan
begin

lemma synced_view:
  assumes "db_get (module_db D n) t = db_get (module_db D n) s" "synced C (module_db D n) s a kv"
  shows "synced C (module_db D n) t a kv"
  using assms(2) prefix_stripping.stored_view [OF module_stripping assms(1)]
  by (simp add: synced_def)

lemma import_one:
  assumes C: "varint_ok C" "sha256_ok C" and s: "inv s"
    and com: "committed C (module_db D n) s0 t0 (Some a)"
    and ns: "set ns = node_entry C ` subs a" and kv: "block_cache kv = []" "tx_cache kv = []"
  obtains kv' t where "process_all_state_info C (module_db D n) s kv (u8_array_to_hex_string (ahash C a), ns) ver
      = Some (ahash C a, kv', t)" "inv t" "synced C (module_db D n) t a kv'"
    "\<And>q. \<not> prefix n q \<Longrightarrow> \<not> prefix q n \<Longrightarrow> db_get (module_db D q) t = db_get (module_db D q) s"
    "\<And>k. db_get (module_db D n) t (1 # k) = db_get (module_db D n) s (1 # k)"
proof -
  have a: "cold a = a" "bst a" using com by (simp_all add: committed_def)
  from database.import_stored [OF module_database C committed_export(1) [OF com] ns]
  obtain kv' t where p: "process_all_state_info C (module_db D n) s kv (u8_array_to_hex_string (ahash C a), ns) ver
      = Some (ahash C a, kv', t)" "tree_root (persistent_store kv') = Some (conc C (cold a))"
    "stored C (module_db D n) t a" by blast
  from p(1) obtain root' where i: "import_nodes C (module_db D n) (u8_array_to_hex_string (ahash C a)) ns
      default_node s = Some (root', t)"
    and kv': "kv' = kv\<lparr> persistent_store := tree_update (persistent_store kv) (Some root') ver \<rparr>"
    by (auto simp: process_all_state_info_def bind_eq_Some_conv)
  show thesis
  proof (rule that [OF p(1)])
    show "inv t"
      using prefix_stripping.import_nodes_roots [OF module_stripping i] s by blast
    show "db_get (module_db D n) t (1 # k) = db_get (module_db D n) s (1 # k)" for k
      using prefix_stripping.import_nodes_roots [OF module_stripping i] by blast
    show "synced C (module_db D n) t a kv'"
      using p(2,3) a kv kv' by (simp add: synced_def)
    show "db_get (module_db D q) t = db_get (module_db D q) s"
      if "\<not> prefix n q" "\<not> prefix q n" for q
      by (rule import_nodes_keeps [where Q = "\<lambda>t. db_get (module_db D q) t = db_get (module_db D q) s",
            OF _ i]) (simp_all add: prefixdb_isolated that)
  qed
qed

end

text \<open>All stores of a message, whatever order they come in.\<close>

lemma import_all:
  fixes H :: "'db host"
  assumes D: "full_key_scan (host_db H) P" and C: "varint_ok (storage H)" "sha256_ok (storage H)"
    and inc: "incomparable names"
    and com: "\<forall>n \<in> set names. \<exists>s0 t0. committed (storage H) (module_db (host_db H) n) s0 t0 (Some (f n))"
    and sts: "distinct (map fst sts)" "fst ` set sts \<subseteq> set names"
      "\<forall>(n, h, ns) \<in> set sts. h = u8_array_to_hex_string (ahash (storage H) (f n)) \<and>
        set ns = node_entry (storage H) ` subs (f n)"
    and ms: "\<forall>n \<in> set names. \<exists>kv. get_kv_store ms n = Some kv \<and> block_cache kv = [] \<and> tx_cache kv = []"
    and s: "P s"
  shows "\<exists>ms' t. import_states H names sts ver ms s
      = Some (map (\<lambda>(n, _). \<lparr> info_name = n, info_hash = ahash (storage H) (f n) \<rparr>) sts, ms', t) \<and>
     P t \<and> map fst (stores ms') = map fst (stores ms) \<and>
     (\<forall>n \<in> fst ` set sts. \<exists>kv. get_kv_store ms' n = Some kv \<and>
        synced (storage H) (module_db (host_db H) n) t (f n) kv) \<and>
     (\<forall>n \<in> set names - fst ` set sts. get_kv_store ms' n = get_kv_store ms n \<and>
        db_get (module_db (host_db H) n) t = db_get (module_db (host_db H) n) s) \<and>
     (\<forall>n \<in> set names. \<forall>k. db_get (module_db (host_db H) n) t (1 # k) = db_get (module_db (host_db H) n) s (1 # k))"
  using sts ms s
proof (induction sts arbitrary: ms s)
  case (Cons e sts)
  let ?C = "storage H" and ?D = "\<lambda>n. module_db (host_db H) n"
  obtain n h ns where e: "e = (n, h, ns)" by (cases e)
  have n: "n \<in> set names" "n \<notin> fst ` set sts" using Cons.prems(1,2) e by auto
  have h: "h = u8_array_to_hex_string (ahash ?C (f n))" "set ns = node_entry ?C ` subs (f n)"
    using Cons.prems(3) e by auto
  obtain s0 t0 where c: "committed ?C (?D n) s0 t0 (Some (f n))" using com n(1) by blast
  obtain kv where kv: "get_kv_store ms n = Some kv" "block_cache kv = []" "tx_cache kv = []"
    using Cons.prems(4) n(1) by blast
  obtain kv' s1 where 1: "process_all_state_info ?C (?D n) s kv (h, ns) ver
      = Some (ahash ?C (f n), kv', s1)" "P s1" "synced ?C (?D n) s1 (f n) kv'"
    "\<And>q. \<not> prefix n q \<Longrightarrow> \<not> prefix q n \<Longrightarrow> db_get (?D q) s1 = db_get (?D q) s"
    "\<And>k. db_get (?D n) s1 (1 # k) = db_get (?D n) s (1 # k)"
    by (rule full_key_scan.import_one [OF D C Cons.prems(5) c h(2) kv(2,3), of ver, folded h(1)])
      (rule that, assumption+)
  let ?ms = "set_kv_store ms n kv'"
  have g: "get_kv_store ?ms m = (if m = n then Some kv' else get_kv_store ms m)" for m
    by (rule get_set_kv_store [OF kv(1)])
  have iso: "db_get (?D q) s1 = db_get (?D q) s" if "q \<in> set names" "q \<noteq> n" for q
    using inc n(1) that by (intro 1(4)) (auto simp: incomparable_def)
  have "\<exists>ms' t. import_states H names sts ver ?ms s1
      = Some (map (\<lambda>(n, _). \<lparr> info_name = n, info_hash = ahash ?C (f n) \<rparr>) sts, ms', t) \<and>
     P t \<and> map fst (stores ms') = map fst (stores ?ms) \<and>
     (\<forall>n \<in> fst ` set sts. \<exists>kv. get_kv_store ms' n = Some kv \<and> synced ?C (?D n) t (f n) kv) \<and>
     (\<forall>n \<in> set names - fst ` set sts. get_kv_store ms' n = get_kv_store ?ms n \<and>
        db_get (?D n) t = db_get (?D n) s1) \<and>
     (\<forall>n \<in> set names. \<forall>k. db_get (?D n) t (1 # k) = db_get (?D n) s1 (1 # k))"
  proof (rule Cons.IH)
    show "\<forall>n \<in> set names. \<exists>kv. get_kv_store ?ms n = Some kv \<and> block_cache kv = [] \<and> tx_cache kv = []"
      using Cons.prems(4) 1(3) by (simp add: g synced_def)
  qed (use Cons.prems(1-3) 1(2) in auto)
  then obtain ms' t where 2: "import_states H names sts ver ?ms s1
      = Some (map (\<lambda>(n, _). \<lparr> info_name = n, info_hash = ahash ?C (f n) \<rparr>) sts, ms', t)"
    "P t" "map fst (stores ms') = map fst (stores ?ms)"
    "\<forall>n \<in> fst ` set sts. \<exists>kv. get_kv_store ms' n = Some kv \<and> synced ?C (?D n) t (f n) kv"
    "\<forall>n \<in> set names - fst ` set sts. get_kv_store ms' n = get_kv_store ?ms n \<and>
      db_get (?D n) t = db_get (?D n) s1"
    "\<forall>n \<in> set names. \<forall>k. db_get (?D n) t (1 # k) = db_get (?D n) s1 (1 # k)" by blast
  have "import_states H names (e # sts) ver ms s
      = Some (map (\<lambda>(n, _). \<lparr> info_name = n, info_hash = ahash ?C (f n) \<rparr>) (e # sts), ms', t)"
    using n(1) kv(1) 1(1) 2(1) by (simp add: e del: prefixdb_ops_simps)
  moreover have "map fst (stores ms') = map fst (stores ms)"
    unfolding 2(3) by (simp add: set_kv_store_def case_prod_beta o_def)
  moreover have "get_kv_store ms' n = Some kv'" "synced ?C (?D n) t (f n) kv'"
    using 2(5) n g full_key_scan.synced_view [OF D _ 1(3), of t] by auto
  moreover have "\<forall>m \<in> set names - fst ` set (e # sts). get_kv_store ms' m = get_kv_store ms m \<and>
      db_get (?D m) t = db_get (?D m) s"
    using 2(5) g iso e by (auto simp del: prefixdb_ops_simps)
  moreover have "\<forall>m \<in> set names. \<forall>k. db_get (?D m) t (1 # k) = db_get (?D m) s (1 # k)"
  proof (intro ballI allI)
    fix m k
    assume "m \<in> set names"
    with 2(6) 1(5) iso [of m] show "db_get (?D m) t (1 # k) = db_get (?D m) s (1 # k)"
      by (cases "m = n") simp_all
  qed
  ultimately show ?case using 2(2,4) e by (intro exI [of _ ms'] exI [of _ t]) (simp del: prefixdb_ops_simps)
qed simp

section \<open>Two nodes\<close>

text \<open>The trees of a node between commits; none of them is empty.\<close>

definition holds_trees :: "'db host \<Rightarrow> 'db app_node \<Rightarrow> (bytes \<Rightarrow> atree) \<Rightarrow> bool" where
  "holds_trees H nd f \<longleftrightarrow> (\<forall>(n, kv) \<in> set (stores (nd_multi_store nd)).
     tree_loaded_version (persistent_store kv) = nd_height nd \<and>
     committed (storage H) (module_db (host_db H) n) (nd_db nd) (persistent_store kv) (Some (f n)))"

lemma gaia_store:
  assumes "map fst (stores ms) = gaia_store_names" "n \<in> set gaia_store_names"
  obtains kv where "get_kv_store ms n = Some kv" "(n, kv) \<in> set (stores ms)"
proof -
  have "n \<in> fst ` set (stores ms)" using assms by (metis list.set_map)
  then obtain kv where "map_of (stores ms) n = Some kv" by (metis (no_types) not_None_eq map_of_eq_None_iff)
  then show thesis using that [of kv] map_of_SomeD [of "stores ms" n kv] by (simp add: get_kv_store_def)
qed

lemma holds_treesE:
  assumes "holds_trees H nd f" "map fst (stores (nd_multi_store nd)) = gaia_store_names"
    and "n \<in> set gaia_store_names"
  obtains kv where "get_kv_store (nd_multi_store nd) n = Some kv"
    "tree_loaded_version (persistent_store kv) = nd_height nd"
    "committed (storage H) (module_db (host_db H) n) (nd_db nd) (persistent_store kv) (Some (f n))"
proof -
  obtain kv where "get_kv_store (nd_multi_store nd) n = Some kv" "(n, kv) \<in> set (stores (nd_multi_store nd))"
    by (rule gaia_store [OF assms(2,3)])
  with assms(1) show thesis using that [of kv] by (auto simp: holds_trees_def)
qed

lemma gaia_app_sync [simp]:
  "app_store_names (gaia_app H env) = gaia_store_names" "app_peer_id (gaia_app H env) = env_peer_id env"
  by (simp_all add: gaia_app_def)

abbreviation tree_info :: "crates \<Rightarrow> (bytes \<Rightarrow> atree) \<Rightarrow> bytes \<Rightarrow> store_info" where
  "tree_info C f n \<equiv> \<lparr> info_name = n, info_hash = ahash C (f n) \<rparr>"

lemma holds_trees_hash:
  assumes f: "holds_trees H nd f" and nm: "map fst (stores (nd_multi_store nd)) = gaia_store_names"
    and jc: "just_committed (storage H) (nd_multi_store nd)" and ms: "mset names = mset gaia_store_names"
  shows "hash_store_infos (storage H) (map (tree_info (storage H) f) names)
    = Some (head_commit_hash (nd_multi_store nd))"
proof -
  let ?C = "storage H" and ?ms = "nd_multi_store nd"
  have "map (\<lambda>(n, kv). \<lparr> info_name = n, info_hash = kv_head_commit_hash ?C kv \<rparr>) (stores ?ms)
      = map (tree_info ?C f \<circ> fst) (stores ?ms)"
    using f by (auto simp: holds_trees_def kv_head_commit_hash_def tree_root_hash_def committed_def)
  also have "\<dots> = map (tree_info ?C f) gaia_store_names" unfolding nm [symmetric] by simp
  finally have "hash_store_infos ?C (map (tree_info ?C f) gaia_store_names) = Some (head_commit_hash ?ms)"
    using jc unfolding just_committed_def by (elim conjE) (simp only:)
  moreover have "mset (map (tree_info ?C f) names) = mset (map (tree_info ?C f) gaia_store_names)"
    using ms by (simp only: mset_map)
  then have "hash_store_infos ?C (map (tree_info ?C f) names) = hash_store_infos ?C (map (tree_info ?C f) gaia_store_names)"
    by (rule hash_store_infos_perm)
  ultimately show ?thesis by (simp only:)
qed

text \<open>What arrives, in any order.\<close>

lemma arrived_states:
  assumes C: "varint_ok (storage H)" "sha256_ok (storage H)" and f: "holds_trees H nd f"
    and nm: "map fst (stores (nd_multi_store nd)) = gaia_store_names"
    and r: "reordered (map (\<lambda>n. module_state (storage H) n (f n)) gaia_store_names) states"
  shows "mset (map fst states) = mset gaia_store_names" "distinct (map fst states)"
    "fst ` set states = set gaia_store_names"
    "\<forall>(n, h, ns) \<in> set states. h = u8_array_to_hex_string (ahash (storage H) (f n)) \<and>
       set ns = node_entry (storage H) ` subs (f n)"
proof -
  let ?sts = "map (\<lambda>n. module_state (storage H) n (f n)) gaia_store_names"
  have fm: "map fst ?sts = gaia_store_names" by (simp add: module_state_def o_def)
  show ms: "mset (map fst states) = mset gaia_store_names" using reorderedE(1) [OF r] unfolding fm .
  then show "distinct (map fst states)" "fst ` set states = set gaia_store_names"
    using gaia_store_names(2) mset_eq_imp_distinct_iff [OF ms] mset_eq_setD [OF ms] by auto
  show "\<forall>(n, h, ns) \<in> set states. h = u8_array_to_hex_string (ahash (storage H) (f n)) \<and>
       set ns = node_entry (storage H) ` subs (f n)"
  proof clarify
    fix n h ns
    assume "(n, h, ns) \<in> set states"
    from reorderedE(2) [OF r this] obtain ns0 where ns0: "(n, h, ns0) \<in> set ?sts" "set ns = set ns0" by blast
    then have n: "n \<in> set gaia_store_names" by (auto simp: module_state_def)
    obtain kv :: kvstore where
      "committed (storage H) (module_db (host_db H) n) (nd_db nd) (persistent_store kv) (Some (f n))"
      by (rule holds_treesE [OF f nm n])
    from export_entries [OF C committed_export(1) [OF this]] ns0
    show "h = u8_array_to_hex_string (ahash (storage H) (f n)) \<and> set ns = node_entry (storage H) ` subs (f n)"
      by (auto simp: module_state_def)
  qed
qed

lemma committed_trees:
  assumes i: "node_inv H P nd bal accs"
    and ne: "\<forall>(n, kv) \<in> set (stores (nd_multi_store nd)). tree_root (persistent_store kv) \<noteq> None"
  obtains f where "holds_trees H nd f"
proof -
  let ?ok = "\<lambda>n kv a. tree_loaded_version (persistent_store kv) = nd_height nd \<and>
    committed (storage H) (module_db (host_db H) n) (nd_db nd) (persistent_store kv) (Some a)"
  have d: "distinct (map fst (stores (nd_multi_store nd)))"
    using i gaia_store_names(2) by (simp add: node_inv_def)
  have "\<exists>a. ?ok n kv a" if m: "(n, kv) \<in> set (stores (nd_multi_store nd))" for n kv
  proof -
    from i m obtain ta where ta: "committed (storage H) (module_db (host_db H) n) (nd_db nd) (persistent_store kv) ta"
      "tree_loaded_version (persistent_store kv) = nd_height nd"
      by (fastforce simp: node_inv_def stores_committed_def kv_last_committed_version_def)
    moreover have "tree_root (persistent_store kv) \<noteq> None" using ne m by blast
    ultimately show ?thesis by (cases ta) (auto simp: committed_def)
  qed
  then have "\<forall>e \<in> set (stores (nd_multi_store nd)). \<exists>a. ?ok (fst e) (snd e) a" by auto
  then obtain g where g: "\<forall>e \<in> set (stores (nd_multi_store nd)). ?ok (fst e) (snd e) (g e)"
    by (rule bchoice [THEN exE])
  show thesis
  proof (rule that [of "\<lambda>n. g (n, the (map_of (stores (nd_multi_store nd)) n))"], unfold holds_trees_def, clarify)
    fix n kv
    assume m: "(n, kv) \<in> set (stores (nd_multi_store nd))"
    then have "map_of (stores (nd_multi_store nd)) n = Some kv" using d by simp
    with g m show "?ok n kv (g (n, the (map_of (stores (nd_multi_store nd)) n)))" by fastforce
  qed
qed

text \<open>
  A node to which nothing was written since its last commit, and a node whose stores are copies of
  those of another one.
\<close>

definition quiet_node :: "'db host \<Rightarrow> ('db \<Rightarrow> bool) \<Rightarrow> 'db app_node \<Rightarrow> bool" where
  "quiet_node H P nd \<longleftrightarrow> P (nd_db nd) \<and> map fst (stores (nd_multi_store nd)) = gaia_store_names \<and>
     (\<forall>(n, kv) \<in> set (stores (nd_multi_store nd)). block_cache kv = [] \<and> tx_cache kv = [])"

definition copied :: "'db host \<Rightarrow> 'db app_node \<Rightarrow> (bytes \<Rightarrow> atree) \<Rightarrow> 'db app_node \<Rightarrow> bool" where
  "copied H nd f nd' \<longleftrightarrow> nd_height nd' = nd_height nd \<and>
     get_last_commit_hash nd' = get_last_commit_hash nd \<and>
     (\<forall>n \<in> set gaia_store_names. \<exists>kv. get_kv_store (nd_multi_store nd') n = Some kv \<and>
        synced (storage H) (module_db (host_db H) n) (nd_db nd') (f n) kv)"

lemma copied_caches:
  assumes "\<forall>n \<in> set gaia_store_names. \<exists>kv. get_kv_store ms n = Some kv \<and> synced C (D n) s (f n) kv"
    and "map fst (stores ms) = gaia_store_names"
  shows "\<forall>(n, kv) \<in> set (stores ms). block_cache kv = [] \<and> tx_cache kv = []"
proof clarify
  fix n kv
  assume m: "(n, kv) \<in> set (stores ms)"
  then have "get_kv_store ms n = Some kv" using assms(2) gaia_store_names(2) by (simp add: get_kv_store_def)
  moreover have "n \<in> set gaia_store_names" using m assms(2) by (metis fst_conv image_eqI list.set_map)
  ultimately show "block_cache kv = [] \<and> tx_cache kv = []" using assms(1) by (force simp: synced_def)
qed

lemma state_received:
  fixes H :: "'db host"
  assumes D: "full_key_scan (host_db H) P" and C: "varint_ok (storage H)" "sha256_ok (storage H)"
    and nm: "map fst (stores (nd_multi_store nd)) = gaia_store_names"
    and jc: "just_committed (storage H) (nd_multi_store nd)" and f: "holds_trees H nd f"
    and q: "quiet_node H P nd2" and less: "nd_height nd2 < nd_height nd"
    and r: "reordered (map (\<lambda>n. module_state (storage H) n (f n)) gaia_store_names) states"
  obtains nd2' where "process_message H (gaia_app H env) nd2 (StateMsg states (nd_height nd) (env_peer_id env))
      = Some (None, nd2')" "copied H nd f nd2'" "quiet_node H P nd2'"
    "\<forall>n \<in> set gaia_store_names. \<forall>v. get_root_hash (storage H) (module_db (host_db H) n) (nd_db nd2') v
      = get_root_hash (storage H) (module_db (host_db H) n) (nd_db nd2) v"
    "\<forall>n \<in> set gaia_store_names. \<forall>k. db_get (module_db (host_db H) n) (nd_db nd2') (ROOTS_PREFIX @ k)
      = db_get (module_db (host_db H) n) (nd_db nd2) (ROOTS_PREFIX @ k)"
proof -
  let ?C = "storage H" and ?D = "\<lambda>n. module_db (host_db H) n" and ?ms = "nd_multi_store nd"
  have names: "map fst (stores (nd_multi_store nd2)) = gaia_store_names" and s: "P (nd_db nd2)"
    and ec: "\<forall>(n, kv) \<in> set (stores (nd_multi_store nd2)). block_cache kv = [] \<and> tx_cache kv = []"
    using q by (simp_all add: quiet_node_def)
  note st = arrived_states [OF C f nm r]
  have c: "\<forall>n \<in> set gaia_store_names. \<exists>s0 t0. committed ?C (?D n) s0 t0 (Some (f n))"
    by (metis holds_treesE [OF f nm])
  have k: "\<forall>n \<in> set gaia_store_names. \<exists>kv. get_kv_store (nd_multi_store nd2) n = Some kv \<and>
      block_cache kv = [] \<and> tx_cache kv = []"
    using ec by (blast elim: gaia_store [OF names])
  obtain ms' t where t: "import_states H gaia_store_names states (nd_height nd) (nd_multi_store nd2) (nd_db nd2)
      = Some (map (\<lambda>(n, _). tree_info ?C f n) states, ms', t)" "P t"
    "map fst (stores ms') = map fst (stores (nd_multi_store nd2))"
    "\<forall>n \<in> set gaia_store_names. \<exists>kv. get_kv_store ms' n = Some kv \<and> synced ?C (?D n) t (f n) kv"
    "\<forall>n \<in> set gaia_store_names. \<forall>k. db_get (?D n) t (1 # k) = db_get (?D n) (nd_db nd2) (1 # k)"
    using import_all [OF D C gaia_names_incomparable c st(2) equalityD1 [OF st(3)] st(4) k s, of "nd_height nd"]
    unfolding st(3) by blast
  have "map (\<lambda>(n, _). tree_info ?C f n) states = map (tree_info ?C f) (map fst states)" by auto
  then have hash: "hash_store_infos ?C (map (\<lambda>(n, _). tree_info ?C f n) states) = Some (head_commit_hash ?ms)"
    using holds_trees_hash [OF f nm jc st(1)] by (simp only:)
  let ?ms' = "set_head_version (set_head_commit_hash ms' (head_commit_hash ?ms)) (nd_height nd)"
  let ?nd' = "update_block_height (nd2\<lparr> nd_multi_store := ?ms', nd_db := t \<rparr>) (nd_height nd)"
  note fields = update_block_height_def get_last_commit_hash_def set_head_version_def
    set_head_commit_hash_def get_kv_store_def
  show thesis
  proof (rule that [of ?nd'])
    show "process_message H (gaia_app H env) nd2 (StateMsg states (nd_height nd) (env_peer_id env))
        = Some (None, ?nd')"
      using less t(1) hash by (simp add: process_state_msg_def)
    show "copied H nd f ?nd'" using t(4) by (simp add: copied_def fields)
    show "quiet_node H P ?nd'"
      using t(2,3) names copied_caches [OF t(4)] by (simp add: quiet_node_def fields)
    show "\<forall>n \<in> set gaia_store_names. \<forall>v. get_root_hash ?C (?D n) (nd_db ?nd') v
        = get_root_hash ?C (?D n) (nd_db nd2) v"
      using t(5) by (simp add: get_root_hash_def get_root_key_def ROOTS_PREFIX_def update_block_height_def
          del: prefixdb_ops_simps)
    show "\<forall>n \<in> set gaia_store_names. \<forall>k. db_get (?D n) (nd_db ?nd') (ROOTS_PREFIX @ k)
        = db_get (?D n) (nd_db nd2) (ROOTS_PREFIX @ k)"
      using t(5) by (simp add: ROOTS_PREFIX_def update_block_height_def del: prefixdb_ops_simps)
  qed
qed

lemma copied_node_rel:
  fixes H :: "'db host"
  assumes i: "node_inv H P nd bal accs" and jc: "just_committed (storage H) (nd_multi_store nd)"
    and f: "holds_trees H nd f"
    and cp: "copied H nd f nd'" and q: "quiet_node H P' nd'"
  shows "node_rel (gaia_rel (node_host H nd')) (nd_multi_store nd') bal accs"
  unfolding node_rel_def
proof (intro conjI allI)
  let ?C = "storage H" and ?D = "\<lambda>n. module_db (host_db H) n"
  let ?ms = "nd_multi_store nd" and ?ms' = "nd_multi_store nd'"
  show "clean ?ms'"
    by (rule empty_caches_clean) (use q gaia_store_names(2) in \<open>simp_all add: quiet_node_def\<close>)
  have H': "node_host H nd' = (node_host H nd)\<lparr> host_state := nd_db nd' \<rparr>" by (simp add: node_host_def)
  show "gaia_rel (node_host H nd') (TxContext (tx_context_new ?ms' h header raw)) bal accs" for h header raw
    unfolding H'
  proof (rule gaia_rel_moved)
    show "gaia_rel (node_host H nd) (TxContext (tx_context_new ?ms h header raw)) bal accs"
      using i by (simp add: node_inv_def node_rel_def)
    fix n kv
    assume "get_kv_store (ctx_multi_store (TxContext (tx_context_new ?ms h header raw))) n = Some kv"
    then have m: "(n, kv) \<in> set (stores ?ms)" by (simp add: tx_context_new_def get_kv_store_def map_of_SomeD)
    then have "n \<in> set gaia_store_names" using i by (metis node_inv_def fst_conv image_eqI list.set_map)
    with cp obtain kv' where kv': "get_kv_store ?ms' n = Some kv'"
      "synced ?C (?D n) (nd_db nd') (f n) kv'" unfolding copied_def by blast
    have "committed ?C (?D n) (nd_db nd) (persistent_store kv) (Some (f n))" using f m by (auto simp: holds_trees_def)
    from committed_tree_get [OF this] jc m
    have "kv_get ?C (?D n) (nd_db nd) kv k = Some (map_of (entries (f n)) k)" for k
      by (auto simp: just_committed_def kv_get_def)
    with synced_reads [OF kv'(2)]
    have "kv_read ((node_host H nd)\<lparr> host_state := nd_db nd' \<rparr>) n kv' k = kv_read (node_host H nd) n kv k" for k
      by (simp add: kv_read_def node_host_def del: prefixdb_ops_simps)
    with kv'(1) show "\<exists>kv'. get_kv_store (ctx_multi_store (TxContext (tx_context_new ?ms' h header raw))) n = Some kv' \<and>
        (\<forall>k. kv_read ((node_host H nd)\<lparr> host_state := nd_db nd' \<rparr>) n kv' k = kv_read (node_host H nd) n kv k)"
      by (simp add: tx_context_new_def)
  qed
qed

section \<open>Versions that are not recorded\<close>

context prefix_stripping
begin

lemma unlisted_version:
  assumes "varint_ok C" "inv s" "get_versions C D s = Some vs" "v \<notin> set vs"
  shows "get_root_hash C D s v = Some (Inl VersionNotFound)"
proof -
  obtain es where es: "db_prefix_iterator D s ROOTS_PREFIX = Some es"
    "\<And>k w. (k, w) \<in> set es \<longleftrightarrow> db_get D s (ROOTS_PREFIX @ k) = Some w"
    using scan [OF assms(2)] by blast
  have vs: "decode_versions C es = Some vs" using assms(3) es(1) by (simp add: get_versions_def)
  have "dec_u64 C (enc_u64 C v) = Some (v, length (enc_u64 C v))"
    using varint_okD(3) [OF assms(1), of v "[]"] by simp
  then have "(enc_u64 C v, w) \<notin> set es" for w
    using decode_versions_Some [OF vs] assms(4) by force
  then have "db_get D s (get_root_key C v) = None"
    using es(2) [of "enc_u64 C v"] unfolding get_root_key_def by (metis option.exhaust)
  then show ?thesis by (simp add: get_root_hash_def)
qed

end

definition unrecorded :: "'db host \<Rightarrow> 'db app_node \<Rightarrow> u64 \<Rightarrow> bool" where
  "unrecorded H nd h \<longleftrightarrow> (\<forall>n \<in> set gaia_store_names. \<forall>v > h.
     get_root_hash (storage H) (module_db (host_db H) n) (nd_db nd) v = Some (Inl VersionNotFound))"

lemma committed_unrecorded:
  fixes H :: "'db host"
  assumes D: "full_key_scan (host_db H) P" and C: "varint_ok (storage H)"
    and i: "node_inv H P nd bal accs"
  shows "unrecorded H nd (nd_height nd)"
  unfolding unrecorded_def
proof (intro ballI allI impI)
  fix n v
  assume n: "n \<in> set gaia_store_names" and v: "nd_height nd < v"
  have nm: "map fst (stores (nd_multi_store nd)) = gaia_store_names" and s: "P (nd_db nd)"
    using i by (simp_all add: node_inv_def)
  obtain kv where "(n, kv) \<in> set (stores (nd_multi_store nd))" by (rule gaia_store [OF nm n])
  with i obtain ta where c: "committed (storage H) (module_db (host_db H) n) (nd_db nd) (persistent_store kv) ta"
    "tree_loaded_version (persistent_store kv) = nd_height nd"
    by (fastforce simp: node_inv_def stores_committed_def kv_last_committed_version_def)
  have vs: "v \<notin> set (tree_versions (persistent_store kv))" using c v by (auto simp: committed_def)
  show "get_root_hash (storage H) (module_db (host_db H) n) (nd_db nd) v = Some (Inl VersionNotFound)"
    by (rule prefix_stripping.unlisted_version [OF full_key_scan.module_stripping [OF D] C s committed_versions [OF c(1)] vs])
qed

lemma export_panics:
  assumes "n \<in> set names"
    and "get_root_hash (storage H) (module_db (host_db H) n) (nd_db nd) (nd_height nd) = Some (Inl VersionNotFound)"
  shows "export_states H nd names = None"
proof -
  have "kv_load_all_nodes (storage H) (module_db (host_db H) n) (nd_db nd) (nd_height nd) = None"
    using assms(2) by (simp add: kv_load_all_nodes_def get_all_nodes_def get_root_node_def)
  with assms(1) show ?thesis
    by (induction names) (auto simp: bind_eq_None_conv simp del: prefixdb_ops_simps)
qed

lemma sync_answer:
  fixes H :: "'db host" and env env2 :: gaia_env
  assumes i: "node_inv H P nd bal accs"
    and ne: "\<forall>(n, kv) \<in> set (stores (nd_multi_store nd)). tree_root (persistent_store kv) \<noteq> None"
    and less: "nd_height nd2 < nd_height nd"
  obtains f where "holds_trees H nd f"
    "process_message H (gaia_app H env) nd (sync_version (gaia_app H env2) nd2)
      = Some (Some (StateMsg (map (\<lambda>n. module_state (storage H) n (f n)) gaia_store_names) (nd_height nd)
          (env_peer_id env2)), nd)"
proof -
  have nm: "map fst (stores (nd_multi_store nd)) = gaia_store_names" using i by (simp add: node_inv_def)
  obtain f where f: "holds_trees H nd f" by (rule committed_trees [OF i ne])
  have "export_states H nd gaia_store_names = Some (map (\<lambda>n. module_state (storage H) n (f n)) gaia_store_names)"
    by (rule export_all) (metis holds_treesE [OF f nm])
  with f show thesis using less by (intro that) (auto simp: sync_version_def process_version_msg_def)
qed

section \<open>The locks of a commit\<close>

text \<open>
  \<open>commit\<close> takes the lock of the height, releases it, and then takes the lock of the stores, while the
  reactor runs in a thread of its own. \<open>commit_locked\<close> is what happens under the second lock.
\<close>

definition commit_locked ::
  "'db host \<Rightarrow> u64 \<Rightarrow> 'db app_node \<Rightarrow> (response_commit \<times> 'db app_node) option" where
  "commit_locked H new_height nd = do {
     (hash, ms, db) \<leftarrow> multi_commit (storage H) (host_db H) (nd_db nd) (nd_multi_store nd);
     retain_height \<leftarrow> expect_i64 (new_height - 1);
     Some (\<lparr> rco_data = hash, rco_retain_height = retain_height \<rparr>,
       nd\<lparr> nd_multi_store := ms, nd_db := db \<rparr>) }"

lemma abci_commit_locked:
  "abci_commit H nd = do { (new_height, nd) \<leftarrow> increment_block_height nd; commit_locked H new_height nd }"
  by (simp add: abci_commit_def commit_locked_def)

section \<open>Properties\<close>

text \<open>
  (C7) Two nodes converge: when a node announces its height to a node that is ahead, and that node
  is between commits and has entries in all its stores, the answer carries these stores; and when
  the first node receives it between blocks, with no writes pending, its hash maps in any order and
  whatever its own trees held, it
  is afterwards at the same height with the same application hash, and it holds the same ledger and
  the same accounts. Nothing panics. Any other node ignores the answer.
\<close>

theorem nodes_converge:
  fixes H :: "'db host" and env env2 :: gaia_env
  assumes D: "full_key_scan (host_db H) P" and C: "varint_ok (storage H)" "sha256_ok (storage H)"
    and i: "node_inv H P nd bal accs" and jc: "just_committed (storage H) (nd_multi_store nd)"
    and ne: "\<forall>(n, kv) \<in> set (stores (nd_multi_store nd)). tree_root (persistent_store kv) \<noteq> None"
    and q: "quiet_node H P nd2" and less: "nd_height nd2 < nd_height nd"
  shows "\<exists>states. process_message H (gaia_app H env) nd (sync_version (gaia_app H env2) nd2)
       = Some (Some (StateMsg states (nd_height nd) (env_peer_id env2)), nd) \<and>
     (\<forall>states'. reordered states states' \<longrightarrow>
       (\<exists>nd2'. process_message H (gaia_app H env2) nd2 (StateMsg states' (nd_height nd) (env_peer_id env2))
            = Some (None, nd2') \<and>
          nd_height nd2' = nd_height nd \<and> get_last_commit_hash nd2' = get_last_commit_hash nd \<and>
          node_rel (gaia_rel (node_host H nd2')) (nd_multi_store nd2') bal accs) \<and>
       (\<forall>env3 nd3. env_peer_id env3 \<noteq> env_peer_id env2 \<longrightarrow>
          process_message H (gaia_app H env3) nd3 (StateMsg states' (nd_height nd) (env_peer_id env2))
            = Some (None, nd3)))"
proof -
  have nm: "map fst (stores (nd_multi_store nd)) = gaia_store_names" using i by (simp add: node_inv_def)
  let ?sts = "\<lambda>f. map (\<lambda>n. module_state (storage H) n (f n)) gaia_store_names"
  obtain f where f: "holds_trees H nd f" and ex: "process_message H (gaia_app H env) nd (sync_version (gaia_app H env2) nd2)
      = Some (Some (StateMsg (?sts f) (nd_height nd) (env_peer_id env2)), nd)"
    by (rule sync_answer [OF i ne less])
  have "process_message H (gaia_app H env3) nd3 (StateMsg states' h (env_peer_id env2)) = Some (None, nd3)"
    if "env_peer_id env3 \<noteq> env_peer_id env2" for env3 :: gaia_env and nd3 :: "'db app_node" and states' h
    using that by (simp add: process_state_msg_def)
  moreover have "\<exists>nd2'. process_message H (gaia_app H env2) nd2 (StateMsg states' (nd_height nd) (env_peer_id env2))
         = Some (None, nd2') \<and> nd_height nd2' = nd_height nd \<and>
       get_last_commit_hash nd2' = get_last_commit_hash nd \<and>
       node_rel (gaia_rel (node_host H nd2')) (nd_multi_store nd2') bal accs"
    if r: "reordered (?sts f) states'" for states'
  proof -
    obtain nd2' where "process_message H (gaia_app H env2) nd2 (StateMsg states' (nd_height nd) (env_peer_id env2))
        = Some (None, nd2')" "copied H nd f nd2'" "quiet_node H P nd2'"
      by (rule state_received [OF D C nm jc f q less r])
    moreover from copied_node_rel [OF i jc f this(2,3)]
    have "node_rel (gaia_rel (node_host H nd2')) (nd_multi_store nd2') bal accs" .
    ultimately show ?thesis by (auto simp: copied_def)
  qed
  ultimately show ?thesis using ex by blast
qed

text \<open>
  (C36) A node that has synchronized cannot pass its state on: state sync leaves no record of the
  version it takes over (and there was none for versions above the height of the node), so when
  another node announces a smaller height before the next commit, looking up the root of that
  version panics.
\<close>

theorem synced_node_panics:
  fixes H :: "'db host" and env env2 env3 :: gaia_env
  assumes D: "full_key_scan (host_db H) P" and C: "varint_ok (storage H)" "sha256_ok (storage H)"
    and i: "node_inv H P nd bal accs" and jc: "just_committed (storage H) (nd_multi_store nd)"
    and ne: "\<forall>(n, kv) \<in> set (stores (nd_multi_store nd)). tree_root (persistent_store kv) \<noteq> None"
    and q: "quiet_node H P nd2" and u: "unrecorded H nd2 (nd_height nd2)"
    and less: "nd_height nd2 < nd_height nd"
    and m: "process_message H (gaia_app H env) nd (sync_version (gaia_app H env2) nd2) = Some (Some msg, nd')"
    and m2: "process_message H (gaia_app H env2) nd2 msg = Some (None, nd2')"
    and less3: "nd_height nd3 < nd_height nd"
  shows "process_message H (gaia_app H env2) nd2' (sync_version (gaia_app H env3) nd3) = None"
proof -
  have nm: "map fst (stores (nd_multi_store nd)) = gaia_store_names" using i by (simp add: node_inv_def)
  let ?sts = "\<lambda>f. map (\<lambda>n. module_state (storage H) n (f n)) gaia_store_names"
  obtain f where f: "holds_trees H nd f" and "process_message H (gaia_app H env) nd (sync_version (gaia_app H env2) nd2)
      = Some (Some (StateMsg (?sts f) (nd_height nd) (env_peer_id env2)), nd)"
    by (rule sync_answer [OF i ne less])
  from trans [OF m [symmetric] this(2)] have msg: "msg = StateMsg (?sts f) (nd_height nd) (env_peer_id env2)" by simp
  obtain nd4 where nd4: "process_message H (gaia_app H env2) nd2 msg = Some (None, nd4)"
    "copied H nd f nd4" "\<forall>n \<in> set gaia_store_names. \<forall>v.
      get_root_hash (storage H) (module_db (host_db H) n) (nd_db nd4) v
      = get_root_hash (storage H) (module_db (host_db H) n) (nd_db nd2) v"
    by (rule state_received [OF D C nm jc f q less reordered_refl, of env2]) (rule that [unfolded msg])
  with m2 have nd2': "nd2' = nd4" by simp
  have h: "nd_height nd4 = nd_height nd" using nd4(2) by (simp add: copied_def)
  have B: "BANK \<in> set gaia_store_names" by (simp add: gaia_store_names_def BANK_def)
  from u less B nd4(3) h
  have "get_root_hash (storage H) (module_db (host_db H) BANK) (nd_db nd4) (nd_height nd4)
      = Some (Inl VersionNotFound)"
    by (simp add: unrecorded_def del: prefixdb_ops_simps)
  from export_panics [OF B this] less3 h show ?thesis
    by (simp add: nd2' sync_version_def process_version_msg_def)
qed

text \<open>
  (C37) A race: between the two locks of a commit the node has the new height, but the version is not
  recorded yet. When the reactor handles the announcement of a node that is behind at this point, it
  looks up the root of the version and panics, whatever the state of the chain.
\<close>

theorem commit_race_panics:
  fixes H :: "'db host" and env :: gaia_env
  assumes D: "full_key_scan (host_db H) P" and C: "varint_ok (storage H)"
    and i: "node_inv H P nd bal accs"
    and v: "checked_add (nd_height nd) 1 = Some new_height" and behind: "best_height \<le> nd_height nd"
  shows "\<exists>nd1. increment_block_height nd = Some (new_height, nd1) \<and>
     abci_commit H nd = commit_locked H new_height nd1 \<and>
     process_message H (gaia_app H env) nd1 (VersionMsg best_height from_addr) = None"
proof -
  let ?nd1 = "nd\<lparr> nd_height := new_height \<rparr>"
  have h: "increment_block_height nd = Some (new_height, ?nd1)" using v by (simp add: increment_block_height_def)
  have less: "nd_height nd < new_height" by (rule checked_add_1_less [OF v order_refl])
  have B: "BANK \<in> set gaia_store_names" by (simp add: gaia_store_names_def BANK_def)
  with committed_unrecorded [OF D C i] less
  have "get_root_hash (storage H) (module_db (host_db H) BANK) (nd_db ?nd1) (nd_height ?nd1)
      = Some (Inl VersionNotFound)"
    by (simp add: unrecorded_def del: prefixdb_ops_simps)
  from export_panics [OF B this] less behind
  have "process_message H (gaia_app H env) ?nd1 (VersionMsg best_height from_addr) = None"
    by (simp add: process_version_msg_def)
  with h show ?thesis by (simp add: abci_commit_locked)
qed

theorem commit_race_panics_witness:
  "\<exists>nd1. increment_block_height demo_pending = Some (1, nd1) \<and>
     process_message demo_host (gaia_app demo_host demo_env) nd1 (VersionMsg 0 []) = None"
proof -
  have "checked_add (nd_height demo_pending) 1 = Some 1" by (simp add: checked_add_def)
  from commit_race_panics [OF demo_database(1) demo_storage_laws(1) demo_pending_inv this, of 0]
  show ?thesis by force
qed

text \<open>The example: the first commit of the example node, and a node that was just started.\<close>

definition demo_behind :: "memdb app_node" where
  "demo_behind = \<lparr> nd_multi_store = demo_stores, nd_height = 0, nd_block_header = None, nd_db = memdb_new \<rparr>"

lemma demo_behind_quiet: "quiet_node demo_host memdb_ok demo_behind"
  using demo_database(2)
  by (simp add: quiet_node_def demo_behind_def demo_stores_def gaia_store_names_def BANK_def ACC_def
      PARAMS_def empty_store_def)

lemma demo_behind_unrecorded: "unrecorded demo_host demo_behind (nd_height demo_behind)"
  by (simp add: unrecorded_def demo_behind_def get_root_hash_def prefixdb_get_def prefixdb_new_def
      memdb_ops_def memdb_get_def memdb_new_def)

lemma demo_pending_reads:
  assumes "n \<in> set gaia_store_names"
  shows "\<exists>kv k v. get_kv_store (nd_multi_store demo_pending) n = Some kv \<and>
     kv_read (node_host demo_host demo_pending) n kv k = Some (Some v)"
proof -
  have r: "\<exists>k v. kv_read H n (empty_store\<lparr> block_cache := [e] \<rparr>) k = Some (Some v)" for H :: "memdb host" and n e
    by (intro exI [of _ "fst e"] exI [of _ "snd e"])
      (cases e, simp add: kv_read_def kv_get_def empty_store_def)
  have "n \<in> {BANK, ACC, PARAMS}" using assms by (simp add: gaia_store_names_def BANK_def ACC_def PARAMS_def)
  moreover have "BANK \<noteq> ACC" "BANK \<noteq> PARAMS" "ACC \<noteq> PARAMS" by (simp_all add: BANK_def ACC_def PARAMS_def)
  ultimately show ?thesis using r by (auto simp: get_kv_store_def)
qed

lemma demo_committed:
  obtains nd where "node_inv demo_host memdb_ok nd demo_ledger Map.empty" "nd_height nd = 1"
    "just_committed (storage demo_host) (nd_multi_store nd)"
    "\<forall>(n, kv) \<in> set (stores (nd_multi_store nd)). tree_root (persistent_store kv) \<noteq> None"
proof -
  have v: "checked_add (nd_height demo_pending) 1 = Some 1" "uint (nd_height demo_pending) < 2 ^ 63"
    by (simp_all add: checked_add_def)
  obtain res nd where c: "node_inv demo_host memdb_ok nd demo_ledger Map.empty" "nd_height nd = 1"
    "just_committed (storage demo_host) (nd_multi_store nd)"
    "\<forall>n kv. get_kv_store (nd_multi_store demo_pending) n = Some kv \<longrightarrow>
      (\<exists>kv'. get_kv_store (nd_multi_store nd) n = Some kv' \<and>
        (\<forall>k. kv_read (node_host demo_host nd) n kv' k = kv_read (node_host demo_host demo_pending) n kv k))"
    by (rule chain_commit [OF demo_database(1) demo_storage_laws demo_pending_inv demo_pending_clean v])
  have d: "distinct (map fst (stores (nd_multi_store nd)))"
    and nm: "map fst (stores (nd_multi_store nd)) = gaia_store_names"
    using c(1) gaia_store_names(2) by (simp_all add: node_inv_def)
  have "tree_root (persistent_store kv) \<noteq> None" if m: "(n, kv) \<in> set (stores (nd_multi_store nd))" for n kv
  proof
    assume r: "tree_root (persistent_store kv) = None"
    have "n \<in> set gaia_store_names" using m nm by (metis fst_conv image_eqI list.set_map)
    with demo_pending_reads c(4) obtain kv' k v where kv': "get_kv_store (nd_multi_store nd) n = Some kv'"
      "kv_read (node_host demo_host nd) n kv' k = Some (Some v)" by metis
    moreover have "kv' = kv" using kv'(1) m d by (simp add: get_kv_store_def)
    moreover have "block_cache kv = []" "tx_cache kv = []" using c(3) m by (auto simp: just_committed_def)
    ultimately show False using r by (simp add: kv_read_def kv_get_def tree_get_def)
  qed
  with c(1-3) show thesis using that by blast
qed

theorem nodes_converge_witness:
  "\<exists>nd states nd2. nd_height nd = 1 \<and>
     process_message demo_host (gaia_app demo_host demo_env) nd
       (sync_version (gaia_app demo_host demo_env) demo_behind)
       = Some (Some (StateMsg states 1 (env_peer_id demo_env)), nd) \<and>
     process_message demo_host (gaia_app demo_host demo_env) demo_behind
       (StateMsg states 1 (env_peer_id demo_env)) = Some (None, nd2) \<and>
     nd_height nd2 = 1 \<and> get_last_commit_hash nd2 = get_last_commit_hash nd"
proof -
  obtain nd where nd: "node_inv demo_host memdb_ok nd demo_ledger Map.empty" "nd_height nd = 1"
    "just_committed (storage demo_host) (nd_multi_store nd)"
    "\<forall>(n, kv) \<in> set (stores (nd_multi_store nd)). tree_root (persistent_store kv) \<noteq> None"
    by (rule demo_committed)
  have less: "nd_height demo_behind < nd_height nd" using nd(2) by (simp add: demo_behind_def)
  from nodes_converge [OF demo_database(1) demo_storage_laws nd(1,3,4) demo_behind_quiet less, of demo_env demo_env]
  show ?thesis using nd(2) reordered_refl by metis
qed

theorem synced_node_panics_witness:
  "\<exists>nd msg nd2. process_message demo_host (gaia_app demo_host demo_env) nd
       (sync_version (gaia_app demo_host demo_env) demo_behind) = Some (Some msg, nd) \<and>
     process_message demo_host (gaia_app demo_host demo_env) demo_behind msg = Some (None, nd2) \<and>
     process_message demo_host (gaia_app demo_host demo_env) nd2
       (sync_version (gaia_app demo_host demo_env) demo_behind) = None"
proof -
  obtain nd where nd: "node_inv demo_host memdb_ok nd demo_ledger Map.empty" "nd_height nd = 1"
    "just_committed (storage demo_host) (nd_multi_store nd)"
    "\<forall>(n, kv) \<in> set (stores (nd_multi_store nd)). tree_root (persistent_store kv) \<noteq> None"
    by (rule demo_committed)
  note b = demo_behind_quiet
  have less: "nd_height demo_behind < nd_height nd" using nd(2) by (simp add: demo_behind_def)
  note u = demo_behind_unrecorded
  have nm: "map fst (stores (nd_multi_store nd)) = gaia_store_names" using nd(1) by (simp add: node_inv_def)
  obtain f where f: "holds_trees demo_host nd f" and ans: "process_message demo_host (gaia_app demo_host demo_env) nd
       (sync_version (gaia_app demo_host demo_env) demo_behind)
      = Some (Some (StateMsg (map (\<lambda>n. module_state (storage demo_host) n (f n)) gaia_store_names) (nd_height nd)
          (env_peer_id demo_env)), nd)"
    by (rule sync_answer [OF nd(1,4) less])
  from state_received [OF demo_database(1) demo_storage_laws nm nd(3) f b less reordered_refl, of demo_env]
  obtain msg nd2 where m: "process_message demo_host (gaia_app demo_host demo_env) nd
       (sync_version (gaia_app demo_host demo_env) demo_behind) = Some (Some msg, nd)"
    "process_message demo_host (gaia_app demo_host demo_env) demo_behind msg = Some (None, nd2)"
    using ans by metis
  from synced_node_panics [OF demo_database(1) demo_storage_laws nd(1,3,4) b u less m less] m
  show ?thesis by blast
qed

end
