(* ===== verification/Network.thy ===== *)
theory Network
  imports Node_Sync
begin

text \<open>
  The peer-to-peer network (\<open>src/network/src\<close>) and the reactor loop of the application
  (\<open>sync\<close> and \<open>run_p2p_reactor\<close> of \<open>src/gears/src/baseapp/baseapp.rs\<close>): what a node publishes, what
  it does with an event, and runs of several nodes. \<open>libp2p\<close> with its gossip protocol, \<open>serde_json\<close>
  and the channel are parameters: \<open>'g\<close> is the state of a node's gossip, \<open>'w\<close> the type of serialized
  messages.
\<close>

section \<open>The third-party side\<close>

record ('w, 'g) p2p_lib =
  msg_to_vec :: "sync_message \<Rightarrow> bytes + 'w"
  msg_from_slice :: "'w \<Rightarrow> bytes + sync_message"
  gossip_publish :: "'g \<Rightarrow> bytes \<Rightarrow> 'w \<Rightarrow> (bytes + bytes) \<times> 'g"
  gossip_subscribe :: "'g \<Rightarrow> bytes \<Rightarrow> (bytes + bool) \<times> 'g"
  add_explicit_peer :: "bytes \<Rightarrow> 'g \<Rightarrow> 'g"
  remove_explicit_peer :: "bytes \<Rightarrow> 'g \<Rightarrow> 'g"

datatype 'w gossipsub_event =
  GossipMessage bytes bytes 'w
| GossipSubscribed bytes bytes
| GossipUnsubscribed bytes bytes
| GossipsubNotSupported bytes

datatype mdns_event = Discovered "(bytes \<times> bytes) list" | Expired "(bytes \<times> bytes) list"

section \<open>The behaviour of a node\<close>

definition BLOCK_TOPIC :: bytes where "BLOCK_TOPIC = lit ''blocks''"
definition TRANX_TOPIC :: bytes where "TRANX_TOPIC = lit ''tranxs''"

text \<open>The subscriptions of \<open>create_swarm\<close>; an error panics.\<close>

fun subscribe_all :: "('w, 'g) p2p_lib \<Rightarrow> bytes list \<Rightarrow> 'g \<Rightarrow> 'g option" where
  "subscribe_all N [] g = Some g"
| "subscribe_all N (topic # topics) g =
     (case gossip_subscribe N g topic of
        (Inl e, g) \<Rightarrow> None
      | (Inr b, g) \<Rightarrow> subscribe_all N topics g)"

record ('db, 'g) peer =
  peer_node :: "'db app_node"
  peer_queue :: "sync_message list"
  peer_swarm :: 'g

text \<open>\<open>Reactor::new\<close>: an empty channel and both topics.\<close>

definition reactor_new :: "('w, 'g) p2p_lib \<Rightarrow> 'g \<Rightarrow> 'db app_node \<Rightarrow> ('db, 'g) peer option" where
  "reactor_new N g nd = do {
     g \<leftarrow> subscribe_all N [BLOCK_TOPIC, TRANX_TOPIC] g;
     Some \<lparr> peer_node = nd, peer_queue = [], peer_swarm = g \<rparr> }"

text \<open>The receiver lives as long as the reactor, so sending to the channel succeeds.\<close>

definition inject_gossipsub_event ::
  "('w, 'g) p2p_lib \<Rightarrow> ('db, 'g) peer \<Rightarrow> 'w gossipsub_event \<Rightarrow> ('db, 'g) peer option" where
  "inject_gossipsub_event N x event =
     (case event of
        GossipMessage peer_id message_id data \<Rightarrow> do {
          msg \<leftarrow> unwrap_result (Some (msg_from_slice N data));
          Some (x\<lparr> peer_queue := peer_queue x @ [msg] \<rparr>) }
      | GossipSubscribed peer_id topic \<Rightarrow> Some x
      | GossipUnsubscribed peer_id topic \<Rightarrow> Some x
      | GossipsubNotSupported peer_id \<Rightarrow> None)"

definition inject_mdns_event ::
  "('w, 'g) p2p_lib \<Rightarrow> ('db, 'g) peer \<Rightarrow> mdns_event \<Rightarrow> ('db, 'g) peer" where
  "inject_mdns_event N x event =
     (case event of
        Discovered peers \<Rightarrow>
          x\<lparr> peer_swarm := fold (\<lambda>(peer_id, addr). add_explicit_peer N peer_id) peers (peer_swarm x) \<rparr>
      | Expired peers \<Rightarrow>
          x\<lparr> peer_swarm := fold (\<lambda>(peer_id, addr). remove_explicit_peer N peer_id) peers (peer_swarm x) \<rparr>)"

section \<open>The reactor loop\<close>

definition p2p_sync ::
  "('w, 'g) p2p_lib \<Rightarrow> ('db, 'm, 'ge) app \<Rightarrow> 'db app_node \<Rightarrow> 'g \<Rightarrow> (bool \<times> 'g) option" where
  "p2p_sync N app nd g = do {
     line \<leftarrow> unwrap_result (Some (msg_to_vec N (sync_version app nd)));
     let (publish_result, g) = gossip_publish N g BLOCK_TOPIC line;
     Some (case publish_result of Inr message_id \<Rightarrow> (True, g) | Inl e \<Rightarrow> (False, g)) }"

text \<open>How \<open>process_version_msg\<close> sends its answer: an error of the publication panics.\<close>

definition publish_answer ::
  "('w, 'g) p2p_lib \<Rightarrow> sync_message option \<Rightarrow> 'g \<Rightarrow> 'g option" where
  "publish_answer N reply g =
     (case reply of
        None \<Rightarrow> Some g
      | Some state_msg \<Rightarrow> do {
          msg \<leftarrow> unwrap_result (Some (msg_to_vec N state_msg));
          (case gossip_publish N g BLOCK_TOPIC msg of
             (Inr message_id, g) \<Rightarrow> Some g
           | (Inl e, g) \<Rightarrow> None) })"

text \<open>
  One round of \<open>run_p2p_reactor\<close>: the node announces its height, then takes a message from its
  channel, or handles an event of the swarm, which is logged, or its timer expires.
\<close>

datatype reactor_event = Received | SwarmEvent | Slept

definition reactor_round ::
  "('w, 'g) p2p_lib \<Rightarrow> 'db host \<Rightarrow> ('db, 'm, 'ge) app \<Rightarrow> ('db, 'g) peer \<Rightarrow> reactor_event \<Rightarrow>
     ('db, 'g) peer option" where
  "reactor_round N H app x event = do {
     (is_synced, g) \<leftarrow> p2p_sync N app (peer_node x) (peer_swarm x);
     (case event of
        Received \<Rightarrow>
          (case peer_queue x of
             [] \<Rightarrow> Some (x\<lparr> peer_swarm := g \<rparr>)
           | msg # queue \<Rightarrow> do {
               (reply, nd) \<leftarrow> process_message H app (peer_node x) msg;
               g \<leftarrow> publish_answer N reply g;
               Some \<lparr> peer_node = nd, peer_queue = queue, peer_swarm = g \<rparr> })
      | SwarmEvent \<Rightarrow> Some (x\<lparr> peer_swarm := g \<rparr>)
      | Slept \<Rightarrow> Some (x\<lparr> peer_swarm := g \<rparr>)) }"

section \<open>Runs of a network\<close>

text \<open>
  A network is its running nodes and everything that was ever published. \<open>sent\<close> tells what a
  gossip state has published; gossip delivers any of it, to any node, any number of times and in
  any order. A node that panics is gone.
\<close>

type_synonym ('db, 'w, 'g) network = "(bytes \<rightharpoonup> ('db, 'g) peer) \<times> (bytes \<times> 'w) set"

inductive net_step ::
  "('w, 'g) p2p_lib \<Rightarrow> ('g \<Rightarrow> (bytes \<times> 'w) set) \<Rightarrow> 'db host \<Rightarrow> (bytes \<Rightarrow> ('db, 'm, 'ge) app) \<Rightarrow>
     ('db, 'w, 'g) network \<Rightarrow> ('db, 'w, 'g) network \<Rightarrow> bool"
  for N sent H apps where
  round: "peers p = Some x \<Longrightarrow> reactor_round N H (apps p) x event = Some x' \<Longrightarrow>
    net_step N sent H apps (peers, msgs) (peers(p \<mapsto> x'), msgs \<union> sent (peer_swarm x'))"
| round_panic: "peers p = Some x \<Longrightarrow> reactor_round N H (apps p) x event = None \<Longrightarrow>
    net_step N sent H apps (peers, msgs) (peers(p := None), msgs)"
| gossip: "peers p = Some x \<Longrightarrow> (topic, data) \<in> msgs \<Longrightarrow>
    inject_gossipsub_event N x (GossipMessage source message_id data) = Some x' \<Longrightarrow>
    net_step N sent H apps (peers, msgs) (peers(p \<mapsto> x'), msgs)"
| gossip_panic: "peers p = Some x \<Longrightarrow> inject_gossipsub_event N x event = None \<Longrightarrow>
    net_step N sent H apps (peers, msgs) (peers(p := None), msgs)"
| mdns: "peers p = Some x \<Longrightarrow>
    net_step N sent H apps (peers, msgs) (peers(p \<mapsto> inject_mdns_event N x event), msgs)"

text \<open>
  What is relied on: messages survive serialization up to the order of their hash maps, and only
  publishing publishes.
\<close>

fun same_message :: "sync_message \<Rightarrow> sync_message \<Rightarrow> bool" where
  "same_message (VersionMsg h a) m \<longleftrightarrow> m = VersionMsg h a"
| "same_message (StateMsg states h a) m \<longleftrightarrow> (\<exists>states'. m = StateMsg states' h a \<and> reordered states states')"

definition p2p_ok :: "('w, 'g) p2p_lib \<Rightarrow> ('g \<Rightarrow> (bytes \<times> 'w) set) \<Rightarrow> bool" where
  "p2p_ok N sent \<longleftrightarrow>
     (\<forall>m w m'. msg_to_vec N m = Inr w \<longrightarrow> msg_from_slice N w = Inr m' \<longrightarrow> same_message m m') \<and>
     (\<forall>g topic w r g'. gossip_publish N g topic w = (r, g') \<longrightarrow> sent g' \<subseteq> insert (topic, w) (sent g)) \<and>
     (\<forall>p g. sent (add_explicit_peer N p g) = sent g \<and> sent (remove_explicit_peer N p g) = sent g)"

section \<open>Where the states of a run come from\<close>

lemma reordered_trans:
  assumes "reordered a b" "reordered b c"
  shows "reordered a c"
proof -
  let ?R = "\<lambda>(n, h, ns) (n', h', ns'). n' = n \<and> h' = h \<and> mset ns' = mset ns"
  from assms obtain us vs where u: "mset us = mset a" "list_all2 ?R us b"
    and v: "mset vs = mset b" "list_all2 ?R vs c" by (auto simp: reordered_def)
  have "list_all2 (conversep ?R) b us" using u(2) by (simp add: list.rel_conversep)
  from list_all2_reorder_left_invariance [OF this v(1)]
  obtain us' where "list_all2 ?R us' vs" "mset us' = mset us" by (auto simp: list.rel_conversep)
  moreover from list_all2_trans [OF _ this(1) v(2), of ?R] have "list_all2 ?R us' c" by fastforce
  ultimately show ?thesis using u(1) unfolding reordered_def by metis
qed

definition node_ready :: "'db host \<Rightarrow> ('db \<Rightarrow> bool) \<Rightarrow> 'db app_node \<Rightarrow> bool" where
  "node_ready H P nd \<longleftrightarrow> (\<exists>bal accs. node_inv H P nd bal accs) \<and>
     just_committed (storage H) (nd_multi_store nd) \<and>
     (\<forall>(n, kv) \<in> set (stores (nd_multi_store nd)). tree_root (persistent_store kv) \<noteq> None)"

definition node_fresh :: "'db host \<Rightarrow> ('db \<Rightarrow> bool) \<Rightarrow> 'db app_node \<Rightarrow> bool" where
  "node_fresh H P nd \<longleftrightarrow> quiet_node H P nd \<and> nd_height nd = 0 \<and> unrecorded H nd 0"

definition net_start :: "('g \<Rightarrow> (bytes \<times> 'w) set) \<Rightarrow> 'db host \<Rightarrow> ('db \<Rightarrow> bool) \<Rightarrow> (bytes \<rightharpoonup> ('db, 'g) peer) \<Rightarrow> bool" where
  "net_start sent H P peers \<longleftrightarrow> (\<forall>p x. peers p = Some x \<longrightarrow>
     (node_ready H P (peer_node x) \<or> node_fresh H P (peer_node x)) \<and>
     peer_queue x = [] \<and> sent (peer_swarm x) = {})"

definition source :: "'db host \<Rightarrow> ('db \<Rightarrow> bool) \<Rightarrow> (bytes \<rightharpoonup> ('db, 'g) peer) \<Rightarrow> 'db app_node \<Rightarrow> (bytes \<Rightarrow> atree) \<Rightarrow> bool" where
  "source H P peers nd f \<longleftrightarrow> (\<exists>q y. peers q = Some y \<and> nd = peer_node y) \<and> node_ready H P nd \<and> holds_trees H nd f"

fun good_message :: "'db host \<Rightarrow> ('db \<Rightarrow> bool) \<Rightarrow> (bytes \<rightharpoonup> ('db, 'g) peer) \<Rightarrow> sync_message \<Rightarrow> bool" where
  "good_message H P peers (VersionMsg h a) \<longleftrightarrow> True"
| "good_message H P peers (StateMsg states h a) \<longleftrightarrow> (\<exists>nd f. source H P peers nd f \<and> h = nd_height nd \<and>
     reordered (map (\<lambda>n. module_state (storage H) n (f n)) gaia_store_names) states)"

definition good_node :: "'db host \<Rightarrow> ('db \<Rightarrow> bool) \<Rightarrow> (bytes \<rightharpoonup> ('db, 'g) peer) \<Rightarrow> bytes \<Rightarrow> 'db app_node \<Rightarrow> bool" where
  "good_node H P peers p nd \<longleftrightarrow> (\<exists>x. peers p = Some x \<and> quiet_node H P nd \<and>
     unrecorded H nd (nd_height (peer_node x)) \<and>
     (nd = peer_node x \<and> (node_ready H P nd \<or> node_fresh H P nd) \<or>
      (\<exists>nd0 f. source H P peers nd0 f \<and> copied H nd0 f nd \<and> nd_height (peer_node x) < nd_height nd)))"

lemma good_message_same:
  "good_message H P peers m \<Longrightarrow> same_message m m' \<Longrightarrow> good_message H P peers m'"
proof (cases m)
  case (StateMsg states h a)
  assume g: "good_message H P peers m" and "same_message m m'"
  then obtain states' where m': "m' = StateMsg states' h a" "reordered states states'"
    using StateMsg by auto
  from g StateMsg obtain nd f where s: "source H P peers nd f" "h = nd_height nd"
    "reordered (map (\<lambda>n. module_state (storage H) n (f n)) gaia_store_names) states" by auto
  from reordered_trans [OF s(3) m'(2)] s(1,2) m'(1) show ?thesis
    unfolding good_message.simps m'(1) by blast
qed simp

lemma node_ready_facts:
  assumes "node_ready H P nd"
  shows "map fst (stores (nd_multi_store nd)) = gaia_store_names"
    "just_committed (storage H) (nd_multi_store nd)" "quiet_node H P nd"
  using assms by (auto simp: node_ready_def node_inv_def quiet_node_def just_committed_def)

lemma good_node_start:
  assumes "full_key_scan (host_db H) P" "varint_ok (storage H)" "net_start sent H P peers" "peers p = Some x"
  shows "good_node H P peers p (peer_node x)"
proof -
  from assms(3,4) have "node_ready H P (peer_node x) \<or> node_fresh H P (peer_node x)"
    by (auto simp: net_start_def)
  then show ?thesis
  proof
    assume r: "node_ready H P (peer_node x)"
    then obtain bal accs where "node_inv H P (peer_node x) bal accs" by (auto simp: node_ready_def)
    from committed_unrecorded [OF assms(1,2) this] r assms(4) node_ready_facts(3) [OF r]
    show ?thesis by (auto simp: good_node_def)
  qed (use assms(4) in \<open>auto simp: good_node_def node_fresh_def\<close>)
qed

text \<open>Answers come from nodes that are still as at the start.\<close>

lemma good_export:
  assumes g: "good_node H P peers p nd" and h: "h < nd_height nd"
    and ex: "export_states H nd gaia_store_names = Some states"
  shows "good_message H P peers (StateMsg states (nd_height nd) a)"
proof -
  from g obtain x where x: "peers p = Some x" "unrecorded H nd (nd_height (peer_node x))"
    "nd = peer_node x \<and> (node_ready H P nd \<or> node_fresh H P nd) \<or> nd_height (peer_node x) < nd_height nd"
    by (auto simp: good_node_def)
  have B: "BANK \<in> set gaia_store_names" by (simp add: gaia_store_names_def BANK_def)
  have "\<not> nd_height (peer_node x) < nd_height nd"
  proof
    assume "nd_height (peer_node x) < nd_height nd"
    with x(2) B have "get_root_hash (storage H) (module_db (host_db H) BANK) (nd_db nd) (nd_height nd)
        = Some (Inl VersionNotFound)" by (simp add: unrecorded_def del: prefixdb_ops_simps)
    from export_panics [OF B this] ex show False by simp
  qed
  moreover have "\<not> node_fresh H P nd" using h by (auto simp: node_fresh_def)
  ultimately have r: "node_ready H P nd" "nd = peer_node x" using x(3) by auto
  then obtain bal accs where i: "node_inv H P nd bal accs" by (auto simp: node_ready_def)
  obtain f where f: "holds_trees H nd f"
    by (rule committed_trees [OF i]) (use r(1) in \<open>auto simp: node_ready_def\<close>)
  have "export_states H nd gaia_store_names = Some (map (\<lambda>n. module_state (storage H) n (f n)) gaia_store_names)"
    by (rule export_all) (metis holds_treesE [OF f node_ready_facts(1) [OF r(1)]])
  moreover have "source H P peers nd f" using f r x(1) by (auto simp: source_def)
  ultimately show ?thesis
    using ex unfolding good_message.simps by (intro exI [of _ nd] exI [of _ f]) simp
qed

lemma good_process:
  assumes D: "full_key_scan (host_db H) P" and C: "varint_ok (storage H)" "sha256_ok (storage H)"
    and g: "good_node H P peers p nd" and m: "good_message H P peers m"
    and pm: "process_message H (gaia_app H env) nd m = Some (reply, nd')"
  shows "good_node H P peers p nd' \<and> (\<forall>r. reply = Some r \<longrightarrow> good_message H P peers r)"
proof (cases m)
  case (VersionMsg h a)
  with pm have "nd' = nd" by auto
  moreover have "good_message H P peers r" if "reply = Some r" for r
    using that pm VersionMsg good_export [OF g]
    by (auto simp: process_version_msg_def bind_eq_Some_conv split: if_splits)
  ultimately show ?thesis using g by blast
next
  case (StateMsg states h a)
  show ?thesis
  proof (cases "env_peer_id env = a \<and> nd_height nd < h")
    case True
    from m StateMsg obtain nd0 f where s: "source H P peers nd0 f" "h = nd_height nd0"
      "reordered (map (\<lambda>n. module_state (storage H) n (f n)) gaia_store_names) states" by auto
    then have r: "node_ready H P nd0" "holds_trees H nd0 f" by (simp_all add: source_def)
    from g obtain x where x: "peers p = Some x" "quiet_node H P nd" "unrecorded H nd (nd_height (peer_node x))"
      "nd_height (peer_node x) \<le> nd_height nd"
      by (auto simp: good_node_def)
    have less: "nd_height nd < nd_height nd0" using True s(2) by simp
    obtain nd2 where n: "process_message H (gaia_app H env) nd (StateMsg states (nd_height nd0) (env_peer_id env))
        = Some (None, nd2)" "copied H nd0 f nd2" "quiet_node H P nd2"
      "\<forall>n \<in> set gaia_store_names. \<forall>v. get_root_hash (storage H) (module_db (host_db H) n) (nd_db nd2) v
        = get_root_hash (storage H) (module_db (host_db H) n) (nd_db nd) v"
      by (rule state_received [OF D C node_ready_facts(1,2) [OF r(1)] r(2) x(2) less s(3), of env])
    then have e: "reply = None" "nd' = nd2" using pm StateMsg True s(2) by auto
    have "unrecorded H nd2 (nd_height (peer_node x))"
      using x(3) n(4) by (simp add: unrecorded_def del: prefixdb_ops_simps)
    moreover have "nd_height (peer_node x) < nd_height nd2"
      using n(2) less x(4) by (simp add: copied_def)
    ultimately show ?thesis using e x(1) n(2,3) s(1) unfolding good_node_def by blast
  next
    case False
    with pm StateMsg have "nd' = nd" "reply = None" by (auto simp: process_state_msg_def)
    with g show ?thesis by simp
  qed
qed

section \<open>The invariant of a network\<close>

definition net_inv ::
  "('w, 'g) p2p_lib \<Rightarrow> ('g \<Rightarrow> (bytes \<times> 'w) set) \<Rightarrow> 'db host \<Rightarrow> ('db \<Rightarrow> bool) \<Rightarrow> (bytes \<rightharpoonup> ('db, 'g) peer) \<Rightarrow>
     ('db, 'w, 'g) network \<Rightarrow> bool" where
  "net_inv N sent H P peers0 net \<longleftrightarrow> (case net of (peers, msgs) \<Rightarrow>
     (\<forall>p x. peers p = Some x \<longrightarrow> good_node H P peers0 p (peer_node x) \<and>
        (\<forall>m \<in> set (peer_queue x). good_message H P peers0 m) \<and> sent (peer_swarm x) \<subseteq> msgs) \<and>
     (\<forall>(topic, w) \<in> msgs. \<exists>m. msg_to_vec N m = Inr w \<and> good_message H P peers0 m))"

lemma net_inv_upd:
  assumes "net_inv N sent H P peers0 (peers, msgs)" "good_node H P peers0 p (peer_node x)"
    and "\<forall>m \<in> set (peer_queue x). good_message H P peers0 m"
    and "\<forall>(topic, w) \<in> sent (peer_swarm x) - msgs. \<exists>m. msg_to_vec N m = Inr w \<and> good_message H P peers0 m"
  shows "net_inv N sent H P peers0 (peers(p \<mapsto> x), msgs \<union> sent (peer_swarm x))"
  using assms by (fastforce simp: net_inv_def)

lemma net_inv_gone: "net_inv N sent H P peers0 (peers, msgs) \<Longrightarrow> net_inv N sent H P peers0 (peers(p := None), msgs)"
  by (simp add: net_inv_def)

lemma published:
  assumes "p2p_ok N sent" "gossip_publish N g topic w = (r, g')"
  shows "sent g' \<subseteq> insert (topic, w) (sent g)"
  using assms by (auto simp: p2p_ok_def)

lemma round_good:
  fixes env :: gaia_env
  assumes D: "full_key_scan (host_db H) P" and C: "varint_ok (storage H)" "sha256_ok (storage H)"
    and N: "p2p_ok N sent"
    and g: "good_node H P peers0 p (peer_node x)" and q: "\<forall>m \<in> set (peer_queue x). good_message H P peers0 m"
    and r: "reactor_round N H (gaia_app H env) x event = Some x'"
  shows "good_node H P peers0 p (peer_node x') \<and> (\<forall>m \<in> set (peer_queue x'). good_message H P peers0 m) \<and>
     (\<forall>(topic, w) \<in> sent (peer_swarm x') - sent (peer_swarm x).
        \<exists>m. msg_to_vec N m = Inr w \<and> good_message H P peers0 m)"
proof -
  from r obtain b g1 where s: "p2p_sync N (gaia_app H env) (peer_node x) (peer_swarm x) = Some (b, g1)"
    by (auto simp: reactor_round_def bind_eq_Some_conv)
  then obtain line where l: "msg_to_vec N (sync_version (gaia_app H env) (peer_node x)) = Inr line"
    by (auto simp: p2p_sync_def bind_eq_Some_conv unwrap_result_Some)
  obtain res g where p1: "gossip_publish N (peer_swarm x) BLOCK_TOPIC line = (res, g)" by fastforce
  with s l have "g = g1" by (auto simp: p2p_sync_def split: sum.splits)
  with published [OF N p1] have s1: "sent g1 \<subseteq> insert (BLOCK_TOPIC, line) (sent (peer_swarm x))" by simp
  have gl: "\<exists>m. msg_to_vec N m = Inr line \<and> good_message H P peers0 m"
    using l by (intro exI [of _ "sync_version (gaia_app H env) (peer_node x)"]) (simp add: sync_version_def)
  show ?thesis
  proof (cases "event = Received \<and> peer_queue x \<noteq> []")
    case False
    then have "x' = x\<lparr> peer_swarm := g1 \<rparr>"
      using r s by (cases event) (auto simp: reactor_round_def split: list.splits)
    with g q s1 gl show ?thesis by auto
  next
    case True
    then obtain m queue where mq: "peer_queue x = m # queue" "event = Received" by (cases "peer_queue x") auto
    with r s obtain reply nd g2 where pm: "process_message H (gaia_app H env) (peer_node x) m = Some (reply, nd)"
      and pa: "publish_answer N reply g1 = Some g2"
      and x': "x' = \<lparr> peer_node = nd, peer_queue = queue, peer_swarm = g2 \<rparr>"
      by (auto simp: reactor_round_def bind_eq_Some_conv)
    have "good_message H P peers0 m" using q mq by simp
    from good_process [OF D C g this pm] have gp: "good_node H P peers0 p nd"
      "\<forall>r. reply = Some r \<longrightarrow> good_message H P peers0 r" by blast+
    have "\<forall>(topic, w) \<in> sent g2 - sent g1. \<exists>m. msg_to_vec N m = Inr w \<and> good_message H P peers0 m"
    proof (cases reply)
      case (Some msg)
      with pa obtain w where w: "msg_to_vec N msg = Inr w"
        by (auto simp: publish_answer_def bind_eq_Some_conv unwrap_result_Some)
      obtain res g where p2: "gossip_publish N g1 BLOCK_TOPIC w = (res, g)" by fastforce
      with pa Some w have "g = g2" by (auto simp: publish_answer_def split: sum.splits)
      with published [OF N p2] gp(2) Some w show ?thesis by blast
    qed (use pa in \<open>simp add: publish_answer_def\<close>)
    with gp(1) q mq s1 gl x' show ?thesis by fastforce
  qed
qed

lemma net_inv_step:
  fixes envs :: "bytes \<Rightarrow> gaia_env"
  assumes D: "full_key_scan (host_db H) P" and C: "varint_ok (storage H)" "sha256_ok (storage H)"
    and N: "p2p_ok N sent" and i: "net_inv N sent H P peers0 net"
    and step: "net_step N sent H (\<lambda>p. gaia_app H (envs p)) net net'"
  shows "net_inv N sent H P peers0 net'"
  using step i
proof (induction rule: net_step.induct)
  case (round peers p x event x' msgs)
  then have "good_node H P peers0 p (peer_node x)" "\<forall>m \<in> set (peer_queue x). good_message H P peers0 m"
    "sent (peer_swarm x) \<subseteq> msgs" by (auto simp: net_inv_def)
  from round_good [OF D C N this(1,2) round.hyps(2)] this(3) show ?case
    by (intro net_inv_upd [OF round.prems]) blast+
next
  case (gossip peers p x topic data msgs source message_id x')
  then obtain m where m: "msg_from_slice N data = Inr m" "x' = x\<lparr> peer_queue := peer_queue x @ [m] \<rparr>"
    by (auto simp: inject_gossipsub_event_def bind_eq_Some_conv unwrap_result_Some)
  from gossip have x: "good_node H P peers0 p (peer_node x)" "\<forall>m \<in> set (peer_queue x). good_message H P peers0 m"
    "sent (peer_swarm x) \<subseteq> msgs" "\<exists>m. msg_to_vec N m = Inr data \<and> good_message H P peers0 m"
    by (auto simp: net_inv_def)
  then obtain m0 where "msg_to_vec N m0 = Inr data" "good_message H P peers0 m0" by blast
  moreover have "same_message m0 m" using N m(1) calculation(1) unfolding p2p_ok_def by blast
  ultimately have "good_message H P peers0 m" by (blast intro: good_message_same)
  then have "net_inv N sent H P peers0 (peers(p \<mapsto> x'), msgs \<union> sent (peer_swarm x'))"
    using x m(2) by (intro net_inv_upd [OF gossip.prems]) auto
  then show ?case using x(3) m(2) by (simp add: Un_absorb2)
next
  case (mdns peers p x msgs event)
  then have x: "good_node H P peers0 p (peer_node x)" "\<forall>m \<in> set (peer_queue x). good_message H P peers0 m"
    "sent (peer_swarm x) \<subseteq> msgs" by (auto simp: net_inv_def)
  have f: "sent (fold (\<lambda>(peer_id, addr). add_explicit_peer N peer_id) ps g) = sent g"
    "sent (fold (\<lambda>(peer_id, addr). remove_explicit_peer N peer_id) ps g) = sent g" for ps :: "(bytes \<times> bytes) list" and g
    using N by (induction ps arbitrary: g) (auto simp: p2p_ok_def)
  let ?x = "inject_mdns_event N x event"
  have e: "peer_node ?x = peer_node x" "peer_queue ?x = peer_queue x" "sent (peer_swarm ?x) = sent (peer_swarm x)"
    using f by (auto simp: inject_mdns_event_def split: mdns_event.splits)
  then have "net_inv N sent H P peers0 (peers(p \<mapsto> ?x), msgs \<union> sent (peer_swarm ?x))"
    using x by (intro net_inv_upd [OF mdns.prems]) auto
  then show ?case using x(3) e(3) by (simp add: Un_absorb2)
qed (simp_all add: net_inv_gone)

lemma net_inv_run:
  fixes envs :: "bytes \<Rightarrow> gaia_env"
  assumes D: "full_key_scan (host_db H) P" and C: "varint_ok (storage H)" "sha256_ok (storage H)"
    and N: "p2p_ok N sent" and st: "net_start sent H P peers0"
    and run: "(net_step N sent H (\<lambda>p. gaia_app H (envs p)))\<^sup>*\<^sup>* (peers0, {}) net"
  shows "net_inv N sent H P peers0 net"
  using run
proof (induction rule: rtranclp_induct)
  case base
  show ?case using good_node_start [OF D C(1) st] st by (auto simp: net_inv_def net_start_def)
next
  case (step net net')
  from net_inv_step [OF D C N step.IH step.hyps(2)] show ?case .
qed

section \<open>Properties\<close>

text \<open>
  (C8) State sync over a network: take nodes that are either between commits with entries in all
  stores, or without pending writes at height 0, and let them run with gossip that loses, repeats,
  reorders and misdirects messages. At any time a node that still runs is as it was at the start,
  or it is a copy of a node that was ahead of it at the start: with that node's height and
  application hash, holding its ledger and its accounts. It never ends up with a mixture, nor with
  a state no node had.
\<close>

theorem network_copies:
  fixes H :: "'db host" and envs :: "bytes \<Rightarrow> gaia_env"
  assumes "full_key_scan (host_db H) P" "varint_ok (storage H)" "sha256_ok (storage H)"
    and "p2p_ok N sent" "net_start sent H P peers0"
    and "(net_step N sent H (\<lambda>p. gaia_app H (envs p)))\<^sup>*\<^sup>* (peers0, {}) (peers, msgs)"
    and "peers p = Some x"
  shows "\<exists>x0. peers0 p = Some x0 \<and> (peer_node x = peer_node x0 \<or>
     (\<exists>q y. peers0 q = Some y \<and> nd_height (peer_node x0) < nd_height (peer_node y) \<and>
        nd_height (peer_node x) = nd_height (peer_node y) \<and>
        get_last_commit_hash (peer_node x) = get_last_commit_hash (peer_node y) \<and>
        (\<forall>bal accs. node_inv H P (peer_node y) bal accs \<longrightarrow>
           node_rel (gaia_rel (node_host H (peer_node x))) (nd_multi_store (peer_node x)) bal accs)))"
proof -
  from net_inv_run [OF assms(1-6)] assms(7) have "good_node H P peers0 p (peer_node x)"
    by (auto simp: net_inv_def)
  then obtain x0 where x0: "peers0 p = Some x0" "quiet_node H P (peer_node x)"
    and c: "peer_node x = peer_node x0 \<or> (\<exists>nd0 f. source H P peers0 nd0 f \<and> copied H nd0 f (peer_node x) \<and>
      nd_height (peer_node x0) < nd_height (peer_node x))"
    by (auto simp: good_node_def)
  have "\<exists>q y. peers0 q = Some y \<and> nd0 = peer_node y \<and> nd_height (peer_node x) = nd_height nd0 \<and>
      get_last_commit_hash (peer_node x) = get_last_commit_hash nd0 \<and>
      (\<forall>bal accs. node_inv H P nd0 bal accs \<longrightarrow>
         node_rel (gaia_rel (node_host H (peer_node x))) (nd_multi_store (peer_node x)) bal accs)"
    if s: "source H P peers0 nd0 f" and cp: "copied H nd0 f (peer_node x)" for nd0 f
  proof -
    from s have "just_committed (storage H) (nd_multi_store nd0)" "holds_trees H nd0 f"
      by (simp_all add: source_def node_ready_def)
    from copied_node_rel [OF _ this cp x0(2)] s cp show ?thesis
      by (auto simp: source_def copied_def)
  qed
  with x0(1) c show ?thesis by (metis (no_types, lifting))
qed

text \<open>
  The example: a network with reliable gossip, in which a fresh node announces itself, a committed
  node answers, and the fresh node takes over its state.
\<close>

definition demo_p2p :: "(sync_message, (bytes \<times> sync_message) set) p2p_lib" where
  "demo_p2p = \<lparr> msg_to_vec = Inr, msg_from_slice = Inr,
     gossip_publish = (\<lambda>g topic w. (Inr [], insert (topic, w) g)),
     gossip_subscribe = (\<lambda>g topic. (Inr True, g)),
     add_explicit_peer = (\<lambda>_ g. g), remove_explicit_peer = (\<lambda>_ g. g) \<rparr>"

lemma demo_p2p_ok: "p2p_ok demo_p2p (\<lambda>g. g)"
proof -
  have "same_message m m" for m by (cases m) (auto intro: reordered_refl)
  then show ?thesis by (auto simp: p2p_ok_def demo_p2p_def)
qed

definition demo_net_env :: "bytes \<Rightarrow> gaia_env" where
  "demo_net_env p = demo_env\<lparr> env_peer_id := p \<rparr>"

definition demo_peers :: "memdb app_node \<Rightarrow> bytes \<rightharpoonup> (memdb, (bytes \<times> sync_message) set) peer" where
  "demo_peers nd = [[0] \<mapsto> \<lparr> peer_node = demo_behind, peer_queue = [], peer_swarm = {} \<rparr>,
     [1] \<mapsto> \<lparr> peer_node = nd, peer_queue = [], peer_swarm = {} \<rparr>]"

lemma demo_run:
  fixes nd nd2 :: "memdb app_node"
  defines "app \<equiv> \<lambda>p. gaia_app demo_host (demo_net_env p)"
  assumes ask: "process_message demo_host (app [1]) nd (sync_version (app [0]) demo_behind) = Some (Some msg, nd)"
    and answer: "process_message demo_host (app [0]) demo_behind msg = Some (None, nd2)"
  shows "\<exists>peers msgs g. (net_step demo_p2p (\<lambda>g. g) demo_host app)\<^sup>*\<^sup>* (demo_peers nd, {}) (peers, msgs) \<and>
     peers [0] = Some \<lparr> peer_node = nd2, peer_queue = [], peer_swarm = g \<rparr>"
proof -
  let ?step = "net_step demo_p2p (\<lambda>g. g) demo_host app"
  let ?v = "sync_version (app [0]) demo_behind" and ?w = "sync_version (app [1]) nd"
  let ?x1 = "\<lparr> peer_node = demo_behind, peer_queue = [], peer_swarm = {(BLOCK_TOPIC, ?v)} \<rparr>"
  let ?y2 = "\<lparr> peer_node = nd, peer_queue = [?v], peer_swarm = {} \<rparr>"
  let ?y3 = "\<lparr> peer_node = nd, peer_queue = [], peer_swarm = {(BLOCK_TOPIC, msg), (BLOCK_TOPIC, ?w)} \<rparr>"
  let ?x4 = "\<lparr> peer_node = demo_behind, peer_queue = [msg], peer_swarm = {(BLOCK_TOPIC, ?v)} \<rparr>"
  let ?x5 = "\<lparr> peer_node = nd2, peer_queue = [], peer_swarm = {(BLOCK_TOPIC, ?v)} \<rparr>"
  let ?p0 = "demo_peers nd"
  let ?p1 = "?p0([0] \<mapsto> ?x1)" let ?p2 = "?p1([1] \<mapsto> ?y2)" let ?p3 = "?p2([1] \<mapsto> ?y3)"
  let ?p4 = "?p3([0] \<mapsto> ?x4)" let ?p5 = "?p4([0] \<mapsto> ?x5)"
  let ?m1 = "{} \<union> peer_swarm ?x1" let ?m3 = "?m1 \<union> peer_swarm ?y3" let ?m5 = "?m3 \<union> peer_swarm ?x5"
  have a: "?step (?p0, {}) (?p1, ?m1)"
    by (rule net_step.round [where event = Slept and x = "\<lparr> peer_node = demo_behind, peer_queue = [], peer_swarm = {} \<rparr>"])
      (simp_all add: demo_peers_def reactor_round_def p2p_sync_def demo_p2p_def)
  have b: "?step (?p1, ?m1) (?p2, ?m1)"
    by (rule net_step.gossip [where x = "\<lparr> peer_node = nd, peer_queue = [], peer_swarm = {} \<rparr>"
          and topic = BLOCK_TOPIC and data = ?v])
      (simp_all add: demo_peers_def inject_gossipsub_event_def demo_p2p_def)
  have c: "?step (?p2, ?m1) (?p3, ?m3)"
    by (rule net_step.round [where event = Received and x = ?y2])
      (simp_all add: reactor_round_def p2p_sync_def publish_answer_def demo_p2p_def ask)
  have d: "?step (?p3, ?m3) (?p4, ?m3)"
    by (rule net_step.gossip [where x = ?x1 and topic = BLOCK_TOPIC and data = msg])
      (simp_all add: inject_gossipsub_event_def demo_p2p_def)
  have e: "?step (?p4, ?m3) (?p5, ?m5)"
    by (rule net_step.round [where event = Received and x = ?x4])
      (simp_all add: reactor_round_def p2p_sync_def publish_answer_def demo_p2p_def answer)
  have "?step\<^sup>*\<^sup>* (?p0, {}) (?p5, ?m5)"
    using a b c d e by (meson converse_rtranclp_into_rtranclp rtranclp.rtrancl_refl)
  then show ?thesis by (intro exI [of _ ?p5] exI) simp
qed

theorem network_copies_witness:
  "\<exists>nd peers msgs x. nd_height nd = 1 \<and>
     (net_step demo_p2p (\<lambda>g. g) demo_host (\<lambda>p. gaia_app demo_host (demo_net_env p)))\<^sup>*\<^sup>*
       (demo_peers nd, {}) (peers, msgs) \<and> peers [0] = Some x \<and>
     nd_height (peer_node x) = 1 \<and> get_last_commit_hash (peer_node x) = get_last_commit_hash nd"
proof -
  let ?app = "\<lambda>p. gaia_app demo_host (demo_net_env p)"
  obtain nd where nd: "node_inv demo_host memdb_ok nd demo_ledger Map.empty" "nd_height nd = 1"
    "just_committed (storage demo_host) (nd_multi_store nd)"
    "\<forall>(n, kv) \<in> set (stores (nd_multi_store nd)). tree_root (persistent_store kv) \<noteq> None"
    by (rule demo_committed)
  have nm: "map fst (stores (nd_multi_store nd)) = gaia_store_names" using nd(1) by (simp add: node_inv_def)
  have less: "nd_height demo_behind < nd_height nd" using nd(2) by (simp add: demo_behind_def)
  obtain f where f: "holds_trees demo_host nd f" and ask: "process_message demo_host (?app [1]) nd
       (sync_version (?app [0]) demo_behind) = Some (Some (StateMsg (map (\<lambda>n. module_state (storage demo_host) n (f n))
          gaia_store_names) (nd_height nd) (env_peer_id (demo_net_env [0]))), nd)"
    by (rule sync_answer [OF nd(1,4) less])
  obtain nd2 where nd2: "process_message demo_host (?app [0]) demo_behind (StateMsg (map (\<lambda>n.
        module_state (storage demo_host) n (f n)) gaia_store_names) (nd_height nd) (env_peer_id (demo_net_env [0])))
      = Some (None, nd2)" "copied demo_host nd f nd2"
    by (rule state_received [OF demo_database(1) demo_storage_laws nm nd(3) f demo_behind_quiet less reordered_refl,
          of "demo_net_env [0]"]) (rule that)
  obtain peers msgs g where run: "(net_step demo_p2p (\<lambda>g. g) demo_host ?app)\<^sup>*\<^sup>* (demo_peers nd, {}) (peers, msgs)"
    "peers [0] = Some \<lparr> peer_node = nd2, peer_queue = [], peer_swarm = g \<rparr>"
    using demo_run [OF ask nd2(1)] by blast
  have h: "nd_height nd2 = 1" using nd2(2) nd(2) by (simp add: copied_def)
  have "node_ready demo_host memdb_ok nd" using nd(1,3,4) by (auto simp: node_ready_def)
  moreover have "node_fresh demo_host memdb_ok demo_behind"
    using demo_behind_quiet demo_behind_unrecorded by (simp add: node_fresh_def demo_behind_def)
  ultimately have "net_start (\<lambda>g. g) demo_host memdb_ok (demo_peers nd)"
    by (auto simp: net_start_def demo_peers_def)
  from network_copies [OF demo_database(1) demo_storage_laws demo_p2p_ok this run] h
  have "get_last_commit_hash nd2 = get_last_commit_hash nd"
    by (auto simp: demo_peers_def demo_behind_def split: if_splits)
  with run h nd(2) show ?thesis by fastforce
qed

end
