(* ===== verification/Node_Init.thy ===== *)
theory Node_Init
  imports Client
begin

text \<open>
  The command \<open>init\<close> (\<open>src/gears/src/client/init.rs\<close>) and the files it has written for Tendermint
  (\<open>src/tendermint/src/lib.rs\<close>): configuration, keys and genesis. The file system is a map from
  paths to contents together with the errors of the operating system; random keys, the current
  time, the template engine and \<open>serde_json\<close> are parameters. What \<open>init\<close> writes starts a chain.
\<close>

section \<open>Files\<close>

text \<open>
  The paths of the command are made from constants below one directory, so they stand for their
  files.
\<close>

definition get_default_home_dir :: "os \<Rightarrow> bytes \<Rightarrow> bytes option" where
  "get_default_home_dir OS name = map_option (\<lambda>h. path_push h (46 # name)) (os_home_dir OS)"

text \<open>
  Calls whose error is printed after a text before the process exits; a created file is empty.
\<close>

definition or_exit :: "bytes \<Rightarrow> bytes option \<Rightarrow> files \<Rightarrow> files \<Rightarrow> (bytes, unit, files) outcome" where
  "or_exit msg err fs fs' = Some (case err of Some e \<Rightarrow> (Inl (msg @ e), fs) | None \<Rightarrow> (Inr (), fs'))"

definition create_dir :: "os \<Rightarrow> bytes \<Rightarrow> bytes \<Rightarrow> files \<Rightarrow> (bytes, unit, files) outcome" where
  "create_dir OS msg path fs = or_exit msg (os_create_dir_all OS path) fs fs"

definition create_file :: "os \<Rightarrow> bytes \<Rightarrow> bytes \<Rightarrow> files \<Rightarrow> (bytes, unit, files) outcome" where
  "create_file OS msg path fs = or_exit msg (os_create OS path) fs (fs(path \<mapsto> []))"

definition write_all :: "os \<Rightarrow> bytes \<Rightarrow> bytes \<Rightarrow> bytes \<Rightarrow> files \<Rightarrow> (bytes, unit, files) outcome" where
  "write_all OS msg path content fs = or_exit msg (os_write OS path) fs (fs(path \<mapsto> content))"

section \<open>Keys and genesis\<close>

text \<open>Ed25519 keys are bytes; \<open>ed\<close> derives the public key and the address.\<close>

record ed25519 =
  ed_public_key :: "bytes \<Rightarrow> bytes"
  ed_address :: "bytes \<Rightarrow> bytes"

record node_key =
  nk_priv_key :: bytes

record priv_validator_key =
  pvk_address :: bytes
  pvk_pub_key :: bytes
  pvk_priv_key :: bytes

record tm_validator =
  tmv_pub_key :: bytes
  tmv_power :: u64

record tm_block_size =
  tms_max_bytes :: u64
  tms_max_gas :: int
  tms_time_iota_ms :: int

record tm_evidence =
  tme_max_age_num_blocks :: u64
  tme_max_age_duration :: duration
  tme_max_bytes :: int

record tm_params =
  tmp_block :: tm_block_size
  tmp_evidence :: tm_evidence
  tmp_pub_key_types :: "bytes list"
  tmp_version :: "u64 option"

record ('t, 'v) tm_genesis =
  tmg_genesis_time :: 't
  tmg_chain_id :: bytes
  tmg_initial_height :: int
  tmg_consensus_params :: tm_params
  tmg_validators :: "tm_validator list"
  tmg_app_hash :: bytes
  tmg_app_state :: 'v

definition default_params :: tm_params where
  "default_params = \<lparr>
     tmp_block = \<lparr> tms_max_bytes = 22020096, tms_max_gas = -1, tms_time_iota_ms = 1000 \<rparr>,
     tmp_evidence = \<lparr> tme_max_age_num_blocks = 100000,
       tme_max_age_duration = \<lparr> dur_seconds = 172800, dur_nanos = 0 \<rparr>, tme_max_bytes = 1048576 \<rparr>,
     tmp_pub_key_types = [lit ''ed25519''],
     tmp_version = None \<rparr>"

definition new_genesis :: "'t \<Rightarrow> bytes \<Rightarrow> 'v \<Rightarrow> ('t, 'v) tm_genesis" where
  "new_genesis now public_key genesis_state_json = \<lparr>
     tmg_genesis_time = now,
     tmg_chain_id = TEST_CHAIN,
     tmg_initial_height = 1,
     tmg_consensus_params = default_params,
     tmg_validators = [\<lparr> tmv_pub_key = public_key, tmv_power = 10 \<rparr>],
     tmg_app_hash = [],
     tmg_app_state = genesis_state_json \<rparr>"

text \<open>The texts \<open>serde_json\<close> writes.\<close>

record ('t, 'v) tm_json =
  node_key_json :: "node_key \<Rightarrow> bytes"
  priv_validator_json :: "priv_validator_key \<Rightarrow> bytes"
  genesis_json :: "('t, 'v) tm_genesis \<Rightarrow> bytes"

definition new_priv_validator_key :: "ed25519 \<Rightarrow> bytes \<Rightarrow> priv_validator_key" where
  "new_priv_validator_key ed key =
     \<lparr> pvk_address = ed_address ed (ed_public_key ed key), pvk_pub_key = ed_public_key ed key,
        pvk_priv_key = key \<rparr>"

text \<open>\<open>signing_keys\<close> are the two keys the random number generator yields.\<close>

definition write_keys_and_genesis ::
  "os \<Rightarrow> ed25519 \<Rightarrow> ('t, 'v) tm_json \<Rightarrow> bytes \<times> bytes \<Rightarrow> 't \<Rightarrow> bytes \<Rightarrow> bytes \<Rightarrow> bytes \<Rightarrow> bytes \<Rightarrow> 'v \<Rightarrow>
     files \<Rightarrow> (bytes, unit, files) outcome" where
  "write_keys_and_genesis OS ed J signing_keys now msg node_key_file priv_validator_key_file genesis_file
       genesis_state_json fs =
     and_then (write_all OS msg node_key_file (node_key_json J \<lparr> nk_priv_key = fst signing_keys \<rparr>) fs) (\<lambda>_ fs.
     and_then (write_all OS msg priv_validator_key_file
         (priv_validator_json J (new_priv_validator_key ed (snd signing_keys))) fs) (\<lambda>_ fs.
     write_all OS msg genesis_file
       (genesis_json J (new_genesis now (ed_public_key ed (snd signing_keys)) genesis_state_json)) fs))"

definition priv_validator_state :: bytes where
  "priv_validator_state = lit ''{'' @ [10] @ lit ''    '' @ [34] @ lit ''height'' @ [34] @ lit '': '' @
     [34] @ lit ''0'' @ [34] @ lit '','' @ [10] @ lit ''    '' @ [34] @ lit ''round'' @ [34] @
     lit '': 0,'' @ [10] @ lit ''    '' @ [34] @ lit ''step'' @ [34] @ lit '': 0'' @ [10] @ lit ''}''"

definition write_priv_validator_state ::
  "os \<Rightarrow> bytes \<Rightarrow> bytes \<Rightarrow> files \<Rightarrow> (bytes, unit, files) outcome" where
  "write_priv_validator_state OS msg path fs = write_all OS msg path priv_validator_state fs"

section \<open>Tendermint's configuration\<close>

text \<open>
  Addresses, paths, durations and the names of enumerations are the texts that the hard coded values
  are parsed from or written as; sections with a single entry are that entry.
\<close>

record rpc_config =
  rpc_laddr :: bytes
  rpc_cors_allowed_origins :: "bytes list"
  rpc_cors_allowed_methods :: "bytes list"
  rpc_cors_allowed_headers :: "bytes list"
  rpc_grpc_laddr :: "bytes option"
  rpc_grpc_max_open_connections :: nat
  rpc_unsafe_commands :: bool
  rpc_max_open_connections :: nat
  rpc_max_subscription_clients :: nat
  rpc_max_subscriptions_per_client :: nat
  rpc_timeout_broadcast_tx_commit :: bytes
  rpc_max_body_bytes :: nat
  rpc_max_header_bytes :: nat
  rpc_tls_cert_file :: "bytes option"
  rpc_tls_key_file :: "bytes option"
  rpc_pprof_laddr :: "bytes option"

record p2p_config =
  p2p_laddr :: bytes
  p2p_external_address :: "bytes option"
  p2p_seeds :: "bytes list"
  p2p_persistent_peers :: "bytes list"
  p2p_upnp :: bool
  p2p_addr_book_file :: bytes
  p2p_addr_book_strict :: bool
  p2p_max_num_inbound_peers :: nat
  p2p_max_num_outbound_peers :: nat
  p2p_unconditional_peer_ids :: "bytes list"
  p2p_persistent_peers_max_dial_period :: bytes
  p2p_flush_throttle_timeout :: bytes
  p2p_max_packet_msg_payload_size :: nat
  p2p_send_rate :: u64
  p2p_recv_rate :: u64
  p2p_pex :: bool
  p2p_seed_mode :: bool
  p2p_private_peer_ids :: "bytes list"
  p2p_allow_duplicate_ip :: bool
  p2p_handshake_timeout :: bytes
  p2p_dial_timeout :: bytes

record mempool_config =
  mem_recheck :: bool
  mem_broadcast :: bool
  mem_wal_dir :: "bytes option"
  mem_size :: nat
  mem_max_txs_bytes :: nat
  mem_cache_size :: nat
  mem_keep_invalid_txs_in_cache :: bool
  mem_max_tx_bytes :: nat
  mem_max_batch_bytes :: nat

record consensus_config =
  con_wal_file :: bytes
  con_timeout_propose :: bytes
  con_timeout_propose_delta :: bytes
  con_timeout_prevote :: bytes
  con_timeout_prevote_delta :: bytes
  con_timeout_precommit :: bytes
  con_timeout_precommit_delta :: bytes
  con_timeout_commit :: bytes
  con_double_sign_check_height :: nat
  con_skip_timeout_commit :: bool
  con_create_empty_blocks :: bool
  con_create_empty_blocks_interval :: bytes
  con_peer_gossip_sleep_duration :: bytes
  con_peer_query_maj23_sleep_duration :: bytes

record instrumentation_config =
  ins_prometheus :: bool
  ins_prometheus_listen_addr :: bytes
  ins_max_open_connections :: nat
  ins_namespace :: bytes

record statesync_config =
  sts_enable :: bool
  sts_rpc_servers :: "bytes list"
  sts_trust_height :: nat
  sts_trust_hash :: bytes
  sts_trust_period :: bytes
  sts_discovery_time :: bytes
  sts_temp_dir :: bytes

record tm_config =
  tmc_proxy_app :: bytes
  tmc_moniker :: bytes
  tmc_fast_sync :: bool
  tmc_db_backend :: bytes
  tmc_db_dir :: bytes
  tmc_log_level :: bytes
  tmc_log_format :: bytes
  tmc_genesis_file :: bytes
  tmc_priv_validator_key_file :: "bytes option"
  tmc_priv_validator_state_file :: bytes
  tmc_priv_validator_laddr :: "bytes option"
  tmc_node_key_file :: bytes
  tmc_abci :: bytes
  tmc_filter_peers :: bool
  tmc_rpc :: rpc_config
  tmc_p2p :: p2p_config
  tmc_mempool :: mempool_config
  tmc_consensus :: consensus_config
  tmc_discard_abci_responses :: bool
  tmc_tx_index :: bytes
  tmc_instrumentation :: instrumentation_config
  tmc_statesync :: statesync_config
  tmc_fastsync_version :: bytes

definition default_rpc_config :: rpc_config where
  "default_rpc_config = \<lparr>
     rpc_laddr = lit ''tcp://127.0.0.1:26657'',
     rpc_cors_allowed_origins = [],
     rpc_cors_allowed_methods = [lit ''HEAD'', lit ''GET'', lit ''POST''],
     rpc_cors_allowed_headers = [lit ''Origin'', lit ''Accept'', lit ''Content-Type'', lit ''X-Requested-With'', lit ''X-Server-Time''],
     rpc_grpc_laddr = None,
     rpc_grpc_max_open_connections = 900,
     rpc_unsafe_commands = False,
     rpc_max_open_connections = 900,
     rpc_max_subscription_clients = 100,
     rpc_max_subscriptions_per_client = 5,
     rpc_timeout_broadcast_tx_commit = lit ''10000ms'',
     rpc_max_body_bytes = 1000000,
     rpc_max_header_bytes = 1048576,
     rpc_tls_cert_file = None,
     rpc_tls_key_file = None,
     rpc_pprof_laddr = None \<rparr>"

definition default_p2p_config :: p2p_config where
  "default_p2p_config = \<lparr>
     p2p_laddr = lit ''tcp://0.0.0.0:26656'',
     p2p_external_address = None,
     p2p_seeds = [],
     p2p_persistent_peers = [],
     p2p_upnp = False,
     p2p_addr_book_file = lit ''config/addrbook.json'',
     p2p_addr_book_strict = True,
     p2p_max_num_inbound_peers = 40,
     p2p_max_num_outbound_peers = 10,
     p2p_unconditional_peer_ids = [],
     p2p_persistent_peers_max_dial_period = lit ''0ms'',
     p2p_flush_throttle_timeout = lit ''100ms'',
     p2p_max_packet_msg_payload_size = 1024,
     p2p_send_rate = 5120000,
     p2p_recv_rate = 5120000,
     p2p_pex = True,
     p2p_seed_mode = False,
     p2p_private_peer_ids = [],
     p2p_allow_duplicate_ip = False,
     p2p_handshake_timeout = lit ''20000ms'',
     p2p_dial_timeout = lit ''3000ms'' \<rparr>"

definition default_mempool_config :: mempool_config where
  "default_mempool_config = \<lparr>
     mem_recheck = True,
     mem_broadcast = True,
     mem_wal_dir = None,
     mem_size = 5000,
     mem_max_txs_bytes = 1073741824,
     mem_cache_size = 10000,
     mem_keep_invalid_txs_in_cache = False,
     mem_max_tx_bytes = 1048576,
     mem_max_batch_bytes = 0 \<rparr>"

definition default_consensus_config :: consensus_config where
  "default_consensus_config = \<lparr>
     con_wal_file = lit ''data/cs.wal/wal'',
     con_timeout_propose = lit ''3000ms'',
     con_timeout_propose_delta = lit ''500ms'',
     con_timeout_prevote = lit ''1000ms'',
     con_timeout_prevote_delta = lit ''500ms'',
     con_timeout_precommit = lit ''1000ms'',
     con_timeout_precommit_delta = lit ''500ms'',
     con_timeout_commit = lit ''5000ms'',
     con_double_sign_check_height = 0,
     con_skip_timeout_commit = False,
     con_create_empty_blocks = True,
     con_create_empty_blocks_interval = lit ''0ms'',
     con_peer_gossip_sleep_duration = lit ''100ms'',
     con_peer_query_maj23_sleep_duration = lit ''2000ms'' \<rparr>"

definition default_instrumentation_config :: instrumentation_config where
  "default_instrumentation_config = \<lparr>
     ins_prometheus = False,
     ins_prometheus_listen_addr = lit '':26660'',
     ins_max_open_connections = 3,
     ins_namespace = lit ''tendermint'' \<rparr>"

definition default_statesync_config :: statesync_config where
  "default_statesync_config = \<lparr>
     sts_enable = False,
     sts_rpc_servers = [],
     sts_trust_height = 0,
     sts_trust_hash = [],
     sts_trust_period = lit ''168h0m0s'',
     sts_discovery_time = lit ''15000ms'',
     sts_temp_dir = [] \<rparr>"

definition get_default_tm_config :: tm_config where
  "get_default_tm_config = \<lparr>
     tmc_proxy_app = lit ''tcp://127.0.0.1:26658'',
     tmc_moniker = lit ''anonymous'',
     tmc_fast_sync = True,
     tmc_db_backend = lit ''goleveldb'',
     tmc_db_dir = lit ''data'',
     tmc_log_level = lit ''info'',
     tmc_log_format = lit ''plain'',
     tmc_genesis_file = lit ''config/genesis.json'',
     tmc_priv_validator_key_file = Some (lit ''config/priv_validator_key.json''),
     tmc_priv_validator_state_file = lit ''data/priv_validator_state.json'',
     tmc_priv_validator_laddr = None,
     tmc_node_key_file = lit ''config/node_key.json'',
     tmc_abci = lit ''socket'',
     tmc_filter_peers = False,
     tmc_rpc = default_rpc_config,
     tmc_p2p = default_p2p_config,
     tmc_mempool = default_mempool_config,
     tmc_consensus = default_consensus_config,
     tmc_discard_abci_responses = False,
     tmc_tx_index = lit ''kv'',
     tmc_instrumentation = default_instrumentation_config,
     tmc_statesync = default_statesync_config,
     tmc_fastsync_version = lit ''v0'' \<rparr>"

text \<open>The template engine is the parameter \<open>render\<close>.\<close>

definition write_tm_config ::
  "os \<Rightarrow> (tm_config \<Rightarrow> bytes) \<Rightarrow> bytes \<Rightarrow> bytes \<Rightarrow> bytes \<Rightarrow> files \<Rightarrow> (bytes, unit, files) outcome" where
  "write_tm_config OS render msg file node_name fs =
     (let tm_config = get_default_tm_config;
          tm_config = tm_config\<lparr> tmc_moniker := node_name \<rparr>
      in write_all OS msg file (render tm_config) fs)"

section \<open>The command\<close>

text \<open>
  The conversion of the application's genesis to JSON is expected to succeed. The text at the end
  is printed before the process exits; \<open>chain_id\<close> is the value of the option \<open>--id\<close>.
\<close>

definition run_init_command ::
  "os \<Rightarrow> (tm_config \<Rightarrow> bytes) \<Rightarrow> ed25519 \<Rightarrow> ('t, 'v) tm_json \<Rightarrow> ('g \<Rightarrow> bytes + 'v) \<Rightarrow> bytes \<times> bytes \<Rightarrow>
     't \<Rightarrow> bytes \<Rightarrow> bytes option \<Rightarrow> bytes \<Rightarrow> bytes \<Rightarrow> 'g \<Rightarrow> files \<Rightarrow> (bytes, unit, files) outcome" where
  "run_init_command OS render ed J to_value signing_keys now moniker home chain_id name app_genesis_state fs =
     (case (case home of Some h \<Rightarrow> Some h | None \<Rightarrow> get_default_home_dir OS name) of
        None \<Rightarrow> Some (Inl (lit ''Home argument not provided and OS does not provide a default home directory''), fs)
      | Some home \<Rightarrow>
          let config_dir = path_push home (lit ''config'');
              data_dir = path_push home (lit ''data'');
              tm_config_file_path = path_push config_dir (lit ''config.toml'');
              node_key_file_path = path_push config_dir (lit ''node_key.json'');
              priv_validator_key_file_path = path_push config_dir (lit ''priv_validator_key.json'');
              genesis_file_path = path_push config_dir (lit ''genesis.json'');
              state_file_path = path_push data_dir (lit ''priv_validator_state.json'') in
          and_then (create_dir OS (lit ''Could not create config directory '') config_dir fs) (\<lambda>_ fs.
          and_then (create_dir OS (lit ''Could not create data directory '') data_dir fs) (\<lambda>_ fs.
          and_then (create_file OS (lit ''Could not create config file '') tm_config_file_path fs) (\<lambda>_ fs.
          and_then (write_tm_config OS render (lit ''Error writing config file '') tm_config_file_path
            moniker fs) (\<lambda>_ fs.
          and_then (create_file OS (lit ''Could not create node key file '') node_key_file_path fs) (\<lambda>_ fs.
          and_then (create_file OS (lit ''Could not create private validator key file '')
            priv_validator_key_file_path fs) (\<lambda>_ fs. do {
          genesis_state_json \<leftarrow> unwrap_result (Some (to_value app_genesis_state));
          and_then (create_file OS (lit ''Could not create genesis file '') genesis_file_path fs) (\<lambda>_ fs.
          and_then (write_keys_and_genesis OS ed J signing_keys now (lit ''Error writing key and genesis files '')
            node_key_file_path priv_validator_key_file_path genesis_file_path genesis_state_json fs) (\<lambda>_ fs.
          and_then (create_file OS (lit ''Could not create private validator state file '')
            state_file_path fs) (\<lambda>_ fs.
          write_priv_validator_state OS (lit ''Error writing private validator state file '')
            state_file_path fs))) })))))))"

section \<open>What the command leaves\<close>

lemma or_exit_Inr [simp]:
  "or_exit msg err fs fs' = Some (Inr u, fs'') \<longleftrightarrow> err = None \<and> fs'' = fs'"
  by (auto simp: or_exit_def split: option.splits)

lemmas file_steps = create_dir_def create_file_def write_all_def write_tm_config_def Let_def
  write_keys_and_genesis_def write_priv_validator_state_def and_then_Inr

text \<open>Where \<open>init\<close> writes the genesis, under the home directory it uses.\<close>

definition genesis_path :: "bytes \<Rightarrow> bytes" where
  "genesis_path home = path_push (path_push home (lit ''config'')) (lit ''genesis.json'')"

lemma init_genesis_file:
  assumes "run_init_command OS render ed J to_value signing_keys now moniker home chain_id name g fs
      = Some (Inr (), fs')"
    and "(case home of Some h \<Rightarrow> Some h | None \<Rightarrow> get_default_home_dir OS name) = Some h"
  obtains v where "to_value g = Inr v"
    "fs' (genesis_path h) = Some (genesis_json J (new_genesis now (ed_public_key ed (snd signing_keys)) v))"
proof -
  obtain v where "to_value g = Inr v"
    using assms(1) unfolding run_init_command_def assms(2)
    by (auto simp: file_steps bind_eq_Some_conv unwrap_result_Some)
  moreover from this have "fs' (genesis_path h)
      = Some (genesis_json J (new_genesis now (ed_public_key ed (snd signing_keys)) v))"
    using assms(1) unfolding run_init_command_def assms(2)
    by (auto simp: file_steps genesis_path_def path_push_def)
  ultimately show thesis using that by blast
qed

text \<open>The consensus parameters of the genesis as Tendermint hands them to the application.\<close>

definition request_params :: "tm_params \<Rightarrow> consensus_params" where
  "request_params p = \<lparr>
     cp_block = Some \<lparr> rbp_max_bytes = uint (tms_max_bytes (tmp_block p)),
       rbp_max_gas = tms_max_gas (tmp_block p) \<rparr>,
     cp_evidence = Some \<lparr> rep_max_age_num_blocks = uint (tme_max_age_num_blocks (tmp_evidence p)),
       rep_max_age_duration = Some (tme_max_age_duration (tmp_evidence p)),
       rep_max_bytes = tme_max_bytes (tmp_evidence p) \<rparr>,
     cp_validator = Some \<lparr> rvp_pub_key_types = tmp_pub_key_types p \<rparr> \<rparr>"

lemma default_params_ok:
  "rqi_consensus_params request = Some (request_params default_params) \<Longrightarrow> consensus_ok request"
  by (auto simp: consensus_ok_def request_params_def default_params_def duration_nanos_def
      i64_value_def SEC_TO_NANO_def)

section \<open>Properties\<close>

text \<open>
  (C14) From \<open>init\<close> to a running node: when the command succeeds, the genesis file holds the
  application's genesis for the chain \<open>test-chain\<close>, whatever was given for \<open>--id\<close>; and when
  Tendermint starts the application on an empty database with that genesis state and those
  consensus parameters, start and initialization return, and the node holds the ledger of the
  genesis.
\<close>

theorem init_then_chain:
  fixes H :: "'db host" and env :: gaia_env
  assumes "run_init_command OS render ed J to_value signing_keys now moniker home chain_id name g fs
      = Some (Inr (), fs')"
    and "(case home of Some h \<Rightarrow> Some h | None \<Rightarrow> get_default_home_dir OS name) = Some h"
    and "libs_ok H" "module_get_address H FeeCollector = Some fc" "fresh_database H"
    and "genesis_ok H g" "P (host_state H)"
  shows "\<exists>doc. fs' (genesis_path h) = Some (genesis_json J doc) \<and> tmg_chain_id doc = TEST_CHAIN \<and>
     to_value g = Inr (tmg_app_state doc) \<and>
     (\<forall>request. rqi_consensus_params request = Some (request_params (tmg_consensus_params doc)) \<longrightarrow>
        env_parse_genesis env (rqi_app_state_bytes request) = Inr g \<longrightarrow>
        (\<exists>nd0 res nd accs. base_app_new H (gaia_app H env) (host_state H) = Some nd0 \<and>
           init_chain H (gaia_app H env) nd0 request = Some (res, nd) \<and>
           node_inv H P nd (genesis_ledger (bg_balances (gs_bank g))) accs))"
proof -
  obtain v where v: "to_value g = Inr v"
    "fs' (genesis_path h) = Some (genesis_json J (new_genesis now (ed_public_key ed (snd signing_keys)) v))"
    by (rule init_genesis_file [OF assms(1,2)])
  have "\<exists>nd0 res nd accs. base_app_new H (gaia_app H env) (host_state H) = Some nd0 \<and>
      init_chain H (gaia_app H env) nd0 request = Some (res, nd) \<and>
      node_inv H P nd (genesis_ledger (bg_balances (gs_bank g))) accs"
    if c: "rqi_consensus_params request = Some (request_params default_params)"
      and p: "env_parse_genesis env (rqi_app_state_bytes request) = Inr g" for request
  proof -
    obtain nd0 res nd accs where i: "base_app_new H (gaia_app H env) (host_state H) = Some nd0"
      "init_chain H (gaia_app H env) nd0 request = Some (res, nd)" "nd_db nd = host_state H"
      "node_rel (gaia_rel H) (nd_multi_store nd) (genesis_ledger (bg_balances (gs_bank g))) accs"
      "nd_height nd = 0" "genesis_state gaia_store_names (head_state (nd_multi_store nd))"
      by (rule init_chain_effect [OF assms(3-5) p assms(6) default_params_ok [OF c]], rule that)
        assumption+
    have "node_inv H P nd (genesis_ledger (bg_balances (gs_bank g))) accs"
      by (rule genesis_node_inv [where P = P, OF assms(5,7) i(3-6)])
    with i(1,2) show ?thesis by blast
  qed
  with v show ?thesis
    by (intro exI [of _ "new_genesis now (ed_public_key ed (snd signing_keys)) v"])
      (simp add: new_genesis_def)
qed

definition demo_os :: os where
  "demo_os = \<lparr> os_home_dir = Some [47], os_resolve = (\<lambda>p. p), os_create_dir_all = (\<lambda>_. None),
     os_create = (\<lambda>_. None), os_open = (\<lambda>_. None), os_write = (\<lambda>_. None), os_remove = (\<lambda>_. None) \<rparr>"

theorem init_then_chain_witness:
  "\<exists>(g :: gaia_genesis) fs' (doc :: (unit, gaia_genesis) tm_genesis). run_init_command demo_os (\<lambda>_. []) \<lparr> ed_public_key = id, ed_address = id \<rparr>
       \<lparr> node_key_json = (\<lambda>_. []), priv_validator_json = (\<lambda>_. []), genesis_json = tmg_chain_id \<rparr>
       Inr ([1], [2]) () [] None (lit ''other-chain'') (lit ''gaia-rs'') g Map.empty = Some (Inr (), fs') \<and>
     fs' (genesis_path [47, 46, 103, 97, 105, 97, 45, 114, 115]) = Some TEST_CHAIN \<and>
     (\<exists>nd0 res nd. base_app_new demo_host (gaia_app demo_host demo_genesis_env) memdb_new = Some nd0 \<and>
        init_chain demo_host (gaia_app demo_host demo_genesis_env) nd0 (demo_request\<lparr> rqi_consensus_params
          := Some (request_params (tmg_consensus_params doc)) \<rparr>) = Some (res, nd))"
proof -
  let ?J = "\<lparr> node_key_json = (\<lambda>_. []), priv_validator_json = (\<lambda>_. []), genesis_json = tmg_chain_id \<rparr>
    :: (unit, gaia_genesis) tm_json"
  obtain g where g: "gaia_genesis_default demo_host = Some g" "genesis_ok demo_host g"
    by (rule demo_genesis) blast
  obtain fs' where fs: "run_init_command demo_os (\<lambda>_. []) \<lparr> ed_public_key = id, ed_address = id \<rparr> ?J
       Inr ([1], [2]) () [] None (lit ''other-chain'') (lit ''gaia-rs'') g Map.empty = Some (Inr (), fs')"
    by (simp add: run_init_command_def get_default_home_dir_def demo_os_def file_steps or_exit_def)
  have h: "(case None of Some h \<Rightarrow> Some h | None \<Rightarrow> get_default_home_dir demo_os (lit ''gaia-rs''))
      = Some [47, 46, 103, 97, 105, 97, 45, 114, 115]"
    by (simp add: get_default_home_dir_def demo_os_def path_push_def)
  from init_then_chain [where P = memdb_ok, OF fs h demo_libs_ok(1) demo_fee_collector demo_fresh g(2) demo_database(2),
      of demo_genesis_env]
  obtain doc where d: "fs' (genesis_path [47, 46, 103, 97, 105, 97, 45, 114, 115])
      = Some (genesis_json ?J doc)" "tmg_chain_id doc = TEST_CHAIN"
    and start: "\<forall>request. rqi_consensus_params request = Some (request_params (tmg_consensus_params doc)) \<longrightarrow>
      env_parse_genesis demo_genesis_env (rqi_app_state_bytes request) = Inr g \<longrightarrow>
      (\<exists>nd0 res nd accs. base_app_new demo_host (gaia_app demo_host demo_genesis_env) (host_state demo_host)
          = Some nd0 \<and>
         init_chain demo_host (gaia_app demo_host demo_genesis_env) nd0 request = Some (res, nd) \<and>
         node_inv demo_host memdb_ok nd (genesis_ledger (bg_balances (gs_bank g))) accs)"
    by blast
  let ?request = "demo_request\<lparr> rqi_consensus_params := Some (request_params (tmg_consensus_params doc)) \<rparr>"
  have "env_parse_genesis demo_genesis_env (rqi_app_state_bytes ?request) = Inr g"
    by (simp add: demo_genesis_env_def g(1))
  moreover have "rqi_consensus_params ?request = Some (request_params (tmg_consensus_params doc))" by simp
  moreover have "host_state demo_host = memdb_new" by simp
  ultimately have "\<exists>nd0 res nd. base_app_new demo_host (gaia_app demo_host demo_genesis_env) memdb_new = Some nd0 \<and>
      init_chain demo_host (gaia_app demo_host demo_genesis_env) nd0 ?request = Some (res, nd)"
    using start by metis
  moreover have "fs' (genesis_path [47, 46, 103, 97, 105, 97, 45, 114, 115]) = Some TEST_CHAIN"
    using d by simp
  ultimately show ?thesis using fs by blast
qed

end
