(* ===== verification/Rocks_DB.thy ===== *)
theory Rocks_DB
  imports Databases
begin

text \<open>
  The RocksDB wrapper of \<open>src/database/src/rocks.rs\<close> over the crate \<open>rocksdb\<close>, which is a parameter,
  and the proof that a database whose calls do not fail meets the contract the stores rely on and
  answers like \<open>MemDB\<close>.
\<close>

section \<open>The wrapper\<close>

record 'r rocks_lib =
  rdb_open :: "bytes \<Rightarrow> bytes + 'r"
  rdb_get :: "'r \<Rightarrow> bytes \<Rightarrow> bytes + bytes option"
  rdb_put :: "'r \<Rightarrow> bytes \<Rightarrow> bytes \<Rightarrow> bytes + 'r"
  rdb_iterator :: "'r \<Rightarrow> (bytes + bytes \<times> bytes) list"
  rdb_prefix_iterator :: "'r \<Rightarrow> bytes \<Rightarrow> (bytes + bytes \<times> bytes) list"

text \<open>\<open>take_while\<close> over the items of the crate, each a value or an error.\<close>

fun rocks_take_while ::
  "bytes \<Rightarrow> ('e + bytes \<times> bytes) list \<Rightarrow> (bytes \<times> bytes) list option" where
  "rocks_take_while p [] = Some []"
| "rocks_take_while p (Inl e # rs) = None"
| "rocks_take_while p (Inr (k, v) # rs) =
     (if prefix p k then map_option (Cons (k, v)) (rocks_take_while p rs) else Some [])"

definition rocks_prefix_iterator ::
  "(bytes \<Rightarrow> ('e + bytes \<times> bytes) list) \<Rightarrow> bytes \<Rightarrow> (bytes \<times> bytes) list option" where
  "rocks_prefix_iterator raw p = rocks_take_while p (raw p)"

definition rocks_new :: "'r rocks_lib \<Rightarrow> bytes \<Rightarrow> bytes + 'r" where
  "rocks_new R path = rdb_open R path"

text \<open>An error panics; an iterator panics when it reaches one.\<close>

definition rocks_get :: "'r rocks_lib \<Rightarrow> 'r \<Rightarrow> bytes \<Rightarrow> bytes option option" where
  "rocks_get R s key = unwrap_result (Some (rdb_get R s key))"

definition rocks_put :: "'r rocks_lib \<Rightarrow> 'r \<Rightarrow> bytes \<Rightarrow> bytes \<Rightarrow> 'r option" where
  "rocks_put R s key val = unwrap_result (Some (rdb_put R s key val))"

fun rocks_items :: "('e + bytes \<times> bytes) list \<Rightarrow> (bytes \<times> bytes) list option" where
  "rocks_items [] = Some []"
| "rocks_items (Inl e # rs) = None"
| "rocks_items (Inr kv # rs) = map_option (Cons kv) (rocks_items rs)"

definition rocks_iterator :: "'r rocks_lib \<Rightarrow> 'r \<Rightarrow> (bytes \<times> bytes) list option" where
  "rocks_iterator R s = rocks_items (rdb_iterator R s)"

section \<open>A database whose calls do not fail\<close>

text \<open>
  The documented behaviour: the state is a sorted map \<open>contents s\<close>, reads and writes are those of a map,
  the iterator runs in key order; the one for a prefix yields the entries with the prefix and then
  possibly entries beyond it, as the comment in the code says.
\<close>

definition rocks_ok :: "'r rocks_lib \<Rightarrow> ('r \<Rightarrow> (bytes \<times> bytes) list) \<Rightarrow> ('r \<Rightarrow> bool) \<Rightarrow> bool" where
  "rocks_ok R contents P \<longleftrightarrow>
     (\<forall>s k. rdb_get R s k = Inr (map_of (contents s) k)) \<and>
     (\<forall>s k v. \<exists>s'. rdb_put R s k v = Inr s' \<and> contents s' = btree_insert k v (contents s) \<and> (P s \<longrightarrow> P s')) \<and>
     (\<forall>s. P s \<longrightarrow> btree_ok (contents s) \<and> rdb_iterator R s = map Inr (contents s) \<and>
        (\<forall>p. \<exists>es. (\<forall>e \<in> set es. \<not> prefix p (fst e)) \<and>
           rdb_prefix_iterator R s p = map Inr (filter (\<lambda>e. prefix p (fst e)) (contents s) @ es)))"

text \<open>
  The operations the stores are given, as total functions: on a failure, which panics, they return
  the state they were given and no value.
\<close>

definition rocks_ops :: "'r rocks_lib \<Rightarrow> 'r database_ops" where
  "rocks_ops R =
     \<lparr> db_get = (\<lambda>s k. case rocks_get R s k of Some r \<Rightarrow> r | None \<Rightarrow> None),
       db_put = (\<lambda>s k v. case rocks_put R s k v of Some s' \<Rightarrow> s' | None \<Rightarrow> s),
       db_iterator = rocks_iterator R,
       db_prefix_iterator = (\<lambda>s p. rocks_prefix_iterator (rdb_prefix_iterator R s) p) \<rparr>"

lemma rocks_items_Inr [simp]: "rocks_items (map Inr es) = Some es"
  by (induction es) simp_all

lemma rocks_get_ok: "rocks_ok R contents P \<Longrightarrow> rocks_get R s k = Some (map_of (contents s) k)"
  by (simp add: rocks_ok_def rocks_get_def)

lemma rocks_put_ok:
  assumes "rocks_ok R contents P"
  obtains s' where "rocks_put R s k v = Some s'" "contents s' = btree_insert k v (contents s)" "P s \<longrightarrow> P s'"
proof -
  from assms obtain s' where "rdb_put R s k v = Inr s'" "contents s' = btree_insert k v (contents s)" "P s \<longrightarrow> P s'"
    unfolding rocks_ok_def by blast
  then show thesis by (intro that) (simp_all add: rocks_put_def)
qed

lemma rocks_take_while_beyond:
  assumes "\<forall>e \<in> set es. prefix p (fst e)" "\<forall>e \<in> set es'. \<not> prefix p (fst e)"
  shows "rocks_take_while p (map Inr (es @ es')) = Some es"
  using assms(1)
proof (induction es)
  case Nil
  show ?case using assms(2) by (cases es') auto
qed auto

lemma rocks_scan_ok:
  assumes "rocks_ok R contents P" "P s"
  shows "rocks_prefix_iterator (rdb_prefix_iterator R s) p = Some (filter (\<lambda>e. prefix p (fst e)) (contents s))"
proof -
  from assms obtain es where "\<forall>e \<in> set es. \<not> prefix p (fst e)"
    "rdb_prefix_iterator R s p = map Inr (filter (\<lambda>e. prefix p (fst e)) (contents s) @ es)"
    unfolding rocks_ok_def by blast
  then show ?thesis
    using rocks_take_while_beyond [of "filter (\<lambda>e. prefix p (fst e)) (contents s)" p es]
    by (simp add: rocks_prefix_iterator_def)
qed

text \<open>
  An iterator that seeks the first key at or after the prefix and runs to the end, which is what the
  crate does without a prefix extractor, is of this kind.
\<close>

lemma seek_runs_beyond:
  fixes es :: "(bytes \<times> bytes) list"
  assumes "sorted_wrt (<) (map fst es)"
  shows "\<exists>es'. (\<forall>e \<in> set es'. \<not> prefix p (fst e)) \<and>
     filter (\<lambda>e. p \<le> fst e) es = filter (\<lambda>e. prefix p (fst e)) es @ es'"
  using assms
proof (induction es)
  case (Cons e es)
  obtain k v where e: "e = (k, v)" by (cases e)
  from Cons obtain es' where es': "\<forall>e \<in> set es'. \<not> prefix p (fst e)"
    "filter (\<lambda>e. p \<le> fst e) es = filter (\<lambda>e. prefix p (fst e)) es @ es'" by auto
  show ?case
  proof (cases "p \<le> k \<and> \<not> prefix p k")
    case True
    have "\<not> prefix p k'" if "(k', v') \<in> set es" for k' v'
    proof
      assume "prefix p k'"
      moreover have "k \<le> k'" using that Cons.prems e by (force simp: less_imp_le)
      ultimately have "prefix p k"
        using True prefix_between [of p "[]" k] by (auto simp: prefix_def)
      with True show False by simp
    qed
    then have "filter (\<lambda>e. prefix p (fst e)) es = []" by (auto simp: filter_empty_conv)
    with True e es' show ?thesis by (intro exI [of _ "e # es'"]) simp
  next
    case False
    then have "p \<le> k \<longleftrightarrow> prefix p k" using prefix_le by blast
    with e es' show ?thesis by (intro exI [of _ es']) simp
  qed
qed simp

lemma rocks_full_key_scan:
  assumes ok: "rocks_ok R contents P"
  shows "full_key_scan (rocks_ops R) P"
proof unfold_locales
  fix s k v
  obtain s' where s': "rocks_put R s k v = Some s'" "contents s' = btree_insert k v (contents s)" "P s \<longrightarrow> P s'"
    by (rule rocks_put_ok [OF ok])
  then show "db_get (rocks_ops R) (db_put (rocks_ops R) s k v) = (db_get (rocks_ops R) s)(k \<mapsto> v)"
    by (simp add: rocks_ops_def rocks_get_ok [OF ok] fun_eq_iff)
  show "P (db_put (rocks_ops R) s k v)" if "P s" using that s' by (simp add: rocks_ops_def)
next
  fix s p
  assume P: "P s"
  then have "btree_ok (contents s)" using ok by (simp add: rocks_ok_def)
  then show "\<exists>es. db_prefix_iterator (rocks_ops R) s p = Some es \<and>
      (\<forall>k v. (k, v) \<in> set es \<longleftrightarrow> prefix p k \<and> db_get (rocks_ops R) s k = Some v)"
    by (auto simp: rocks_ops_def rocks_scan_ok [OF ok P] rocks_get_ok [OF ok] btree_mem_get)
qed

section \<open>Properties\<close>

text \<open>
  (C27) In production the stores run on RocksDB, in the tests on MemDB, and both give the same
  answers: as long as the calls of the crate do not fail, the wrapper never panics, every read and
  both scans return what MemDB returns on the same entries, and writes keep the entries the same.
\<close>

theorem rocks_as_memdb:
  assumes "rocks_ok R contents P" "P s"
  shows "rocks_get R s k = Some (memdb_get \<lparr> mem_store = contents s \<rparr> k) \<and>
     (\<exists>s'. rocks_put R s k v = Some s' \<and> P s' \<and>
        \<lparr> mem_store = contents s' \<rparr> = memdb_put \<lparr> mem_store = contents s \<rparr> k v) \<and>
     rocks_iterator R s = memdb_iterator \<lparr> mem_store = contents s \<rparr> \<and>
     rocks_prefix_iterator (rdb_prefix_iterator R s) p
       = memdb_prefix_iterator \<lparr> mem_store = contents s \<rparr> p"
proof -
  obtain s' where "rocks_put R s k v = Some s'" "contents s' = btree_insert k v (contents s)" "P s \<longrightarrow> P s'"
    by (rule rocks_put_ok [OF assms(1)])
  moreover have "rocks_iterator R s = Some (contents s)"
    using assms by (simp add: rocks_iterator_def rocks_ok_def)
  ultimately show ?thesis
    using assms(2) by (simp add: rocks_get_ok [OF assms(1)] rocks_scan_ok [OF assms] memdb_get_def
        memdb_put_def memdb_iterator_def memdb_scan_eq)
qed

text \<open>The example: the crate over a sorted list.\<close>

definition demo_rocks :: "memdb rocks_lib" where
  "demo_rocks = \<lparr> rdb_open = (\<lambda>path. Inr memdb_new), rdb_get = (\<lambda>s k. Inr (memdb_get s k)),
     rdb_put = (\<lambda>s k v. Inr (memdb_put s k v)), rdb_iterator = (\<lambda>s. map Inr (mem_store s)),
     rdb_prefix_iterator = (\<lambda>s p. map Inr (filter (\<lambda>e. prefix p (fst e)) (mem_store s) @
       filter (\<lambda>e. p < fst e \<and> \<not> prefix p (fst e)) (mem_store s))) \<rparr>"

lemma demo_rocks_ok: "rocks_ok demo_rocks mem_store memdb_ok"
proof -
  have "\<exists>es'. (\<forall>e \<in> set es'. \<not> prefix p (fst e)) \<and>
     rdb_prefix_iterator demo_rocks s p = map Inr (filter (\<lambda>e. prefix p (fst e)) (mem_store s) @ es')" for s p
    by (intro exI [of _ "filter (\<lambda>e. p < fst e \<and> \<not> prefix p (fst e)) (mem_store s)"])
      (auto simp: demo_rocks_def)
  moreover have "memdb_ok s \<Longrightarrow> memdb_ok (memdb_put s k v)" for s k v
    using mem.inv_put by simp
  ultimately show ?thesis
    by (simp add: rocks_ok_def demo_rocks_def memdb_get_def memdb_put_def memdb_ok_def)
qed

interpretation rocks: full_key_scan "rocks_ops demo_rocks" memdb_ok
  by (rule rocks_full_key_scan [OF demo_rocks_ok])

lemma demo_rocks_ops: "rocks_ops demo_rocks = memdb_ops"
proof -
  have a: "rocks_prefix_iterator (rdb_prefix_iterator demo_rocks s) p = memdb_prefix_iterator s p" for s p
    unfolding rocks_prefix_iterator_def memdb_scan_eq demo_rocks_def rocks_lib.select_convs
    by (rule rocks_take_while_beyond) simp_all
  have b: "rocks_iterator demo_rocks = memdb_iterator"
    by (rule ext) (simp add: rocks_iterator_def demo_rocks_def memdb_iterator_def)
  have c: "rocks_get demo_rocks s k = Some (memdb_get s k)" "rocks_put demo_rocks s k v = Some (memdb_put s k v)"
    for s k v by (simp_all add: rocks_get_def rocks_put_def demo_rocks_def)
  show ?thesis unfolding rocks_ops_def memdb_ops_def a b c by (simp only: option.case)
qed

theorem rocks_as_memdb_witness:
  "rocks_prefix_iterator (rdb_prefix_iterator demo_rocks (memdb_put memdb_new [2, 1] [7])) [2]
     = Some [([2, 1], [7])]"
proof -
  have "memdb_ok (memdb_put memdb_new [2, 1] [7])" using mem.inv_put [OF memdb_new_ok] by simp
  from rocks_as_memdb [OF demo_rocks_ok this, of _ _ "[2]"] show ?thesis
    by (simp add: memdb_scan_eq memdb_put_def memdb_new_def)
qed

end
