(* ===== verification/Command_Line.thy ===== *)
theory Command_Line
  imports Network Node_Init Rocks_DB
begin

text \<open>
  The command line of the node (\<open>src/gears/src/app.rs\<close>, \<open>src/gears/src/baseapp/cli.rs\<close>,
  \<open>src/gaia-rs/src/client.rs\<close> and the builders of the modules): the commands as declared to
  \<open>clap\<close>, what the program reads from the matches it gets back, and the start of a node. \<open>clap\<close> is
  a parameter in the sense that any matches it may return for a declaration are considered.
\<close>

section \<open>Declarations and matches\<close>

datatype arg_kind = KString | KPath | KU16 | KUsize | KAddress | KCoin | KShell | KFlag

datatype arg_value =
  VString bytes | VPath bytes | VU16 "16 word" | VUsize u64 | VAddress acc_address | VCoin coin
| VShell bytes | VFlag bool

fun kind_of :: "arg_value \<Rightarrow> arg_kind" where
  "kind_of (VString _) = KString" | "kind_of (VPath _) = KPath" | "kind_of (VU16 _) = KU16"
| "kind_of (VUsize _) = KUsize" | "kind_of (VAddress _) = KAddress" | "kind_of (VCoin _) = KCoin"
| "kind_of (VShell _) = KShell" | "kind_of (VFlag _) = KFlag"

text \<open>An argument: its id, the type of its value parser, whether it is required, its default value.\<close>

record arg_spec =
  arg_id :: bytes
  arg_kind :: arg_kind
  arg_required :: bool
  arg_default :: "bytes option"

datatype cli_command =
  Command (cmd_name: bytes) (subcommand_required: bool) (cmd_args: "arg_spec list") (cmd_subs: "cli_command list")

datatype arg_matches =
  Matches (valid_args: "bytes list") (arg_values: "bytes \<rightharpoonup> arg_value") (subcommand: "(bytes \<times> arg_matches) option")

text \<open>
  What \<open>clap\<close> returns for a declaration: values of the declared types, present where required or
  defaulted (a flag always is), and a declared subcommand, unless none is required.
\<close>

fun matched :: "cli_command \<Rightarrow> arg_matches \<Rightarrow> bool" where
  "matched (Command name required args scs) m \<longleftrightarrow>
     (\<forall>a \<in> set args. arg_id a \<in> set (valid_args m) \<and>
        (case arg_values m (arg_id a) of
           None \<Rightarrow> \<not> arg_required a \<and> arg_default a = None \<and> arg_kind a \<noteq> KFlag
         | Some v \<Rightarrow> kind_of v = arg_kind a)) \<and>
     (case subcommand m of
        None \<Rightarrow> \<not> required
      | Some (sub, m') \<Rightarrow> \<exists>c \<in> set scs. cmd_name c = sub \<and> matched c m')"

text \<open>\<open>get_one\<close>: an undeclared id or a value of another type panics. \<open>expect\<close> needs a value.\<close>

definition get_one :: "(arg_value \<Rightarrow> 'a option) \<Rightarrow> arg_matches \<Rightarrow> bytes \<Rightarrow> 'a option option" where
  "get_one as m name =
     (if name \<notin> set (valid_args m) then None
      else (case arg_values m name of None \<Rightarrow> Some None | Some v \<Rightarrow> map_option Some (as v)))"

definition expect_one :: "(arg_value \<Rightarrow> 'a option) \<Rightarrow> arg_matches \<Rightarrow> bytes \<Rightarrow> 'a option" where
  "expect_one as m name = Option.bind (get_one as m name) (\<lambda>r. r)"

definition as_string :: "arg_value \<Rightarrow> bytes option" where
  "as_string v = (case v of VString s \<Rightarrow> Some s | _ \<Rightarrow> None)"
definition as_path :: "arg_value \<Rightarrow> bytes option" where
  "as_path v = (case v of VPath s \<Rightarrow> Some s | _ \<Rightarrow> None)"
definition as_u16 :: "arg_value \<Rightarrow> 16 word option" where
  "as_u16 v = (case v of VU16 n \<Rightarrow> Some n | _ \<Rightarrow> None)"
definition as_usize :: "arg_value \<Rightarrow> u64 option" where
  "as_usize v = (case v of VUsize n \<Rightarrow> Some n | _ \<Rightarrow> None)"
definition as_address :: "arg_value \<Rightarrow> acc_address option" where
  "as_address v = (case v of VAddress a \<Rightarrow> Some a | _ \<Rightarrow> None)"
definition as_coin :: "arg_value \<Rightarrow> coin option" where
  "as_coin v = (case v of VCoin c \<Rightarrow> Some c | _ \<Rightarrow> None)"
definition as_shell :: "arg_value \<Rightarrow> bytes option" where
  "as_shell v = (case v of VShell s \<Rightarrow> Some s | _ \<Rightarrow> None)"
definition as_flag :: "arg_value \<Rightarrow> bool option" where
  "as_flag v = (case v of VFlag b \<Rightarrow> Some b | _ \<Rightarrow> None)"

lemmas as_defs = as_string_def as_path_def as_u16_def as_usize_def as_address_def as_coin_def
  as_shell_def as_flag_def

section \<open>The commands\<close>

definition arg_new :: "bytes \<Rightarrow> arg_kind \<Rightarrow> bool \<Rightarrow> bytes option \<Rightarrow> arg_spec" where
  "arg_new name kind required default_value =
     \<lparr> arg_id = name, arg_kind = kind, arg_required = required, arg_default = default_value \<rparr>"

definition get_init_command :: cli_command where
  "get_init_command = Command (lit ''init'') False
     [arg_new (lit ''moniker'') KString True None,
      arg_new (lit ''home'') KPath False None,
      arg_new (lit ''id'') KString False (Some (lit ''test-chain''))] []"

definition get_run_command :: cli_command where
  "get_run_command = Command (lit ''run'') False
     [arg_new (lit ''home'') KPath False None,
      arg_new (lit ''host'') KString False (Some (lit ''127.0.0.1'')),
      arg_new (lit ''port'') KU16 False (Some (lit ''26658'')),
      arg_new (lit ''rest_port'') KU16 False (Some (lit ''1317'')),
      arg_new (lit ''read_buf_size'') KUsize False (Some (lit ''1048576'')),
      arg_new (lit ''verbose'') KFlag False None,
      arg_new (lit ''quiet'') KFlag False None] []"

definition get_query_command :: "cli_command list \<Rightarrow> cli_command" where
  "get_query_command sub_commands = Command (lit ''query'') True
     [arg_new (lit ''node'') KString False (Some (lit ''http://127.0.0.1:26657''))] sub_commands"

definition get_tx_command :: "cli_command list \<Rightarrow> cli_command" where
  "get_tx_command sub_commands = Command (lit ''tx'') True
     [arg_new (lit ''node'') KString False (Some (lit ''http://localhost:26657'')),
      arg_new (lit ''home'') KPath False None] sub_commands"

definition get_keys_sub_commands :: cli_command where
  "get_keys_sub_commands = Command (lit ''add'') False
     [arg_new (lit ''name'') KString True None,
      arg_new (lit ''overwrite'') KFlag False None,
      arg_new (lit ''home'') KPath False None] []"

definition get_keys_command :: cli_command where
  "get_keys_command = Command (lit ''keys'') True [] [get_keys_sub_commands]"

definition get_completions_command :: cli_command where
  "get_completions_command = Command (lit ''completions'') False
     [arg_new (lit ''shell'') KShell True None] []"

definition build_cli :: "bytes \<Rightarrow> cli_command list \<Rightarrow> cli_command list \<Rightarrow> cli_command" where
  "build_cli name query_commands tx_commands = Command name True []
     [get_init_command, get_run_command, get_query_command query_commands, get_keys_command,
      get_tx_command tx_commands, get_completions_command]"

definition get_bank_query_command :: cli_command where
  "get_bank_query_command = Command (lit ''bank'') True []
     [Command (lit ''balances'') False [arg_new (lit ''address'') KAddress True None] []]"

definition get_auth_query_command :: cli_command where
  "get_auth_query_command = Command (lit ''auth'') True []
     [Command (lit ''account'') False [arg_new (lit ''address'') KAddress True None] []]"

definition get_bank_tx_command :: cli_command where
  "get_bank_tx_command = Command (lit ''bank'') True []
     [Command (lit ''send'') False
        [arg_new (lit ''from_address'') KString True None,
         arg_new (lit ''to_address'') KAddress True None,
         arg_new (lit ''amount'') KCoin True None,
         arg_new (lit ''fee'') KCoin False None] []]"

definition gaia_cli :: "bytes \<Rightarrow> cli_command" where
  "gaia_cli name = build_cli name [get_bank_query_command, get_auth_query_command] [get_bank_tx_command]"

section \<open>What the program reads\<close>

text \<open>
  The command a command line asks for, with its arguments, or the text of an error. They are
  executed by \<open>run_init_command\<close>, \<open>start_node\<close>, \<open>execute_query\<close>, \<open>execute_add_key\<close> and
  \<open>execute_send\<close>; the completions are printed by \<open>clap_complete\<close>. Only the opening of a connection
  lies between reading arguments in the code; as reading them is shown not to fail
  below, the order does not matter.
\<close>

datatype log_level = LevelOff | LevelDebug | LevelInfo

record run_config =
  rc_host :: bytes
  rc_port :: "16 word"
  rc_read_buf_size :: u64
  rc_rest_port :: "16 word"
  rc_log_level :: log_level
  rc_home :: bytes

datatype query_action = QueryBalances acc_address | QueryAccount acc_address

record send_args =
  sa_from_address :: bytes
  sa_to_address :: acc_address
  sa_amount :: coin
  sa_fee :: "coin option"

datatype action =
  InitNode bytes bytes bytes
| RunNode run_config
| RunQuery bytes query_action
| AddKey bytes bool bytes
| RunSend bytes bytes send_args
| Completions "bytes option"

definition NO_HOME :: bytes where
  "NO_HOME = lit ''Home argument not provided and OS does not provide a default home directory''"

definition home_or :: "os \<Rightarrow> bytes \<Rightarrow> bytes option \<Rightarrow> bytes + bytes" where
  "home_or OS name home =
     (case home of Some h \<Rightarrow> Inr h
      | None \<Rightarrow> (case get_default_home_dir OS name of Some h \<Rightarrow> Inr h | None \<Rightarrow> Inl NO_HOME))"

definition init_arguments :: "os \<Rightarrow> bytes \<Rightarrow> arg_matches \<Rightarrow> (bytes + action) option" where
  "init_arguments OS name m = do {
     moniker \<leftarrow> expect_one as_string m (lit ''moniker'');
     home \<leftarrow> get_one as_path m (lit ''home'');
     try_bind (Some (home_or OS name home)) (\<lambda>home. do {
       chain_id \<leftarrow> expect_one as_string m (lit ''id'');
       Some (Inr (InitNode moniker home chain_id)) }) }"

definition run_arguments :: "os \<Rightarrow> bytes \<Rightarrow> arg_matches \<Rightarrow> (bytes + action) option" where
  "run_arguments OS name m = do {
     host \<leftarrow> expect_one as_string m (lit ''host'');
     port \<leftarrow> expect_one as_u16 m (lit ''port'');
     read_buf_size \<leftarrow> expect_one as_usize m (lit ''read_buf_size'');
     rest_port \<leftarrow> expect_one as_u16 m (lit ''rest_port'');
     verbose \<leftarrow> expect_one as_flag m (lit ''verbose'');
     quiet \<leftarrow> expect_one as_flag m (lit ''quiet'');
     let log_level = (if quiet then LevelOff else if verbose then LevelDebug else LevelInfo);
     home \<leftarrow> get_one as_path m (lit ''home'');
     try_bind (Some (home_or OS name home)) (\<lambda>home.
       Some (Inr (RunNode \<lparr> rc_host = host, rc_port = port, rc_read_buf_size = read_buf_size,
         rc_rest_port = rest_port, rc_log_level = log_level, rc_home = home \<rparr>))) }"

definition run_keys_command :: "os \<Rightarrow> bytes \<Rightarrow> arg_matches \<Rightarrow> (bytes + action) option" where
  "run_keys_command OS name m =
     (case subcommand m of
        None \<Rightarrow> None
      | Some (sub, sub_matches) \<Rightarrow>
          if sub = lit ''add'' then do {
            key_name \<leftarrow> expect_one as_string sub_matches (lit ''name'');
            overwrite \<leftarrow> expect_one as_flag sub_matches (lit ''overwrite'');
            home \<leftarrow> get_one as_path sub_matches (lit ''home'');
            try_bind (Some (home_or OS name home)) (\<lambda>home.
              Some (Inr (AddKey key_name overwrite home))) }
          else None)"

definition run_bank_query_command :: "arg_matches \<Rightarrow> query_action option" where
  "run_bank_query_command m =
     (case subcommand m of
        None \<Rightarrow> None
      | Some (sub, sub_matches) \<Rightarrow>
          if sub = lit ''balances''
          then map_option QueryBalances (expect_one as_address sub_matches (lit ''address'')) else None)"

definition run_auth_query_command :: "arg_matches \<Rightarrow> query_action option" where
  "run_auth_query_command m =
     (case subcommand m of
        None \<Rightarrow> None
      | Some (sub, sub_matches) \<Rightarrow>
          if sub = lit ''account''
          then map_option QueryAccount (expect_one as_address sub_matches (lit ''address'')) else None)"

definition query_command_handler :: "arg_matches \<Rightarrow> (bytes + action) option" where
  "query_command_handler m = do {
     node \<leftarrow> expect_one as_string m (lit ''node'');
     query \<leftarrow> (case subcommand m of
         None \<Rightarrow> None
       | Some (sub, sub_matches) \<Rightarrow>
           if sub = lit ''bank'' then run_bank_query_command sub_matches
           else if sub = lit ''auth'' then run_auth_query_command sub_matches
           else None);
     Some (Inr (RunQuery node query)) }"

definition run_bank_tx_command :: "arg_matches \<Rightarrow> send_args option" where
  "run_bank_tx_command m =
     (case subcommand m of
        None \<Rightarrow> None
      | Some (sub, sub_matches) \<Rightarrow>
          if sub = lit ''send'' then do {
            from_addr \<leftarrow> expect_one as_string sub_matches (lit ''from_address'');
            to_addr \<leftarrow> expect_one as_address sub_matches (lit ''to_address'');
            amt \<leftarrow> expect_one as_coin sub_matches (lit ''amount'');
            fee \<leftarrow> get_one as_coin sub_matches (lit ''fee'');
            Some \<lparr> sa_from_address = from_addr, sa_to_address = to_addr, sa_amount = amt, sa_fee = fee \<rparr> }
          else None)"

definition tx_command_handler :: "os \<Rightarrow> bytes \<Rightarrow> arg_matches \<Rightarrow> (bytes + action) option" where
  "tx_command_handler OS name m = do {
     node \<leftarrow> expect_one as_string m (lit ''node'');
     home \<leftarrow> get_one as_path m (lit ''home'');
     try_bind (Some (home_or OS name home)) (\<lambda>home. do {
       send \<leftarrow> (case subcommand m of
           None \<Rightarrow> None
         | Some (sub, sub_matches) \<Rightarrow>
             if sub = lit ''bank'' then run_bank_tx_command sub_matches else None);
       Some (Inr (RunSend node home send)) }) }"

definition run_completions_command :: "arg_matches \<Rightarrow> (bytes + action) option" where
  "run_completions_command m = do {
     generator \<leftarrow> get_one as_shell m (lit ''shell'');
     Some (Inr (Completions generator)) }"

definition app_run ::
  "os \<Rightarrow> bytes \<Rightarrow> (arg_matches \<Rightarrow> (bytes + action) option) \<Rightarrow> (arg_matches \<Rightarrow> (bytes + action) option) \<Rightarrow>
     arg_matches \<Rightarrow> (bytes + action) option" where
  "app_run OS name query_handler tx_handler m =
     (case subcommand m of
        None \<Rightarrow> None
      | Some (sub, sub_matches) \<Rightarrow>
          if sub = lit ''init'' then init_arguments OS name sub_matches
          else if sub = lit ''run'' then run_arguments OS name sub_matches
          else if sub = lit ''query'' then query_handler sub_matches
          else if sub = lit ''keys'' then run_keys_command OS name sub_matches
          else if sub = lit ''tx'' then tx_handler sub_matches
          else if sub = lit ''completions'' then run_completions_command sub_matches
          else None)"

definition gaia_main :: "os \<Rightarrow> bytes \<Rightarrow> arg_matches \<Rightarrow> (bytes + action) option" where
  "gaia_main OS name m = app_run OS name query_command_handler (tx_command_handler OS name) m"

section \<open>The start of a node\<close>

text \<open>\<open>run_run_command\<close> after its arguments: the database, the reactor, the application.\<close>

definition start_node ::
  "'r rocks_lib \<Rightarrow> ('w, 'g) p2p_lib \<Rightarrow> 'g \<Rightarrow> 'r host \<Rightarrow> ('r, 'm, 'ge) app \<Rightarrow> run_config \<Rightarrow>
     (bytes + ('r, 'g) peer) option" where
  "start_node R N g H app config =
     (let db_dir = path_push (path_push (rc_home config) (lit ''data'')) (lit ''application.db'')
      in case rocks_new R db_dir of
           Inl e \<Rightarrow> Some (Inl (lit ''Could not open database: '' @ e))
         | Inr db \<Rightarrow> do {
             nd \<leftarrow> base_app_new H app db;
             x \<leftarrow> reactor_new N g nd;
             Some (Inr x) })"

section \<open>The commands of a client\<close>

text \<open>
  \<open>http_client\<close> connects to a node; a connection answers queries and takes transactions.
  \<open>fs\<close> is the file system with the keys.
\<close>

record 'res http =
  http_abci_query :: rpc
  http_broadcast_tx_commit :: "bytes \<Rightarrow> bytes + 'res"

definition KEYSTORE_DISK_BACKEND :: bytes where
  "KEYSTORE_DISK_BACKEND = lit ''keyring-test''"

definition disk_store_new :: "os \<Rightarrow> bytes \<Rightarrow> bytes + bytes" where
  "disk_store_new OS home =
     (let path = path_push home KEYSTORE_DISK_BACKEND
      in case os_create_dir_all OS path of Some e \<Rightarrow> Inl e | None \<Rightarrow> Inr path)"

definition broadcast_tx_commit ::
  "('res \<Rightarrow> bytes + bytes) \<Rightarrow> 'res http \<Rightarrow> bytes \<Rightarrow> (bytes + bytes) option" where
  "broadcast_tx_commit to_string_pretty client raw_tx = do {
     res \<leftarrow> unwrap_result (Some (http_broadcast_tx_commit client raw_tx));
     Some (to_string_pretty res) }"

definition execute_query ::
  "'a libs_scheme \<Rightarrow> (query_all_balances_response \<Rightarrow> bytes + bytes) \<Rightarrow>
     (query_account_response \<Rightarrow> bytes + bytes) \<Rightarrow> (bytes \<Rightarrow> bytes + 'res http) \<Rightarrow> bytes \<Rightarrow> query_action \<Rightarrow>
     (bytes + bytes) option" where
  "execute_query L balances_text account_text http_client node query =
     (let client = map_sum (\<lambda>e. e) http_abci_query (http_client node)
      in case query of
           QueryBalances address \<Rightarrow> run_bank_query_balances L balances_text client address
         | QueryAccount address \<Rightarrow> run_auth_query_account L account_text client address)"

definition execute_add_key ::
  "os \<Rightarrow> (bytes \<Rightarrow> bytes + key_pair) \<Rightarrow> (bytes \<Rightarrow> bytes) \<Rightarrow> (key_pair \<Rightarrow> bytes) \<Rightarrow> (bytes \<Rightarrow> bytes + key_pair) \<Rightarrow>
     files \<Rightarrow> bytes \<Rightarrow> bool \<Rightarrow> bytes \<Rightarrow> bytes \<Rightarrow> (bytes, unit, files) outcome" where
  "execute_add_key OS from_reader path_text to_writer from_mnemonic fs name overwrite home mnemonic =
     and_then (reading (Some (disk_store_new OS home)) fs) (\<lambda>path fs.
     run_keys_add OS from_reader path_text to_writer from_mnemonic fs path name overwrite mnemonic)"

definition execute_send ::
  "os \<Rightarrow> 'a libs_scheme \<Rightarrow> (bytes \<Rightarrow> bytes + key_pair) \<Rightarrow> (bytes \<Rightarrow> bytes) \<Rightarrow> ('res \<Rightarrow> bytes + bytes) \<Rightarrow>
     (bytes \<Rightarrow> bytes + 'res http) \<Rightarrow> files \<Rightarrow> bytes \<Rightarrow> bytes \<Rightarrow> send_args \<Rightarrow> (bytes + bytes) option" where
  "execute_send OS L from_reader path_text to_string_pretty http_client fs node home args =
     try_bind (Some (disk_store_new OS home)) (\<lambda>path.
     try_bind (Some (disk_get_key OS from_reader path_text fs path (sa_from_address args))) (\<lambda>key.
     try_bind (Some (http_client node)) (\<lambda>client.
     try_bind (run_bank_send L (http_abci_query client) (Inr key) (sa_to_address args) (sa_amount args)
       (sa_fee args)) (\<lambda>raw_tx.
     try_bind (Some (http_client node)) (\<lambda>client.
     broadcast_tx_commit to_string_pretty client raw_tx)))))"

section \<open>The program reads what is declared\<close>

lemma as_kind:
  "\<forall>v. kind_of v = KString \<longrightarrow> (\<exists>x. as_string v = Some x)" "\<forall>v. kind_of v = KPath \<longrightarrow> (\<exists>x. as_path v = Some x)"
  "\<forall>v. kind_of v = KU16 \<longrightarrow> (\<exists>x. as_u16 v = Some x)" "\<forall>v. kind_of v = KUsize \<longrightarrow> (\<exists>x. as_usize v = Some x)"
  "\<forall>v. kind_of v = KAddress \<longrightarrow> (\<exists>x. as_address v = Some x)" "\<forall>v. kind_of v = KCoin \<longrightarrow> (\<exists>x. as_coin v = Some x)"
  "\<forall>v. kind_of v = KShell \<longrightarrow> (\<exists>x. as_shell v = Some x)" "\<forall>v. kind_of v = KFlag \<longrightarrow> (\<exists>x. as_flag v = Some x)"
  by (simp_all add: as_defs split: arg_value.splits)

lemma declared_get:
  assumes "matched (Command n r args scs) m" "\<forall>v. kind_of v = kind \<longrightarrow> (\<exists>x. as v = Some x)"
    and "\<exists>a \<in> set args. arg_id a = name \<and> arg_kind a = kind"
  shows "\<exists>r. get_one as m name = Some r"
proof -
  from assms(3) obtain a where a: "a \<in> set args" "arg_id a = name" "arg_kind a = kind" by blast
  from bspec [OF conjunct1 [OF assms(1) [unfolded matched.simps]] a(1)] a(2,3) assms(2)
  show ?thesis by (force simp: get_one_def split: option.splits)
qed

lemma declared_expect:
  assumes "matched (Command n r args scs) m" "\<forall>v. kind_of v = kind \<longrightarrow> (\<exists>x. as v = Some x)"
    and "\<exists>a \<in> set args. arg_id a = name \<and> arg_kind a = kind \<and>
      (arg_required a \<or> arg_default a \<noteq> None \<or> kind = KFlag)"
  shows "\<exists>r. expect_one as m name = Some r"
proof -
  from assms(3) obtain a where a: "a \<in> set args" "arg_id a = name" "arg_kind a = kind"
    "arg_required a \<or> arg_default a \<noteq> None \<or> kind = KFlag" by blast
  from bspec [OF conjunct1 [OF assms(1) [unfolded matched.simps]] a(1)] a(2-4)
  obtain v where v: "name \<in> set (valid_args m)" "arg_values m name = Some v" "kind_of v = kind"
    by (auto split: option.splits)
  with assms(2) show ?thesis by (auto simp: expect_one_def get_one_def)
qed

lemma arg_new_simps [simp]:
  "arg_id (arg_new name kind required default_value) = name"
  "arg_kind (arg_new name kind required default_value) = kind"
  "arg_required (arg_new name kind required default_value) = required"
  "arg_default (arg_new name kind required default_value) = default_value"
  by (simp_all add: arg_new_def)

text \<open>A declared subcommand, where one is required.\<close>

lemma declared_sub:
  assumes "matched (Command n True args scs) m"
  obtains c m' where "subcommand m = Some (cmd_name c, m')" "c \<in> set scs" "matched c m'"
proof -
  have "case subcommand m of None \<Rightarrow> False | Some (sub, m') \<Rightarrow> \<exists>c \<in> set scs. cmd_name c = sub \<and> matched c m'"
    using conjunct2 [OF assms [unfolded matched.simps]] by (auto split: option.splits)
  then show thesis using that by (auto split: option.splits)
qed

definition answers :: "os \<Rightarrow> (bytes + action) option \<Rightarrow> bool" where
  "answers OS r \<longleftrightarrow> (\<exists>res. r = Some res \<and> (os_home_dir OS \<noteq> None \<longrightarrow> (\<exists>a. res = Inr a)))"

lemma answers_Inr: "answers OS (Some (Inr a))"
  by (simp add: answers_def)

lemma answers_bind: "\<exists>x. e = Some x \<Longrightarrow> (\<And>x. answers OS (f x)) \<Longrightarrow> answers OS (Option.bind e f)"
  by auto

lemma answers_home: "(\<And>h. answers OS (f h)) \<Longrightarrow> answers OS (try_bind (Some (home_or OS name home)) f)"
  by (auto simp: home_or_def get_default_home_dir_def answers_def split: option.splits)

lemmas answers_intros = answers_bind answers_home answers_Inr

text \<open>One rule per type: the argument has to be declared with it.\<close>

lemmas reads = declared_expect [OF _ as_kind(1)] declared_expect [OF _ as_kind(3)]
  declared_expect [OF _ as_kind(4)] declared_expect [OF _ as_kind(5)] declared_expect [OF _ as_kind(6)]
  declared_expect [OF _ as_kind(8)] declared_get [OF _ as_kind(2)] declared_get [OF _ as_kind(6)]
  declared_get [OF _ as_kind(7)]

lemma init_answers:
  assumes "matched get_init_command m"
  shows "answers OS (init_arguments OS name m)"
proof -
  note d = assms [unfolded get_init_command_def]
  have "\<exists>x. expect_one as_string m (lit ''moniker'') = Some x" "\<exists>x. get_one as_path m (lit ''home'') = Some x"
    "\<exists>x. expect_one as_string m (lit ''id'') = Some x"
    by (rule reads [OF d]; simp)+
  then show ?thesis unfolding init_arguments_def by (intro answers_intros)
qed

lemma run_answers:
  assumes "matched get_run_command m"
  shows "answers OS (run_arguments OS name m)"
proof -
  note d = assms [unfolded get_run_command_def]
  have "\<exists>x. expect_one as_string m (lit ''host'') = Some x" "\<exists>x. expect_one as_u16 m (lit ''port'') = Some x"
    "\<exists>x. expect_one as_usize m (lit ''read_buf_size'') = Some x" "\<exists>x. expect_one as_u16 m (lit ''rest_port'') = Some x"
    "\<exists>x. expect_one as_flag m (lit ''verbose'') = Some x" "\<exists>x. expect_one as_flag m (lit ''quiet'') = Some x"
    "\<exists>x. get_one as_path m (lit ''home'') = Some x"
    by (rule reads [OF d]; simp)+
  then show ?thesis unfolding run_arguments_def Let_def by (intro answers_intros)
qed

lemma keys_answers:
  assumes "matched get_keys_command m"
  shows "answers OS (run_keys_command OS name m)"
proof -
  obtain m' where m: "subcommand m = Some (lit ''add'', m')" "matched get_keys_sub_commands m'"
    by (rule declared_sub [OF assms [unfolded get_keys_command_def]]) (auto simp: get_keys_sub_commands_def)
  note d = m(2) [unfolded get_keys_sub_commands_def]
  have "\<exists>x. expect_one as_string m' (lit ''name'') = Some x" "\<exists>x. expect_one as_flag m' (lit ''overwrite'') = Some x"
    "\<exists>x. get_one as_path m' (lit ''home'') = Some x"
    by (rule reads [OF d]; simp)+
  then have "answers OS (do { key_name \<leftarrow> expect_one as_string m' (lit ''name'');
      overwrite \<leftarrow> expect_one as_flag m' (lit ''overwrite''); home \<leftarrow> get_one as_path m' (lit ''home'');
      try_bind (Some (home_or OS name home)) (\<lambda>home. Some (Inr (AddKey key_name overwrite home))) })"
    by (intro answers_intros)
  then show ?thesis by (simp add: run_keys_command_def m(1))
qed

lemma bank_query_reads:
  assumes "matched get_bank_query_command m"
  shows "\<exists>q. run_bank_query_command m = Some q"
proof -
  obtain m' where m: "subcommand m = Some (lit ''balances'', m')"
    "matched (Command (lit ''balances'') False [arg_new (lit ''address'') KAddress True None] []) m'"
    by (rule declared_sub [OF assms [unfolded get_bank_query_command_def]]) auto
  have "\<exists>x. expect_one as_address m' (lit ''address'') = Some x" by (rule reads [OF m(2)]; simp)
  then show ?thesis by (auto simp: run_bank_query_command_def m(1))
qed

lemma auth_query_reads:
  assumes "matched get_auth_query_command m"
  shows "\<exists>q. run_auth_query_command m = Some q"
proof -
  obtain m' where m: "subcommand m = Some (lit ''account'', m')"
    "matched (Command (lit ''account'') False [arg_new (lit ''address'') KAddress True None] []) m'"
    by (rule declared_sub [OF assms [unfolded get_auth_query_command_def]]) auto
  have "\<exists>x. expect_one as_address m' (lit ''address'') = Some x" by (rule reads [OF m(2)]; simp)
  then show ?thesis by (auto simp: run_auth_query_command_def m(1))
qed

lemma query_answers:
  assumes "matched (get_query_command [get_bank_query_command, get_auth_query_command]) m"
  shows "answers OS (query_command_handler m)"
proof -
  note d = assms [unfolded get_query_command_def]
  have n: "\<exists>x. expect_one as_string m (lit ''node'') = Some x" by (rule reads [OF d]; simp)
  obtain c m' where m: "subcommand m = Some (cmd_name c, m')"
    "c \<in> {get_bank_query_command, get_auth_query_command}" "matched c m'"
    by (rule declared_sub [OF d]) auto
  have "cmd_name get_bank_query_command = lit ''bank''" "cmd_name get_auth_query_command = lit ''auth''"
    by (simp_all add: get_bank_query_command_def get_auth_query_command_def)
  with m bank_query_reads auth_query_reads n show ?thesis
    by (fastforce simp: query_command_handler_def answers_Inr)
qed

lemma tx_answers:
  assumes "matched (get_tx_command [get_bank_tx_command]) m"
  shows "answers OS (tx_command_handler OS name m)"
proof -
  note d = assms [unfolded get_tx_command_def]
  obtain m' where m: "subcommand m = Some (lit ''bank'', m')" "matched get_bank_tx_command m'"
    by (rule declared_sub [OF d]) (auto simp: get_bank_tx_command_def)
  obtain m'' where m': "subcommand m' = Some (lit ''send'', m'')" "matched (hd (cmd_subs get_bank_tx_command)) m''"
    by (rule declared_sub [OF m(2) [unfolded get_bank_tx_command_def]]) (auto simp: get_bank_tx_command_def)
  note d' = m'(2) [unfolded get_bank_tx_command_def cli_command.sel list.sel]
  have "\<exists>x. expect_one as_string m'' (lit ''from_address'') = Some x"
    "\<exists>x. expect_one as_address m'' (lit ''to_address'') = Some x"
    "\<exists>x. expect_one as_coin m'' (lit ''amount'') = Some x" "\<exists>x. get_one as_coin m'' (lit ''fee'') = Some x"
    by (rule reads [OF d']; simp)+
  then have s: "\<exists>x. run_bank_tx_command m' = Some x" by (auto simp: run_bank_tx_command_def m'(1))
  have "\<exists>x. expect_one as_string m (lit ''node'') = Some x" "\<exists>x. get_one as_path m (lit ''home'') = Some x"
    by (rule reads [OF d]; simp)+
  moreover have "\<exists>x. (case subcommand m of None \<Rightarrow> None | Some (sub, sub_matches) \<Rightarrow>
      if sub = lit ''bank'' then run_bank_tx_command sub_matches else None) = Some x"
    using s by (simp add: m(1))
  ultimately show ?thesis unfolding tx_command_handler_def by (intro answers_intros)
qed

lemma completions_answers:
  assumes "matched get_completions_command m"
  shows "answers OS (run_completions_command m)"
proof -
  have "\<exists>x. get_one as_shell m (lit ''shell'') = Some x"
    by (rule reads [OF assms [unfolded get_completions_command_def]]; simp)
  then show ?thesis unfolding run_completions_command_def by (intro answers_intros)
qed

lemma main_answers:
  assumes "matched (gaia_cli name) m"
  shows "answers OS (gaia_main OS name m)"
proof -
  note cli = gaia_cli_def build_cli_def
  obtain c m' where m: "subcommand m = Some (cmd_name c, m')" "matched c m'" "c \<in> {get_init_command,
    get_run_command, get_query_command [get_bank_query_command, get_auth_query_command], get_keys_command,
    get_tx_command [get_bank_tx_command], get_completions_command}"
    by (rule declared_sub [OF assms [unfolded cli]]) auto
  have "cmd_name get_init_command = lit ''init''" "cmd_name get_run_command = lit ''run''"
    "cmd_name (get_query_command q) = lit ''query''" "cmd_name get_keys_command = lit ''keys''"
    "cmd_name (get_tx_command q) = lit ''tx''" "cmd_name get_completions_command = lit ''completions''" for q
    by (simp_all add: get_init_command_def get_run_command_def get_query_command_def get_keys_command_def
        get_tx_command_def get_completions_command_def)
  with m show ?thesis
    using init_answers run_answers query_answers keys_answers tx_answers completions_answers
    by (auto simp: gaia_main_def app_run_def)
qed

section \<open>A command line for every command\<close>

definition leaf :: "(bytes \<times> arg_value option) list \<Rightarrow> arg_matches" where
  "leaf args = Matches (map fst args) (\<lambda>name. Option.bind (map_of args name) (\<lambda>v. v)) None"

definition below :: "(bytes \<times> arg_value option) list \<Rightarrow> bytes \<Rightarrow> arg_matches \<Rightarrow> arg_matches" where
  "below args name m =
     Matches (map fst args) (\<lambda>name. Option.bind (map_of args name) (\<lambda>v. v)) (Some (name, m))"

fun command_line :: "action \<Rightarrow> arg_matches" where
  "command_line (InitNode moniker home chain_id) = below [] (lit ''init'')
     (leaf [(lit ''moniker'', Some (VString moniker)), (lit ''home'', Some (VPath home)),
       (lit ''id'', Some (VString chain_id))])"
| "command_line (RunNode c) = below [] (lit ''run'')
     (leaf [(lit ''home'', Some (VPath (rc_home c))), (lit ''host'', Some (VString (rc_host c))),
       (lit ''port'', Some (VU16 (rc_port c))), (lit ''rest_port'', Some (VU16 (rc_rest_port c))),
       (lit ''read_buf_size'', Some (VUsize (rc_read_buf_size c))),
       (lit ''verbose'', Some (VFlag (rc_log_level c = LevelDebug))),
       (lit ''quiet'', Some (VFlag (rc_log_level c = LevelOff)))])"
| "command_line (RunQuery node (QueryBalances addr)) = below [] (lit ''query'')
     (below [(lit ''node'', Some (VString node))] (lit ''bank'')
       (below [] (lit ''balances'') (leaf [(lit ''address'', Some (VAddress addr))])))"
| "command_line (RunQuery node (QueryAccount addr)) = below [] (lit ''query'')
     (below [(lit ''node'', Some (VString node))] (lit ''auth'')
       (below [] (lit ''account'') (leaf [(lit ''address'', Some (VAddress addr))])))"
| "command_line (AddKey name overwrite home) = below [] (lit ''keys'')
     (below [] (lit ''add'') (leaf [(lit ''name'', Some (VString name)),
       (lit ''overwrite'', Some (VFlag overwrite)), (lit ''home'', Some (VPath home))]))"
| "command_line (RunSend node home args) = below [] (lit ''tx'')
     (below [(lit ''node'', Some (VString node)), (lit ''home'', Some (VPath home))] (lit ''bank'')
       (below [] (lit ''send'') (leaf [(lit ''from_address'', Some (VString (sa_from_address args))),
         (lit ''to_address'', Some (VAddress (sa_to_address args))),
         (lit ''amount'', Some (VCoin (sa_amount args))),
         (lit ''fee'', map_option VCoin (sa_fee args))])))"
| "command_line (Completions shell) = below [] (lit ''completions'')
     (leaf [(lit ''shell'', map_option VShell shell)])"

lemmas cli_defs = gaia_cli_def build_cli_def get_init_command_def get_run_command_def get_query_command_def
  get_keys_command_def get_keys_sub_commands_def get_tx_command_def get_completions_command_def
  get_bank_query_command_def get_auth_query_command_def get_bank_tx_command_def

lemmas reading_defs = gaia_main_def app_run_def init_arguments_def run_arguments_def run_keys_command_def
  query_command_handler_def run_bank_query_command_def run_auth_query_command_def tx_command_handler_def
  run_bank_tx_command_def run_completions_command_def home_or_def expect_one_def get_one_def as_defs

lemma command_line_matched:
  "a \<noteq> Completions None \<Longrightarrow> matched (gaia_cli name) (command_line a)"
  by (cases a rule: command_line.cases)
    (auto simp: cli_defs leaf_def below_def split: option.splits)

lemma config_level:
  "rc_log_level c \<noteq> LevelDebug \<Longrightarrow> rc_log_level c \<noteq> LevelOff \<Longrightarrow>
   \<lparr> rc_host = rc_host c, rc_port = rc_port c, rc_read_buf_size = rc_read_buf_size c,
     rc_rest_port = rc_rest_port c, rc_log_level = LevelInfo, rc_home = rc_home c \<rparr> = c"
  by (cases c; cases "rc_log_level c") simp_all

lemma command_line_read: "gaia_main OS name (command_line a) = Some (Inr a)"
  by (cases a rule: command_line.cases)
    (auto simp: reading_defs leaf_def below_def Let_def config_level split: option.splits)

section \<open>Properties\<close>

text \<open>
  (C26) The handlers and the declarations of the command line agree. Whatever matches \<open>clap\<close> returns
  for the declared commands, the dispatch finds a handler, every argument that is expected is there
  and has the type it is read at, so neither an \<open>unreachable!\<close> nor an \<open>expect\<close> panics, and with a
  home directory of the operating system the result is a command to execute. Conversely every
  command with its arguments can be asked for by matches of the declared form.
\<close>

theorem command_line_exact:
  shows "(\<forall>m. matched (gaia_cli name) m \<longrightarrow> (\<exists>r. gaia_main OS name m = Some r \<and>
       (os_home_dir OS \<noteq> None \<longrightarrow> (\<exists>a. r = Inr a)))) \<and>
     (\<forall>a. a \<noteq> Completions None \<longrightarrow>
       (\<exists>m. matched (gaia_cli name) m \<and> gaia_main OS name m = Some (Inr a)))"
  using main_answers [of name _ OS] command_line_matched command_line_read
  unfolding answers_def by blast

theorem command_line_exact_witness:
  "\<exists>m. matched (gaia_cli (lit ''gaia-rs'')) m \<and>
     gaia_main \<lparr> os_home_dir = None, os_resolve = (\<lambda>p. p), os_create_dir_all = Map.empty,
         os_create = Map.empty, os_open = Map.empty, os_write = Map.empty, os_remove = Map.empty \<rparr>
       (lit ''gaia-rs'') m = Some (Inr (AddKey [97] False [47]))"
  using command_line_exact [of "lit ''gaia-rs''"] by blast

text \<open>
  (C10) The node in production: when the command \<open>run\<close> opens the RocksDB database of a node that was
  stopped after a commit, it starts with the stores, the height and the hash of that node, holds
  the same ledger and the same accounts, and has an empty channel subscribed to both topics.
\<close>

theorem run_restores_node:
  fixes H :: "'r host" and env :: gaia_env
  assumes R: "rocks_ok R contents P" "host_db H = rocks_ops R"
    and C: "varint_ok (storage H)" "sha256_ok (storage H)"
    and i: "node_inv H P nd bal accs"
    and c: "clean_stores (storage H) (host_db H) (nd_db nd) (nd_multi_store nd)"
    and commit: "abci_commit H nd = Some (res, nd')"
    and db: "rdb_open R (path_push (path_push (rc_home config) (lit ''data'')) (lit ''application.db''))
      = Inr (nd_db nd')"
    and topics: "subscribe_all N [BLOCK_TOPIC, TRANX_TOPIC] g = Some g'"
  shows "\<exists>x. start_node R N g H (gaia_app H env) config = Some (Inr x) \<and>
     peer_node x = nd'\<lparr> nd_block_header := None \<rparr> \<and> node_inv H P (peer_node x) bal accs \<and>
     peer_queue x = [] \<and> peer_swarm x = g'"
proof -
  have D: "full_key_scan (host_db H) P" using rocks_full_key_scan [OF R(1)] R(2) by simp
  obtain v where v: "checked_add (nd_height nd) 1 = Some v" "uint (nd_height nd) < 2 ^ 63"
    by (rule abci_commit_height [OF commit])
  obtain res1 nd1 where n: "abci_commit H nd = Some (res1, nd1)" "node_inv H P nd1 bal accs"
    "just_committed (storage H) (nd_multi_store nd1)"
    by (rule chain_commit [OF D C i c v])
  with commit chain_restart [OF n(2,3), of env] db topics show ?thesis
    by (simp add: start_node_def rocks_new_def reactor_new_def Let_def del: subscribe_all.simps)
qed

theorem run_restores_node_witness:
  "\<exists>R res nd' x. abci_commit demo_host demo_pending = Some (res, nd') \<and>
     start_node R demo_p2p {} demo_host (gaia_app demo_host demo_env) \<lparr> rc_host = [], rc_port = 26658,
       rc_read_buf_size = 1, rc_rest_port = 1317, rc_log_level = LevelOff, rc_home = [47] \<rparr> = Some (Inr x) \<and>
     peer_node x = nd'\<lparr> nd_block_header := None \<rparr>"
proof -
  have v: "checked_add (nd_height demo_pending) 1 = Some 1" "uint (nd_height demo_pending) < 2 ^ 63"
    by (simp_all add: checked_add_def)
  obtain res nd' where c: "abci_commit demo_host demo_pending = Some (res, nd')"
    by (rule chain_commit [OF demo_database(1) demo_storage_laws demo_pending_inv demo_pending_clean v])
  let ?R = "demo_rocks\<lparr> rdb_open := \<lambda>path. Inr (nd_db nd') \<rparr>"
  have "rocks_ok ?R mem_store memdb_ok" using demo_rocks_ok by (simp add: rocks_ok_def)
  moreover have "rocks_ops ?R = rocks_ops demo_rocks"
    by (simp add: rocks_ops_def rocks_get_def [abs_def] rocks_put_def [abs_def] rocks_iterator_def [abs_def])
  then have "host_db demo_host = rocks_ops ?R" by (simp add: demo_rocks_ops demo_host_def libs.defs)
  moreover have "subscribe_all demo_p2p [BLOCK_TOPIC, TRANX_TOPIC] {} = Some {}" by (simp add: demo_p2p_def)
  ultimately show ?thesis
    using run_restores_node [OF _ _ demo_storage_laws demo_pending_inv demo_pending_clean c, of ?R mem_store _
        demo_p2p "{}" "{}" demo_env] c by fastforce
qed

end
