(* ===== verification/Sync_Commit.thy ===== *)
theory Sync_Commit
  imports Node_Sync
begin

text \<open>
  What becomes of a node that synchronized: its next commit. State sync puts the version it takes
  over into the list of versions in memory and not into the database; the first lemmas show that a
  commit does not depend on this list as long as the next version is not in it, so the commit is
  that of a node opened on the same database.
\<close>

section \<open>The list of versions\<close>

definition with_versions :: "u64 list \<Rightarrow> tree \<Rightarrow> tree" where
  "with_versions vs t = t\<lparr> tree_versions := vs \<rparr>"

definition fresh_versions :: "tree \<Rightarrow> bool" where
  "fresh_versions t \<longleftrightarrow> (\<forall>v \<in> set (tree_versions t). v \<le> tree_loaded_version t)"

lemma with_versions_simps [simp]:
  "tree_root (with_versions vs t) = tree_root t" "tree_loaded_version (with_versions vs t) = tree_loaded_version t"
  "tree_versions (with_versions vs t) = vs" "with_versions ws (with_versions vs t) = with_versions ws t"
  "tree_get C D s (with_versions vs t) key = tree_get C D s t key"
  "tree_root_hash C (with_versions vs t) = tree_root_hash C t"
  by (simp_all add: with_versions_def tree_get_def tree_root_hash_def)

lemma with_own_versions: "with_versions (tree_versions t) t = t"
  by (simp add: with_versions_def)

lemma set_with_versions:
  "tree_set C D s (with_versions vs t) k v = map_option (with_versions vs) (tree_set C D s t k v)"
  by (auto simp: tree_set_def with_versions_def split: Option.bind_splits option.splits)

lemma write_keys_with_versions:
  "write_keys (tree_set C D s) m ks (with_versions vs t)
     = map_option (with_versions vs) (write_keys (tree_set C D s) m ks t)"
  by (induction ks arbitrary: t)
    (auto simp: set_with_versions split: Option.bind_splits option.splits)

lemma set_fresh: "tree_set C D s t k v = Some t' \<Longrightarrow>
   tree_loaded_version t' = tree_loaded_version t \<and> tree_versions t' = tree_versions t"
  by (auto simp: tree_set_def bind_eq_Some_conv split: option.splits)

lemma write_keys_fresh:
  "write_keys (tree_set C D s) m ks t = Some t' \<Longrightarrow>
   tree_loaded_version t' = tree_loaded_version t \<and> tree_versions t' = tree_versions t"
  by (induction ks arbitrary: t) (auto simp: bind_eq_Some_conv split: option.splits dest: set_fresh)

lemma save_with_versions:
  assumes "tree_save_version C D s t = Some (Inr (hv, t', s'))" "fresh_versions t" "fresh_versions (with_versions vs t)"
  shows "\<exists>ws. tree_save_version C D s (with_versions vs t) = Some (Inr (hv, with_versions ws t', s')) \<and>
     fresh_versions t' \<and> fresh_versions (with_versions ws t')"
proof -
  from assms(1) obtain ver where v: "checked_add (tree_loaded_version t) 1 = Some ver"
    by (auto simp: tree_save_version_def bind_eq_Some_conv)
  have less: "\<forall>x \<in> set (tree_versions t). x < ver" "\<forall>x \<in> set vs. x < ver"
    using assms(2,3) checked_add_1_less [OF v] by (simp_all add: fresh_versions_def)
  then have n: "ver \<notin> set (tree_versions t)" "ver \<notin> set vs" by auto
  show ?thesis
    using assms(1) v n less
    by (intro exI [of _ "btset_insert ver vs"])
      (auto simp: tree_save_version_def with_versions_def fresh_versions_def Let_def less_imp_le
        split: option.splits prod.splits)
qed

text \<open>Stores that differ in the lists of versions only.\<close>

definition version_variant :: "kvstore \<Rightarrow> kvstore \<Rightarrow> bool" where
  "version_variant kv kv' \<longleftrightarrow> (\<exists>vs. kv' = kv\<lparr> persistent_store := with_versions vs (persistent_store kv) \<rparr>) \<and>
     fresh_versions (persistent_store kv) \<and> fresh_versions (persistent_store kv')"

lemma kv_commit_variant:
  assumes "kv_commit C D s kv = Some (h, kv1, s1)" "version_variant kv kv'"
  shows "\<exists>kv1'. kv_commit C D s kv' = Some (h, kv1', s1) \<and> version_variant kv1 kv1'"
proof -
  from assms(2) obtain vs where kv': "kv' = kv\<lparr> persistent_store := with_versions vs (persistent_store kv) \<rparr>"
    and f: "fresh_versions (persistent_store kv)" "fresh_versions (with_versions vs (persistent_store kv))"
    by (auto simp: version_variant_def)
  from assms(1) obtain kv2 t t' v where w: "write_then_clear_tx_cache kv = Some kv2"
    "write_keys (tree_set C D s) (block_cache kv2) (sort (map fst (block_cache kv2))) (persistent_store kv2) = Some t"
    "tree_save_version C D s t = Some (Inr ((h, v), t', s1))"
    and kv1: "kv1 = kv2\<lparr> persistent_store := t', block_cache := [] \<rparr>"
    by (auto simp: kv_commit_def write_then_clear_block_cache_def bind_eq_Some_conv unwrap_result_Some)
  have p: "persistent_store kv2 = persistent_store kv" and w': "write_then_clear_tx_cache kv'
      = Some (kv2\<lparr> persistent_store := with_versions vs (persistent_store kv2) \<rparr>)"
    using w(1) by (auto simp: kv' write_then_clear_tx_cache_def bind_eq_Some_conv)
  have ft: "fresh_versions t" "fresh_versions (with_versions vs t)"
    using write_keys_fresh [OF w(2)] f p by (simp_all add: fresh_versions_def)
  from save_with_versions [OF w(3) this] obtain ws where ws:
    "tree_save_version C D s (with_versions vs t) = Some (Inr ((h, v), with_versions ws t', s1))"
    "fresh_versions t'" "fresh_versions (with_versions ws t')" by blast
  let ?kv = "kv2\<lparr> persistent_store := with_versions ws t', block_cache := [] \<rparr>"
  have "kv_commit C D s kv' = Some (h, ?kv, s1)"
    using w' w(2) ws(1) by (simp add: kv_commit_def write_then_clear_block_cache_def write_keys_with_versions)
  moreover have "version_variant kv1 ?kv" unfolding version_variant_def kv1
    using ws(2,3) by (intro conjI exI [of _ ws]) simp_all
  ultimately show ?thesis by blast
qed

definition stores_variant :: "(bytes \<times> kvstore) list \<Rightarrow> (bytes \<times> kvstore) list \<Rightarrow> bool" where
  "stores_variant = list_all2 (\<lambda>(n, kv) (n', kv'). n' = n \<and> version_variant kv kv')"

lemma commit_stores_variant:
  assumes "commit_stores C D s kvs = Some (infos, kvs1, s1)" "stores_variant kvs kvs'"
  shows "\<exists>kvs1'. commit_stores C D s kvs' = Some (infos, kvs1', s1) \<and> stores_variant kvs1 kvs1'"
  using assms
proof (induction kvs arbitrary: kvs' s infos kvs1)
  case (Cons e kvs)
  obtain n kv where e: "e = (n, kv)" by (cases e)
  from Cons.prems(2) e obtain kv' kvs2 where k: "kvs' = (n, kv') # kvs2" "version_variant kv kv'"
    "stores_variant kvs kvs2" by (auto simp: stores_variant_def list_all2_Cons1)
  from Cons.prems(1) e obtain h kv1 s2 infos2 kvs3 where
    c: "kv_commit C (module_db D n) s kv = Some (h, kv1, s2)" "commit_stores C D s2 kvs = Some (infos2, kvs3, s1)"
      "infos = \<lparr> info_name = n, info_hash = h \<rparr> # infos2" "kvs1 = (n, kv1) # kvs3"
    by (auto simp: bind_eq_Some_conv simp del: prefixdb_ops_simps)
  from kv_commit_variant [OF c(1) k(2)] obtain kv1' where
    1: "kv_commit C (module_db D n) s kv' = Some (h, kv1', s2)" "version_variant kv1 kv1'" by blast
  from Cons.IH [OF c(2) k(3)] obtain kvs3' where
    2: "commit_stores C D s2 kvs2 = Some (infos2, kvs3', s1)" "stores_variant kvs3 kvs3'" by blast
  from 1 2 c(3,4) k(1) show ?case
    by (intro exI [of _ "(n, kv1') # kvs3'"]) (simp add: stores_variant_def del: prefixdb_ops_simps)
qed (simp add: stores_variant_def)

text \<open>Nodes that differ in the lists of versions only commit alike.\<close>

definition node_variant :: "'db app_node \<Rightarrow> 'db app_node \<Rightarrow> bool" where
  "node_variant nd nd' \<longleftrightarrow> (\<exists>kvs. stores_variant (stores (nd_multi_store nd)) kvs \<and>
     nd' = nd\<lparr> nd_multi_store := (nd_multi_store nd)\<lparr> stores := kvs \<rparr> \<rparr>)"

lemma abci_commit_variant:
  assumes "abci_commit H nd = Some (res, nd1)" "node_variant nd nd'"
  shows "\<exists>nd1'. abci_commit H nd' = Some (res, nd1') \<and> node_variant nd1 nd1'"
proof -
  from assms(2) obtain kvs where kvs: "stores_variant (stores (nd_multi_store nd)) kvs"
    "nd' = nd\<lparr> nd_multi_store := (nd_multi_store nd)\<lparr> stores := kvs \<rparr> \<rparr>" by (auto simp: node_variant_def)
  from assms(1) obtain v infos kvs1 s hash head r where
    c: "checked_add (nd_height nd) 1 = Some v" "commit_stores (storage H) (host_db H) (nd_db nd)
        (stores (nd_multi_store nd)) = Some (infos, kvs1, s)" "hash_store_infos (storage H) infos = Some hash"
      "checked_add (head_version (nd_multi_store nd)) 1 = Some head" "expect_i64 (v - 1) = Some r"
    and res: "res = \<lparr> rco_data = hash, rco_retain_height = r \<rparr>"
      "nd1 = nd\<lparr> nd_height := v, nd_multi_store := (nd_multi_store nd)\<lparr> head_commit_hash := hash,
        head_version := head, stores := kvs1 \<rparr>, nd_db := s \<rparr>"
    by (auto simp: abci_commit_def increment_block_height_def multi_commit_def bind_eq_Some_conv)
  from commit_stores_variant [OF c(2) kvs(1)] obtain kvs1' where
    k: "commit_stores (storage H) (host_db H) (nd_db nd) kvs = Some (infos, kvs1', s)" "stores_variant kvs1 kvs1'"
    by blast
  let ?nd = "nd1\<lparr> nd_multi_store := (nd_multi_store nd1)\<lparr> stores := kvs1' \<rparr> \<rparr>"
  have "abci_commit H nd' = Some (res, ?nd)"
    using c k(1) res kvs(2) by (simp add: abci_commit_def increment_block_height_def multi_commit_def)
  moreover have "node_variant nd1 ?nd" using k(2) res(2) by (auto simp: node_variant_def)
  ultimately show ?thesis by blast
qed

section \<open>Nodes that can commit\<close>

text \<open>The node with other lists of versions: those the database gives back.\<close>

definition relisted_store :: "u64 list \<Rightarrow> kvstore \<Rightarrow> kvstore" where
  "relisted_store vs kv = kv\<lparr> persistent_store := with_versions vs (persistent_store kv) \<rparr>"

definition relisted_stores :: "(bytes \<Rightarrow> u64 list) \<Rightarrow> multistore \<Rightarrow> multistore" where
  "relisted_stores vs ms = ms\<lparr> stores := map (\<lambda>(n, kv). (n, relisted_store (vs n) kv)) (stores ms) \<rparr>"

definition relisted :: "(bytes \<Rightarrow> u64 list) \<Rightarrow> 'db app_node \<Rightarrow> 'db app_node" where
  "relisted vs nd = nd\<lparr> nd_multi_store := relisted_stores vs (nd_multi_store nd) \<rparr>"

lemma relisted_store_simps [simp]:
  "persistent_store (relisted_store vs kv) = with_versions vs (persistent_store kv)"
  "block_cache (relisted_store vs kv) = block_cache kv" "tx_cache (relisted_store vs kv) = tx_cache kv"
  "kv_last_committed_version (relisted_store vs kv) = kv_last_committed_version kv"
  "kv_ok (relisted_store vs kv) = kv_ok kv" "merged (relisted_store vs kv) = merged kv"
  "clean_writes C (relisted_store vs kv) ta = clean_writes C kv ta"
  "kv_read H n (relisted_store vs kv) k = kv_read H n kv k"
  "clear_tx_cache (relisted_store vs kv) = relisted_store vs (clear_tx_cache kv)"
  by (simp_all add: relisted_store_def kv_last_committed_version_def kv_ok_def merged_def
      clean_writes_def kv_read_def kv_get_def clear_tx_cache_def cong: option.case_cong)

lemma relisted_stores_simps [simp]:
  "head_version (relisted_stores vs ms) = head_version ms"
  "map fst (stores (relisted_stores vs ms)) = map fst (stores ms)"
  "fst ` set (stores (relisted_stores vs ms)) = fst ` set (stores ms)"
  "get_kv_store (relisted_stores vs ms) n = map_option (relisted_store (vs n)) (get_kv_store ms n)"
proof -
  have "map_of (map (\<lambda>(n, kv). (n, relisted_store (vs n) kv)) kvs) n
      = map_option (relisted_store (vs n)) (map_of kvs n)" for kvs by (induction kvs) auto
  then show "get_kv_store (relisted_stores vs ms) n = map_option (relisted_store (vs n)) (get_kv_store ms n)"
    by (simp add: get_kv_store_def relisted_stores_def)
qed (force simp: relisted_stores_def case_prod_beta o_def)+

lemma relisted_clean: "clean ms \<Longrightarrow> clean (relisted_stores vs ms)"
proof -
  have "clear_tx_caches (relisted_stores vs ms) = relisted_stores vs (clear_tx_caches ms)"
    by (simp add: clear_tx_caches_def relisted_stores_def case_prod_beta o_def)
  moreover have "ms_ok (relisted_stores vs ms) = ms_ok ms"
    unfolding ms_ok_def relisted_stores_simps(2) by (auto simp: relisted_stores_def)
  ultimately show "clean ms \<Longrightarrow> clean (relisted_stores vs ms)" by (simp add: clean_def)
qed

lemma relisted_simps [simp]:
  "nd_multi_store (relisted vs nd) = relisted_stores vs (nd_multi_store nd)"
  "nd_db (relisted vs nd) = nd_db nd" "nd_height (relisted vs nd) = nd_height nd"
  "nd_block_header (relisted vs nd) = nd_block_header nd" "node_host H (relisted vs nd) = node_host H nd"
  by (simp_all add: relisted_def node_host_def)

lemma relisted_variant:
  assumes "\<forall>(n, kv) \<in> set (stores (nd_multi_store nd)). fresh_versions (persistent_store kv) \<and>
     fresh_versions (with_versions (vs n) (persistent_store kv))"
  shows "node_variant (relisted vs nd) nd"
proof -
  let ?ms = "nd_multi_store nd"
  have kv: "version_variant (relisted_store ws kv) kv"
    if "fresh_versions (persistent_store kv)" "fresh_versions (with_versions ws (persistent_store kv))" for kv ws
    using that unfolding version_variant_def
    by (intro conjI exI [of _ "tree_versions (persistent_store kv)"]) (simp_all add: relisted_store_def with_own_versions)
  have "stores_variant (map (\<lambda>(n, kv). (n, relisted_store (vs n) kv)) kvs) kvs"
    if "\<forall>(n, kv) \<in> set kvs. fresh_versions (persistent_store kv) \<and>
      fresh_versions (with_versions (vs n) (persistent_store kv))" for kvs
    using that
  proof (induction kvs)
    case (Cons e kvs)
    obtain n k where e: "e = (n, k)" by (cases e)
    have "version_variant (relisted_store (vs n) k) k" using Cons.prems e by (intro kv) simp_all
    with Cons e show ?case by (simp add: stores_variant_def)
  qed (simp add: stores_variant_def)
  from this [OF assms] have "stores_variant (stores (nd_multi_store (relisted vs nd))) (stores ?ms)"
    by (simp add: relisted_stores_def)
  then show ?thesis
    unfolding node_variant_def by (intro exI [of _ "stores ?ms"]) (simp add: relisted_def relisted_stores_def)
qed

text \<open>
  A node that can commit: like \<open>node_inv\<close>, but with any list of versions in memory, as long as
  it does not go beyond the version of the tree.
\<close>

definition resumable_tree :: "crates \<Rightarrow> 'db database_ops \<Rightarrow> 'db \<Rightarrow> u64 \<Rightarrow> u64 list \<Rightarrow> tree \<Rightarrow> bool" where
  "resumable_tree C D s height vs t \<longleftrightarrow> tree_loaded_version t = height \<and> fresh_versions t \<and>
     (\<exists>ta. loaded C D s (with_versions vs t) ta)"

definition resumable ::
  "'db host \<Rightarrow> ('db \<Rightarrow> bool) \<Rightarrow> 'db app_node \<Rightarrow> ledger \<Rightarrow> (acc_address \<Rightarrow> account option) \<Rightarrow> bool" where
  "resumable H P nd bal accs \<longleftrightarrow> node_rel (gaia_rel (node_host H nd)) (nd_multi_store nd) bal accs \<and>
     P (nd_db nd) \<and> map fst (stores (nd_multi_store nd)) = gaia_store_names \<and>
     head_version (nd_multi_store nd) = nd_height nd \<and>
     (\<exists>vs. \<forall>(n, t) \<in> set (snd (snd (head_state (nd_multi_store nd)))).
        resumable_tree (storage H) (module_db (host_db H) n) (nd_db nd) (nd_height nd) (vs n) t)"

text \<open>The pending writes of the node can be committed.\<close>

definition clean_resumable :: "'db host \<Rightarrow> 'db app_node \<Rightarrow> bool" where
  "clean_resumable H nd \<longleftrightarrow> (\<forall>(n, kv) \<in> set (stores (nd_multi_store nd)). \<forall>vs ta.
     loaded (storage H) (module_db (host_db H) n) (nd_db nd) (with_versions vs (persistent_store kv)) ta
       \<longrightarrow> clean_writes (storage H) kv ta)"

lemma resumable_block:
  assumes r: "resumable H P nd bal accs" and step: "(block_step H (gaia_app H env))\<^sup>*\<^sup>* nd nd'"
  obtains bal' accs' where "resumable H P nd' bal' accs'" "evolves accs accs'"
    "\<forall>d. total_of bal' d = total_of bal d" "nd_height nd' = nd_height nd"
proof -
  have n: "node_rel (gaia_rel (node_host H nd)) (nd_multi_store nd) bal accs"
    using r by (simp add: resumable_def)
  have "(block_step (node_host H nd) (gaia_app (node_host H nd) env))\<^sup>*\<^sup>* nd nd'" using step by simp
  from ga.block_effect [OF n _ this] obtain bal' accs' where b:
    "node_rel (gaia_rel (node_host H nd)) (nd_multi_store nd') bal' accs'" "evolves accs accs'"
    "\<forall>d. total_of bal' d = total_of bal d" "nd_db nd' = nd_db nd" "nd_height nd' = nd_height nd"
    "head_state (nd_multi_store nd') = head_state (nd_multi_store nd)" by auto
  have "node_host H nd' = node_host H nd" using b(4) by (simp add: node_host_def)
  then have "resumable H P nd' bal' accs'"
    using r b(1,4,5,6) head_state_fields [OF b(6)] unfolding resumable_def by simp
  then show thesis using that b(2,3,5) by blast
qed

lemma relisted_node_rel:
  assumes "node_rel (gaia_rel (node_host H nd)) (nd_multi_store nd) bal accs"
  shows "node_rel (gaia_rel (node_host H nd)) (relisted_stores vs (nd_multi_store nd)) bal accs"
  unfolding node_rel_def
proof (intro conjI allI)
  show "clean (relisted_stores vs (nd_multi_store nd))"
    using assms relisted_clean by (simp add: node_rel_def)
  have H: "(node_host H nd)\<lparr> host_state := nd_db nd \<rparr> = node_host H nd" by (simp add: node_host_def)
  show "gaia_rel (node_host H nd)
      (TxContext (tx_context_new (relisted_stores vs (nd_multi_store nd)) h header raw)) bal accs" for h header raw
    by (rule gaia_rel_moved [where s = "nd_db nd" and H = "node_host H nd"
          and ctx = "TxContext (tx_context_new (nd_multi_store nd) h header raw)", unfolded H])
      (use assms in \<open>auto simp: node_rel_def tx_context_new_def\<close>)
qed

lemma resumable_commit:
  assumes D: "full_key_scan (host_db H) P" and C: "varint_ok (storage H)" "sha256_ok (storage H)"
    and r: "resumable H P nd bal accs" and clean: "clean_resumable H nd"
    and v: "checked_add (nd_height nd) 1 = Some v" "uint (nd_height nd) < 2 ^ 63"
  obtains res nd' nd1 where "abci_commit H nd = Some (res, nd')" "node_variant nd1 nd'"
    "node_inv H P nd1 bal accs" "nd_height nd1 = v" "just_committed (storage H) (nd_multi_store nd1)"
    "rco_data res = get_last_commit_hash nd1"
proof -
  let ?ms = "nd_multi_store nd"
  from r obtain vs where vs: "\<forall>(n, t) \<in> set (snd (snd (head_state ?ms))).
      resumable_tree (storage H) (module_db (host_db H) n) (nd_db nd) (nd_height nd) (vs n) t"
    and n: "node_rel (gaia_rel (node_host H nd)) ?ms bal accs" "P (nd_db nd)"
      "map fst (stores ?ms) = gaia_store_names" "head_version ?ms = nd_height nd"
    by (auto simp: resumable_def)
  have rt: "resumable_tree (storage H) (module_db (host_db H) n) (nd_db nd) (nd_height nd) (vs n)
      (persistent_store kv)" if "(n, kv) \<in> set (stores ?ms)" for n kv
    using vs that by (force simp: head_state_def)
  have f: "\<forall>(n, kv) \<in> set (stores ?ms). fresh_versions (persistent_store kv) \<and>
     fresh_versions (with_versions (vs n) (persistent_store kv))"
    using rt by (fastforce simp: resumable_tree_def fresh_versions_def loaded_def)
  have "\<exists>ta. loaded (storage H) (module_db (host_db H) n) (nd_db nd) (persistent_store kv) ta \<and>
      clean_writes (storage H) kv ta \<and> kv_last_committed_version kv = nd_height nd"
    if m: "(n, kv) \<in> set (stores (relisted_stores vs ?ms))" for n kv
  proof -
    from m obtain k where k: "(n, k) \<in> set (stores ?ms)" "kv = relisted_store (vs n) k"
      by (auto simp: relisted_stores_def)
    with rt [OF k(1)] clean show ?thesis
      by (fastforce simp: resumable_tree_def clean_resumable_def kv_last_committed_version_def)
  qed
  then have ready: "stores_ready (storage H) (host_db H) (nd_db (relisted vs nd)) (nd_multi_store (relisted vs nd))"
    unfolding stores_ready_def relisted_simps relisted_stores_simps(1,2) n(3,4)
    using gaia_names_incomparable gaia_store_names(3) n(3) by (fastforce simp: relisted_stores_def)
  obtain res nd1 where c: "abci_commit H (relisted vs nd) = Some (res, nd1)" "node_inv H P nd1 bal accs"
    "nd_height nd1 = v" "just_committed (storage H) (nd_multi_store nd1)" "rco_data res = get_last_commit_hash nd1"
    by (rule ready_commit [OF D C, of "relisted vs nd" bal accs v])
      (use relisted_node_rel [OF n(1)] n ready v in simp_all)
  from abci_commit_variant [OF c(1) relisted_variant [OF f]] that c(2-5) show thesis by blast
qed

lemma stores_variantE:
  assumes v: "stores_variant kvs kvs'" and d: "distinct (map fst kvs)"
  obtains vs where "kvs' = map (\<lambda>(n, kv). (n, relisted_store (vs n) kv)) kvs"
proof -
  let ?vs = "\<lambda>n. tree_versions (persistent_store (the (map_of kvs' n)))"
  have len: "length kvs' = length kvs" using v by (simp add: stores_variant_def list_all2_lengthD)
  have nth: "fst (kvs' ! i) = fst (kvs ! i) \<and> version_variant (snd (kvs ! i)) (snd (kvs' ! i))"
    if "i < length kvs" for i
    using v that by (auto simp: stores_variant_def dest!: list_all2_nthD split: prod.splits)
  have names: "map fst kvs' = map fst kvs" by (rule nth_equalityI) (simp_all add: len nth)
  have "kvs' = map (\<lambda>(n, kv). (n, relisted_store (?vs n) kv)) kvs"
  proof (rule nth_equalityI)
    fix i
    assume "i < length kvs'"
    then have i: "i < length kvs" by (simp add: len)
    then have "(fst (kvs ! i), snd (kvs' ! i)) \<in> set kvs'" using nth len by (metis nth_mem prod.collapse)
    then have m: "map_of kvs' (fst (kvs ! i)) = Some (snd (kvs' ! i))" using d names by simp
    from nth [OF i] obtain ws where "snd (kvs' ! i) = relisted_store ws (snd (kvs ! i))"
      by (auto simp: version_variant_def relisted_store_def)
    then have "snd (kvs' ! i) = relisted_store (?vs (fst (kvs ! i))) (snd (kvs ! i))" using m by simp
    with nth [OF i] i show "kvs' ! i = map (\<lambda>(n, kv). (n, relisted_store (?vs n) kv)) kvs ! i"
      by (simp add: case_prod_beta prod_eq_iff)
  qed (simp add: len)
  then show thesis by (rule that)
qed

lemma variant_relisted:
  assumes "node_variant nd nd'" "distinct (map fst (stores (nd_multi_store nd)))"
  obtains vs where "nd' = relisted vs nd"
proof -
  from assms(1) obtain kvs where k: "stores_variant (stores (nd_multi_store nd)) kvs"
    "nd' = nd\<lparr> nd_multi_store := (nd_multi_store nd)\<lparr> stores := kvs \<rparr> \<rparr>" by (auto simp: node_variant_def)
  obtain vs where "kvs = map (\<lambda>(n, kv). (n, relisted_store (vs n) kv)) (stores (nd_multi_store nd))"
    by (rule stores_variantE [OF k(1) assms(2)])
  with k(2) show thesis by (intro that) (simp add: relisted_def relisted_stores_def)
qed

section \<open>A node that synchronized\<close>

lemma import_states_versions:
  assumes "import_states H names sts ver ms s = Some (infos, ms', t)" "get_kv_store ms' n = Some kv'"
  shows "\<exists>kv. get_kv_store ms n = Some kv \<and>
     set (tree_versions (persistent_store kv')) \<subseteq> insert ver (set (tree_versions (persistent_store kv))) \<and>
     (tree_loaded_version (persistent_store kv') = ver \<or>
      n \<notin> fst ` set sts \<and> tree_loaded_version (persistent_store kv') = tree_loaded_version (persistent_store kv))"
  using assms
proof (induction sts arbitrary: ms s infos)
  case (Cons e sts)
  obtain store h ns where e: "e = (store, h, ns)" by (cases e)
  from Cons.prems(1) e obtain kv0 hash kv1 s1 infos1 where
    1: "get_kv_store ms store = Some kv0" and
    p: "process_all_state_info (storage H) (module_db (host_db H) store) s kv0 (h, ns) ver = Some (hash, kv1, s1)" and
    2: "import_states H names sts ver (set_kv_store ms store kv1) s1 = Some (infos1, ms', t)"
    by (auto simp: bind_eq_Some_conv simp del: prefixdb_ops_simps split: if_splits)
  from p have kv1: "tree_loaded_version (persistent_store kv1) = ver"
    "set (tree_versions (persistent_store kv1)) = insert ver (set (tree_versions (persistent_store kv0)))"
    by (auto simp: process_all_state_info_def bind_eq_Some_conv tree_update_def simp del: prefixdb_ops_simps)
  from Cons.IH [OF 2 Cons.prems(2)] show ?case
    using kv1 1 e unfolding get_set_kv_store [OF 1] by (cases "n = store") auto
qed auto

lemma synced_resumable:
  assumes D: "full_key_scan (host_db H) P" and C: "varint_ok (storage H)" "sha256_ok (storage H)"
    and i: "node_inv H P nd bal accs" and jc: "just_committed (storage H) (nd_multi_store nd)"
    and f: "holds_trees H nd f" and q: "quiet_node H P nd2"
    and com: "stores_committed (storage H) (host_db H) (nd_db nd2) (nd_multi_store nd2)"
    and hv: "head_version (nd_multi_store nd2) = nd_height nd2" and less: "nd_height nd2 < nd_height nd"
    and r: "reordered (map (\<lambda>n. module_state (storage H) n (f n)) gaia_store_names) states"
    and m: "process_message H (gaia_app H env) nd2 (StateMsg states (nd_height nd) (env_peer_id env)) = Some (None, nd3)"
  shows "resumable H P nd3 bal accs" "nd_height nd3 = nd_height nd"
proof -
  let ?C = "storage H" and ?D = "\<lambda>n. module_db (host_db H) n"
  have nm: "map fst (stores (nd_multi_store nd)) = gaia_store_names" using i by (simp add: node_inv_def)
  obtain nd3' where "process_message H (gaia_app H env) nd2 (StateMsg states (nd_height nd) (env_peer_id env))
      = Some (None, nd3')" and 0: "copied H nd f nd3'" "quiet_node H P nd3'"
    "\<forall>n \<in> set gaia_store_names. \<forall>k. db_get (?D n) (nd_db nd3') (ROOTS_PREFIX @ k)
      = db_get (?D n) (nd_db nd2) (ROOTS_PREFIX @ k)"
    by (rule state_received [OF D C nm jc f q less r])
  then have cp: "copied H nd f nd3" "quiet_node H P nd3" and roots: "\<And>n k. n \<in> set gaia_store_names \<Longrightarrow>
      db_get (?D n) (nd_db nd3) (ROOTS_PREFIX @ k) = db_get (?D n) (nd_db nd2) (ROOTS_PREFIX @ k)"
    using m by simp_all
  show h: "nd_height nd3 = nd_height nd" using cp(1) by (simp add: copied_def)
  from m less obtain infos ms s hash where im: "import_states H gaia_store_names states (nd_height nd)
      (nd_multi_store nd2) (nd_db nd2) = Some (infos, ms, s)"
    "nd_multi_store nd3 = set_head_version (set_head_commit_hash ms hash) (nd_height nd)"
    by (auto simp: process_state_msg_def bind_eq_Some_conv update_block_height_def)
  have "resumable_tree ?C (?D n) (nd_db nd3) (nd_height nd3)
      (tree_versions (persistent_store (the (get_kv_store (nd_multi_store nd2) n)))) (persistent_store kv)"
    if kv: "(n, kv) \<in> set (stores (nd_multi_store nd3))" for n kv
  proof -
    have names: "map fst (stores (nd_multi_store nd3)) = gaia_store_names" using cp(2) by (simp add: quiet_node_def)
    then have g: "get_kv_store (nd_multi_store nd3) n = Some kv" using kv gaia_store_names(2) by (simp add: get_kv_store_def)
    have n: "n \<in> set gaia_store_names" using kv names by (metis fst_conv image_eqI list.set_map)
    with cp(1) g have sy: "synced ?C (?D n) (nd_db nd3) (f n) kv" unfolding copied_def by fastforce
    from n arrived_states(3) [OF C f nm r] have "n \<in> fst ` set states" by simp
    moreover have "get_kv_store ms n = Some kv"
      using g im(2) by (simp add: get_kv_store_def set_head_version_def set_head_commit_hash_def)
    ultimately obtain kv2 where kv2: "get_kv_store (nd_multi_store nd2) n = Some kv2"
      "set (tree_versions (persistent_store kv)) \<subseteq> insert (nd_height nd) (set (tree_versions (persistent_store kv2)))"
      "tree_loaded_version (persistent_store kv) = nd_height nd"
      using import_states_versions [OF im(1)] by blast
    then have "(n, kv2) \<in> set (stores (nd_multi_store nd2))" by (simp add: get_kv_store_def map_of_SomeD)
    with com hv obtain ta where ta: "committed ?C (?D n) (nd_db nd2) (persistent_store kv2) ta"
      "tree_loaded_version (persistent_store kv2) = nd_height nd2"
      by (fastforce simp: stores_committed_def kv_last_committed_version_def)
    then have old: "\<forall>v \<in> set (tree_versions (persistent_store kv2)). v \<le> nd_height nd"
      using less by (fastforce simp: committed_def)
    have "get_versions ?C (?D n) (nd_db nd3) = Some (tree_versions (persistent_store kv2))"
      by (rule prefix_stripping.get_versions_view [OF full_key_scan.module_stripping [OF D] _ _ roots [OF n]
            committed_versions [OF ta(1)]]) (use q cp(2) in \<open>simp_all add: quiet_node_def\<close>)
    moreover obtain kv0 :: kvstore where "committed ?C (?D n) (nd_db nd) (persistent_store kv0) (Some (f n))"
      by (rule holds_treesE [OF f nm n])
    then have "storable_tree ?C (f n)" by (simp add: committed_def)
    ultimately have "loaded ?C (?D n) (nd_db nd3)
        (with_versions (tree_versions (persistent_store kv2)) (persistent_store kv)) (Some (f n))"
      using sy old kv2(3) by (simp add: loaded_def synced_def)
    moreover have "fresh_versions (persistent_store kv)" using kv2(2,3) old by (auto simp: fresh_versions_def)
    ultimately show ?thesis using kv2(1,3) h by (auto simp: resumable_tree_def)
  qed
  moreover have "head_version (nd_multi_store nd3) = nd_height nd3"
    using im(2) h by (simp add: set_head_version_def set_head_commit_hash_def)
  moreover note copied_node_rel [OF i jc f cp]
  ultimately show "resumable H P nd3 bal accs"
    using cp(2) unfolding resumable_def quiet_node_def head_state_def by fastforce
qed

section \<open>Properties\<close>

text \<open>
  (C9) After state sync a node recovers with its next commit: although the version it took over is
  not recorded in its database, whatever blocks follow, the commit returns when the pending writes
  are clean, the node is at the next height, and it still holds a ledger with the totals of the node
  it copied, and accounts that evolved from the copied ones; a restart then finds exactly this state
  in the database, with the same hash, and the invariant of a node.
\<close>

theorem synced_node_recovers:
  fixes H :: "'db host" and env env2 :: gaia_env
  assumes D: "full_key_scan (host_db H) P" and C: "varint_ok (storage H)" "sha256_ok (storage H)"
    and i: "node_inv H P nd bal accs" and jc: "just_committed (storage H) (nd_multi_store nd)"
    and ne: "\<forall>(n, kv) \<in> set (stores (nd_multi_store nd)). tree_root (persistent_store kv) \<noteq> None"
    and q: "quiet_node H P nd2" "stores_committed (storage H) (host_db H) (nd_db nd2) (nd_multi_store nd2)"
      "head_version (nd_multi_store nd2) = nd_height nd2"
    and less: "nd_height nd2 < nd_height nd" and bound: "uint (nd_height nd) < 2 ^ 63"
    and m: "process_message H (gaia_app H env) nd (sync_version (gaia_app H env2) nd2)
      = Some (Some (StateMsg states height addr), nd')" "reordered states states'"
    and m2: "process_message H (gaia_app H env2) nd2 (StateMsg states' height addr) = Some (None, nd3)"
    and blocks: "(block_step H (gaia_app H env2))\<^sup>*\<^sup>* nd3 nd4" and clean: "clean_resumable H nd4"
  shows "\<exists>res nd5 nd6 bal' accs'. abci_commit H nd4 = Some (res, nd5) \<and>
     checked_add (nd_height nd) 1 = Some (nd_height nd5) \<and> rco_data res = get_last_commit_hash nd5 \<and>
     node_rel (gaia_rel (node_host H nd5)) (nd_multi_store nd5) bal' accs' \<and>
     evolves accs accs' \<and> (\<forall>d. total_of bal' d = total_of bal d) \<and>
     base_app_new H (gaia_app H env2) (nd_db nd5) = Some nd6 \<and> node_inv H P nd6 bal' accs' \<and>
     nd_height nd6 = nd_height nd5 \<and> get_last_commit_hash nd6 = get_last_commit_hash nd5"
proof -
  have nm: "map fst (stores (nd_multi_store nd)) = gaia_store_names" using i by (simp add: node_inv_def)
  obtain f where f: "holds_trees H nd f" and ans: "process_message H (gaia_app H env) nd
      (sync_version (gaia_app H env2) nd2) = Some (Some (StateMsg
        (map (\<lambda>n. module_state (storage H) n (f n)) gaia_store_names) (nd_height nd) (env_peer_id env2)), nd)"
    by (rule sync_answer [OF i ne less])
  from trans [OF m(1) [symmetric] ans] have msg: "states = map (\<lambda>n. module_state (storage H) n (f n)) gaia_store_names"
    "height = nd_height nd" "addr = env_peer_id env2" by simp_all
  note s = synced_resumable [OF D C i jc f q less m(2) [unfolded msg] m2 [unfolded msg]]
  obtain bal' accs' where b: "resumable H P nd4 bal' accs'" "evolves accs accs'"
    "\<forall>d. total_of bal' d = total_of bal d" "nd_height nd4 = nd_height nd"
    by (rule resumable_block [OF s(1) blocks]) (use s(2) in simp)
  have "unat (nd_height nd) < 2 ^ 63" using bound unfolding uint_nat by (simp only: of_nat_less_numeral_power_cancel_iff)
  then obtain v where v: "checked_add (nd_height nd) 1 = Some v" by (auto simp: checked_add_def)
  obtain res nd5 nd1 where c: "abci_commit H nd4 = Some (res, nd5)" "node_variant nd1 nd5"
    "node_inv H P nd1 bal' accs'" "nd_height nd1 = v" "just_committed (storage H) (nd_multi_store nd1)"
    "rco_data res = get_last_commit_hash nd1"
    by (rule resumable_commit [OF D C b(1) clean, of v]) (use v bound b(4) in simp_all)
  obtain vs where vs: "nd5 = relisted vs nd1"
    by (rule variant_relisted [OF c(2)]) (use c(3) gaia_store_names(2) in \<open>simp add: node_inv_def\<close>)
  have "node_rel (gaia_rel (node_host H nd5)) (nd_multi_store nd5) bal' accs'"
    using c(3) by (simp add: vs relisted_node_rel node_inv_def)
  moreover have "base_app_new H (gaia_app H env2) (nd_db nd5) = Some (nd1\<lparr> nd_block_header := None \<rparr>)"
    using chain_restart [OF c(3,5)] by (simp add: vs)
  moreover have "get_last_commit_hash nd5 = get_last_commit_hash nd1"
    by (simp add: vs get_last_commit_hash_def relisted_stores_def)
  ultimately show ?thesis
    using c b(2,3) v vs by (intro exI [of _ res] exI [of _ nd5] exI [of _ "nd1\<lparr> nd_block_header := None \<rparr>"]
        exI [of _ bal'] exI [of _ accs']) (simp add: get_last_commit_hash_def)
qed

lemma quiet_clean:
  assumes "quiet_node H P nd" "resumable H P nd bal accs" "checked_add (nd_height nd) 1 = Some v"
  shows "clean_resumable H nd"
  unfolding clean_resumable_def
proof (clarify)
  fix n kv vs ta
  assume m: "(n, kv) \<in> set (stores (nd_multi_store nd))"
    and l: "loaded (storage H) (module_db (host_db H) n) (nd_db nd) (with_versions vs (persistent_store kv)) ta"
  from m assms(2) have "tree_loaded_version (persistent_store kv) = nd_height nd"
    by (force simp: resumable_def resumable_tree_def head_state_def)
  moreover from m assms(1) have "merged kv = []" by (auto simp: quiet_node_def merged_def)
  ultimately show "clean_writes (storage H) kv ta" using l assms(3) by (simp add: clean_writes_def loaded_def)
qed

lemma demo_behind_committed:
  "stores_committed (storage demo_host) (host_db demo_host) (nd_db demo_behind) (nd_multi_store demo_behind)"
proof (rule genesis_committed [OF _ gaia_store_names(3) gaia_names_incomparable])
  show "genesis_state gaia_store_names (head_state (nd_multi_store demo_behind))"
    using demo_genesis_state by (simp add: demo_behind_def)
  show "\<forall>n \<in> set gaia_store_names.
      get_versions (storage demo_host) (module_db (host_db demo_host) n) (nd_db demo_behind) = Some []"
    using demo_fresh by (simp add: fresh_database_def demo_behind_def)
qed

theorem synced_node_recovers_witness:
  "\<exists>nd nd3 res nd5 nd6 bal accs. nd_height nd = 1 \<and>
     process_message demo_host (gaia_app demo_host demo_env) demo_behind
       (the (fst (the (process_message demo_host (gaia_app demo_host demo_env) nd
          (sync_version (gaia_app demo_host demo_env) demo_behind))))) = Some (None, nd3) \<and>
     abci_commit demo_host nd3 = Some (res, nd5) \<and> nd_height nd5 = 2 \<and>
     base_app_new demo_host (gaia_app demo_host demo_env) (nd_db nd5) = Some nd6 \<and>
     node_inv demo_host memdb_ok nd6 bal accs"
proof -
  let ?app = "gaia_app demo_host demo_env"
  obtain nd where nd: "node_inv demo_host memdb_ok nd demo_ledger Map.empty" "nd_height nd = 1"
    "just_committed (storage demo_host) (nd_multi_store nd)"
    "\<forall>(n, kv) \<in> set (stores (nd_multi_store nd)). tree_root (persistent_store kv) \<noteq> None"
    by (rule demo_committed)
  have less: "nd_height demo_behind < nd_height nd" and hv: "head_version (nd_multi_store demo_behind) = nd_height demo_behind"
    using nd(2) by (simp_all add: demo_behind_def demo_stores_def)
  have nm: "map fst (stores (nd_multi_store nd)) = gaia_store_names" using nd(1) by (simp add: node_inv_def)
  let ?msg = "\<lambda>f. StateMsg (map (\<lambda>n. module_state (storage demo_host) n (f n)) gaia_store_names)
      (nd_height nd) (env_peer_id demo_env)"
  obtain f where f: "holds_trees demo_host nd f" and ans: "process_message demo_host ?app nd
       (sync_version ?app demo_behind) = Some (Some (?msg f), nd)"
    by (rule sync_answer [OF nd(1,4) less])
  obtain nd3 where m2: "process_message demo_host ?app demo_behind (?msg f) = Some (None, nd3)"
    and q3: "quiet_node demo_host memdb_ok nd3"
    by (rule state_received [OF demo_database(1) demo_storage_laws nm nd(3) f demo_behind_quiet less reordered_refl])
  note s = synced_resumable [OF demo_database(1) demo_storage_laws nd(1,3) f demo_behind_quiet
      demo_behind_committed hv less reordered_refl m2]
  have v: "checked_add (nd_height nd3) 1 = Some 2" "uint (nd_height nd) < 2 ^ 63"
    using s(2) nd(2) by (simp_all add: checked_add_def)
  from synced_node_recovers [OF demo_database(1) demo_storage_laws nd(1,3,4) demo_behind_quiet
      demo_behind_committed hv less v(2) ans reordered_refl m2 rtranclp.rtrancl_refl
      quiet_clean [OF q3 s(1) v(1)]]
  obtain res nd5 nd6 bal accs where "abci_commit demo_host nd3 = Some (res, nd5)"
    "checked_add (nd_height nd) 1 = Some (nd_height nd5)"
    "base_app_new demo_host ?app (nd_db nd5) = Some nd6" "node_inv demo_host memdb_ok nd6 bal accs" by blast
  moreover from this(2) v(1) s(2) have "nd_height nd5 = 2" by simp
  ultimately show ?thesis using ans m2 nd(2) by (intro exI [of _ nd] exI [of _ nd3]) auto
qed

end
