(* ===== verification/Uint_Lib.thy ===== *)
theory Uint_Lib
  imports Rust_Std
begin

text \<open>
  The 256-bit and 512-bit integers of \<open>cosmwasm_std\<close>, on which
  \<open>src/proto-types/src/decimal256.rs\<close> rests. They are not part of the repository: their
  operations are the fields of a record, and \<open>uint_lib_ok\<close> names the documented behaviour the
  decimals rely on (checked arithmetic of the width, floor division, the integer square root,
  decimal digits). \<open>demo_uint\<close> is a concrete library with that behaviour. In checked operations
  and in the operators of the library, which panic in the same cases, \<open>None\<close> is the failure.
\<close>

type_synonym u512 = "512 word"

text \<open>\<open>StdError::GenericErr\<close> and \<open>CheckedMultiplyRatioError\<close>.\<close>

datatype std_error = GenericErr (generic_msg: bytes)

datatype multiply_ratio_error = MultiplyRatioDivideByZero | MultiplyRatioOverflow

record uint_lib =
  u_add :: "u256 \<Rightarrow> u256 \<Rightarrow> u256 option"
  u_sub :: "u256 \<Rightarrow> u256 \<Rightarrow> u256 option"
  u_mul :: "u256 \<Rightarrow> u256 \<Rightarrow> u256 option"
  u_div :: "u256 \<Rightarrow> u256 \<Rightarrow> u256 option"
  u_rem :: "u256 \<Rightarrow> u256 \<Rightarrow> u256 option"
  u_pow :: "u256 \<Rightarrow> u32 \<Rightarrow> u256 option"
  u_multiply_ratio :: "u256 \<Rightarrow> u256 \<Rightarrow> u256 \<Rightarrow> multiply_ratio_error + u256"
  u_isqrt :: "u256 \<Rightarrow> u256"
  u_full_mul :: "u256 \<Rightarrow> u256 \<Rightarrow> u512"
  u_div512 :: "u512 \<Rightarrow> u512 \<Rightarrow> u512 option"
  u_widen :: "u256 \<Rightarrow> u512"
  u_narrow :: "u512 \<Rightarrow> u256 option"
  u_parse :: "bytes \<Rightarrow> std_error + u256"
  u_show :: "u256 \<Rightarrow> bytes"

text \<open>A natural number as a \<open>Uint256\<close>, if it fits.\<close>

definition fit :: "nat \<Rightarrow> u256 option" where
  "fit n = (if n < 2 ^ 256 then Some (of_nat n) else None)"

definition uint_arith_ok :: "uint_lib \<Rightarrow> bool" where
  "uint_arith_ok U \<longleftrightarrow>
     (\<forall>a b. u_add U a b = fit (unat a + unat b)) \<and>
     (\<forall>a b. u_sub U a b = (if unat b \<le> unat a then fit (unat a - unat b) else None)) \<and>
     (\<forall>a b. u_mul U a b = fit (unat a * unat b)) \<and>
     (\<forall>a b. u_div U a b = (if b = 0 then None else fit (unat a div unat b))) \<and>
     (\<forall>a b. u_rem U a b = (if b = 0 then None else fit (unat a mod unat b))) \<and>
     (\<forall>a n. u_pow U a n = fit (unat a ^ unat n)) \<and>
     (\<forall>a b c. u_multiply_ratio U a b c =
        (if c = 0 then Inl MultiplyRatioDivideByZero
         else case fit (unat a * unat b div unat c) of None \<Rightarrow> Inl MultiplyRatioOverflow | Some r \<Rightarrow> Inr r)) \<and>
     (\<forall>a. unat (u_isqrt U a) ^ 2 \<le> unat a \<and> unat a < Suc (unat (u_isqrt U a)) ^ 2)"

definition uint_wide_ok :: "uint_lib \<Rightarrow> bool" where
  "uint_wide_ok U \<longleftrightarrow>
     (\<forall>a b. unat (u_full_mul U a b) = unat a * unat b) \<and>
     (\<forall>x y. y \<noteq> 0 \<longrightarrow> (\<exists>q. u_div512 U x y = Some q \<and> unat q = unat x div unat y)) \<and>
     (\<forall>a. unat (u_widen U a) = unat a) \<and>
     (\<forall>x. u_narrow U x = fit (unat x))"

text \<open>
  Parsing: a non-empty string of digits is its value, if that fits; anything else that is
  accepted has at most a plus sign more.
\<close>

definition uint_text_ok :: "uint_lib \<Rightarrow> bool" where
  "uint_text_ok U \<longleftrightarrow>
     (\<forall>a. u_show U a = show_nat (unat a)) \<and>
     (\<forall>bs n. bs \<noteq> [] \<longrightarrow> read_digits 0 bs = Some n \<longrightarrow> n < 2 ^ 256 \<longrightarrow> u_parse U bs = Inr (of_nat n)) \<and>
     (\<forall>bs n. read_digits 0 bs = Some n \<longrightarrow> 2 ^ 256 \<le> n \<longrightarrow> (\<exists>e. u_parse U bs = Inl e)) \<and>
     (\<forall>bs a. u_parse U bs = Inr a \<longrightarrow>
        read_digits 0 bs = Some (unat a) \<or> (\<exists>ds. bs = 43 # ds \<and> read_digits 0 ds = Some (unat a)))"

definition uint_lib_ok :: "uint_lib \<Rightarrow> bool" where
  "uint_lib_ok U \<longleftrightarrow> uint_arith_ok U \<and> uint_wide_ok U \<and> uint_text_ok U"

lemma fit_unat [simp]: "fit (unat a) = Some a"
  using unat_bound [of a] by (simp add: fit_def)

lemma fit_Some: "fit n = Some a \<longleftrightarrow> n < 2 ^ 256 \<and> unat a = n"
  using unat_of_nat_bounded [of n, where 'a = 256] unat_bound [of a]
  by (auto simp: fit_def word_unat_eq_iff)

lemma fit_None: "fit n = None \<longleftrightarrow> 2 ^ 256 \<le> n"
  by (auto simp: fit_def)

lemma uint_arithD:
  assumes "uint_lib_ok U"
  shows "u_add U a b = fit (unat a + unat b)"
    and "u_sub U a b = (if unat b \<le> unat a then fit (unat a - unat b) else None)"
    and "u_mul U a b = fit (unat a * unat b)"
    and "u_div U a b = (if b = 0 then None else fit (unat a div unat b))"
    and "u_rem U a b = (if b = 0 then None else fit (unat a mod unat b))"
    and "u_pow U a n = fit (unat a ^ unat n)"
    and "u_multiply_ratio U a b c =
        (if c = 0 then Inl MultiplyRatioDivideByZero
         else case fit (unat a * unat b div unat c) of None \<Rightarrow> Inl MultiplyRatioOverflow | Some r \<Rightarrow> Inr r)"
    and "unat (u_isqrt U a) ^ 2 \<le> unat a" "unat a < Suc (unat (u_isqrt U a)) ^ 2"
  using assms by (simp_all add: uint_lib_ok_def uint_arith_ok_def)

lemma uint_wideD:
  assumes "uint_lib_ok U"
  shows "unat (u_full_mul U a b) = unat a * unat b"
    and "y \<noteq> 0 \<Longrightarrow> \<exists>q. u_div512 U x y = Some q \<and> unat q = unat x div unat y"
    and "unat (u_widen U a) = unat a" "u_narrow U x = fit (unat x)"
  using assms by (simp_all add: uint_lib_ok_def uint_wide_ok_def)

lemma uint_textD:
  assumes "uint_lib_ok U"
  shows "u_show U a = show_nat (unat a)"
    and "bs \<noteq> [] \<Longrightarrow> read_digits 0 bs = Some n \<Longrightarrow> n < 2 ^ 256 \<Longrightarrow> u_parse U bs = Inr (of_nat n)"
    and "read_digits 0 bs = Some n \<Longrightarrow> 2 ^ 256 \<le> n \<Longrightarrow> \<exists>e. u_parse U bs = Inl e"
    and "u_parse U bs = Inr a \<Longrightarrow>
      read_digits 0 bs = Some (unat a) \<or> (\<exists>ds. bs = 43 # ds \<and> read_digits 0 ds = Some (unat a))"
  using assms unfolding uint_lib_ok_def uint_text_ok_def by blast+

section \<open>A library with that behaviour\<close>

text \<open>The integer square root, one bit of the result after the other.\<close>

fun root_bits :: "nat \<Rightarrow> nat \<Rightarrow> nat \<Rightarrow> nat" where
  "root_bits 0 r n = r"
| "root_bits (Suc k) r n = root_bits k (if (r + 2 ^ k) ^ 2 \<le> n then r + 2 ^ k else r) n"

lemma root_bits_bounds:
  assumes "r ^ 2 \<le> n" "n < (r + 2 ^ k) ^ 2"
  shows "root_bits k r n ^ 2 \<le> n \<and> n < Suc (root_bits k r n) ^ 2"
  using assms
proof (induction k arbitrary: r)
  case (Suc k)
  show ?case
  proof (cases "(r + 2 ^ k) ^ 2 \<le> n")
    case True
    have "r + 2 ^ Suc k = r + 2 ^ k + 2 ^ k" by simp
    with Suc.prems(2) have "n < (r + 2 ^ k + 2 ^ k) ^ 2" by metis
    from Suc.IH [OF True this] True show ?thesis by simp
  qed (use Suc in simp)
qed simp

definition demo_uint :: uint_lib where
  "demo_uint = \<lparr>
     u_add = (\<lambda>a b. fit (unat a + unat b)),
     u_sub = (\<lambda>a b. if unat b \<le> unat a then fit (unat a - unat b) else None),
     u_mul = (\<lambda>a b. fit (unat a * unat b)),
     u_div = (\<lambda>a b. if b = 0 then None else fit (unat a div unat b)),
     u_rem = (\<lambda>a b. if b = 0 then None else fit (unat a mod unat b)),
     u_pow = (\<lambda>a n. fit (unat a ^ unat n)),
     u_multiply_ratio = (\<lambda>a b c. if c = 0 then Inl MultiplyRatioDivideByZero
       else case fit (unat a * unat b div unat c) of None \<Rightarrow> Inl MultiplyRatioOverflow | Some r \<Rightarrow> Inr r),
     u_isqrt = (\<lambda>a. of_nat (root_bits 128 0 (unat a))),
     u_full_mul = (\<lambda>a b. of_nat (unat a * unat b)),
     u_div512 = (\<lambda>x y. if y = 0 then None else Some (x div y)),
     u_widen = ucast,
     u_narrow = (\<lambda>x. fit (unat x)),
     u_parse = (\<lambda>bs. if bs = [] then Inl (GenericErr (lit ''empty''))
       else case read_digits 0 bs of None \<Rightarrow> Inl (GenericErr (lit ''digit''))
         | Some n \<Rightarrow> (case fit n of None \<Rightarrow> Inl (GenericErr (lit ''overflow'')) | Some a \<Rightarrow> Inr a)),
     u_show = (\<lambda>a. show_nat (unat a)) \<rparr>"

lemma demo_isqrt:
  "unat (u_isqrt demo_uint a) ^ 2 \<le> unat a \<and> unat a < Suc (unat (u_isqrt demo_uint a)) ^ 2"
proof -
  let ?r = "root_bits 128 0 (unat a)"
  have r: "?r ^ 2 \<le> unat a" "unat a < Suc ?r ^ 2"
    using root_bits_bounds [of 0 "unat a" 128] unat_bound [of a] by simp_all
  have "?r \<le> ?r ^ 2" by (simp add: power2_eq_square)
  with r(1) unat_bound [of a] have "unat (of_nat ?r :: u256) = ?r"
    by (intro unat_of_nat_bounded) simp
  with r show ?thesis by (simp add: demo_uint_def)
qed

lemma demo_uint_ok: "uint_lib_ok demo_uint"
proof -
  have "uint_arith_ok demo_uint"
    using demo_isqrt by (simp add: uint_arith_ok_def) (simp add: demo_uint_def)
  moreover have "uint_wide_ok demo_uint"
  proof -
    have "unat a * unat b < 2 ^ 512" for a b :: u256
      using mult_strict_mono [OF unat_bound [of a] unat_bound [of b]] by simp
    then have "unat (of_nat (unat a * unat b) :: u512) = unat a * unat b" for a b :: u256
      by (intro unat_of_nat_bounded) simp
    then show ?thesis
      by (simp add: uint_wide_ok_def demo_uint_def unat_div unat_ucast_wider)
  qed
  moreover have "uint_text_ok demo_uint"
    by (auto simp: uint_text_ok_def demo_uint_def fit_def unat_of_nat_bounded
        split: option.splits if_splits)
  ultimately show ?thesis by (simp add: uint_lib_ok_def)
qed

end
