(* ===== verification/Decimal.thy ===== *)
theory Decimal
  imports Uint_Lib
begin

text \<open>
  Fixed-point decimals with 18 fractional digits: \<open>src/proto-types/src/decimal256.rs\<close>. A decimal
  is the number of its atoms (units of 10 to the -18). Arithmetic, powers by repeated squaring,
  square roots of decreasing precision, conversion from and to text. The integers underneath are
  the parameter \<open>U\<close>; \<open>None\<close> is a panic, an error is the left of a sum.
\<close>

section \<open>Constants and construction\<close>

datatype decimal256 = Decimal256 (atomics: u256)

instantiation decimal256 :: linorder
begin

definition less_eq_decimal256 :: "decimal256 \<Rightarrow> decimal256 \<Rightarrow> bool" where
  "less_eq_decimal256 a b \<longleftrightarrow> atomics a \<le> atomics b"

definition less_decimal256 :: "decimal256 \<Rightarrow> decimal256 \<Rightarrow> bool" where
  "less_decimal256 a b \<longleftrightarrow> atomics a < atomics b"

instance
  by standard (auto simp: less_eq_decimal256_def less_decimal256_def decimal256.expand)

end

datatype range_exceeded = Decimal256RangeExceeded

datatype ratio_error = RatioDivideByZero | RatioOverflow

datatype overflow_operation = OverflowAdd | OverflowSub | OverflowMul | OverflowPow

record overflow_error =
  oe_operation :: overflow_operation
  oe_operand1 :: bytes
  oe_operand2 :: bytes

text \<open>\<open>Uint256::from_be_bytes\<close>.\<close>

definition from_be_bytes :: "u8 list \<Rightarrow> u256" where
  "from_be_bytes bs = foldl (\<lambda>acc b. 256 * acc + ucast b) 0 bs"

definition DECIMAL_FRACTIONAL :: u256 where
  "DECIMAL_FRACTIONAL = from_be_bytes
     [0, 0, 0, 0, 0, 0, 0, 0, 0, 0, 0, 0, 0, 0, 0, 0, 0, 0, 0, 0, 0, 0, 0, 0, 13, 224, 182,
      179, 167, 100, 0, 0]"

definition DECIMAL_FRACTIONAL_SQUARED :: u256 where
  "DECIMAL_FRACTIONAL_SQUARED = from_be_bytes
     [0, 0, 0, 0, 0, 0, 0, 0, 0, 0, 0, 0, 0, 0, 0, 0, 0, 192, 151, 206, 123, 201, 7, 21, 179,
      75, 159, 16, 0, 0, 0, 0]"

definition DECIMAL_PLACES :: u32 where "DECIMAL_PLACES = 18"

definition decimal_max :: decimal256 where "decimal_max = Decimal256 (- 1)"

definition decimal_min :: decimal256 where "decimal_min = Decimal256 0"

definition decimal_new :: "u256 \<Rightarrow> decimal256" where "decimal_new n = Decimal256 n"

definition decimal_raw :: "128 word \<Rightarrow> decimal256" where "decimal_raw n = Decimal256 (ucast n)"

definition decimal_one :: decimal256 where "decimal_one = Decimal256 DECIMAL_FRACTIONAL"

definition decimal_zero :: decimal256 where "decimal_zero = Decimal256 0"

definition decimal_percent :: "uint_lib \<Rightarrow> u64 \<Rightarrow> decimal256 option" where
  "decimal_percent U x = map_option Decimal256 (u_mul U (ucast x) 10000000000000000)"

definition decimal_permille :: "uint_lib \<Rightarrow> u64 \<Rightarrow> decimal256 option" where
  "decimal_permille U x = map_option Decimal256 (u_mul U (ucast x) 1000000000000000)"

definition from_atomics :: "uint_lib \<Rightarrow> u256 \<Rightarrow> u32 \<Rightarrow> (range_exceeded + decimal256) option" where
  "from_atomics U atoms decimal_places =
     (if decimal_places < DECIMAL_PLACES then do {
        factor \<leftarrow> u_pow U 10 (DECIMAL_PLACES - decimal_places);
        Some (case u_mul U atoms factor of
            None \<Rightarrow> Inl Decimal256RangeExceeded | Some r \<Rightarrow> Inr (Decimal256 r)) }
      else if decimal_places = DECIMAL_PLACES then Some (Inr (Decimal256 atoms))
      else (case u_pow U 10 (decimal_places - DECIMAL_PLACES) of
          Some factor \<Rightarrow> map_option (\<lambda>r. Inr (Decimal256 r)) (u_div U atoms factor)
        | None \<Rightarrow> Some (Inr (Decimal256 0))))"

definition checked_from_ratio :: "uint_lib \<Rightarrow> u256 \<Rightarrow> u256 \<Rightarrow> ratio_error + decimal256" where
  "checked_from_ratio U numerator denominator =
     (case u_multiply_ratio U numerator DECIMAL_FRACTIONAL denominator of
        Inr ratio \<Rightarrow> Inr (Decimal256 ratio)
      | Inl MultiplyRatioOverflow \<Rightarrow> Inl RatioOverflow
      | Inl MultiplyRatioDivideByZero \<Rightarrow> Inl RatioDivideByZero)"

definition from_ratio :: "uint_lib \<Rightarrow> u256 \<Rightarrow> u256 \<Rightarrow> decimal256 option" where
  "from_ratio U numerator denominator =
     (case checked_from_ratio U numerator denominator of Inr r \<Rightarrow> Some r | Inl _ \<Rightarrow> None)"

text \<open>\<open>Decimal\<close> of \<open>cosmwasm_std\<close> is its atoms and its number of places.\<close>

definition from_decimal :: "uint_lib \<Rightarrow> 128 word \<Rightarrow> u32 \<Rightarrow> decimal256 option" where
  "from_decimal U atoms decimal_places = unwrap_result (from_atomics U (ucast atoms) decimal_places)"

definition decimal_is_zero :: "decimal256 \<Rightarrow> bool" where
  "decimal_is_zero d \<longleftrightarrow> atomics d = 0"

definition decimal_places :: "decimal256 \<Rightarrow> u32" where "decimal_places d = DECIMAL_PLACES"

definition numerator :: "decimal256 \<Rightarrow> u256" where "numerator d = atomics d"

definition denominator :: "decimal256 \<Rightarrow> u256" where "denominator d = DECIMAL_FRACTIONAL"

definition decimal_inv :: "uint_lib \<Rightarrow> decimal256 \<Rightarrow> decimal256 option option" where
  "decimal_inv U d =
     (if decimal_is_zero d then Some None
      else map_option (\<lambda>r. Some (Decimal256 r)) (u_div U DECIMAL_FRACTIONAL_SQUARED (atomics d)))"

definition decimal_floor :: "uint_lib \<Rightarrow> decimal256 \<Rightarrow> decimal256 option" where
  "decimal_floor U d = do {
     whole \<leftarrow> u_div U (atomics d) DECIMAL_FRACTIONAL;
     r \<leftarrow> u_mul U whole DECIMAL_FRACTIONAL;
     Some (Decimal256 r) }"

section \<open>Text\<close>

text \<open>\<open>{:0>n}\<close> and \<open>trim_end_matches('0')\<close>.\<close>

definition pad_zeros :: "nat \<Rightarrow> bytes \<Rightarrow> bytes" where
  "pad_zeros n s = replicate (n - length s) 48 @ s"

definition trim_zeros :: "bytes \<Rightarrow> bytes" where
  "trim_zeros s = rev (dropWhile (\<lambda>b. b = 48) (rev s))"

definition decimal_to_string :: "uint_lib \<Rightarrow> decimal256 \<Rightarrow> bytes option" where
  "decimal_to_string U d = do {
     whole \<leftarrow> u_div U (atomics d) DECIMAL_FRACTIONAL;
     fractional \<leftarrow> u_rem U (atomics d) DECIMAL_FRACTIONAL;
     (if fractional = 0 then Some (u_show U whole)
      else Some (u_show U whole @ [46] @
        trim_zeros (pad_zeros (unat DECIMAL_PLACES) (u_show U fractional)))) }"

text \<open>\<open>str::split('.')\<close>: always at least one part.\<close>

fun split_dots :: "bytes \<Rightarrow> bytes list" where
  "split_dots [] = [[]]"
| "split_dots (b # bs) =
     (case split_dots bs of
        [] \<Rightarrow> [[b]]
      | part # parts \<Rightarrow> if b = 46 then [] # part # parts else (b # part) # parts)"

definition add_fraction :: "uint_lib \<Rightarrow> u256 \<Rightarrow> bytes \<Rightarrow> (std_error + u256) option" where
  "add_fraction U atoms fractional_part =
     try_bind (Some (map_err (\<lambda>_. GenericErr (lit ''Error parsing fractional''))
       (u_parse U fractional_part))) (\<lambda>fractional.
     try_bind (let n = of_nat (length fractional_part) in
       if n \<le> DECIMAL_PLACES then Some (Inr (DECIMAL_PLACES - n))
       else Some (Inl (GenericErr (lit ''Cannot parse more than '' @ show_nat (unat DECIMAL_PLACES) @
         lit '' fractional digits'')))) (\<lambda>ex.
     if \<not> ex \<le> DECIMAL_PLACES then None
     else do {
       fractional_factor \<leftarrow> u_pow U 10 ex;
       addend \<leftarrow> u_mul U fractional fractional_factor;
       ok_or (GenericErr (lit ''Value too big'')) (u_add U atoms addend) }))"

definition decimal_from_str :: "uint_lib \<Rightarrow> bytes \<Rightarrow> (std_error + decimal256) option" where
  "decimal_from_str U input =
     (case split_dots input of
        [] \<Rightarrow> None
      | whole_part # parts \<Rightarrow>
          try_bind (Some (map_err (\<lambda>_. GenericErr (lit ''Error parsing whole''))
            (u_parse U whole_part))) (\<lambda>whole.
          try_bind (ok_or (GenericErr (lit ''Value too big'')) (u_mul U whole DECIMAL_FRACTIONAL)) (\<lambda>atoms.
          try_bind (case parts of
              fractional_part # _ \<Rightarrow> add_fraction U atoms fractional_part
            | [] \<Rightarrow> Some (Inr atoms)) (\<lambda>atoms.
          if tl parts \<noteq> [] then Some (Inl (GenericErr (lit ''Unexpected number of dots'')))
          else Some (Inr (Decimal256 atoms))))))"

definition to_cosmos_proto_string :: "uint_lib \<Rightarrow> decimal256 \<Rightarrow> bytes" where
  "to_cosmos_proto_string U d = u_show U (atomics d)"

definition from_cosmos_proto_string :: "uint_lib \<Rightarrow> bytes \<Rightarrow> std_error + decimal256" where
  "from_cosmos_proto_string U input = then_try (u_parse U input) (\<lambda>internal. Inr (Decimal256 internal))"

text \<open>The \<open>serde\<close> visitor; \<open>custom\<close> builds the error of the deserializer from a text.\<close>

definition visit_str :: "uint_lib \<Rightarrow> (std_error \<Rightarrow> bytes) \<Rightarrow> (bytes \<Rightarrow> 'e) \<Rightarrow> bytes \<Rightarrow> ('e + decimal256) option" where
  "visit_str U error_text custom v =
     map_option (map_err (\<lambda>e. custom (lit ''Error parsing decimal '' @ [39] @ v @ [39] @ lit '': '' @ error_text e)))
       (decimal_from_str U v)"

text \<open>\<open>serialize_str\<close> and \<open>deserialize_str\<close> are of the format; the latter calls the visitor with the text.\<close>

definition decimal_serialize :: "uint_lib \<Rightarrow> (bytes \<Rightarrow> 'e + 'o) \<Rightarrow> decimal256 \<Rightarrow> ('e + 'o) option" where
  "decimal_serialize U serialize_str d = map_option serialize_str (decimal_to_string U d)"

definition decimal_deserialize ::
  "uint_lib \<Rightarrow> (std_error \<Rightarrow> bytes) \<Rightarrow> (bytes \<Rightarrow> 'e) \<Rightarrow>
     ((bytes \<Rightarrow> ('e + decimal256) option) \<Rightarrow> 'i \<Rightarrow> ('e + decimal256) option) \<Rightarrow> 'i \<Rightarrow> ('e + decimal256) option" where
  "decimal_deserialize U error_text custom deserialize_str input =
     deserialize_str (visit_str U error_text custom) input"

definition decimal_eq_ref :: "decimal256 \<Rightarrow> decimal256 \<Rightarrow> bool" where
  "decimal_eq_ref d rhs \<longleftrightarrow> d = rhs"

section \<open>Arithmetic\<close>

text \<open>\<open>OverflowError::new\<close> prints its operands.\<close>

definition overflow_new ::
  "uint_lib \<Rightarrow> overflow_operation \<Rightarrow> decimal256 \<Rightarrow> decimal256 \<Rightarrow> (overflow_error + 'a) option" where
  "overflow_new U operation a b = do {
     operand1 \<leftarrow> decimal_to_string U a;
     operand2 \<leftarrow> decimal_to_string U b;
     Some (Inl \<lparr> oe_operation = operation, oe_operand1 = operand1, oe_operand2 = operand2 \<rparr>) }"

definition decimal_checked_add ::
  "uint_lib \<Rightarrow> decimal256 \<Rightarrow> decimal256 \<Rightarrow> (overflow_error + decimal256) option" where
  "decimal_checked_add U a b =
     (case u_add U (atomics a) (atomics b) of
        Some r \<Rightarrow> Some (Inr (Decimal256 r)) | None \<Rightarrow> overflow_new U OverflowAdd a b)"

definition decimal_checked_sub ::
  "uint_lib \<Rightarrow> decimal256 \<Rightarrow> decimal256 \<Rightarrow> (overflow_error + decimal256) option" where
  "decimal_checked_sub U a b =
     (case u_sub U (atomics a) (atomics b) of
        Some r \<Rightarrow> Some (Inr (Decimal256 r)) | None \<Rightarrow> overflow_new U OverflowSub a b)"

definition mul_512 :: "uint_lib \<Rightarrow> decimal256 \<Rightarrow> decimal256 \<Rightarrow> u512 option" where
  "mul_512 U a b =
     u_div512 U (u_full_mul U (numerator a) (numerator b)) (u_widen U DECIMAL_FRACTIONAL)"

definition decimal_checked_mul ::
  "uint_lib \<Rightarrow> decimal256 \<Rightarrow> decimal256 \<Rightarrow> (overflow_error + decimal256) option" where
  "decimal_checked_mul U a b = do {
     result_as_uint512 \<leftarrow> mul_512 U a b;
     (case u_narrow U result_as_uint512 of
        Some r \<Rightarrow> Some (Inr (Decimal256 r)) | None \<Rightarrow> overflow_new U OverflowMul a b) }"

definition decimal_checked_div :: "uint_lib \<Rightarrow> decimal256 \<Rightarrow> decimal256 \<Rightarrow> ratio_error + decimal256" where
  "decimal_checked_div U a b = checked_from_ratio U (numerator a) (numerator b)"

text \<open>\<open>DivideByZeroError::new\<close> prints its operand.\<close>

definition decimal_checked_rem ::
  "uint_lib \<Rightarrow> decimal256 \<Rightarrow> decimal256 \<Rightarrow> (bytes + decimal256) option" where
  "decimal_checked_rem U a b =
     (case u_rem U (atomics a) (atomics b) of
        Some r \<Rightarrow> Some (Inr (Decimal256 r)) | None \<Rightarrow> map_option Inl (decimal_to_string U a))"

definition decimal_add :: "uint_lib \<Rightarrow> decimal256 \<Rightarrow> decimal256 \<Rightarrow> decimal256 option" where
  "decimal_add U a b = map_option Decimal256 (u_add U (atomics a) (atomics b))"

definition decimal_sub :: "uint_lib \<Rightarrow> decimal256 \<Rightarrow> decimal256 \<Rightarrow> decimal256 option" where
  "decimal_sub U a b = map_option Decimal256 (u_sub U (atomics a) (atomics b))"

definition decimal_mul :: "uint_lib \<Rightarrow> decimal256 \<Rightarrow> decimal256 \<Rightarrow> decimal256 option" where
  "decimal_mul U a b = do {
     result_as_uint512 \<leftarrow> mul_512 U a b;
     map_option Decimal256 (u_narrow U result_as_uint512) }"

definition decimal_div :: "uint_lib \<Rightarrow> decimal256 \<Rightarrow> decimal256 \<Rightarrow> decimal256 option" where
  "decimal_div U a b =
     (case checked_from_ratio U (numerator a) (numerator b) of Inr ratio \<Rightarrow> Some ratio | Inl _ \<Rightarrow> None)"

definition decimal_rem :: "uint_lib \<Rightarrow> decimal256 \<Rightarrow> decimal256 \<Rightarrow> decimal256 option" where
  "decimal_rem U a b = map_option Decimal256 (u_rem U (atomics a) (atomics b))"

definition decimal_div_uint :: "uint_lib \<Rightarrow> decimal256 \<Rightarrow> u256 \<Rightarrow> decimal256 option" where
  "decimal_div_uint U a n = map_option Decimal256 (u_div U (atomics a) n)"

definition uint_mul_decimal :: "uint_lib \<Rightarrow> u256 \<Rightarrow> decimal256 \<Rightarrow> u256 option" where
  "uint_mul_decimal U n d =
     (if n = 0 \<or> decimal_is_zero d then Some 0
      else (case u_multiply_ratio U n (atomics d) DECIMAL_FRACTIONAL of Inr r \<Rightarrow> Some r | Inl _ \<Rightarrow> None))"

definition decimal_mul_uint :: "uint_lib \<Rightarrow> decimal256 \<Rightarrow> u256 \<Rightarrow> u256 option" where
  "decimal_mul_uint U d n = uint_mul_decimal U n d"

text \<open>The assigning operators: the value the left operand has afterwards.\<close>

definition decimal_add_assign :: "uint_lib \<Rightarrow> decimal256 \<Rightarrow> decimal256 \<Rightarrow> decimal256 option" where
  "decimal_add_assign U d rhs = decimal_add U d rhs"

definition decimal_sub_assign :: "uint_lib \<Rightarrow> decimal256 \<Rightarrow> decimal256 \<Rightarrow> decimal256 option" where
  "decimal_sub_assign U d rhs = decimal_sub U d rhs"

definition decimal_mul_assign :: "uint_lib \<Rightarrow> decimal256 \<Rightarrow> decimal256 \<Rightarrow> decimal256 option" where
  "decimal_mul_assign U d rhs = decimal_mul U d rhs"

definition decimal_div_assign :: "uint_lib \<Rightarrow> decimal256 \<Rightarrow> decimal256 \<Rightarrow> decimal256 option" where
  "decimal_div_assign U d rhs = decimal_div U d rhs"

definition decimal_div_assign_uint :: "uint_lib \<Rightarrow> decimal256 \<Rightarrow> u256 \<Rightarrow> decimal256 option" where
  "decimal_div_assign_uint U d rhs = do { q \<leftarrow> u_div U (atomics d) rhs; Some (Decimal256 q) }"

definition decimal_rem_assign :: "uint_lib \<Rightarrow> decimal256 \<Rightarrow> decimal256 \<Rightarrow> decimal256 option" where
  "decimal_rem_assign U d rhs = decimal_rem U d rhs"

fun decimal_sum_from :: "uint_lib \<Rightarrow> decimal256 \<Rightarrow> decimal256 list \<Rightarrow> decimal256 option" where
  "decimal_sum_from U acc [] = Some acc"
| "decimal_sum_from U acc (d # ds) = do { acc \<leftarrow> decimal_add U acc d; decimal_sum_from U acc ds }"

definition decimal_sum :: "uint_lib \<Rightarrow> decimal256 list \<Rightarrow> decimal256 option" where
  "decimal_sum U ds = decimal_sum_from U decimal_zero ds"

definition abs_diff :: "uint_lib \<Rightarrow> decimal256 \<Rightarrow> decimal256 \<Rightarrow> decimal256 option" where
  "abs_diff U a b = (if a < b then decimal_sub U b a else decimal_sub U a b)"

text \<open>\<open>match r { Ok(value) => value, Err(_) => other }\<close>.\<close>

definition or_else :: "decimal256 \<Rightarrow> ('e + decimal256) option \<Rightarrow> decimal256 option" where
  "or_else other r = map_option (\<lambda>r. case r of Inr v \<Rightarrow> v | Inl _ \<Rightarrow> other) r"

definition saturating_add :: "uint_lib \<Rightarrow> decimal256 \<Rightarrow> decimal256 \<Rightarrow> decimal256 option" where
  "saturating_add U a b = or_else decimal_max (decimal_checked_add U a b)"

definition saturating_sub :: "uint_lib \<Rightarrow> decimal256 \<Rightarrow> decimal256 \<Rightarrow> decimal256 option" where
  "saturating_sub U a b = or_else decimal_zero (decimal_checked_sub U a b)"

definition saturating_mul :: "uint_lib \<Rightarrow> decimal256 \<Rightarrow> decimal256 \<Rightarrow> decimal256 option" where
  "saturating_mul U a b = or_else decimal_max (decimal_checked_mul U a b)"

section \<open>Powers\<close>

lemma halves:
  assumes "(1 :: u32) < n"
  shows "unat (n div 2) = unat n div 2" "unat ((n - 1) div 2) = (unat n - 1) div 2"
    "n mod 2 = 0 \<longleftrightarrow> even (unat n)" "1 < unat n"
proof -
  show n: "1 < unat n" using assms by (simp add: word_less_nat_alt)
  show "unat (n div 2) = unat n div 2" by (simp add: unat_div)
  have "1 \<le> n" using assms by simp
  then have "unat (n - 1) = unat n - 1" by (simp add: unat_sub)
  then show "unat ((n - 1) div 2) = (unat n - 1) div 2" by (simp add: unat_div)
  show "n mod 2 = 0 \<longleftrightarrow> even (unat n)"
    by (simp add: even_iff_mod_2_eq_zero word_unat_eq_iff unat_mod)
qed

function pow_loop ::
  "uint_lib \<Rightarrow> decimal256 \<Rightarrow> decimal256 \<Rightarrow> u32 \<Rightarrow> (overflow_error + decimal256) option" where
  "pow_loop U x y n =
     (if n > 1 then
        if n mod 2 = 0 then try_bind (decimal_checked_mul U x x) (\<lambda>x. pow_loop U x y (n div 2))
        else try_bind (decimal_checked_mul U x y) (\<lambda>y.
          try_bind (decimal_checked_mul U x x) (\<lambda>x. pow_loop U x y ((n - 1) div 2)))
      else map_option Inr (decimal_mul U x y))"
  by pat_completeness auto

termination
  by (relation "measure (\<lambda>(U, x, y, n). unat n)") (auto simp: halves dest: halves(4))

declare pow_loop.simps [simp del]

definition pow_inner ::
  "uint_lib \<Rightarrow> decimal256 \<Rightarrow> u32 \<Rightarrow> (overflow_error + decimal256) option" where
  "pow_inner U x n = (if n = 0 then Some (Inr decimal_one) else pow_loop U x decimal_one n)"

definition decimal_checked_pow ::
  "uint_lib \<Rightarrow> decimal256 \<Rightarrow> u32 \<Rightarrow> (overflow_error + decimal256) option" where
  "decimal_checked_pow U d ex = do {
     r \<leftarrow> pow_inner U d ex;
     (case r of
        Inr v \<Rightarrow> Some (Inr v)
      | Inl _ \<Rightarrow> do {
          operand1 \<leftarrow> decimal_to_string U d;
          Some (Inl \<lparr> oe_operation = OverflowPow, oe_operand1 = operand1,
            oe_operand2 = show_nat (unat ex) \<rparr>) }) }"

definition decimal_pow :: "uint_lib \<Rightarrow> decimal256 \<Rightarrow> u32 \<Rightarrow> decimal256 option" where
  "decimal_pow U d ex = do {
     r \<leftarrow> decimal_checked_pow U d ex;
     (case r of Inr v \<Rightarrow> Some v | Inl _ \<Rightarrow> None) }"

definition saturating_pow :: "uint_lib \<Rightarrow> decimal256 \<Rightarrow> u32 \<Rightarrow> decimal256 option" where
  "saturating_pow U d ex = or_else decimal_max (decimal_checked_pow U d ex)"

section \<open>Square roots\<close>

definition sqrt_with_precision :: "uint_lib \<Rightarrow> decimal256 \<Rightarrow> u32 \<Rightarrow> decimal256 option option" where
  "sqrt_with_precision U d precision = do {
     inner_mul \<leftarrow> u_pow U 100 precision;
     (case u_mul U (atomics d) inner_mul of
        None \<Rightarrow> Some None
      | Some inner \<Rightarrow>
          if precision \<le> DECIMAL_PLACES div 2 then do {
            outer_mul \<leftarrow> u_pow U 10 (DECIMAL_PLACES div 2 - precision);
            r \<leftarrow> u_mul U (u_isqrt U inner) outer_mul;
            Some (Some (Decimal256 r)) }
          else None) }"

text \<open>\<open>find_map\<close> over the precisions.\<close>

fun find_precision :: "uint_lib \<Rightarrow> decimal256 \<Rightarrow> u32 list \<Rightarrow> decimal256 option option" where
  "find_precision U d [] = Some None"
| "find_precision U d (i # is) = do {
     r \<leftarrow> sqrt_with_precision U d i;
     (case r of Some s \<Rightarrow> Some (Some s) | None \<Rightarrow> find_precision U d is) }"

definition decimal_sqrt :: "uint_lib \<Rightarrow> decimal256 \<Rightarrow> decimal256 option" where
  "decimal_sqrt U d = do {
     r \<leftarrow> find_precision U d (rev (map of_nat [0..<Suc (unat (DECIMAL_PLACES div 2))]));
     r }"

end
