(* ===== verification/Decimal_Laws.thy ===== *)
theory Decimal_Laws
  imports Decimal
begin

text \<open>
  What the decimals of \<open>src/proto-types/src/decimal256.rs\<close> compute: every operation as
  arithmetic on the number of atoms, printing and parsing, powers, square roots.
\<close>

named_theorems decimal_values \<open>the operations as arithmetic on natural numbers\<close>

abbreviation atoms :: "decimal256 \<Rightarrow> nat" where "atoms d \<equiv> unat (atomics d)"

definition scale :: nat where "scale = 10 ^ 18"

lemma scale_pos [simp]: "0 < scale" "scale \<noteq> 0" by (simp_all add: scale_def)

lemma le_times_scale:
  assumes "n \<le> v"
  shows "n \<le> v * scale"
proof -
  have "n \<le> v * 1" using assms by simp
  also have "v * 1 \<le> v * scale" by (rule mult_le_mono2) (simp add: scale_def)
  finally show ?thesis by simp
qed

lemma unat_fractional [simp]: "unat DECIMAL_FRACTIONAL = scale"
  by (simp add: DECIMAL_FRACTIONAL_def from_be_bytes_def scale_def)

lemma fractional_not_0 [simp]: "DECIMAL_FRACTIONAL \<noteq> 0"
  by (simp add: DECIMAL_FRACTIONAL_def from_be_bytes_def)

lemma unat_fractional_squared [simp]: "unat DECIMAL_FRACTIONAL_SQUARED = scale ^ 2"
  by (simp add: DECIMAL_FRACTIONAL_SQUARED_def from_be_bytes_def scale_def)

lemma unat_places [simp]: "unat DECIMAL_PLACES = 18" by (simp add: DECIMAL_PLACES_def)

lemma fit_le: "fit n = Some a \<Longrightarrow> m \<le> n \<Longrightarrow> \<exists>b. fit m = Some b \<and> unat b = m"
  using fit_Some [of n a] unat_of_nat_bounded [of m, where 'a = 256] by (auto simp: fit_def)

lemma fit_small: "n < 2 ^ 256 \<Longrightarrow> \<exists>b. fit n = Some b \<and> unat b = n"
  using unat_of_nat_bounded [of n, where 'a = 256] by (simp add: fit_def)

lemma div_fits: "\<exists>b. fit (unat (a :: u256) div n) = Some b \<and> unat b = unat a div n"
  by (rule fit_le [OF fit_unat]) (rule div_le_dividend)

lemma mod_fits: "\<exists>b. fit (unat (a :: u256) mod n) = Some b \<and> unat b = unat a mod n"
  by (rule fit_le [OF fit_unat]) (rule mod_less_eq_dividend)

section \<open>Arithmetic\<close>

lemma mul_512_value:
  assumes "uint_lib_ok U"
  obtains q where "mul_512 U a b = Some q" "unat q = atoms a * atoms b div scale"
proof -
  have "u_widen U DECIMAL_FRACTIONAL \<noteq> 0"
    using uint_wideD(3) [OF assms, of DECIMAL_FRACTIONAL] by auto
  then obtain q where "u_div512 U (u_full_mul U (atomics a) (atomics b)) (u_widen U DECIMAL_FRACTIONAL)
      = Some q" "unat q = unat (u_full_mul U (atomics a) (atomics b)) div unat (u_widen U DECIMAL_FRACTIONAL)"
    using uint_wideD(2) [OF assms] by blast
  with that show thesis by (simp add: mul_512_def numerator_def uint_wideD(1,3) [OF assms])
qed

lemma mul_value [decimal_values]:
  assumes "uint_lib_ok U"
  shows "decimal_mul U a b = map_option Decimal256 (fit (atoms a * atoms b div scale))"
  by (rule mul_512_value [OF assms, of a b]) (simp add: decimal_mul_def uint_wideD(4) [OF assms])

lemma checked_mul_value [decimal_values]:
  assumes "uint_lib_ok U"
  shows "decimal_checked_mul U a b = (case fit (atoms a * atoms b div scale) of
      Some r \<Rightarrow> Some (Inr (Decimal256 r)) | None \<Rightarrow> overflow_new U OverflowMul a b)"
  by (rule mul_512_value [OF assms, of a b])
    (simp add: decimal_checked_mul_def uint_wideD(4) [OF assms])

lemma add_values [decimal_values]:
  assumes "uint_lib_ok U"
  shows "decimal_add U a b = map_option Decimal256 (fit (atoms a + atoms b))"
    and "decimal_sub U a b
      = (if atoms b \<le> atoms a then map_option Decimal256 (fit (atoms a - atoms b)) else None)"
    and "decimal_checked_add U a b = (case fit (atoms a + atoms b) of
      Some r \<Rightarrow> Some (Inr (Decimal256 r)) | None \<Rightarrow> overflow_new U OverflowAdd a b)"
    and "decimal_checked_sub U a b = (if atoms b \<le> atoms a then
      (case fit (atoms a - atoms b) of
      Some r \<Rightarrow> Some (Inr (Decimal256 r)) | None \<Rightarrow> overflow_new U OverflowSub a b)
      else overflow_new U OverflowSub a b)"
  using assms by (simp_all add: decimal_add_def decimal_sub_def decimal_checked_add_def
      decimal_checked_sub_def uint_arithD)

section \<open>Text\<close>

lemma read_digits_zeros [simp]: "read_digits 0 (replicate n 48 @ s) = read_digits 0 s"
  by (induction n) (simp_all add: digit_def)

lemma read_digits_trailing:
  "read_digits acc s = Some v \<Longrightarrow> read_digits acc (s @ replicate n 48) = Some (v * 10 ^ n)"
proof (induction n arbitrary: v)
  case (Suc n)
  then have "read_digits acc ((s @ replicate n 48) @ [48]) = Some (10 * (v * 10 ^ n))"
    by (simp add: read_digits_append digit_def)
  then show ?case by (simp add: replicate_append_same algebra_simps)
qed simp

lemma read_digits_bound:
  "read_digits acc s = Some v \<Longrightarrow> v < Suc acc * 10 ^ length s"
proof (induction acc s arbitrary: v rule: read_digits.induct)
  case (2 acc b bs)
  then obtain d where d: "digit b = Some d" "read_digits (10 * acc + d) bs = Some v"
    by (auto split: option.splits)
  then have "d \<le> 9" by (auto simp: digit_def split: if_splits)
  then have "Suc (10 * acc + d) \<le> Suc acc * 10" by simp
  then have "Suc (10 * acc + d) * 10 ^ length bs \<le> Suc acc * 10 * 10 ^ length bs"
    by (rule mult_le_mono1)
  with 2(1) [OF d] have "v < Suc acc * 10 * 10 ^ length bs" by (rule order_less_le_trans)
  then show ?case by (simp add: algebra_simps)
qed simp

lemma length_show_nat: "n < 10 ^ k \<Longrightarrow> 0 < k \<Longrightarrow> length (show_nat n) \<le> k"
proof (induction n arbitrary: k rule: show_nat.induct)
  case (1 n)
  show ?case
  proof (cases "n < 10")
    case True
    with 1(3) show ?thesis by (subst show_nat.simps) simp
  next
    case False
    with 1(2) have "k \<noteq> 0" "k \<noteq> 1" by (auto intro: ccontr)
    then obtain j where k: "k = Suc j" "0 < j" by (cases k) auto
    with 1(2) have "n div 10 < 10 ^ j" by (simp add: less_mult_imp_div_less)
    from 1(1) [OF False this k(2)] False k show ?thesis by (subst show_nat.simps) simp
  qed
qed

lemma split_dots_not_Nil [simp]: "split_dots s \<noteq> []"
  by (cases s) (auto split: list.splits)

lemma split_dots_no_dot: "46 \<notin> set s \<Longrightarrow> split_dots s = [s]"
  by (induction s) auto

lemma split_dots_dot: "46 \<notin> set s \<Longrightarrow> split_dots (s @ 46 # t) = s # split_dots t"
proof (induction s)
  case Nil
  then show ?case by (cases "split_dots t") simp_all
qed auto

lemma digits_no_dot: "read_digits acc s = Some v \<Longrightarrow> 46 \<notin> set s"
  by (induction acc s rule: read_digits.induct) (auto simp: digit_def split: if_splits)

lemma trim_zeros_split: "\<exists>n. s = trim_zeros s @ replicate n 48"
proof -
  have "rev s = takeWhile (\<lambda>b. b = 48) (rev s) @ dropWhile (\<lambda>b. b = 48) (rev s)" by simp
  moreover have "takeWhile (\<lambda>b. b = 48) (rev s) = replicate n 48"
    if "n = length (takeWhile (\<lambda>b. b = 48) (rev s))" for n
    unfolding that by (rule replicate_eqI [symmetric, THEN sym]) (auto dest: set_takeWhileD)
  ultimately have "rev s = replicate (length (takeWhile (\<lambda>b. b = 48) (rev s))) 48
      @ dropWhile (\<lambda>b. b = 48) (rev s)" by simp
  then have "s = rev (dropWhile (\<lambda>b. b = 48) (rev s))
      @ rev (replicate (length (takeWhile (\<lambda>b. b = 48) (rev s))) 48)"
    by (metis rev_append rev_rev_ident)
  then show ?thesis by (auto simp: trim_zeros_def)
qed

text \<open>Printing does not panic, and an overflow is reported with the printed operands.\<close>

lemma to_string_value:
  assumes "uint_lib_ok U"
  shows "decimal_to_string U d = Some (show_nat (atoms d div scale) @
    (if atoms d mod scale = 0 then []
     else 46 # trim_zeros (pad_zeros 18 (show_nat (atoms d mod scale)))))"
proof -
  obtain w where w: "fit (atoms d div scale) = Some w" "unat w = atoms d div scale"
    using div_fits by blast
  obtain f where f: "fit (atoms d mod scale) = Some f" "unat f = atoms d mod scale"
    using mod_fits by blast
  have "f = 0 \<longleftrightarrow> atoms d mod scale = 0" using f(2) by (simp add: unat_eq_0 [symmetric])
  with w f show ?thesis
    by (simp add: decimal_to_string_def uint_arithD [OF assms] uint_textD(1) [OF assms])
qed

lemma overflow_new_returns:
  "uint_lib_ok U \<Longrightarrow> \<exists>e. overflow_new U op a b = Some (Inl e) \<and> oe_operation e = op"
  by (simp add: overflow_new_def to_string_value)

text \<open>A decimal text is a digit string, or two of them with a dot between, the second of at most 18.\<close>

lemma parse_digits:
  assumes "uint_lib_ok U" "s \<noteq> []" "read_digits 0 s = Some v"
  shows "map_err f (u_parse U s) = (case fit v of Some a \<Rightarrow> Inr a
    | None \<Rightarrow> map_err f (Inl (projl (u_parse U s))))"
proof (cases "v < 2 ^ 256")
  case True
  with uint_textD(2) [OF assms] show ?thesis by (simp add: fit_def)
next
  case False
  with uint_textD(3) [OF assms(1,3)] show ?thesis by (auto simp: fit_def)
qed

lemma parse_bound:
  assumes "uint_lib_ok U" "u_parse U s = Inr a"
  shows "unat a < 10 ^ length s"
  using uint_textD(4) [OF assms]
proof (elim disjE exE conjE)
  fix ds assume "s = 43 # ds" "read_digits 0 ds = Some (unat a)"
  with read_digits_bound [of 0 ds] show ?thesis by fastforce
qed (use read_digits_bound [of 0 s] in simp)

lemma add_fraction_cases:
  assumes U: "uint_lib_ok U" and s: "length s < 2 ^ 32"
  obtains e where "u_parse U s = Inl e" "\<exists>e. add_fraction U a s = Some (Inl e)"
  | "18 < length s" "\<exists>e. add_fraction U a s = Some (Inl e)"
  | v where "u_parse U s = Inr v" "length s \<le> 18"
    "add_fraction U a s = Some (case fit (unat a + unat v * 10 ^ (18 - length s)) of
      Some r \<Rightarrow> Inr r | None \<Rightarrow> Inl (GenericErr (lit ''Value too big'')))"
proof (cases "u_parse U s")
  case (Inl e)
  then show thesis by (intro that(1) [of e]) (simp_all add: add_fraction_def)
next
  case (Inr v)
  have len: "unat (of_nat (length s) :: u32) = length s"
    by (rule unat_of_nat_bounded) (use s in simp)
  show thesis
  proof (cases "length s \<le> 18")
    case False
    then have "\<not> of_nat (length s) \<le> DECIMAL_PLACES" by (simp add: word_le_nat_alt len)
    with False Inr show thesis by (intro that(2)) (simp_all add: add_fraction_def)
  next
    case True
    then have le: "of_nat (length s) \<le> DECIMAL_PLACES" by (simp add: word_le_nat_alt len)
    then have ex: "unat (DECIMAL_PLACES - of_nat (length s)) = 18 - length s"
      by (simp add: unat_sub len)
    have "unat v * 10 ^ (18 - length s) < 10 ^ length s * 10 ^ (18 - length s)"
      using parse_bound [OF U Inr] by simp
    also have "\<dots> = 10 ^ 18" using True by (simp add: power_add [symmetric])
    finally have prod: "unat v * 10 ^ (18 - length s) < 10 ^ 18" .
    have "(10 :: nat) ^ (18 - length s) \<le> 10 ^ 18" by (rule power_increasing) simp_all
    then have "(10 :: nat) ^ (18 - length s) < 2 ^ 256" by simp
    then obtain p where p: "fit (10 ^ (18 - length s)) = Some p" "unat p = 10 ^ (18 - length s)"
      using fit_small by blast
    obtain q where q: "fit (unat v * 10 ^ (18 - length s)) = Some q"
      "unat q = unat v * 10 ^ (18 - length s)"
      using fit_small [of "unat v * 10 ^ (18 - length s)"] prod by auto
    have "DECIMAL_PLACES - of_nat (length s) \<le> DECIMAL_PLACES"
      using ex by (simp add: word_le_nat_alt)
    with le Inr True show thesis
      by (intro that(3)) (simp_all add: add_fraction_def uint_arithD [OF U] p q ex ok_or_def,
          cases "fit (unat a + unat v * 10 ^ (18 - length s))", simp_all)
  qed
qed

lemma from_str_parts:
  assumes "uint_lib_ok U" "split_dots input = w # parts"
  shows "decimal_from_str U input = (case u_parse U w of
      Inl e \<Rightarrow> Some (Inl (GenericErr (lit ''Error parsing whole'')))
    | Inr whole \<Rightarrow> (case fit (unat whole * scale) of
        None \<Rightarrow> Some (Inl (GenericErr (lit ''Value too big'')))
      | Some a \<Rightarrow> try_bind (case parts of s # _ \<Rightarrow> add_fraction U a s | [] \<Rightarrow> Some (Inr a))
          (\<lambda>a. if tl parts \<noteq> [] then Some (Inl (GenericErr (lit ''Unexpected number of dots'')))
            else Some (Inr (Decimal256 a)))))"
  using assms(2) by (simp add: decimal_from_str_def uint_arithD(3) [OF assms(1)]
      split: sum.split option.split)

lemma length_split_dots: "p \<in> set (split_dots s) \<Longrightarrow> length p \<le> length s"
proof (induction s arbitrary: p)
  case (Cons b s)
  then show ?case by (cases "split_dots s") (fastforce split: if_splits)+
qed simp

lemma from_str_returns:
  assumes "uint_lib_ok U" "length input < 2 ^ 32"
  shows "\<exists>r. decimal_from_str U input = Some r"
proof -
  obtain w parts where parts: "split_dots input = w # parts" by (cases "split_dots input") simp_all
  have "\<exists>r. add_fraction U a s = Some r" if "s \<in> set parts" for a s
  proof -
    have "length s < 2 ^ 32" using length_split_dots [of s input] that parts assms(2) by simp
    then show ?thesis by (rule add_fraction_cases [OF assms(1), of s a]) auto
  qed
  then have "\<exists>r. (case parts of s # _ \<Rightarrow> add_fraction U a s | [] \<Rightarrow> Some (Inr a)) = Some r" for a
    by (cases parts) auto
  then show ?thesis
    by (auto simp: from_str_parts [OF assms(1) parts] try_bind_def split: sum.split option.split)
      (metis option.distinct(1))
qed

text \<open>Digit strings are parsed exactly.\<close>

lemma parse_exact_whole:
  assumes U: "uint_lib_ok U" and w: "w \<noteq> []" "read_digits 0 w = Some v"
  shows "\<exists>r. decimal_from_str U w = Some r \<and>
    (case fit (v * scale) of Some a \<Rightarrow> r = Inr (Decimal256 a) | None \<Rightarrow> \<exists>e. r = Inl e)"
proof (cases "v < 2 ^ 256")
  case True
  with uint_textD(2) [OF U w] show ?thesis
    by (simp add: from_str_parts [OF U split_dots_no_dot [OF digits_no_dot [OF w(2)]]]
        unat_of_nat_bounded split: option.split)
next
  case False
  then have "fit (v * scale) = None" using le_times_scale [of "2 ^ 256" v] by (simp add: fit_None)
  with False uint_textD(3) [OF U w(2)] show ?thesis
    by (auto simp: from_str_parts [OF U split_dots_no_dot [OF digits_no_dot [OF w(2)]]])
qed

lemma parse_exact_fraction:
  assumes U: "uint_lib_ok U" and w: "w \<noteq> []" "read_digits 0 w = Some v"
    and s: "s \<noteq> []" "read_digits 0 s = Some u" "length s < 2 ^ 32"
  shows "\<exists>r. decimal_from_str U (w @ 46 # s) = Some r \<and>
    (if 18 < length s then \<exists>e. r = Inl e
     else case fit (v * scale + u * 10 ^ (18 - length s)) of
       Some a \<Rightarrow> r = Inr (Decimal256 a) | None \<Rightarrow> \<exists>e. r = Inl e)"
proof -
  have parts: "split_dots (w @ 46 # s) = [w, s]"
    using split_dots_dot [OF digits_no_dot [OF w(2)], of s]
      split_dots_no_dot [OF digits_no_dot [OF s(2)]] by simp
  show ?thesis
  proof (cases "v < 2 ^ 256 \<and> v * scale < 2 ^ 256")
    case False
    then have big: "fit (v * scale + u * 10 ^ (18 - length s)) = None" "2 ^ 256 \<le> v * scale"
      using le_times_scale [of "2 ^ 256" v] by (auto simp: fit_None intro: trans_le_add1)
    show ?thesis
    proof (cases "v < 2 ^ 256")
      case True
      with big uint_textD(2) [OF U w] show ?thesis
        by (simp add: from_str_parts [OF U parts] unat_of_nat_bounded fit_None [THEN iffD2])
    next
      case False
      with big uint_textD(3) [OF U w(2)] show ?thesis
        by (auto simp: from_str_parts [OF U parts])
    qed
  next
    case True
    then obtain a where a: "fit (v * scale) = Some a" "unat a = v * scale"
      using fit_small [of "v * scale"] by blast
    have str: "decimal_from_str U (w @ 46 # s) = try_bind (add_fraction U a s)
        (\<lambda>a. Some (Inr (Decimal256 a)))"
      using True uint_textD(2) [OF U w] a(1)
      by (simp add: from_str_parts [OF U parts] unat_of_nat_bounded)
    show ?thesis
    proof (rule add_fraction_cases [OF U s(3), of a], goal_cases)
      case (1 e)
      then have "\<not> length s \<le> 18"
        using read_digits_bound [OF s(2)] uint_textD(2) [OF U s(1,2)]
          power_increasing [of "length s" 18 "10 :: nat"] by force
      with 1 show ?case by (auto simp: str)
    next
      case 2
      then show ?case by (auto simp: str)
    next
      case (3 x)
      have "u < 2 ^ 256"
        using read_digits_bound [OF s(2)] power_increasing [of "length s" 18 "10 :: nat"] 3(2)
        by simp
      with uint_textD(2) [OF U s(1,2)] 3(1) have "unat x = u" by (simp add: unat_of_nat_bounded)
      with 3 show ?case by (simp add: str a(2) split: option.split)
    qed
  qed
qed

text \<open>What is printed is parsed back.\<close>

lemma text_round_trip:
  assumes U: "uint_lib_ok U"
  obtains s where "decimal_to_string U d = Some s" "decimal_from_str U s = Some (Inr d)"
proof -
  let ?w = "show_nat (atoms d div scale)" and ?f = "atoms d mod scale"
  have d: "atoms d div scale * scale + ?f = atoms d" by simp
  have fd: "fit (atoms d) = Some (atomics d)" by simp
  show thesis
  proof (cases "?f = 0")
    case True
    with d have "atoms d div scale * scale = atoms d" by simp
    with parse_exact_whole [OF U _ read_show_nat [of "atoms d div scale"]] fd
    have "decimal_from_str U ?w = Some (Inr d)" by simp
    with True to_string_value [OF U, of d] show thesis by (intro that) simp_all
  next
    case False
    let ?p = "pad_zeros 18 (show_nat ?f)"
    define t where "t = trim_zeros ?p"
    obtain n where n: "?p = t @ replicate n 48" unfolding t_def using trim_zeros_split by blast
    have "length (show_nat ?f) \<le> 18" by (rule length_show_nat) (simp_all add: scale_def)
    then have len: "length t + n = 18"
      using arg_cong [OF n, of length] by (simp add: pad_zeros_def)
    have p: "read_digits 0 ?p = Some ?f" by (simp add: pad_zeros_def read_show_nat)
    then obtain u where u: "read_digits 0 t = Some u"
      unfolding n by (auto simp: read_digits_append bind_eq_Some_conv)
    with p n have uf: "u * 10 ^ n = ?f" using read_digits_trailing [OF u, of n] by simp
    with False u have "t \<noteq> []" by auto
    moreover have "18 - length t = n" "\<not> 18 < length t" using len by simp_all
    moreover have "length t < 2 ^ 32" using len by simp
    ultimately have "decimal_from_str U (?w @ 46 # t) = Some (Inr d)"
      using parse_exact_fraction [OF U _ read_show_nat [of "atoms d div scale"] _ u] uf d fd by simp
    with False to_string_value [OF U, of d] show thesis by (intro that) (simp_all add: t_def)
  qed
qed

section \<open>Square roots\<close>

text \<open>With \<open>p\<close> digits of extra precision, when the radicand fits.\<close>

lemma sqrt_with_precision_value:
  assumes U: "uint_lib_ok U" and p: "p \<le> 9"
  shows "\<exists>s. sqrt_with_precision U d (of_nat p)
      = Some (if atoms d * 100 ^ p < 2 ^ 256 then Some s else None) \<and>
    (atoms d * 100 ^ p < 2 ^ 256 \<longrightarrow> atoms s ^ 2 \<le> atoms d * scale \<and>
      atoms d * scale < (atoms s + 10 ^ (9 - p)) ^ 2)"
proof -
  have up: "unat (of_nat p :: u32) = p" by (rule unat_of_nat_bounded) (use p in simp)
  have nine: "DECIMAL_PLACES div 2 = 9" by (simp add: DECIMAL_PLACES_def)
  then have le: "of_nat p \<le> DECIMAL_PLACES div 2" using p by (simp add: word_le_nat_alt up)
  have ex: "unat (9 - of_nat p :: u32) = 9 - p"
    using le nine by (simp add: unat_sub up)
  have "(100 :: nat) ^ p \<le> 100 ^ 9" by (rule power_increasing [OF p]) simp
  then obtain c where c: "fit (100 ^ p) = Some c" "unat c = 100 ^ p"
    using fit_small [of "100 ^ p"] by auto
  show ?thesis
  proof (cases "atoms d * 100 ^ p < 2 ^ 256")
    case False
    then have "fit (atoms d * 100 ^ p) = None" by (simp add: fit_None)
    with False c show ?thesis by (simp add: sqrt_with_precision_def uint_arithD [OF U] up)
  next
    case True
    then obtain inner where i: "fit (atoms d * 100 ^ p) = Some inner"
      "unat inner = atoms d * 100 ^ p" using fit_small by blast
    define r where "r = unat (u_isqrt U inner)"
    have r: "r ^ 2 \<le> atoms d * 100 ^ p" "atoms d * 100 ^ p < Suc r ^ 2"
      using uint_arithD(8,9) [OF U, of inner] i(2) by (simp_all add: r_def)
    have "(10 :: nat) ^ (9 - p) \<le> 10 ^ 9" by (rule power_increasing) simp_all
    moreover from this obtain m where m: "fit (10 ^ (9 - p)) = Some m" "unat m = 10 ^ (9 - p)"
      using fit_small [of "10 ^ (9 - p)"] by auto
    moreover have "r < 2 ^ 128"
    proof (rule ccontr)
      assume "\<not> r < 2 ^ 128"
      then have "(2 ^ 128) ^ 2 \<le> r ^ 2" by (intro power_mono) simp_all
      with r(1) True show False by simp
    qed
    ultimately have "r * 10 ^ (9 - p) < 2 ^ 128 * 2 ^ 128"
      by (intro mult_strict_mono) simp_all
    then obtain s where s: "fit (r * 10 ^ (9 - p)) = Some s" "unat s = r * 10 ^ (9 - p)"
      using fit_small [of "r * 10 ^ (9 - p)"] by auto
    have "100 ^ p * (10 ^ (9 - p)) ^ 2 = (scale :: nat)"
    proof -
      have "(100 :: nat) ^ p = 10 ^ (2 * p)" by (simp add: power_mult)
      moreover have "((10 :: nat) ^ (9 - p)) ^ 2 = 10 ^ (2 * (9 - p))"
        by (simp add: power_mult [symmetric] mult.commute)
      moreover have "2 * p + 2 * (9 - p) = 18" using p by simp
      ultimately show ?thesis by (metis power_add scale_def)
    qed
    then have scale: "atoms d * scale = atoms d * 100 ^ p * (10 ^ (9 - p)) ^ 2"
      by (metis mult.assoc)
    have "unat s ^ 2 \<le> atoms d * scale"
      unfolding scale s(2) power_mult_distrib using r(1) by (rule mult_le_mono1)
    moreover have "unat s + 10 ^ (9 - p) = Suc r * 10 ^ (9 - p)" unfolding s(2) by simp
    then have "atoms d * scale < (unat s + 10 ^ (9 - p)) ^ 2"
      unfolding scale using r(2) by (simp add: power_mult_distrib del: mult_Suc)
    moreover have "sqrt_with_precision U d (of_nat p) = Some (Some (Decimal256 s))"
      using True c i m s le nine ex
      by (simp add: sqrt_with_precision_def uint_arithD [OF U] up r_def)
    ultimately show ?thesis using True by (intro exI [of _ "Decimal256 s"]) simp
  qed
qed

lemma find_precision_largest:
  assumes U: "uint_lib_ok U" and q: "q \<le> 9"
  shows "\<exists>p s. p \<le> q \<and> find_precision U d (rev (map of_nat [0..<Suc q])) = Some (Some s) \<and>
    (p < q \<longrightarrow> 2 ^ 256 \<le> atoms d * 100 ^ Suc p) \<and>
    atoms s ^ 2 \<le> atoms d * scale \<and> atoms d * scale < (atoms s + 10 ^ (9 - p)) ^ 2"
  using q
proof (induction q)
  case 0
  from sqrt_with_precision_value [OF U, of 0 d] obtain s where
    "sqrt_with_precision U d 0 = Some (Some s)" "atoms s ^ 2 \<le> atoms d * scale"
    "atoms d * scale < (atoms s + 10 ^ 9) ^ 2" using unat_bound [of "atomics d"] by auto
  then show ?case by (intro exI [of _ 0] exI [of _ s]) simp
next
  case (Suc q)
  have list: "rev (map of_nat [0..<Suc (Suc q)]) = of_nat (Suc q) # rev (map of_nat [0..<Suc q])"
    by simp
  from sqrt_with_precision_value [OF U Suc.prems, of d] obtain s where
    s: "sqrt_with_precision U d (of_nat (Suc q))
      = Some (if atoms d * 100 ^ Suc q < 2 ^ 256 then Some s else None)"
    "atoms d * 100 ^ Suc q < 2 ^ 256 \<Longrightarrow> atoms s ^ 2 \<le> atoms d * scale \<and>
      atoms d * scale < (atoms s + 10 ^ (9 - Suc q)) ^ 2" by blast
  show ?case
  proof (cases "atoms d * 100 ^ Suc q < 2 ^ 256")
    case True
    then show ?thesis
      unfolding list using s by (intro exI [of _ "Suc q"] exI [of _ s]) (simp del: of_nat_Suc)
  next
    case False
    from Suc obtain p t where t: "p \<le> q"
      "find_precision U d (rev (map of_nat [0..<Suc q])) = Some (Some t)"
      "p < q \<longrightarrow> 2 ^ 256 \<le> atoms d * 100 ^ Suc p" "atoms t ^ 2 \<le> atoms d * scale"
      "atoms d * scale < (atoms t + 10 ^ (9 - p)) ^ 2" by auto
    with False s(1) have "find_precision U d (rev (map of_nat [0..<Suc (Suc q)])) = Some (Some t)"
      unfolding list by (simp del: of_nat_Suc upt_Suc)
    moreover from t(1,3) False have "p < Suc q \<longrightarrow> 2 ^ 256 \<le> atoms d * 100 ^ Suc p"
      by (metis le_neq_implies_less linorder_not_less)
    ultimately show ?thesis using t by (intro exI [of _ p] exI [of _ t]) simp
  qed
qed

section \<open>Powers\<close>

text \<open>\<open>is_whole x k\<close>: the decimal is the whole number \<open>k\<close>.\<close>

definition is_whole :: "decimal256 \<Rightarrow> nat \<Rightarrow> bool" where
  "is_whole d k \<longleftrightarrow> atoms d = k * scale"

definition whole_result :: "nat \<Rightarrow> (overflow_error + decimal256) option \<Rightarrow> bool" where
  "whole_result v r \<longleftrightarrow>
     (if v * scale < 2 ^ 256 then \<exists>d. r = Some (Inr d) \<and> is_whole d v
      else r = None \<or> (\<exists>e. r = Some (Inl e)))"

lemma checked_mul_whole:
  assumes "uint_lib_ok U" "is_whole a k" "is_whole b m"
  obtains d where "k * m * scale < 2 ^ 256" "decimal_checked_mul U a b = Some (Inr d)"
    "decimal_mul U a b = Some d" "is_whole d (k * m)"
  | e where "2 ^ 256 \<le> k * m * scale" "decimal_checked_mul U a b = Some (Inl e)"
    "decimal_mul U a b = None"
proof -
  have v: "atoms a * atoms b div scale = k * m * scale"
    using assms(2,3) by (simp add: is_whole_def)
  show thesis
  proof (cases "k * m * scale < 2 ^ 256")
    case True
    then obtain r where "fit (k * m * scale) = Some r" "unat r = k * m * scale"
      using fit_small by blast
    with True v show thesis
      by (intro that(1) [of "Decimal256 r"])
        (simp_all add: decimal_values [OF assms(1)] is_whole_def)
  next
    case False
    then have "fit (k * m * scale) = None" by (simp add: fit_None)
    moreover obtain e where "overflow_new U OverflowMul a b = (Some (Inl e) :: (overflow_error + decimal256) option)"
      using overflow_new_returns [OF assms(1)] by blast
    ultimately show thesis
      using False v by (intro that(2) [of e]) (simp_all add: decimal_values [OF assms(1)])
  qed
qed

lemma square_le_power:
  fixes k m n :: nat
  assumes "1 < n" "k = 0 \<or> 1 \<le> m"
  shows "k * k \<le> m * k ^ n"
proof (cases "k = 0")
  case False
  then have "k ^ 2 \<le> k ^ n" using assms(1) by (intro power_increasing) simp_all
  also have "\<dots> \<le> m * k ^ n" using assms(2) False by simp
  finally show ?thesis by (simp add: power2_eq_square)
qed simp

lemma pow_loop_whole:
  assumes "uint_lib_ok U" and "is_whole x k" "is_whole y m" "n \<noteq> 0" "k = 0 \<or> 1 \<le> m"
  shows "whole_result (m * k ^ unat n) (pow_loop U x y n)"
  using assms
proof (induction U x y n arbitrary: k m rule: pow_loop.induct)
  case (1 U x y n)
  note U = "1.prems"(1)
  have big: "whole_result v (Some (Inl e))" if "2 ^ 256 \<le> b * scale" "b \<le> v" for b v e
    using order_trans [OF that(1) mult_le_mono1 [OF that(2)]] by (simp add: whole_result_def)
  show ?case
  proof (cases "n > 1")
    case False
    with "1.prems"(4) have "unat n = 1" by (simp add: word_less_nat_alt unat_eq_0 [symmetric] del: unat_eq_0)
    then have n: "n = 1" by (metis unat_1 word_unat_eq_iff)
    show ?thesis
      by (rule checked_mul_whole [OF U "1.prems"(2,3)])
        (auto simp: n pow_loop.simps [of U x y 1] whole_result_def mult.commute)
  next
    case True
    note h = halves [OF True]
    show ?thesis
    proof (cases "even (unat n)")
      case even: True
      then have step: "pow_loop U x y n = try_bind (decimal_checked_mul U x x) (\<lambda>x. pow_loop U x y (n div 2))"
        using True h(3) by (simp add: pow_loop.simps [of U x y n])
      show ?thesis
      proof (rule checked_mul_whole [OF U "1.prems"(2,2)], goal_cases)
        case (1 d)
        have "whole_result (m * (k * k) ^ unat (n div 2)) (pow_loop U d y (n div 2))"
          using "1.IH"(1) [OF True _ U 1(4) "1.prems"(3)] even h "1.prems"(5)
          by (simp add: unat_eq_0 [symmetric] del: unat_eq_0)
        moreover have "(k * k) ^ (unat n div 2) = k ^ unat n"
          using even by (simp add: power2_eq_square [symmetric] power_mult [symmetric])
        ultimately show ?case by (simp add: step 1(2) h(1))
      next
        case (2 e)
        have "k * k \<le> m * k ^ unat n" by (rule square_le_power) (use h(4) "1.prems"(5) in simp_all)
        with big [OF 2(1)] show ?case by (simp add: step 2(2))
      qed
    next
      case odd: False
      have step: "pow_loop U x y n = try_bind (decimal_checked_mul U x y) (\<lambda>y.
          try_bind (decimal_checked_mul U x x) (\<lambda>x. pow_loop U x y ((n - 1) div 2)))"
        using True odd h(3) by (simp add: pow_loop.simps [of U x y n])
      obtain j where j: "unat n = Suc (2 * j)" "1 \<le> j" using odd h(4) by (auto elim!: oddE)
      show ?thesis
      proof (rule checked_mul_whole [OF U "1.prems"(2,3)], goal_cases)
        case y: (1 y')
        show ?case
        proof (rule checked_mul_whole [OF U "1.prems"(2,2)], goal_cases)
          case (1 d)
          have "whole_result (k * m * (k * k) ^ unat ((n - 1) div 2)) (pow_loop U d y' ((n - 1) div 2))"
            using "1.IH"(2) [OF True _ U 1(4) y(4)] odd h "1.prems"(5) j
            by (cases "k = 0") (simp_all add: unat_eq_0 [symmetric] del: unat_eq_0)
          moreover have "k * m * (k * k) ^ j = m * k ^ unat n"
            by (simp add: j(1) power2_eq_square [symmetric] power_mult [symmetric])
          ultimately show ?case using j(1) by (simp add: step y(2) 1(2) h(2))
        next
          case (2 e)
          have "k * k \<le> m * k ^ unat n" by (rule square_le_power) (use h(4) "1.prems"(5) in simp_all)
          with big [OF 2(1)] show ?case by (simp add: step y(2) 2(2))
        qed
      next
        case (2 e)
        have "k \<le> k ^ unat n" using h(4) by (cases "k = 0") (simp_all add: self_le_power)
        then have "k * m \<le> m * k ^ unat n" by (simp add: mult.commute mult_le_mono)
        with big [OF 2(1)] show ?case by (simp add: step 2(2))
      qed
    qed
  qed
qed

lemma checked_pow_whole:
  assumes U: "uint_lib_ok U" and d: "is_whole d k"
  shows "whole_result (k ^ unat n) (decimal_checked_pow U d n)"
proof (cases "n = 0")
  case True
  then show ?thesis
    by (simp add: decimal_checked_pow_def pow_inner_def whole_result_def is_whole_def
        decimal_one_def) (simp add: scale_def)
next
  case False
  have "whole_result (1 * k ^ unat n) (pow_loop U d decimal_one n)"
    by (rule pow_loop_whole [OF U d]) (use False in \<open>simp_all add: is_whole_def decimal_one_def\<close>)
  with False show ?thesis
    by (auto simp: decimal_checked_pow_def pow_inner_def whole_result_def to_string_value [OF U]
        split: if_splits)
qed

text \<open>The last multiplication of the loop is the operator, which panics.\<close>

lemma pow_three:
  assumes U: "uint_lib_ok U" and "atoms d * atoms d div scale < 2 ^ 256"
    and "2 ^ 256 \<le> (atoms d * atoms d div scale) * atoms d div scale"
  shows "decimal_checked_pow U d 3 = None"
proof -
  obtain q where q: "fit (atoms d * atoms d div scale) = Some q"
    "unat q = atoms d * atoms d div scale" using fit_small [OF assms(2)] by blast
  have y: "decimal_checked_mul U d decimal_one = Some (Inr d)"
    by (simp add: decimal_values [OF U] decimal_one_def)
  have x: "decimal_checked_mul U d d = Some (Inr (Decimal256 q))"
    by (simp add: decimal_values [OF U] q)
  have "decimal_mul U (Decimal256 q) d = None"
    using assms(3) by (simp add: decimal_values [OF U] q(2) fit_None)
  then show ?thesis
    by (simp add: decimal_checked_pow_def pow_inner_def pow_loop.simps [of U d decimal_one 3] x y
        pow_loop.simps [of U "Decimal256 q" d 1])
qed

section \<open>Properties\<close>

text \<open>
  (C28) The text of a decimal is parsed back as that decimal: printing and \<open>from_str\<close> lose
  nothing, for every value and with neither a panic nor an error; the \<open>serde\<close> implementations write
  this text and read it back.
\<close>

theorem decimal_text_round_trip:
  assumes "uint_lib_ok U"
  shows "\<exists>s. decimal_to_string U d = Some s \<and> decimal_from_str U s = Some (Inr d) \<and>
     decimal_serialize U serialize_str d = Some (serialize_str s) \<and>
     decimal_deserialize U error_text custom (\<lambda>visit_str. visit_str) s = Some (Inr d)"
  by (rule text_round_trip [OF assms, of d])
    (simp add: decimal_serialize_def decimal_deserialize_def visit_str_def)

theorem decimal_text_round_trip_witness:
  "\<exists>s. decimal_to_string demo_uint (Decimal256 1234000000000000000) = Some s \<and>
     decimal_from_str demo_uint s = Some (Inr (Decimal256 1234000000000000000))"
  using decimal_text_round_trip [OF demo_uint_ok] by blast

text \<open>
  (C29) Parsing never panics on inputs below 4 GB and never rounds: digits without a dot denote the
  whole number, digits around a dot the sum of the whole and of the fraction, and what has more
  than 18 fractional digits or does not fit is an error.
\<close>

theorem decimal_parse_exact:
  assumes "uint_lib_ok U" "length input < 2 ^ 32"
  shows "\<exists>r. decimal_from_str U input = Some r \<and>
    (\<forall>v. input \<noteq> [] \<and> read_digits 0 input = Some v \<longrightarrow>
       (case fit (v * scale) of Some a \<Rightarrow> r = Inr (Decimal256 a) | None \<Rightarrow> \<exists>e. r = Inl e)) \<and>
    (\<forall>w s v u. input = w @ 46 # s \<and> w \<noteq> [] \<and> s \<noteq> [] \<and>
       read_digits 0 w = Some v \<and> read_digits 0 s = Some u \<longrightarrow>
       (if 18 < length s then \<exists>e. r = Inl e
        else case fit (v * scale + u * 10 ^ (18 - length s)) of
          Some a \<Rightarrow> r = Inr (Decimal256 a) | None \<Rightarrow> \<exists>e. r = Inl e))"
proof -
  obtain r where r: "decimal_from_str U input = Some r" using from_str_returns [OF assms] by blast
  have "case fit (v * scale) of Some a \<Rightarrow> r = Inr (Decimal256 a) | None \<Rightarrow> \<exists>e. r = Inl e"
    if "input \<noteq> []" "read_digits 0 input = Some v" for v
    using parse_exact_whole [OF assms(1) that] r by simp
  moreover have "if 18 < length s then \<exists>e. r = Inl e
      else case fit (v * scale + u * 10 ^ (18 - length s)) of
        Some a \<Rightarrow> r = Inr (Decimal256 a) | None \<Rightarrow> \<exists>e. r = Inl e"
    if "input = w @ 46 # s" "w \<noteq> []" "s \<noteq> []" "read_digits 0 w = Some v" "read_digits 0 s = Some u"
    for w s v u
    using parse_exact_fraction [OF assms(1) that(2,4,3,5)] r assms(2) that(1) by simp
  ultimately show ?thesis using r by blast
qed

theorem decimal_parse_exact_witness:
  "decimal_from_str demo_uint (lit ''1.25'') = Some (Inr (Decimal256 1250000000000000000))"
proof -
  have "lit ''1.25'' = [49] @ 46 # [50, 53]" "read_digits 0 [49] = Some 1" "read_digits 0 [50, 53] = Some 25"
    by (simp_all add: digit_def)
  with decimal_parse_exact [OF demo_uint_ok, of "lit ''1.25''"] show ?thesis
    by (fastforce simp: fit_def scale_def)
qed

text \<open>
  (C30) The square root never panics, as its comment says, and is exact up to the precision the
  value leaves: it is computed with the largest number \<open>p\<close> of extra digits, at most nine, for
  which the radicand fits, and is below the true root by less than 10 to the \<open>9 - p\<close> atoms.
\<close>

theorem decimal_sqrt_bounds:
  assumes "uint_lib_ok U"
  shows "\<exists>s p. decimal_sqrt U d = Some s \<and> p \<le> 9 \<and>
    (p < 9 \<longrightarrow> 2 ^ 256 \<le> atoms d * 100 ^ Suc p) \<and>
    atoms s ^ 2 \<le> atoms d * scale \<and> atoms d * scale < (atoms s + 10 ^ (9 - p)) ^ 2"
proof -
  have "unat (DECIMAL_PLACES div 2) = 9" by (simp add: DECIMAL_PLACES_def)
  then show ?thesis
    using find_precision_largest [OF assms order_refl, of d]
    by (auto simp: decimal_sqrt_def simp del: upt_Suc)
qed

theorem decimal_sqrt_bounds_witness:
  "\<exists>s. decimal_sqrt demo_uint (Decimal256 2000000000000000000) = Some s \<and>
     atoms s = 1414213562373095048"
proof -
  from decimal_sqrt_bounds [OF demo_uint_ok, of "Decimal256 2000000000000000000"]
  obtain s p where s: "decimal_sqrt demo_uint (Decimal256 2000000000000000000) = Some s" "p \<le> 9"
    "p < 9 \<longrightarrow> 2 ^ 256 \<le> 2000000000000000000 * (100 :: nat) ^ Suc p"
    "atoms s ^ 2 \<le> 2000000000000000000 * scale"
    "2000000000000000000 * scale < (atoms s + 10 ^ (9 - p)) ^ 2" by auto
  have "(100 :: nat) ^ Suc p \<le> 100 ^ 9" if "p < 9" by (rule power_increasing) (use that in simp_all)
  with s(3) have "p = 9" using s(2) by (cases "p < 9") auto
  with s(5) have "1414213562373095048 ^ 2 < (atoms s + 1) ^ 2" by (simp add: scale_def)
  then have "1414213562373095048 < atoms s + 1" by (rule power_less_imp_less_base) simp
  moreover have "atoms s ^ 2 < 1414213562373095049 ^ 2"
    using s(4) by (simp add: scale_def)
  then have "atoms s < 1414213562373095049" by (rule power_less_imp_less_base) simp
  ultimately show ?thesis using s(1) by auto
qed

text \<open>
  Powers of whole numbers are exact: \<open>checked_pow\<close> by repeated squaring gives the power
  whenever it fits, and never a value when it does not.
\<close>

theorem decimal_pow_exact:
  assumes "uint_lib_ok U" "atoms d = k * scale"
  shows "if k ^ unat n * scale < 2 ^ 256
    then \<exists>r. decimal_checked_pow U d n = Some (Inr r) \<and> atoms r = k ^ unat n * scale
    else decimal_checked_pow U d n = None \<or> (\<exists>e. decimal_checked_pow U d n = Some (Inl e))"
  using checked_pow_whole [of U d k n] assms
  by (auto simp: is_whole_def whole_result_def split: if_splits)

theorem decimal_pow_exact_witness:
  "\<exists>r. decimal_checked_pow demo_uint (Decimal256 3000000000000000000) 5 = Some (Inr r) \<and>
     atoms r = 243 * scale"
  using decimal_pow_exact [OF demo_uint_ok, of "Decimal256 3000000000000000000" 3 5]
  by (simp add: scale_def)

text \<open>
  \<open>checked_pow\<close> does not always return the \<open>OverflowError\<close> its comment promises: when the
  square of a decimal fits and its cube does not, the exponent 3 panics.
\<close>

theorem decimal_checked_pow_panics:
  assumes "uint_lib_ok U" "atoms d * atoms d div scale < 2 ^ 256"
    and "2 ^ 256 \<le> (atoms d * atoms d div scale) * atoms d div scale"
  shows "decimal_checked_pow U d 3 = None"
  using assms by (rule pow_three)

theorem decimal_checked_pow_panics_witness:
  "decimal_checked_pow demo_uint (Decimal256 (10 ^ 38)) 3 = None"
  by (rule decimal_checked_pow_panics [OF demo_uint_ok]) (simp_all add: scale_def)

end
