(* ===== verification/Spec2Isabelle.thy ===== *)
theory Spec2Isabelle
  imports Iavl_Range Rest_Routes Command_Line Sync_Commit Decimal_Laws
begin

text \<open>
  \<^bold>\<open>Doge-SDK: a verification development.\<close>

  Doge-SDK is a Rust framework in the manner of the Cosmos SDK with one application, gaia-rs. A node
  is driven by Tendermint over ABCI: it starts from a database, initializes the chain from a genesis
  file, takes blocks of transactions and commits after each block. The state is a Merkleized
  key-value store; a peer-to-peer reactor lets nodes that fell behind copy the state of others; a
  command line and a REST interface talk to a node. The theories model these layers bottom up, with
  the names of the source.

  \<^bold>\<open>Conventions.\<close> A panic is \<open>None\<close> (arithmetic is that of a debug build, where overflow panics); a
  \<open>Result\<close> is a sum with the error on the left; a fallible function that can also panic returns
  \<open>('e + 'a) option\<close>. State is passed and returned, and an operation that can fail half-way returns
  the state it leaves together with the error. Integers have their width. Third-party crates are
  records of functions (\<open>crates\<close>, \<open>libs\<close>, \<open>host\<close>, \<open>uint_lib\<close>, \<open>rocks_lib\<close>, \<open>p2p_lib\<close>, \<open>os\<close>, \<open>http\<close>)
  that the definitions take as arguments; what is relied on is a named hypothesis (\<open>varint_ok\<close>,
  \<open>sha256_ok\<close>, \<open>libs_ok\<close>, \<open>uint_lib_ok\<close>, \<open>rocks_ok\<close>, \<open>p2p_ok\<close>, ...), and every such hypothesis is met
  by a concrete instance in a witness. SHA-256 is never assumed to be injective: where it matters,
  the statement says that the strings hashed for the states in question do not collide, or that
  either the states agree or two of these strings collide.

  \<^bold>\<open>Theories and sources.\<close>

  \<^item> \<open>Prelude\<close>, \<open>Rust_Std\<close>: bytes, checked arithmetic, \<open>Result\<close>s, \<open>BTreeMap\<close>, strings and numbers of
    the standard library. \<open>Crates\<close>, \<open>Wire\<close>, \<open>Uint_Lib\<close>: the third-party crates.
  \<^item> \<open>Databases\<close>, \<open>Rocks_DB\<close> (\<open>src/database\<close>): the trait, MemDB, PrefixDB, RocksDB. The locales
    \<open>database\<close>, \<open>full_key_scan\<close>, \<open>prefix_stripping\<close> and \<open>prefixed_database\<close> are the contracts of the
    trait; they are interpreted on MemDB, on PrefixDB over any database with whole keys, and on
    RocksDB. RocksDB answers like MemDB (\<open>rocks_as_memdb\<close>).
  \<^item> \<open>Merkle\<close> (\<open>src/trees/src/merkle.rs\<close>), \<open>Iavl_Node\<close>, \<open>Node_DB\<close>, \<open>Iavl_Tree\<close> (\<open>src/trees/src/iavl\<close>):
    hashes, the node format, the node database, and the tree with insertion, rotation, versions and
    range iteration as written. Recursion through the database may not end, so those functions are
    \<open>partial_function (option)\<close>, and that they return is proved. \<open>Iavl_Model\<close> relates the concrete tree
    to the abstract \<open>atree\<close>; \<open>Iavl_Balance\<close>, \<open>Iavl_Range\<close> and \<open>Iavl_Version\<close> hold the content, the
    shape, iteration and the round trip through the database.
  \<^item> \<open>KV_Store\<close>, \<open>Store_Hash\<close>, \<open>Multi_Store\<close> (\<open>src/store\<close>): a module's store with its two caches, the
    application hash, all stores of the application. \<open>State_Sync\<close>: export and import of a tree's
    nodes.
  \<^item> \<open>Proto_Types\<close>, \<open>Accounts\<close>, \<open>Bank_Messages\<close>, \<open>Tx\<close> (\<open>src/proto-types\<close>, \<open>src/proto-messages\<close>): the
    value types, their text and protobuf forms. \<open>Decimal\<close>, \<open>Decimal_Laws\<close>: the 256 bit decimals.
  \<^item> \<open>Contexts\<close>, \<open>Params\<close>, \<open>Auth_Keeper\<close>, \<open>Bank_Keeper\<close>, \<open>Ante\<close>, \<open>Base_App\<close> (\<open>src/gears\<close>, \<open>src/x\<close>): the
    contexts of handlers, parameters, the two modules, the checks before a transaction and the
    ABCI calls. \<open>Bank_Ledger\<close> is the abstract ledger the bank refines. Locales: \<open>kv_interface\<close> (reads
    and writes of a store, interpreted on the caches and on contexts), \<open>message_interface\<close>,
    \<open>ante_keepers\<close> and \<open>base_app\<close> (what the generic application asks of its messages, keepers and
    handler), interpreted on the application in \<open>Gaia\<close> (\<open>src/gaia-rs\<close>).
  \<^item> \<open>Chain\<close>: transactions from bytes to stores. \<open>Genesis\<close>: the first state. \<open>Store_Commit\<close>,
    \<open>Host_State\<close>, \<open>Commit_Cases\<close>: a commit of all stores. \<open>Blockchain\<close>: the life of a node as a step
    relation of blocks, commits and restarts, with the invariant \<open>node_inv\<close> that ties the database,
    the trees, the caches, the ledger and the accounts together.
  \<^item> \<open>Node_Sync\<close>, \<open>Sync_Commit\<close>, \<open>Network\<close> (\<open>src/network\<close>, the reactor of \<open>baseapp.rs\<close>): two nodes that
    synchronize, the next commit of a node that did, and runs of any number of nodes over unreliable
    gossip as a step relation.
  \<^item> \<open>Queries\<close>, \<open>Paths\<close>, \<open>Client\<close>, \<open>Rest_Routes\<close>, \<open>Node_Init\<close>, \<open>Command_Line\<close>: what a node answers, paths
    and files, the commands of a client with its key store, REST, \<open>init\<close> with the files of
    \<open>src/tendermint\<close>, the command line as declared to clap and the start of a node. \<open>Demo_Host\<close> is the concrete node of the witnesses.

  \<^bold>\<open>What is shown.\<close> The properties carry an id (C1, C2, ...); the first ones span components.

  \<^item> The chain: from an empty database over genesis, blocks, commits and restarts, the ledger's totals
    stay the recorded supply (\<open>genesis_then_chain\<close>, \<open>block_keeps_supply\<close>), no transaction executes
    twice (\<open>delivered_once\<close>), a command line payment moves exactly its amount
    (\<open>cli_payment_executes\<close>), a failed transaction leaves no effect of its messages, and queries
    answer with the ledger (\<open>rest_balance_exact\<close>).
  \<^item> Storage: a commit keeps what was written and a restart gives it back (\<open>commit_keeps_ledger\<close>,
    \<open>restart_after_commit\<close>, \<open>run_restores_node\<close>), insertion, lookup and ranges have the content of a
    sorted map, and the hashes bind it.
  \<^item> Synchronization: \<open>nodes_converge\<close> for two nodes, \<open>network_copies\<close> for every run of a network,
    \<open>synced_node_recovers\<close> for the blocks, the commit and the restart that follow.
  \<^item> Formats: round trips of transactions, nodes, texts and keys; the command line handlers agree
    with the declared commands (\<open>command_line_exact\<close>).
  \<^item> Where the code fails: \<open>left_right_case_keeps_imbalance\<close> and \<open>insert_after_commit_panics\<close> (an IAVL
    rotation that is not done, or that looks for a child that is only in the database),
    \<open>synced_node_panics\<close>, \<open>commit_race_panics\<close> (the two locks of a commit),
    \<open>timeout_one_block_late\<close>.

  \<^bold>\<open>Bounds.\<close> Because of \<open>insert_after_commit_panics\<close> not every commit returns. The theorems about
  commits assume \<open>clean_stores\<close> (the pending writes go in without a rotation around an unloaded
  subtree), which is shown for the first commit after the genesis, for any writes, and for later
  commits that overwrite existing keys. Heights stay below \<open>2 ^ 63\<close>, as the response of a commit
  needs. No fuel is used: a loop is a total function with its measure, or a \<open>partial_function (option)\<close>
  that is shown to return where a property speaks of its result.

  \<^bold>\<open>Not modelled.\<close> The locks and the interleaving of ABCI calls with the reactor and the REST server
  (each call is one step, but for the point between the two locks of \<open>commit\<close>, see
  \<open>commit_race_panics\<close>); the construction of the libp2p transport and swarm; logging; the ABCI
  calls that only return a default; the text of the template of Tendermint's configuration, which
  is an argument of the template engine; the declarations of clap are modelled, its parser is not;
  the HTTP server of axum. Not compiled and therefore left out:
  \<open>src/gears/src/store/store.rs\<close>, \<open>src/gears/src/types/tx.rs\<close> and what is commented out in
  \<open>src/gears/src/x/auth/auth.rs\<close> and \<open>src/gears/src/crypto.rs\<close>.
\<close>

end
